(* ===== verification/Prelude.thy ===== *)
theory Prelude
  imports Main "HOL-Library.List_Lexorder" "HOL-Library.Multiset"
begin

text \<open>
  Shared vocabulary of the development.

  A JavaScript string is a sequence of UTF-16 code units; \<open>jstring\<close> is the list of these units as
  natural numbers, so that \<open>s.length\<close> is \<open>length\<close>, \<open>s.charCodeAt(i)\<close> is \<open>s ! i\<close> (in range) and the
  operator \<open><\<close> on strings is the lexicographic order of the unit lists (\<open>HOL-Library.List_Lexorder\<close>).
  \<open>js\<close> turns an ASCII literal into such a string. Thrown errors are values: an operation that can
  throw returns \<open>'e + 'a\<close>, with \<open>Inl\<close> for the error, and \<open>bindR\<close> sequences two such operations.
\<close>

type_synonym jstring = "nat list"

definition js :: "string \<Rightarrow> jstring" where
  "js s = map of_char s"

abbreviation SLASH :: nat where "SLASH \<equiv> 47"

abbreviation BACKSLASH :: nat where "BACKSLASH \<equiv> 92"

abbreviation DOT :: nat where "DOT \<equiv> 46"

abbreviation STAR :: nat where "STAR \<equiv> 42"

abbreviation QUESTION :: nat where "QUESTION \<equiv> 63"

abbreviation COLON :: nat where "COLON \<equiv> 58"

named_theorems unit_class \<open>definitions of the code-unit classes\<close>

named_theorems result_simps \<open>rules that push results through \<open>bindR\<close>\<close>

subsection \<open>Results\<close>

fun bindR :: "'e + 'a \<Rightarrow> ('a \<Rightarrow> 'e + 'b) \<Rightarrow> 'e + 'b" where
  "bindR (Inl e) f = Inl e"
| "bindR (Inr x) f = f x"

text \<open>\<open>checkR ok e k\<close>: the guard \<open>if (!ok) fail(e)\<close> in front of the rest \<open>k\<close> of a function.\<close>

definition checkR :: "bool \<Rightarrow> 'e \<Rightarrow> 'e + 'a \<Rightarrow> 'e + 'a" where
  "checkR ok e k = (if ok then k else Inl e)"

subsection \<open>UTF-16 and UTF-8\<close>

definition is_high :: "nat \<Rightarrow> bool" where
  "is_high u \<longleftrightarrow> 0xD800 \<le> u \<and> u \<le> 0xDBFF"

definition is_low :: "nat \<Rightarrow> bool" where
  "is_low u \<longleftrightarrow> 0xDC00 \<le> u \<and> u \<le> 0xDFFF"

definition is_ascii_letter :: "nat \<Rightarrow> bool" where
  "is_ascii_letter u \<longleftrightarrow> (0x41 \<le> u \<and> u \<le> 0x5A) \<or> (0x61 \<le> u \<and> u \<le> 0x7A)"

definition is_ascii_digit :: "nat \<Rightarrow> bool" where
  "is_ascii_digit u \<longleftrightarrow> 0x30 \<le> u \<and> u \<le> 0x39"

definition pair_code_point :: "nat \<Rightarrow> nat \<Rightarrow> nat" where
  "pair_code_point h l = 0x10000 + (h - 0xD800) * 1024 + (l - 0xDC00)"

text \<open>\<open>Array.from(s)\<close>, the string iterator: surrogate pairs are joined, lone surrogates stay alone.\<close>

fun scalars :: "jstring \<Rightarrow> nat list" where
  "scalars [] = []"
| "scalars [u] = [u]"
| "scalars (u # v # us) =
     (if is_high u \<and> is_low v then pair_code_point u v # scalars us else u # scalars (v # us))"

text \<open>The lists that are JavaScript strings: every unit has sixteen bits.\<close>

definition is_jstring :: "jstring \<Rightarrow> bool" where
  "is_jstring s \<longleftrightarrow> list_all (\<lambda>u. u < 0x10000) s"

text \<open>A Unicode scalar value.\<close>

definition is_scalar_value :: "nat \<Rightarrow> bool" where
  "is_scalar_value c \<longleftrightarrow> c \<le> 0x10FFFF \<and> \<not> is_high c \<and> \<not> is_low c"

text \<open>The loop of every \<open>hasWellFormedUnicode\<close> of the code base.\<close>

fun hasWellFormedUnicode :: "jstring \<Rightarrow> bool" where
  "hasWellFormedUnicode [] = True"
| "hasWellFormedUnicode (u # us) =
     (if is_high u then
        (case us of [] \<Rightarrow> False | v # vs \<Rightarrow> is_low v \<and> hasWellFormedUnicode vs)
      else \<not> is_low u \<and> hasWellFormedUnicode us)"

text \<open>UTF-8 of one code point; a lone surrogate is written as U+FFFD, as \<open>Buffer\<close> does.\<close>

definition utf8_scalar :: "nat \<Rightarrow> nat list" where
  "utf8_scalar c =
     (if c \<le> 0x7F then [c]
      else if c \<le> 0x7FF then [0xC0 + c div 64, 0x80 + c mod 64]
      else if is_high c \<or> is_low c then [0xEF, 0xBF, 0xBD]
      else if c \<le> 0xFFFF then [0xE0 + c div 4096, 0x80 + c div 64 mod 64, 0x80 + c mod 64]
      else [0xF0 + c div 262144, 0x80 + c div 4096 mod 64, 0x80 + c div 64 mod 64, 0x80 + c mod 64])"

definition utf8 :: "jstring \<Rightarrow> nat list" where
  "utf8 s = concat (map utf8_scalar (scalars s))"

text \<open>\<open>Buffer.byteLength(value, "utf8")\<close>.\<close>

definition textBytes :: "jstring \<Rightarrow> nat" where
  "textBytes s = length (utf8 s)"

subsection \<open>Splitting and joining\<close>

text \<open>\<open>s.split(c)\<close> for a one-unit separator and \<open>parts.join(c)\<close>.\<close>

fun split_on :: "nat \<Rightarrow> jstring \<Rightarrow> jstring list" where
  "split_on c [] = [[]]"
| "split_on c (u # us) =
     (if u = c then [] # split_on c us
      else (case split_on c us of [] \<Rightarrow> [[u]] | p # ps \<Rightarrow> (u # p) # ps))"

fun join_with :: "nat \<Rightarrow> jstring list \<Rightarrow> jstring" where
  "join_with c [] = []"
| "join_with c [p] = p"
| "join_with c (p # q # ps) = p @ c # join_with c (q # ps)"

text \<open>\<open>s.split(/[...]+/)\<close>: the separators are the maximal runs of units satisfying \<open>P\<close>.\<close>

function split_runs :: "(nat \<Rightarrow> bool) \<Rightarrow> jstring \<Rightarrow> jstring list" where
  "split_runs P [] = [[]]"
| "split_runs P (u # us) =
     (if P u then [] # split_runs P (dropWhile P us)
      else (case split_runs P us of [] \<Rightarrow> [[u]] | p # ps \<Rightarrow> (u # p) # ps))"
  by pat_completeness auto
termination
  by (relation "measure (\<lambda>(P, s). length s)") (auto simp: le_imp_less_Suc length_dropWhile_le)

text \<open>\<open>s.charCodeAt(index)\<close>, \<open>None\<close> for the \<open>NaN\<close> out of range, and \<open>s.slice(start, end)\<close>.\<close>

definition charAt :: "jstring \<Rightarrow> nat \<Rightarrow> nat option" where
  "charAt s index = (if index < length s then Some (s ! index) else None)"

definition slice :: "jstring \<Rightarrow> nat \<Rightarrow> nat \<Rightarrow> jstring" where
  "slice s start end = take (end - start) (drop start s)"

text \<open>\<open>s.startsWith(p)\<close>, \<open>s.endsWith(p)\<close>, \<open>s.includes(p)\<close>.\<close>

definition startsWith :: "jstring \<Rightarrow> jstring \<Rightarrow> bool" where
  "startsWith s p \<longleftrightarrow> take (length p) s = p"

definition endsWith :: "jstring \<Rightarrow> jstring \<Rightarrow> bool" where
  "endsWith s p \<longleftrightarrow> length p \<le> length s \<and> drop (length s - length p) s = p"

fun includesStr :: "jstring \<Rightarrow> jstring \<Rightarrow> bool" where
  "includesStr [] p = (p = [])"
| "includesStr (u # us) p = (startsWith (u # us) p \<or> includesStr us p)"

text \<open>\<open>s.indexOf(c)\<close> and \<open>s.indexOf(c, start)\<close>; \<open>None\<close> is the result -1.\<close>

fun indexOf :: "nat \<Rightarrow> jstring \<Rightarrow> nat option" where
  "indexOf c [] = None"
| "indexOf c (u # us) = (if u = c then Some 0 else map_option Suc (indexOf c us))"

definition indexOfFrom :: "nat \<Rightarrow> jstring \<Rightarrow> nat \<Rightarrow> nat option" where
  "indexOfFrom c s start = map_option (\<lambda>i. start + i) (indexOf c (drop start s))"

text \<open>\<open>String(n)\<close> of a natural number.\<close>

fun decimal :: "nat \<Rightarrow> jstring" where
  "decimal n = (if n < 10 then [48 + n] else decimal (n div 10) @ [48 + n mod 10])"

declare decimal.simps [simp del]

text \<open>Sorting with \<open>left < right ? -1 : ...\<close> over distinct keys, and insertion-ordered maps.\<close>

definition sortOn :: "('a \<Rightarrow> 'k::linorder) \<Rightarrow> 'a list \<Rightarrow> 'a list" where
  "sortOn f xs = sort_key f xs"

declare is_high_def [unit_class] is_low_def [unit_class] is_ascii_letter_def [unit_class]
  is_ascii_digit_def [unit_class]

subsection \<open>Lemmas on results\<close>

lemma bindR_Inr_iff [result_simps]: "bindR r f = Inr y \<longleftrightarrow> (\<exists>x. r = Inr x \<and> f x = Inr y)"
  by (cases r) auto

lemma bindR_Inl_iff [result_simps]:
  "bindR r f = Inl e \<longleftrightarrow> r = Inl e \<or> (\<exists>x. r = Inr x \<and> f x = Inl e)"
  by (cases r) auto

lemma checkR_Inr_iff [result_simps]: "checkR ok e k = Inr y \<longleftrightarrow> ok \<and> k = Inr y"
  by (simp add: checkR_def)

lemma checkR_Inl_iff [result_simps]:
  "checkR ok e k = Inl d \<longleftrightarrow> (\<not> ok \<and> e = d) \<or> (ok \<and> k = Inl d)"
  by (auto simp: checkR_def)

lemma checkR_simps [simp]: "checkR True e k = k" "checkR False e k = Inl e"
  by (simp_all add: checkR_def)

subsection \<open>Lemmas on splitting and joining\<close>

lemma split_on_not_Nil [simp]: "split_on c s \<noteq> []"
  by (induction c s rule: split_on.induct) (auto split: list.splits)

lemma split_on_no_sep [simp]: "c \<notin> set s \<Longrightarrow> split_on c s = [s]"
  by (induction s) auto

lemma split_on_append_sep: "c \<notin> set p \<Longrightarrow> split_on c (p @ c # s) = p # split_on c s"
  by (induction p) auto

lemma split_on_append: "split_on c (a @ c # b) = split_on c a @ split_on c b"
  by (induction a) (auto split: list.splits)

lemma join_split_on [simp]: "join_with c (split_on c s) = s"
proof (induction c s rule: split_on.induct)
  case (2 c u us)
  then show ?case by (cases "split_on c us"; cases "tl (split_on c us)") auto
qed simp

lemma split_join_with:
  "ps \<noteq> [] \<Longrightarrow> \<forall>p\<in>set ps. c \<notin> set p \<Longrightarrow> split_on c (join_with c ps) = ps"
  by (induction c ps rule: join_with.induct) (auto simp: split_on_append_sep)

lemma split_on_parts: "p \<in> set (split_on c s) \<Longrightarrow> c \<notin> set p"
  by (induction c s arbitrary: p rule: split_on.induct) (auto split: list.splits if_splits)

lemma split_on_units: "\<Union> (set ` set (split_on c s)) = set s - {c}"
proof (induction c s rule: split_on.induct)
  case (2 c u us)
  obtain p ps where ps: "split_on c us = p # ps"
    by (cases "split_on c us") auto
  show ?case
  proof (cases "u = c")
    case False
    with 2 ps have "set p \<union> \<Union> (set ` set ps) = set us - {c}" by simp
    with False ps show ?thesis by (simp add: Un_assoc insert_Diff_if)
  qed (use 2 in simp)
qed simp

lemma join_with_units: "set (join_with c ps) \<subseteq> insert c (\<Union> (set ` set ps))"
  by (induction c ps rule: join_with.induct) auto

lemma length_join_with_Cons:
  "ps \<noteq> [] \<Longrightarrow> join_with c (p # ps) = p @ c # join_with c ps"
  by (cases ps) auto

subsection \<open>Lemmas on prefixes\<close>

lemma indexOf_None [simp]: "indexOf c s = None \<longleftrightarrow> c \<notin> set s"
  by (induction s) auto

lemma indexOf_Some: "indexOf c s = Some i \<longleftrightarrow> i < length s \<and> s ! i = c \<and> c \<notin> set (take i s)"
proof (induction s arbitrary: i)
  case (Cons u s)
  then show ?case by (cases i) auto
qed simp

lemma indexOf_append: "c \<notin> set p \<Longrightarrow> indexOf c (p @ c # s) = Some (length p)"
  by (induction p) auto

lemma indexOf_split:
  assumes "indexOf c s = Some i"
  shows "s = take i s @ c # drop (Suc i) s" "c \<notin> set (take i s)" "i < length s"
  using assms by (auto simp: indexOf_Some id_take_nth_drop [symmetric])

lemma startsWith_append [simp]: "startsWith (p @ s) p"
  by (simp add: startsWith_def)

lemma startsWith_iff: "startsWith s p \<longleftrightarrow> (\<exists>r. s = p @ r)"
  unfolding startsWith_def by (metis append_take_drop_id append_eq_conv_conj)

lemma startsWith_Nil [simp]: "startsWith s []"
  by (simp add: startsWith_def)

lemma startsWith_Cons [simp]:
  "startsWith [] (c # p) = False" "startsWith (u # s) (c # p) = (u = c \<and> startsWith s p)"
  by (auto simp: startsWith_def)

lemma includes_single [simp]: "includesStr s [c] \<longleftrightarrow> c \<in> set s"
  by (induction s) auto

subsection \<open>Lemmas on splitting at runs\<close>

lemma split_runs_no_sep: "\<forall>u\<in>set s. \<not> P u \<Longrightarrow> split_runs P s = [s]"
  by (induction s) auto

lemma split_runs_append_sep:
  "\<forall>u\<in>set p. \<not> P u \<Longrightarrow> P c \<Longrightarrow> split_runs P (p @ c # r) = p # split_runs P (dropWhile P r)"
  by (induction p) auto

lemma split_at_first:
  obtains "\<forall>u\<in>set s. \<not> P u" | p c r where "s = p @ c # r" "\<forall>u\<in>set p. \<not> P u" "P c"
  by (metis split_list_first_prop)

lemma run_induct [case_names no_sep sep]:
  assumes no_sep: "\<And>s. \<forall>u\<in>set s. \<not> P u \<Longrightarrow> Q s"
    and sep: "\<And>p c r. \<forall>u\<in>set p. \<not> P u \<Longrightarrow> P c \<Longrightarrow> Q r \<Longrightarrow> Q (dropWhile P r) \<Longrightarrow> Q (p @ c # r)"
  shows "Q s"
proof (induction s rule: length_induct)
  case (1 s)
  show ?case
  proof (cases rule: split_at_first [of s P])
    case 1
    then show ?thesis by (rule no_sep)
  next
    case (2 p c r)
    then have "length r < length s" "length (dropWhile P r) < length s"
      using length_dropWhile_le [of P r] by auto
    with 1 have "Q r" "Q (dropWhile P r)" by blast+
    with 2 show ?thesis using sep by blast
  qed
qed

lemma split_runs_parts:
  "p \<in> set (split_runs P s) \<Longrightarrow> u \<in> set p \<Longrightarrow> \<not> P u \<and> u \<in> set s"
  by (induction s rule: run_induct [where P = P])
    (auto simp: split_runs_no_sep split_runs_append_sep dest: set_dropWhileD)

lemma filter_split_on_dropWhile:
  "filter (\<lambda>p. p \<noteq> []) (split_on c (dropWhile (\<lambda>u. u = c) r)) = filter (\<lambda>p. p \<noteq> []) (split_on c r)"
  by (induction r) auto

lemma filter_split_runs:
  "filter (\<lambda>p. p \<noteq> []) (split_runs (\<lambda>u. u = c) s) = filter (\<lambda>p. p \<noteq> []) (split_on c s)"
proof (induction s rule: run_induct [where P = "\<lambda>u. u = c"])
  case (no_sep s)
  then have "c \<notin> set s" by blast
  with no_sep show ?case by (simp add: split_runs_no_sep)
next
  case (sep p d r)
  then have "c \<notin> set p" by blast
  with sep show ?case
    by (simp add: split_runs_append_sep split_on_append_sep filter_split_on_dropWhile)
qed

subsection \<open>Lemmas on well-formed text\<close>

lemma hasWellFormedUnicode_sep:
  "\<not> is_high c \<Longrightarrow> \<not> is_low c \<Longrightarrow>
   hasWellFormedUnicode (p @ c # r) \<longleftrightarrow> hasWellFormedUnicode p \<and> hasWellFormedUnicode r"
  by (induction p rule: hasWellFormedUnicode.induct) (auto split: list.splits)

lemma hasWellFormedUnicode_split_on:
  assumes "\<not> is_high c" "\<not> is_low c"
  shows "hasWellFormedUnicode s \<longleftrightarrow> (\<forall>p\<in>set (split_on c s). hasWellFormedUnicode p)"
proof (induction s rule: run_induct [where P = "\<lambda>u. u = c"])
  case (no_sep s)
  then have "c \<notin> set s" by blast
  then show ?case by simp
next
  case (sep p d r)
  then have "c \<notin> set p" "d = c" by blast+
  with sep assms show ?case by (simp add: split_on_append_sep hasWellFormedUnicode_sep)
qed

lemma hasWellFormedUnicode_join:
  assumes "\<not> is_high c" "\<not> is_low c" "\<forall>p\<in>set ps. hasWellFormedUnicode p"
  shows "hasWellFormedUnicode (join_with c ps)"
  using assms by (induction c ps rule: join_with.induct) (auto simp: hasWellFormedUnicode_sep)

lemma hasWellFormedUnicode_dropWhile:
  assumes "\<And>u. P u \<Longrightarrow> \<not> is_high u \<and> \<not> is_low u"
  shows "hasWellFormedUnicode r \<Longrightarrow> hasWellFormedUnicode (dropWhile P r)"
proof (induction r)
  case (Cons u us)
  then show ?case using assms [of u] by auto
qed simp

lemma hasWellFormedUnicode_split_runs:
  assumes P: "\<And>u. P u \<Longrightarrow> \<not> is_high u \<and> \<not> is_low u"
  shows "hasWellFormedUnicode s \<Longrightarrow> p \<in> set (split_runs P s) \<Longrightarrow> hasWellFormedUnicode p"
proof (induction s rule: run_induct [where P = P])
  case (no_sep s)
  then show ?case by (simp add: split_runs_no_sep)
next
  case (sep q c r)
  with P have "hasWellFormedUnicode q" "hasWellFormedUnicode (dropWhile P r)"
    by (metis hasWellFormedUnicode_sep, metis hasWellFormedUnicode_sep hasWellFormedUnicode_dropWhile)
  with sep show ?case by (auto simp: split_runs_append_sep)
qed

lemma scalars_Cons [simp]: "\<not> is_high u \<Longrightarrow> scalars (u # us) = u # scalars us"
  by (cases us) auto

lemma scalars_append:
  "hasWellFormedUnicode a \<Longrightarrow> scalars (a @ b) = scalars a @ scalars b"
proof (induction a rule: hasWellFormedUnicode.induct)
  case (2 u us)
  then show ?case by (cases "is_high u"; cases us) simp_all
qed simp

lemma hasWellFormedUnicode_append:
  "hasWellFormedUnicode a \<Longrightarrow> hasWellFormedUnicode (a @ b) = hasWellFormedUnicode b"
proof (induction a rule: hasWellFormedUnicode.induct)
  case (2 u us)
  then show ?case by (cases "is_high u"; cases us) simp_all
qed simp

lemma textBytes_append:
  "hasWellFormedUnicode a \<Longrightarrow> textBytes (a @ b) = textBytes a + textBytes b"
  by (simp add: textBytes_def utf8_def scalars_append)

lemma textBytes_Nil [simp]: "textBytes [] = 0"
  by (simp add: textBytes_def utf8_def)

lemma length_utf8_scalar: "0 < length (utf8_scalar c)" "length (utf8_scalar c) \<le> 4"
  by (simp_all add: utf8_scalar_def)

lemma scalars_scalar_value:
  "hasWellFormedUnicode s \<Longrightarrow> is_jstring s \<Longrightarrow> c \<in> set (scalars s) \<Longrightarrow> is_scalar_value c"
proof (induction s rule: hasWellFormedUnicode.induct)
  case (2 u us)
  then show ?case
    by (cases "is_high u"; cases us)
      (auto simp: is_jstring_def is_scalar_value_def pair_code_point_def unit_class)
qed simp

lemma scalars_Nil_iff [simp]: "scalars s = [] \<longleftrightarrow> s = []"
  by (cases s rule: scalars.cases) auto

lemma textBytes_0_iff [simp]: "textBytes s = 0 \<longleftrightarrow> s = []"
proof
  assume "textBytes s = 0"
  then have "\<forall>c\<in>set (scalars s). utf8_scalar c = []" by (simp add: textBytes_def utf8_def)
  then have "scalars s = []" using length_utf8_scalar(1) by (cases "scalars s") auto
  then show "s = []" by simp
qed simp

lemma byte_prefix_unique:
  assumes "p @ r = q @ s" "hasWellFormedUnicode p" "hasWellFormedUnicode q" "textBytes p = textBytes q"
  shows "p = q"
proof -
  from assms(1) consider us where "p = q @ us" | us where "q = p @ us"
    by (auto simp: append_eq_append_conv2)
  then show ?thesis using assms(2-4) by cases (auto simp: textBytes_append)
qed

subsection \<open>Lemmas on decimal numerals\<close>

lemma utf8_ascii: "list_all (\<lambda>u. u < 128) s \<Longrightarrow> utf8 s = s"
  by (induction s) (auto simp: utf8_def utf8_scalar_def unit_class)

lemma textBytes_ascii: "list_all (\<lambda>u. u < 128) s \<Longrightarrow> textBytes s = length s"
  by (simp add: textBytes_def utf8_ascii)

lemma decimal_step:
  "n < 10 \<Longrightarrow> decimal n = [48 + n]"
  "\<not> n < 10 \<Longrightarrow> decimal n = decimal (n div 10) @ [48 + n mod 10]"
  by (simp_all add: decimal.simps [of n])

lemma decimal_digits: "u \<in> set (decimal n) \<Longrightarrow> 48 \<le> u \<and> u \<le> 57"
proof (induction n rule: decimal.induct)
  case (1 n)
  then show ?case by (subst (asm) (2) decimal.simps) (auto split: if_splits)
qed

lemma decimal_value: "foldl (\<lambda>a d. 10 * a + (d - 48)) 0 (decimal n) = n"
proof (induction n rule: decimal.induct)
  case (1 n)
  show ?case
  proof (cases "n < 10")
    case False
    with 1 have "foldl (\<lambda>a d. 10 * a + (d - 48)) 0 (decimal (n div 10)) = n div 10" by simp
    with False show ?thesis by (subst decimal.simps) simp
  qed (simp add: decimal.simps)
qed

lemma decimal_inj [simp]: "decimal m = decimal n \<longleftrightarrow> m = n"
  by (metis decimal_value)

lemma decimal_prefix_unique:
  assumes "decimal m @ COLON # r = decimal n @ COLON # s"
  shows "m = n \<and> r = s"
proof -
  have "COLON \<notin> set (decimal k)" for k using decimal_digits [of COLON k] by auto
  then have "split_on COLON (decimal k @ COLON # t) = decimal k # split_on COLON t" for k t
    by (simp add: split_on_append_sep)
  with assms have "decimal m = decimal n" "split_on COLON r = split_on COLON s" by (metis list.inject)+
  then show ?thesis using join_split_on by (metis decimal_inj)
qed

end
