(* ===== verification/Wildcard.thy ===== *)
theory Wildcard
  imports Prelude
begin

text \<open>
  The specification of wildcard matching that the profile glob matcher and the ignore engine share,
  and the interface of their dynamic-programming rows.

  A pattern is a list of tokens. A token with \<open>star\<close> consumes any run of items it accepts, every
  other token consumes exactly one accepted item; \<open>wild\<close> says that the items can be cut into pieces,
  one per token, in this way. Both matchers compute it with one row of truth values per token, where
  entry \<open>i\<close> of a row says whether the tokens so far match the first \<open>i\<close> items. The locale
  \<open>wildcard_row\<close> states what one such row update promises; the correctness of the whole table is
  proved once inside it, and each matcher interprets it on its own row function.
\<close>

definition token_piece :: "('t \<Rightarrow> bool) \<Rightarrow> ('t \<Rightarrow> 'c \<Rightarrow> bool) \<Rightarrow> 't \<Rightarrow> 'c list \<Rightarrow> bool" where
  "token_piece star ok t piece \<longleftrightarrow>
     (if star t then \<forall>c\<in>set piece. ok t c else \<exists>c. piece = [c] \<and> ok t c)"

definition wild :: "('t \<Rightarrow> bool) \<Rightarrow> ('t \<Rightarrow> 'c \<Rightarrow> bool) \<Rightarrow> 't list \<Rightarrow> 'c list \<Rightarrow> bool" where
  "wild star ok ts cs \<longleftrightarrow> (\<exists>pieces. concat pieces = cs \<and> list_all2 (token_piece star ok) ts pieces)"

text \<open>The first row: no token matches the empty prefix only.\<close>

definition initial_row :: "nat \<Rightarrow> bool list" where
  "initial_row n = True # replicate n False"

lemma wild_Nil [simp]: "wild star ok [] cs \<longleftrightarrow> cs = []"
  by (auto simp: wild_def)

lemma wild_snoc_iff:
  "wild star ok (ts @ [t]) cs \<longleftrightarrow>
     (\<exists>us piece. cs = us @ piece \<and> wild star ok ts us \<and> token_piece star ok t piece)"
proof
  assume "wild star ok (ts @ [t]) cs"
  then obtain pieces where "concat pieces = cs" "list_all2 (token_piece star ok) (ts @ [t]) pieces"
    by (auto simp: wild_def)
  then obtain ps piece where "pieces = ps @ [piece]" "list_all2 (token_piece star ok) ts ps"
    "token_piece star ok t piece" "cs = concat ps @ piece"
    by (auto simp: list_all2_append1 list_all2_Cons1)
  then show "\<exists>us piece. cs = us @ piece \<and> wild star ok ts us \<and> token_piece star ok t piece"
    by (auto simp: wild_def)
next
  assume "\<exists>us piece. cs = us @ piece \<and> wild star ok ts us \<and> token_piece star ok t piece"
  then obtain ps piece where "cs = concat ps @ piece" "list_all2 (token_piece star ok) ts ps"
    "token_piece star ok t piece"
    by (auto simp: wild_def)
  then show "wild star ok (ts @ [t]) cs"
    unfolding wild_def by (intro exI [of _ "ps @ [piece]"]) (auto intro: list_all2_appendI)
qed

lemma wild_snoc_Nil: "wild star ok (ts @ [t]) [] \<longleftrightarrow> star t \<and> wild star ok ts []"
  by (auto simp: wild_snoc_iff token_piece_def)

lemma wild_snoc_single:
  assumes "\<not> star t"
  shows "wild star ok (ts @ [t]) (cs @ [c]) \<longleftrightarrow> wild star ok ts cs \<and> ok t c"
  using assms by (auto simp: wild_snoc_iff token_piece_def)

lemma wild_snoc_star:
  assumes "star t"
  shows "wild star ok (ts @ [t]) (cs @ [c]) \<longleftrightarrow>
    wild star ok ts (cs @ [c]) \<or> (wild star ok (ts @ [t]) cs \<and> ok t c)"
proof
  assume "wild star ok (ts @ [t]) (cs @ [c])"
  then obtain us piece where p: "cs @ [c] = us @ piece" "wild star ok ts us"
    "\<forall>x\<in>set piece. ok t x"
    using assms by (auto simp: wild_snoc_iff token_piece_def)
  show "wild star ok ts (cs @ [c]) \<or> (wild star ok (ts @ [t]) cs \<and> ok t c)"
  proof (cases piece rule: rev_cases)
    case Nil
    with p show ?thesis by simp
  next
    case (snoc qs q)
    with p have "cs = us @ qs" "q = c" by auto
    with p snoc assms have "wild star ok (ts @ [t]) cs" "ok t c"
      by (auto simp: wild_snoc_iff token_piece_def)
    then show ?thesis by simp
  qed
next
  assume "wild star ok ts (cs @ [c]) \<or> (wild star ok (ts @ [t]) cs \<and> ok t c)"
  then show "wild star ok (ts @ [t]) (cs @ [c])"
  proof
    assume "wild star ok ts (cs @ [c])"
    with assms show ?thesis
      by (auto simp: wild_snoc_iff token_piece_def intro: exI [of _ "cs @ [c]"])
  next
    assume "wild star ok (ts @ [t]) cs \<and> ok t c"
    then obtain us piece where "cs = us @ piece" "wild star ok ts us" "\<forall>x\<in>set piece. ok t x" "ok t c"
      using assms by (auto simp: wild_snoc_iff token_piece_def)
    then show ?thesis
      unfolding wild_snoc_iff using assms
      by (intro exI [of _ us] exI [of _ "piece @ [c]"]) (auto simp: token_piece_def)
  qed
qed

locale wildcard_row =
  fixes star :: "'t \<Rightarrow> bool"
    and ok :: "'t \<Rightarrow> 'c \<Rightarrow> bool"
    and row :: "'t \<Rightarrow> 'c list \<Rightarrow> bool list \<Rightarrow> bool list"
  assumes row_length: "length r = Suc (length cs) \<Longrightarrow> length (row t cs r) = Suc (length cs)"
    and row_0: "length r = Suc (length cs) \<Longrightarrow> row t cs r ! 0 = (star t \<and> r ! 0)"
    and row_star: "length r = Suc (length cs) \<Longrightarrow> i < length cs \<Longrightarrow> star t \<Longrightarrow>
      row t cs r ! Suc i = (r ! Suc i \<or> (row t cs r ! i \<and> ok t (cs ! i)))"
    and row_single: "length r = Suc (length cs) \<Longrightarrow> i < length cs \<Longrightarrow> \<not> star t \<Longrightarrow>
      row t cs r ! Suc i = (r ! i \<and> ok t (cs ! i))"
begin

lemma row_wild:
  assumes len: "length r = Suc (length cs)"
    and r: "\<And>i. i \<le> length cs \<Longrightarrow> r ! i = wild star ok ts (take i cs)"
    and i: "i \<le> length cs"
  shows "row t cs r ! i = wild star ok (ts @ [t]) (take i cs)"
  using i
proof (induction i)
  case 0
  show ?case using row_0 [OF len] r [of 0] by (simp add: wild_snoc_Nil)
next
  case (Suc i)
  then have i: "i < length cs" by simp
  show ?case
    using i Suc row_star [OF len i] row_single [OF len i] r [of i] r [of "Suc i"]
    by (cases "star t") (auto simp: take_Suc_conv_app_nth wild_snoc_star wild_snoc_single)
qed

lemma table_correct:
  "length (foldl (\<lambda>r t. row t cs r) (initial_row (length cs)) ts) = Suc (length cs) \<and>
   (\<forall>i \<le> length cs. foldl (\<lambda>r t. row t cs r) (initial_row (length cs)) ts ! i =
      wild star ok ts (take i cs))"
proof (induction ts rule: rev_induct)
  case Nil
  show ?case by (auto simp: initial_row_def nth_Cons split: nat.splits)
next
  case (snoc t ts)
  then show ?case by (simp add: row_length row_wild)
qed

lemma table_last:
  "foldl (\<lambda>r t. row t cs r) (initial_row (length cs)) ts ! length cs = wild star ok ts cs"
  using table_correct [of cs ts] by simp

end

text \<open>
  The row written out as a function of the previous one. Both matchers update their row in place or
  into a fresh array, in their own loop order; each loop is shown equal to this function.
\<close>

fun pull_row :: "('t \<Rightarrow> bool) \<Rightarrow> ('t \<Rightarrow> 'c \<Rightarrow> bool) \<Rightarrow> 't \<Rightarrow> 'c list \<Rightarrow> bool list \<Rightarrow> bool \<Rightarrow> bool list" where
  "pull_row star ok t [] r left = []"
| "pull_row star ok t (c # cs) (a # b # r) left =
     (let here = (if star t then b \<or> (left \<and> ok t c) else a \<and> ok t c)
      in here # pull_row star ok t cs (b # r) here)"
| "pull_row star ok t (c # cs) r left = []"

definition full_row :: "('t \<Rightarrow> bool) \<Rightarrow> ('t \<Rightarrow> 'c \<Rightarrow> bool) \<Rightarrow> 't \<Rightarrow> 'c list \<Rightarrow> bool list \<Rightarrow> bool list" where
  "full_row star ok t cs r =
     (let first = (star t \<and> r ! 0) in first # pull_row star ok t cs r first)"

lemma length_pull_row [simp]:
  "length r = Suc (length cs) \<Longrightarrow> length (pull_row star ok t cs r left) = length cs"
  by (induction star ok t cs r left rule: pull_row.induct) (auto simp: Let_def)

lemma pull_row_nth:
  "length r = Suc (length cs) \<Longrightarrow> i < length cs \<Longrightarrow>
   pull_row star ok t cs r left ! i =
     (if star t then r ! Suc i \<or> ((left # pull_row star ok t cs r left) ! i \<and> ok t (cs ! i))
      else r ! i \<and> ok t (cs ! i))"
proof (induction star ok t cs r left arbitrary: i rule: pull_row.induct)
  case (2 star ok t c cs a b r left)
  then show ?case by (cases i) (auto simp: Let_def)
qed auto

lemma full_row_wildcard_row: "wildcard_row star ok (full_row star ok)"
  by unfold_locales (auto simp: full_row_def Let_def pull_row_nth)

lemma full_rows_wild:
  "foldl (\<lambda>r t. full_row star ok t cs r) (initial_row (length cs)) ts ! length cs = wild star ok ts cs"
  by (rule wildcard_row.table_last [OF full_row_wildcard_row])

end
