(* ===== verification/Repository_Path.thy ===== *)
theory Repository_Path
  imports Prelude
begin

text \<open>
  Repository paths (\<open>packages/core/src/repository-path.ts\<close>): the text, device, drive and separator
  checks, the canonicalisation of a relative path in the POSIX or Windows grammar, the test for a
  canonical path, the conversion from and to absolute paths and the comparison. A thrown
  \<open>RepositoryPathError\<close> is its code as an \<open>Inl\<close> value. Node's \<open>path.posix\<close> (normalize, join, relative)
  is written out; \<open>path.win32\<close> enters the two absolute conversions as the argument \<open>win32\<close>.
\<close>

datatype PathFlavor = Posix | Win32

datatype RepositoryPathErrorCode =
    controlCharacter
  | malformedUnicode
  | nonCanonical
  | notRelative
  | outsideRepository
  | parentTraversal
  | rootNotAbsolute
  | targetNotAbsolute
  | unsupportedDevicePath
  | windowsDriveRelative
  | windowsSeparator

datatype path_role = RoleRoot | RoleTarget

definition REPOSITORY_ROOT :: jstring where
  "REPOSITORY_ROOT = [DOT]"

text \<open>The scan of \<open>validateText\<close>: \<open>None\<close> when it returns, \<open>Some code\<close> when it throws.\<close>

fun validateText :: "jstring \<Rightarrow> RepositoryPathErrorCode option" where
  "validateText [] = None"
| "validateText (u # us) =
     (if u \<le> 0x1F \<or> u = 0x7F then Some controlCharacter
      else if is_high u then
        (case us of
           [] \<Rightarrow> Some malformedUnicode
         | v # vs \<Rightarrow> if v < 0xDC00 \<or> 0xDFFF < v then Some malformedUnicode else validateText vs)
      else if is_low u then Some malformedUnicode
      else validateText us)"

definition is_separator :: "nat \<Rightarrow> bool" where
  "is_separator u \<longleftrightarrow> u = BACKSLASH \<or> u = SLASH"

fun isWindowsDevicePath :: "jstring \<Rightarrow> bool" where
  "isWindowsDevicePath (a # b # c # d # _) =
     (is_separator a \<and> is_separator b \<and> (c = QUESTION \<or> c = DOT) \<and> is_separator d)"
| "isWindowsDevicePath _ = False"

fun isWindowsDriveRelative :: "jstring \<Rightarrow> bool" where
  "isWindowsDriveRelative (a # b # rest) =
     (is_ascii_letter a \<and> b = COLON \<and> (case rest of [] \<Rightarrow> True | c # _ \<Rightarrow> \<not> is_separator c))"
| "isWindowsDriveRelative _ = False"

fun is_drive_rooted :: "jstring \<Rightarrow> bool" where
  "is_drive_rooted (a # b # c # _) = (is_ascii_letter a \<and> b = COLON \<and> is_separator c)"
| "is_drive_rooted _ = False"

text \<open>The second regular expression: two separators, a host, a separator, a share, then a separator or the end.\<close>

fun is_unc_rooted :: "jstring \<Rightarrow> bool" where
  "is_unc_rooted (a # b # rest) =
     (is_separator a \<and> is_separator b \<and>
      takeWhile (\<lambda>u. \<not> is_separator u) rest \<noteq> [] \<and>
      (case dropWhile (\<lambda>u. \<not> is_separator u) rest of
         [] \<Rightarrow> False
       | _ # share \<Rightarrow> takeWhile (\<lambda>u. \<not> is_separator u) share \<noteq> []))"
| "is_unc_rooted _ = False"

definition isFullyQualifiedWindowsPath :: "jstring \<Rightarrow> bool" where
  "isFullyQualifiedWindowsPath s \<longleftrightarrow> is_drive_rooted s \<or> is_unc_rooted s"

text \<open>Node's \<open>path.posix.isAbsolute\<close> and \<open>path.win32.isAbsolute\<close>.\<close>

definition posix_isAbsolute :: "jstring \<Rightarrow> bool" where
  "posix_isAbsolute s \<longleftrightarrow> s \<noteq> [] \<and> hd s = SLASH"

definition win32_isAbsolute :: "jstring \<Rightarrow> bool" where
  "win32_isAbsolute s \<longleftrightarrow> s \<noteq> [] \<and> (is_separator (hd s) \<or> is_drive_rooted s)"

fun isAbsoluteFor :: "PathFlavor \<Rightarrow> jstring \<Rightarrow> bool" where
  "isAbsoluteFor Posix s = posix_isAbsolute s"
| "isAbsoluteFor Win32 s = win32_isAbsolute s"

fun splitSegments :: "PathFlavor \<Rightarrow> jstring \<Rightarrow> jstring list" where
  "splitSegments Posix s = split_runs (\<lambda>u. u = SLASH) s"
| "splitSegments Win32 s = split_runs is_separator s"

text \<open>The loop over the segments: empty and \<open>.\<close> segments are dropped, \<open>..\<close> throws.\<close>

fun canonicalSegments :: "jstring list \<Rightarrow> RepositoryPathErrorCode + jstring list" where
  "canonicalSegments [] = Inr []"
| "canonicalSegments (p # ps) =
     (if p = [] \<or> p = [DOT] then canonicalSegments ps
      else if p = [DOT, DOT] then Inl parentTraversal
      else bindR (canonicalSegments ps) (\<lambda>qs. Inr (p # qs)))"

definition canonicalizeRepositoryRelativePath ::
  "jstring \<Rightarrow> PathFlavor \<Rightarrow> RepositoryPathErrorCode + jstring" where
  "canonicalizeRepositoryRelativePath input sourceFlavor =
     (case validateText input of
        Some e \<Rightarrow> Inl e
      | None \<Rightarrow>
          checkR (\<not> isWindowsDevicePath input) unsupportedDevicePath
         (checkR (\<not> isWindowsDriveRelative input) windowsDriveRelative
         (checkR (\<not> (isAbsoluteFor sourceFlavor input \<or> isFullyQualifiedWindowsPath input \<or>
                     startsWith input [BACKSLASH])) notRelative
         (checkR (\<not> (sourceFlavor = Posix \<and> includesStr input [BACKSLASH])) windowsSeparator
         (bindR (canonicalSegments (splitSegments sourceFlavor input)) (\<lambda>segments.
            Inr (if segments = [] then REPOSITORY_ROOT else join_with SLASH segments)))))))"

definition isRepositoryRelativePath :: "jstring \<Rightarrow> bool" where
  "isRepositoryRelativePath input \<longleftrightarrow>
     (case canonicalizeRepositoryRelativePath input Posix of Inl _ \<Rightarrow> False | Inr p \<Rightarrow> p = input)"

text \<open>Node's lexical path operations, as a record for each grammar.\<close>

record path_implementation =
  pi_isAbsolute :: "jstring \<Rightarrow> bool"
  pi_normalize :: "jstring \<Rightarrow> jstring"
  pi_join :: "jstring list \<Rightarrow> jstring"
  pi_relative :: "jstring \<Rightarrow> jstring \<Rightarrow> jstring"
  pi_sep :: jstring

text \<open>
  \<open>normalizeString\<close> of \<open>path.posix\<close>, on segments, with the kept segments in reverse: \<open>..\<close> removes the
  last kept segment unless it is itself \<open>..\<close>, and is kept only where going allowAbove the start is allowed.
\<close>

fun posix_normalizeSegments :: "bool \<Rightarrow> jstring list \<Rightarrow> jstring list \<Rightarrow> jstring list" where
  "posix_normalizeSegments allowAbove kept [] = rev kept"
| "posix_normalizeSegments allowAbove kept (p # ps) =
     (if p = [] \<or> p = [DOT] then posix_normalizeSegments allowAbove kept ps
      else if p = [DOT, DOT] then
        (if kept \<noteq> [] \<and> hd kept \<noteq> [DOT, DOT] then posix_normalizeSegments allowAbove (tl kept) ps
         else if allowAbove then posix_normalizeSegments allowAbove (p # kept) ps
         else posix_normalizeSegments allowAbove kept ps)
      else posix_normalizeSegments allowAbove (p # kept) ps)"

definition posix_normalize :: "jstring \<Rightarrow> jstring" where
  "posix_normalize p =
     (if p = [] then [DOT]
      else let absolute = posix_isAbsolute p; trailing = (last p = SLASH);
               body = join_with SLASH (posix_normalizeSegments (\<not> absolute) [] (split_on SLASH p))
           in if body = [] then (if absolute then [SLASH] else if trailing then [DOT, SLASH] else [DOT])
              else let body' = (if trailing then body @ [SLASH] else body)
                   in if absolute then SLASH # body' else body')"

definition posix_join :: "jstring list \<Rightarrow> jstring" where
  "posix_join args =
     (let parts = filter (\<lambda>a. a \<noteq> []) args
      in if parts = [] then [DOT] else posix_normalize (join_with SLASH parts))"

fun commonPrefixLength :: "'a list \<Rightarrow> 'a list \<Rightarrow> nat" where
  "commonPrefixLength (x # xs) (y # ys) = (if x = y then Suc (commonPrefixLength xs ys) else 0)"
| "commonPrefixLength _ _ = 0"

text \<open>\<open>path.posix.relative\<close> on absolute arguments, where it does not read the working directory.\<close>

definition posix_relative :: "jstring \<Rightarrow> jstring \<Rightarrow> jstring" where
  "posix_relative from to =
     (let f = posix_normalizeSegments False [] (split_on SLASH from);
          t = posix_normalizeSegments False [] (split_on SLASH to);
          k = commonPrefixLength f t
      in join_with SLASH (replicate (length f - k) [DOT, DOT] @ drop k t))"

definition path_posix :: path_implementation where
  "path_posix =
     \<lparr>pi_isAbsolute = posix_isAbsolute, pi_normalize = posix_normalize, pi_join = posix_join,
      pi_relative = posix_relative, pi_sep = [SLASH]\<rparr>"

fun implementationFor :: "path_implementation \<Rightarrow> PathFlavor \<Rightarrow> path_implementation" where
  "implementationFor win32 Posix = path_posix"
| "implementationFor win32 Win32 = win32"

definition validateFullyQualified ::
  "jstring \<Rightarrow> PathFlavor \<Rightarrow> path_role \<Rightarrow> RepositoryPathErrorCode option" where
  "validateFullyQualified input flavor role =
     (case validateText input of
        Some e \<Rightarrow> Some e
      | None \<Rightarrow>
          if isWindowsDevicePath input then Some unsupportedDevicePath
          else if (if flavor = Posix then posix_isAbsolute input else isFullyQualifiedWindowsPath input)
          then None
          else Some (if role = RoleRoot then rootNotAbsolute else targetNotAbsolute))"

definition repositoryRelativePathFromAbsolute ::
  "path_implementation \<Rightarrow> jstring \<Rightarrow> jstring \<Rightarrow> PathFlavor \<Rightarrow> RepositoryPathErrorCode + jstring" where
  "repositoryRelativePathFromAbsolute win32 root target flavor =
     (case validateFullyQualified root flavor RoleRoot of
        Some e \<Rightarrow> Inl e
      | None \<Rightarrow>
     (case validateFullyQualified target flavor RoleTarget of
        Some e \<Rightarrow> Inl e
      | None \<Rightarrow>
          let implementation = implementationFor win32 flavor;
              relative = pi_relative implementation (pi_normalize implementation root)
                           (pi_normalize implementation target)
          in if pi_isAbsolute implementation relative \<or> relative = [DOT, DOT] \<or>
                startsWith relative ([DOT, DOT] @ pi_sep implementation)
             then Inl outsideRepository
             else canonicalizeRepositoryRelativePath relative flavor))"

definition repositoryRelativePathToAbsolute ::
  "path_implementation \<Rightarrow> jstring \<Rightarrow> jstring \<Rightarrow> PathFlavor \<Rightarrow> RepositoryPathErrorCode + jstring" where
  "repositoryRelativePathToAbsolute win32 root relativePath flavor =
     (case validateFullyQualified root flavor RoleRoot of
        Some e \<Rightarrow> Inl e
      | None \<Rightarrow>
          bindR (canonicalizeRepositoryRelativePath relativePath Posix) (\<lambda>canonical.
            checkR (canonical = relativePath) nonCanonical
              (let implementation = implementationFor win32 flavor;
                   normalizedRoot = pi_normalize implementation root
               in Inr (if relativePath = REPOSITORY_ROOT then normalizedRoot
                       else pi_join implementation (normalizedRoot # split_on SLASH relativePath)))))"

definition compareRepositoryRelativePaths :: "jstring \<Rightarrow> jstring \<Rightarrow> int" where
  "compareRepositoryRelativePaths left right = (if left = right then 0 else if left < right then -1 else 1)"

definition repositoryRelativePathsEqual :: "jstring \<Rightarrow> jstring \<Rightarrow> bool" where
  "repositoryRelativePathsEqual left right \<longleftrightarrow> left = right"

subsection \<open>The abstract notion of a canonical path\<close>

definition proper_segment :: "jstring \<Rightarrow> bool" where
  "proper_segment p \<longleftrightarrow> p \<noteq> [] \<and> p \<noteq> [DOT] \<and> p \<noteq> [DOT, DOT]"

definition safe_text :: "jstring \<Rightarrow> bool" where
  "safe_text s \<longleftrightarrow> (\<forall>u\<in>set s. 0x1F < u \<and> u \<noteq> 0x7F) \<and> hasWellFormedUnicode s"

definition drive_prefix :: "jstring \<Rightarrow> bool" where
  "drive_prefix s \<longleftrightarrow> (\<exists>a r. s = a # COLON # r \<and> is_ascii_letter a)"

text \<open>A non-root path: proper segments separated by single slashes, safe text, no backslash.\<close>

definition clean_path :: "jstring \<Rightarrow> bool" where
  "clean_path s \<longleftrightarrow> (\<forall>p\<in>set (split_on SLASH s). proper_segment p) \<and> safe_text s \<and> BACKSLASH \<notin> set s"

subsection \<open>Lemmas on the checks\<close>

lemma validateText_None_iff: "validateText s = None \<longleftrightarrow> safe_text s"
proof (induction s rule: validateText.induct)
  case (2 u us)
  show ?case
  proof (cases us)
    case Nil
    then show ?thesis by (auto simp: safe_text_def unit_class)
  next
    case (Cons v vs)
    with 2 show ?thesis by (auto simp: safe_text_def unit_class)
  qed
qed (simp add: safe_text_def)

lemma separator_not_surrogate: "is_separator u \<Longrightarrow> \<not> is_high u \<and> \<not> is_low u"
  by (auto simp: is_separator_def unit_class)

lemma safe_text_join:
  assumes "\<forall>p\<in>set ps. safe_text p"
  shows "safe_text (join_with SLASH ps)"
proof -
  have "hasWellFormedUnicode (join_with SLASH ps)"
    using assms by (intro hasWellFormedUnicode_join) (auto simp: safe_text_def unit_class)
  then show ?thesis
    using assms join_with_units [of SLASH ps] by (fastforce simp: safe_text_def)
qed

lemma safe_text_split_runs:
  assumes "safe_text s" "p \<in> set (split_runs P s)" "\<And>u. P u \<Longrightarrow> is_separator u"
  shows "safe_text p"
proof -
  have "hasWellFormedUnicode p"
    using assms separator_not_surrogate
    by (intro hasWellFormedUnicode_split_runs [of P s p]) (auto simp: safe_text_def)
  moreover have "set p \<subseteq> set s" using split_runs_parts [OF assms(2)] by blast
  ultimately show ?thesis using assms(1) by (auto simp: safe_text_def)
qed

lemma safe_text_split_on: "safe_text s \<Longrightarrow> p \<in> set (split_on SLASH s) \<Longrightarrow> safe_text p"
proof -
  assume s: "safe_text s" and p: "p \<in> set (split_on SLASH s)"
  have "set p \<subseteq> set s" using split_on_units [of SLASH s] p by blast
  moreover have "hasWellFormedUnicode p"
    using s p hasWellFormedUnicode_split_on [of SLASH s] by (simp add: safe_text_def unit_class)
  ultimately show ?thesis using s by (auto simp: safe_text_def)
qed

lemma canonicalSegments_Inr:
  "canonicalSegments ps = Inr qs \<longleftrightarrow>
     [DOT, DOT] \<notin> set ps \<and> qs = filter (\<lambda>p. p \<noteq> [] \<and> p \<noteq> [DOT]) ps"
  by (induction ps arbitrary: qs) (auto simp: result_simps)

lemma canonicalSegments_Inl:
  "canonicalSegments ps = Inl e \<longleftrightarrow> [DOT, DOT] \<in> set ps \<and> e = parentTraversal"
  by (induction ps) (auto simp: result_simps)

lemma drive_prefix_iff:
  "drive_prefix s \<longleftrightarrow> isWindowsDriveRelative s \<or> is_drive_rooted s"
  by (cases s rule: isWindowsDriveRelative.cases; cases "tl (tl s)")
    (auto simp: drive_prefix_def split: list.splits)

lemma unrooted_start:
  assumes "s \<noteq> []" "\<not> is_separator (hd s)"
  shows "\<not> isWindowsDevicePath s" "\<not> is_unc_rooted s" "\<not> posix_isAbsolute s" "\<not> startsWith s [BACKSLASH]"
  using assms
  by (cases s rule: isWindowsDevicePath.cases, simp_all)
    (cases s rule: is_unc_rooted.cases; simp add: is_separator_def posix_isAbsolute_def)+

lemma clean_path_start:
  assumes "clean_path s"
  shows "s \<noteq> []" "\<not> is_separator (hd s)"
proof -
  from assms have "[] \<notin> set (split_on SLASH s)" by (auto simp: clean_path_def proper_segment_def)
  then show "s \<noteq> []" by auto
  with \<open>[] \<notin> set (split_on SLASH s)\<close> assms show "\<not> is_separator (hd s)"
    by (cases s) (auto simp: is_separator_def clean_path_def)
qed

lemma clean_path_segments:
  assumes "clean_path s"
  shows "canonicalSegments (splitSegments Posix s) = Inr (split_on SLASH s)"
proof -
  have "filter (\<lambda>p. p \<noteq> []) (split_on SLASH s) = split_on SLASH s"
    using assms by (auto simp: clean_path_def proper_segment_def filter_id_conv)
  then have ne: "filter (\<lambda>p. p \<noteq> []) (split_runs (\<lambda>u. u = SLASH) s) = split_on SLASH s"
    using filter_split_runs by simp
  then have "\<And>p. p \<in> set (split_runs (\<lambda>u. u = SLASH) s) \<Longrightarrow> p \<noteq> [] \<Longrightarrow> proper_segment p"
    using assms by (metis (mono_tags, lifting) clean_path_def filter_set Set.filter_eq mem_Collect_eq)
  then have "[DOT, DOT] \<notin> set (split_runs (\<lambda>u. u = SLASH) s)"
    "filter (\<lambda>p. p \<noteq> [] \<and> p \<noteq> [DOT]) (split_runs (\<lambda>u. u = SLASH) s) =
     filter (\<lambda>p. p \<noteq> []) (split_runs (\<lambda>u. u = SLASH) s)"
    by (auto simp: proper_segment_def intro: filter_cong)
  with ne show ?thesis by (simp add: canonicalSegments_Inr)
qed

lemma clean_join:
  assumes "ps \<noteq> []" "\<forall>p\<in>set ps. proper_segment p \<and> safe_text p \<and> SLASH \<notin> set p \<and> BACKSLASH \<notin> set p"
  shows "clean_path (join_with SLASH ps) \<and> split_on SLASH (join_with SLASH ps) = ps"
proof -
  have split: "split_on SLASH (join_with SLASH ps) = ps"
    using assms by (intro split_join_with) auto
  moreover have "BACKSLASH \<notin> set (join_with SLASH ps)"
    using assms join_with_units [of SLASH ps] by fastforce
  ultimately show ?thesis using assms by (auto simp: clean_path_def safe_text_join)
qed

subsection \<open>What canonicalisation returns\<close>

lemma canonicalize_result:
  assumes "canonicalizeRepositoryRelativePath s f = Inr p"
  shows "p = REPOSITORY_ROOT \<or> clean_path p"
proof -
  from assms obtain qs where qs: "canonicalSegments (splitSegments f s) = Inr qs"
    and p: "p = (if qs = [] then REPOSITORY_ROOT else join_with SLASH qs)"
    and safe: "safe_text s" and posix: "f = Posix \<longrightarrow> BACKSLASH \<notin> set s"
    by (auto simp: canonicalizeRepositoryRelativePath_def result_simps validateText_None_iff
        split: option.splits)
  have "\<forall>q\<in>set qs. proper_segment q \<and> safe_text q \<and> SLASH \<notin> set q \<and> BACKSLASH \<notin> set q"
  proof
    fix q assume "q \<in> set qs"
    with qs have q: "proper_segment q" "q \<in> set (splitSegments f s)"
      by (auto simp: canonicalSegments_Inr proper_segment_def)
    show "proper_segment q \<and> safe_text q \<and> SLASH \<notin> set q \<and> BACKSLASH \<notin> set q"
    proof (cases f)
      case Posix
      with q safe posix show ?thesis
        using split_runs_parts [of q "\<lambda>u. u = SLASH" s] safe_text_split_runs [of s q "\<lambda>u. u = SLASH"]
        by (auto simp: is_separator_def)
    next
      case Win32
      with q safe show ?thesis
        using split_runs_parts [of q is_separator s] safe_text_split_runs [of s q is_separator]
        by (auto simp: is_separator_def)
    qed
  qed
  with p show ?thesis using clean_join by auto
qed

lemma canonicalize_clean:
  assumes "clean_path p"
  shows "canonicalizeRepositoryRelativePath p Posix =
    (if isWindowsDriveRelative p then Inl windowsDriveRelative
     else if is_drive_rooted p then Inl notRelative else Inr p)"
  using assms unrooted_start [OF clean_path_start [OF assms]] clean_path_segments [OF assms]
  by (auto simp: canonicalizeRepositoryRelativePath_def isFullyQualifiedWindowsPath_def
      clean_path_def validateText_None_iff[symmetric] checkR_def)

lemma canonicalize_root: "canonicalizeRepositoryRelativePath REPOSITORY_ROOT f = Inr REPOSITORY_ROOT"
  by (cases f)
    (simp_all add: canonicalizeRepositoryRelativePath_def REPOSITORY_ROOT_def
      isFullyQualifiedWindowsPath_def posix_isAbsolute_def win32_isAbsolute_def is_separator_def unit_class)

lemma canonicalize_empty: "canonicalizeRepositoryRelativePath [] f = Inr REPOSITORY_ROOT"
  by (cases f)
    (simp_all add: canonicalizeRepositoryRelativePath_def isFullyQualifiedWindowsPath_def
      posix_isAbsolute_def win32_isAbsolute_def)

lemma isRepositoryRelativePath_cases:
  "isRepositoryRelativePath s \<longleftrightarrow> s = REPOSITORY_ROOT \<or> (clean_path s \<and> \<not> drive_prefix s)"
proof
  assume "isRepositoryRelativePath s"
  then have c: "canonicalizeRepositoryRelativePath s Posix = Inr s"
    by (auto simp: isRepositoryRelativePath_def split: sum.splits)
  then have "s = REPOSITORY_ROOT \<or> clean_path s" by (rule canonicalize_result)
  moreover have "clean_path s \<Longrightarrow> \<not> drive_prefix s"
    using c canonicalize_clean [of s] by (auto simp: drive_prefix_iff split: if_splits)
  ultimately show "s = REPOSITORY_ROOT \<or> (clean_path s \<and> \<not> drive_prefix s)" by blast
next
  assume "s = REPOSITORY_ROOT \<or> (clean_path s \<and> \<not> drive_prefix s)"
  then show "isRepositoryRelativePath s"
    by (auto simp: isRepositoryRelativePath_def canonicalize_root canonicalize_clean drive_prefix_iff)
qed

subsection \<open>Lemmas on Node's POSIX paths\<close>

lemma normalizeSegments_nonempty:
  "posix_normalizeSegments a kept (filter (\<lambda>p. p \<noteq> []) ps) = posix_normalizeSegments a kept ps"
  by (induction a kept ps rule: posix_normalizeSegments.induct) auto

lemma normalizeSegments_proper:
  "\<forall>p\<in>set ps. proper_segment p \<Longrightarrow> posix_normalizeSegments a kept ps = rev kept @ ps"
  by (induction ps arbitrary: kept) (auto simp: proper_segment_def)

lemma normalizeSegments_result:
  "\<forall>p\<in>set kept. proper_segment p \<and> p \<in> A \<Longrightarrow> set ps \<subseteq> A \<Longrightarrow>
   q \<in> set (posix_normalizeSegments False kept ps) \<Longrightarrow> proper_segment q \<and> q \<in> A"
proof (induction "False" kept ps rule: posix_normalizeSegments.induct)
  case (2 kept p ps)
  have "\<forall>p\<in>set (tl kept). proper_segment p \<and> p \<in> A"
    using "2.prems"(1) by (cases kept) auto
  with 2 show ?case by (auto simp: proper_segment_def split: if_splits)
qed auto

definition root_segments :: "jstring \<Rightarrow> jstring list" where
  "root_segments root = posix_normalizeSegments False [] (split_on SLASH root)"

lemma root_segments_props:
  assumes "safe_text root" "BACKSLASH \<notin> set root" "q \<in> set (root_segments root)"
  shows "proper_segment q" "safe_text q" "SLASH \<notin> set q" "BACKSLASH \<notin> set q"
proof -
  have "proper_segment q \<and> q \<in> set (split_on SLASH root)"
    using assms(3) unfolding root_segments_def
    by (intro normalizeSegments_result [of "[]"]) auto
  then show "proper_segment q" "safe_text q" "SLASH \<notin> set q" "BACKSLASH \<notin> set q"
    using assms safe_text_split_on split_on_parts split_on_units [of SLASH root] by blast+
qed

lemma root_segments_slash_join:
  assumes "\<forall>q\<in>set qs. proper_segment q \<and> SLASH \<notin> set q"
  shows "root_segments (SLASH # join_with SLASH qs) = qs"
    and "root_segments (SLASH # join_with SLASH qs @ [SLASH]) = qs"
proof -
  have e: "root_segments (SLASH # s) = posix_normalizeSegments False [] (split_on SLASH s)" for s
    by (simp add: root_segments_def)
  have n: "posix_normalizeSegments False [] (split_on SLASH (join_with SLASH qs)) = qs"
    using assms by (cases "qs = []") (auto simp: split_join_with normalizeSegments_proper)
  then show "root_segments (SLASH # join_with SLASH qs) = qs" by (simp add: e)
  have "filter (\<lambda>p. p \<noteq> []) (split_on SLASH (join_with SLASH qs @ [SLASH])) =
    filter (\<lambda>p. p \<noteq> []) (split_on SLASH (join_with SLASH qs))"
    using split_on_append [of SLASH "join_with SLASH qs" "[]"] by simp
  then have "posix_normalizeSegments False [] (split_on SLASH (join_with SLASH qs @ [SLASH])) =
    posix_normalizeSegments False [] (split_on SLASH (join_with SLASH qs))"
    by (metis normalizeSegments_nonempty)
  with n show "root_segments (SLASH # join_with SLASH qs @ [SLASH]) = qs" by (simp add: e)
qed

lemma posix_normalize_absolute:
  assumes "posix_isAbsolute root"
  shows "posix_normalize root = SLASH # join_with SLASH (root_segments root) \<or>
    posix_normalize root = SLASH # join_with SLASH (root_segments root) @ [SLASH]"
  using assms by (auto simp: posix_normalize_def root_segments_def Let_def posix_isAbsolute_def)

lemma posix_normalize_slash_join:
  assumes "\<forall>q\<in>set qs. proper_segment q \<and> SLASH \<notin> set q"
  shows "posix_normalize (SLASH # join_with SLASH qs) = SLASH # join_with SLASH qs"
proof (cases "qs = []")
  case True
  then show ?thesis by (simp add: posix_normalize_def posix_isAbsolute_def)
next
  case False
  then obtain ps q where qs: "qs = ps @ [q]" by (cases qs rule: rev_cases) auto
  have app: "join_with SLASH (ps @ [q]) = (if ps = [] then q else join_with SLASH ps @ SLASH # q)"
    by (induction ps rule: induct_list012) auto
  have q: "q \<noteq> []" "SLASH \<notin> set q" using assms qs by (auto simp: proper_segment_def)
  then have "last q \<noteq> SLASH" by (metis last_in_set)
  with q have "last (join_with SLASH qs) \<noteq> SLASH" "join_with SLASH qs \<noteq> []"
    unfolding qs app by simp_all
  moreover have "posix_normalizeSegments False [] (split_on SLASH (SLASH # join_with SLASH qs)) = qs"
    using root_segments_slash_join(1) [OF assms] by (simp add: root_segments_def)
  ultimately show ?thesis by (simp add: posix_normalize_def posix_isAbsolute_def Let_def)
qed

lemma commonPrefixLength_append [simp]: "commonPrefixLength xs (xs @ ys) = length xs"
  by (induction xs) (cases ys, auto)

lemma posix_relative_below:
  assumes "root_segments from = qs" "root_segments to = qs @ ps"
  shows "posix_relative from to = join_with SLASH ps"
  using assms by (simp add: posix_relative_def root_segments_def Let_def)

lemma device_path_second:
  "isWindowsDevicePath (u # s @ t) \<Longrightarrow> length t \<le> 1 \<Longrightarrow> s \<noteq> [] \<and> is_separator (hd s)"
  "isWindowsDevicePath (u # s) \<Longrightarrow> s \<noteq> [] \<and> is_separator (hd s)"
  by (cases "u # s @ t" rule: isWindowsDevicePath.cases; cases s; force)
    (cases "u # s" rule: isWindowsDevicePath.cases; simp)

lemma absolute_target_valid:
  assumes "\<forall>q\<in>set qs. proper_segment q \<and> safe_text q \<and> SLASH \<notin> set q \<and> BACKSLASH \<notin> set q"
  shows "validateFullyQualified (SLASH # join_with SLASH qs) Posix role = None"
    and "validateFullyQualified (SLASH # join_with SLASH qs @ [SLASH]) Posix role = None"
proof -
  have safe: "safe_text (join_with SLASH qs)" using assms by (intro safe_text_join) auto
  have start: "join_with SLASH qs = [] \<or> \<not> is_separator (hd (join_with SLASH qs))"
    using assms by (cases qs; cases "tl qs")
      (auto simp: proper_segment_def is_separator_def hd_append dest: hd_in_set)
  have device: "\<not> isWindowsDevicePath (SLASH # join_with SLASH qs)"
    "\<not> isWindowsDevicePath (SLASH # join_with SLASH qs @ [SLASH])"
    using start device_path_second(2) [of SLASH "join_with SLASH qs"]
      device_path_second(1) [of SLASH "join_with SLASH qs" "[SLASH]"] by auto
  have "safe_text (SLASH # join_with SLASH qs)" "safe_text (SLASH # join_with SLASH qs @ [SLASH])"
    using safe hasWellFormedUnicode_sep [of SLASH "join_with SLASH qs" "[]"]
    by (auto simp: safe_text_def unit_class)
  with device show "validateFullyQualified (SLASH # join_with SLASH qs) Posix role = None"
    "validateFullyQualified (SLASH # join_with SLASH qs @ [SLASH]) Posix role = None"
    by (simp_all add: validateFullyQualified_def validateText_None_iff[symmetric] posix_isAbsolute_def)
qed

lemmas path_eval = canonicalizeRepositoryRelativePath_def isRepositoryRelativePath_def
  isFullyQualifiedWindowsPath_def posix_isAbsolute_def win32_isAbsolute_def is_separator_def unit_class
  REPOSITORY_ROOT_def js_def

lemma toAbsolute_below:
  assumes "\<forall>q\<in>set N. proper_segment q \<and> SLASH \<notin> set q" "clean_path p"
    and nr: "nr = SLASH # join_with SLASH N \<or> nr = SLASH # join_with SLASH N @ [SLASH]"
  shows "posix_join (nr # split_on SLASH p) = SLASH # join_with SLASH (N @ split_on SLASH p)"
proof -
  let ?ps = "split_on SLASH p"
  have ps: "\<forall>q\<in>set ?ps. proper_segment q \<and> SLASH \<notin> set q"
    using assms(2) split_on_parts by (auto simp: clean_path_def)
  then have ne: "filter (\<lambda>a. a \<noteq> []) ?ps = ?ps" by (auto simp: filter_id_conv proper_segment_def)
  let ?path = "nr @ SLASH # p"
  have "posix_join (nr # ?ps) = posix_normalize ?path"
    using nr ne by (auto simp: posix_join_def Let_def length_join_with_Cons)
  moreover have "root_segments ?path = N @ ?ps"
  proof -
    have "filter (\<lambda>p. p \<noteq> []) (split_on SLASH nr) = filter (\<lambda>p. p \<noteq> []) (split_on SLASH (join_with SLASH N))"
      using nr split_on_append [of SLASH "join_with SLASH N" "[]"] by auto
    moreover have "filter (\<lambda>p. p \<noteq> []) (split_on SLASH (join_with SLASH N)) = N"
      using assms(1) by (cases "N = []") (auto simp: split_join_with filter_id_conv proper_segment_def)
    ultimately have "filter (\<lambda>p. p \<noteq> []) (split_on SLASH ?path) = N @ ?ps"
      using ne by (simp add: split_on_append)
    then have "root_segments ?path = posix_normalizeSegments False [] (N @ ?ps)"
      unfolding root_segments_def by (metis normalizeSegments_nonempty)
    moreover have "\<forall>q\<in>set (N @ ?ps). proper_segment q" using assms(1) ps by auto
    ultimately show ?thesis by (simp only: normalizeSegments_proper rev.simps append_Nil)
  qed
  moreover have "last ?path \<noteq> SLASH"
  proof -
    have "p \<noteq> []" using clean_path_start [OF assms(2)] by simp
    moreover have "last p \<noteq> SLASH"
    proof
      assume "last p = SLASH"
      with \<open>p \<noteq> []\<close> have "p = butlast p @ SLASH # []" by (metis append_butlast_last_id)
      then have "[] \<in> set ?ps" by (metis Un_iff list.set_intros(1) set_append split_on.simps(1) split_on_append)
      with ps show False by (auto simp: proper_segment_def)
    qed
    ultimately show ?thesis by simp
  qed
  moreover have "join_with SLASH (N @ ?ps) \<noteq> []"
    using assms(1) ps by (cases N; cases ?ps; cases "tl ?ps"; cases "tl N @ ?ps") (auto simp: proper_segment_def)
  ultimately show ?thesis
    using nr unfolding root_segments_def
    by (auto simp: posix_normalize_def posix_isAbsolute_def Let_def)
qed

lemma normalized_root:
  assumes "validateFullyQualified root Posix RoleRoot = None" "BACKSLASH \<notin> set root"
  obtains N where
    "\<forall>q\<in>set N. proper_segment q \<and> safe_text q \<and> SLASH \<notin> set q \<and> BACKSLASH \<notin> set q"
    "posix_normalize root = SLASH # join_with SLASH N \<or> posix_normalize root = SLASH # join_with SLASH N @ [SLASH]"
    "root_segments (posix_normalize root) = N"
    "root_segments (posix_normalize (posix_normalize root)) = N"
proof -
  define N where "N = root_segments root"
  from assms have safe: "safe_text root" and abs: "posix_isAbsolute root"
    by (auto simp: validateFullyQualified_def validateText_None_iff split: option.splits if_splits)
  have N: "\<forall>q\<in>set N. proper_segment q \<and> safe_text q \<and> SLASH \<notin> set q \<and> BACKSLASH \<notin> set q"
    using root_segments_props [OF safe assms(2)] unfolding N_def by blast
  have nr: "posix_normalize root = SLASH # join_with SLASH N \<or>
      posix_normalize root = SLASH # join_with SLASH N @ [SLASH]"
    using posix_normalize_absolute [OF abs] by (simp add: N_def)
  then have segs: "root_segments (posix_normalize root) = N"
    using root_segments_slash_join [of N] N by auto
  have "posix_isAbsolute (posix_normalize root)" using nr by (auto simp: posix_isAbsolute_def)
  from posix_normalize_absolute [OF this] segs
  have "root_segments (posix_normalize (posix_normalize root)) = N"
    using root_segments_slash_join [of N] N by auto
  with N nr segs show ?thesis by (rule that)
qed

lemma clean_not_climbing:
  assumes "clean_path p"
  shows "p \<noteq> [DOT, DOT]" "\<not> startsWith p [DOT, DOT, SLASH]" "\<not> posix_isAbsolute p"
proof -
  have up: "[DOT, DOT] \<notin> set (split_on SLASH p)" using assms by (auto simp: clean_path_def proper_segment_def)
  then show "p \<noteq> [DOT, DOT]" by auto
  show "\<not> startsWith p [DOT, DOT, SLASH]" using up by (auto simp: startsWith_iff)
  show "\<not> posix_isAbsolute p" using unrooted_start(3) clean_path_start [OF assms] by blast
qed

subsection \<open>Properties\<close>



text \<open>
  Canonicalisation never lets a path climb: whatever grammar the input is read in, a returned path
  is the root or consists of segments that are non-empty and neither \<open>.\<close> nor \<open>..\<close>, and reading it
  again returns it unchanged, provided it does not begin with a Windows drive prefix.
\<close>

theorem canonicalize_idempotent:
  assumes "canonicalizeRepositoryRelativePath s f = Inr p"
    and "\<not> (\<exists>a r. p = a # COLON # r \<and> is_ascii_letter a)"
  shows "canonicalizeRepositoryRelativePath p Posix = Inr p \<and>
    (p = REPOSITORY_ROOT \<or> (\<forall>q\<in>set (split_on SLASH p). q \<noteq> [] \<and> q \<noteq> [DOT] \<and> q \<noteq> [DOT, DOT]))"
proof -
  have p: "p = REPOSITORY_ROOT \<or> clean_path p" using assms(1) by (rule canonicalize_result)
  moreover have "\<not> drive_prefix p" using assms(2) by (simp add: drive_prefix_def)
  ultimately have "canonicalizeRepositoryRelativePath p Posix = Inr p"
    using canonicalize_root canonicalize_clean [of p] by (auto simp: drive_prefix_iff)
  with p show ?thesis by (auto simp: clean_path_def proper_segment_def)
qed

text \<open>The input \<open>src//./main.ts\<close>.\<close>

theorem canonicalize_idempotent_witness:
  "canonicalizeRepositoryRelativePath [115, 47, 47, 46, 47, 109] Posix = Inr [115, 47, 109] \<and>
   canonicalizeRepositoryRelativePath [115, 47, 109] Posix = Inr [115, 47, 109]"
proof -
  have c: "canonicalizeRepositoryRelativePath [115, 47, 47, 46, 47, 109] Posix = Inr [115, 47, 109]"
    by (simp add: path_eval)
  show ?thesis using c canonicalize_idempotent [OF c] by (simp add: unit_class)
qed

text \<open>
  The exception of the previous property is real: in both grammars \<open>./C:/x\<close> is accepted and becomes
  \<open>C:/x\<close>, a drive-rooted Windows path that the canonical form excludes and that
  \<open>isRepositoryRelativePath\<close> rejects.
\<close>

theorem canonicalize_drive_escape:
  "canonicalizeRepositoryRelativePath (js ''./C:/x'') f = Inr (js ''C:/x'') \<and>
   \<not> isRepositoryRelativePath (js ''C:/x'') \<and> isFullyQualifiedWindowsPath (js ''C:/x'')"
  by (cases f) (simp_all add: path_eval)

text \<open>
  C25. A canonical path survives the way to an absolute POSIX path and back: for a root that the
  validation accepts and that holds no backslash, both conversions succeed and return the path they
  started from. The condition on backslashes is needed: \<open>/x/../\?/y\<close> is accepted as a root, but
  normalises to the device path \<open>/\?/y\<close>, which is refused as a target.
\<close>

theorem posix_absolute_roundtrip:
  assumes root: "validateFullyQualified root Posix RoleRoot = None" "BACKSLASH \<notin> set root"
    and p: "isRepositoryRelativePath p"
  shows "\<exists>target. repositoryRelativePathToAbsolute win32 root p Posix = Inr target \<and>
    repositoryRelativePathFromAbsolute win32 root target Posix = Inr p"
proof -
  obtain N where N: "\<forall>q\<in>set N. proper_segment q \<and> safe_text q \<and> SLASH \<notin> set q \<and> BACKSLASH \<notin> set q"
    and nr: "posix_normalize root = SLASH # join_with SLASH N \<or>
      posix_normalize root = SLASH # join_with SLASH N @ [SLASH]"
    and segs: "root_segments (posix_normalize root) = N"
    and segs2: "root_segments (posix_normalize (posix_normalize root)) = N"
    using normalized_root [OF root] .
  have canon: "canonicalizeRepositoryRelativePath p Posix = Inr p"
    using p by (auto simp: isRepositoryRelativePath_def split: sum.splits)
  show ?thesis
  proof (cases "p = REPOSITORY_ROOT")
    case True
    have "repositoryRelativePathToAbsolute win32 root p Posix = Inr (posix_normalize root)"
      using root canon True by (simp add: repositoryRelativePathToAbsolute_def path_posix_def)
    moreover have "validateFullyQualified (posix_normalize root) Posix RoleTarget = None"
      using nr absolute_target_valid [of N] N by auto
    moreover have "posix_relative (posix_normalize root) (posix_normalize (posix_normalize root)) = []"
      using posix_relative_below [OF segs, of _ "[]"] segs2 by simp
    ultimately show ?thesis
      using True root by (simp add: repositoryRelativePathFromAbsolute_def path_posix_def Let_def
          posix_isAbsolute_def canonicalize_empty)
  next
    case False
    with p have clean: "clean_path p" by (simp add: isRepositoryRelativePath_cases)
    let ?qs = "N @ split_on SLASH p"
    have qs: "\<forall>q\<in>set ?qs. proper_segment q \<and> safe_text q \<and> SLASH \<notin> set q \<and> BACKSLASH \<notin> set q"
      using N clean split_on_parts split_on_units [of SLASH p] safe_text_split_on
      by (auto simp: clean_path_def)
    let ?target = "SLASH # join_with SLASH ?qs"
    have "repositoryRelativePathToAbsolute win32 root p Posix = Inr ?target"
      using root canon False toAbsolute_below [of N p "posix_normalize root"] N clean nr
      by (simp add: repositoryRelativePathToAbsolute_def path_posix_def)
    moreover have "posix_relative (posix_normalize root) (posix_normalize ?target) = p"
      using posix_relative_below [OF segs, of ?target "split_on SLASH p"]
        posix_normalize_slash_join [of ?qs] root_segments_slash_join(1) [of ?qs] qs by simp
    ultimately show ?thesis
      using root canon absolute_target_valid(1) [OF qs] clean_not_climbing [OF clean]
      by (simp add: repositoryRelativePathFromAbsolute_def path_posix_def Let_def)
  qed
qed

text \<open>The root \<open>/r/\<close> and the path \<open>a/b\<close>.\<close>

theorem posix_absolute_roundtrip_witness:
  "\<exists>target. repositoryRelativePathToAbsolute path_posix [47, 114, 47] [97, 47, 98] Posix = Inr target \<and>
    repositoryRelativePathFromAbsolute path_posix [47, 114, 47] target Posix = Inr [97, 47, 98]"
  by (rule posix_absolute_roundtrip) (simp_all add: path_eval validateFullyQualified_def)

end
