(* ===== verification/Output_Text.thy ===== *)
theory Output_Text
  imports Repository_Path
begin

text \<open>
  Text that leaves the program: the neutralisation of control characters and the canonical SARIF URI
  of a repository path (\<open>packages/core/src/output-sanitization.ts\<close>), and the preflighted, chunked
  writer of the command line (\<open>packages/cli/src/bounded-output.ts\<close>). The regular-expression redaction
  of \<open>sanitizeOutputText\<close> is not modelled. ECMAScript's \<open>encodeURIComponent\<close> and
  \<open>decodeURIComponent\<close> are written out; a thrown \<open>URIError\<close> is \<open>None\<close>.
\<close>

subsection \<open>Inert control characters\<close>

definition isBidiControl :: "nat \<Rightarrow> bool" where
  "isBidiControl u \<longleftrightarrow>
     u = 0x061C \<or> u = 0x200E \<or> u = 0x200F \<or> (0x202A \<le> u \<and> u \<le> 0x202E) \<or> (0x2066 \<le> u \<and> u \<le> 0x2069)"

abbreviation REPLACEMENT :: nat where "REPLACEMENT \<equiv> 0xFFFD"

text \<open>The inner loop over a CSI sequence: the text after its final \<open>m\<close>, if it is a complete SGR sequence.\<close>

fun sgr_rest :: "jstring \<Rightarrow> jstring option" where
  "sgr_rest [] = None"
| "sgr_rest (c # cs) =
     (if c = 0x6D then Some cs
      else if \<not> ((0x30 \<le> c \<and> c \<le> 0x39) \<or> c = 0x3B) then None
      else sgr_rest cs)"

lemma sgr_rest_shorter [termination_simp]: "sgr_rest s = Some r \<Longrightarrow> length r < Suc (Suc (length s))"
  by (induction s arbitrary: r) (auto split: if_splits simp: less_SucI)

text \<open>What the escape branch consumes: a complete SGR sequence, or the escape alone.\<close>

definition sgr_after_escape :: "jstring \<Rightarrow> jstring option" where
  "sgr_after_escape us = (case us of [] \<Rightarrow> None | c # cs \<Rightarrow> if c = 0x5B then sgr_rest cs else None)"

lemma sgr_after_escape_shorter [termination_simp]:
  "sgr_after_escape s = Some r \<Longrightarrow> length r < Suc (length s)"
  using sgr_rest_shorter by (fastforce simp: sgr_after_escape_def split: list.splits if_splits)

fun inertControls :: "jstring \<Rightarrow> jstring" where
  "inertControls [] = []"
| "inertControls (u # us) =
     (if u = 0x1B then
        (case sgr_after_escape us of
           Some rest \<Rightarrow> inertControls rest
         | None \<Rightarrow> REPLACEMENT # inertControls us)
      else if u \<le> 0x1F \<or> (0x7F \<le> u \<and> u \<le> 0x9F) \<or> isBidiControl u then REPLACEMENT # inertControls us
      else u # inertControls us)"

subsection \<open>URI encoding\<close>

definition is_unreserved_mark :: "nat \<Rightarrow> bool" where
  "is_unreserved_mark u \<longleftrightarrow> u \<in> {0x2D, 0x5F, 0x2E, 0x21, 0x7E, 0x2A, 0x27, 0x28, 0x29}"

definition hex_digit :: "nat \<Rightarrow> nat" where
  "hex_digit d = (if d < 10 then 0x30 + d else 0x41 + (d - 10))"

definition percent :: "nat \<Rightarrow> jstring" where
  "percent b = [0x25, hex_digit (b div 16), hex_digit (b mod 16)]"

definition encode_scalar :: "nat \<Rightarrow> jstring" where
  "encode_scalar c =
     (if is_ascii_letter c \<or> is_ascii_digit c \<or> is_unreserved_mark c then [c]
      else concat (map percent (utf8_scalar c)))"

definition encodeURIComponent :: "jstring \<Rightarrow> jstring option" where
  "encodeURIComponent s =
     (if hasWellFormedUnicode s then Some (concat (map encode_scalar (scalars s))) else None)"

definition encodeSegment :: "jstring \<Rightarrow> jstring option" where
  "encodeSegment segment =
     map_option (\<lambda>e. concat (map (\<lambda>c. if c \<in> {0x21, 0x27, 0x28, 0x29, 0x2A} then percent c else [c]) e))
       (encodeURIComponent segment)"

text \<open>\<open>segments.map(encodeSegment)\<close>: the first throw ends the map.\<close>

fun encodeSegments :: "jstring list \<Rightarrow> jstring list option" where
  "encodeSegments [] = Some []"
| "encodeSegments (p # ps) =
     (case encodeSegment p of
        None \<Rightarrow> None
      | Some e \<Rightarrow> map_option (\<lambda>es. e # es) (encodeSegments ps))"

definition encodeSarifArtifactUri :: "jstring \<Rightarrow> jstring option" where
  "encodeSarifArtifactUri path =
     (if \<not> isRepositoryRelativePath path then None
      else map_option (join_with SLASH) (encodeSegments (split_on SLASH path)))"

subsection \<open>URI decoding\<close>

definition hex_value :: "nat \<Rightarrow> nat option" where
  "hex_value u =
     (if 0x30 \<le> u \<and> u \<le> 0x39 then Some (u - 0x30)
      else if 0x41 \<le> u \<and> u \<le> 0x46 then Some (u - 0x41 + 10)
      else if 0x61 \<le> u \<and> u \<le> 0x66 then Some (u - 0x61 + 10)
      else None)"

text \<open>The octets \<open>%XY\<close> at the front of the text, exactly \<open>n\<close> of them.\<close>

fun percent_octets :: "nat \<Rightarrow> jstring \<Rightarrow> (nat list \<times> jstring) option" where
  "percent_octets 0 s = Some ([], s)"
| "percent_octets (Suc n) (p # a # b # s) =
     (if p \<noteq> 0x25 then None
      else (case (hex_value a, hex_value b) of
              (Some x, Some y) \<Rightarrow> map_option (\<lambda>(os, r). ((16 * x + y) # os, r)) (percent_octets n s)
            | _ \<Rightarrow> None))"
| "percent_octets (Suc n) s = None"

definition is_continuation :: "nat \<Rightarrow> bool" where
  "is_continuation b \<longleftrightarrow> 0x80 \<le> b \<and> b \<le> 0xBF"

definition sequence_length :: "nat \<Rightarrow> nat option" where
  "sequence_length b =
     (if b < 0x80 then Some 1 else if b < 0xC0 then None else if b < 0xE0 then Some 2
      else if b < 0xF0 then Some 3 else if b < 0xF8 then Some 4 else None)"

text \<open>A valid UTF-8 sequence: not overlong, no surrogate, at most U+10FFFF.\<close>

fun decode_octets :: "nat list \<Rightarrow> nat option" where
  "decode_octets [a] = Some a"
| "decode_octets [a, b] =
     (let c = (a - 0xC0) * 64 + (b - 0x80)
      in if is_continuation b \<and> 0x80 \<le> c then Some c else None)"
| "decode_octets [a, b, d] =
     (let c = (a - 0xE0) * 4096 + (b - 0x80) * 64 + (d - 0x80)
      in if is_continuation b \<and> is_continuation d \<and> 0x800 \<le> c \<and> \<not> is_high c \<and> \<not> is_low c
         then Some c else None)"
| "decode_octets [a, b, d, e] =
     (let c = (a - 0xF0) * 262144 + (b - 0x80) * 4096 + (d - 0x80) * 64 + (e - 0x80)
      in if is_continuation b \<and> is_continuation d \<and> is_continuation e \<and> 0x10000 \<le> c \<and> c \<le> 0x10FFFF
         then Some c else None)"
| "decode_octets _ = None"

definition utf16_units :: "nat \<Rightarrow> jstring" where
  "utf16_units c =
     (if c \<le> 0xFFFF then [c] else [0xD800 + (c - 0x10000) div 1024, 0xDC00 + (c - 0x10000) mod 1024])"

text \<open>One step of \<open>decodeURIComponent\<close> at a percent sign: the decoded units and the rest of the text.\<close>

definition decode_percent :: "jstring \<Rightarrow> (jstring \<times> jstring) option" where
  "decode_percent s =
     (case percent_octets 1 s of
        Some ([b], _) \<Rightarrow>
          (case sequence_length b of
             None \<Rightarrow> None
           | Some n \<Rightarrow>
               (case percent_octets n s of
                  None \<Rightarrow> None
                | Some (os, r) \<Rightarrow> map_option (\<lambda>c. (utf16_units c, r)) (decode_octets os)))
      | _ \<Rightarrow> None)"

lemma percent_octets_length: "percent_octets n s = Some (os, r) \<Longrightarrow> length s = length r + 3 * n"
  by (induction n s arbitrary: os r rule: percent_octets.induct)
    (auto split: option.splits if_splits)

lemma decode_percent_shorter [termination_simp]:
  "decode_percent s = Some (us, r) \<Longrightarrow> length r < length s"
  by (auto simp: decode_percent_def sequence_length_def dest!: percent_octets_length
      split: option.splits list.splits if_splits)

function decodeURIComponent :: "jstring \<Rightarrow> jstring option" where
  "decodeURIComponent [] = Some []"
| "decodeURIComponent (u # us) =
     (if u = 0x25 then
        (case decode_percent (u # us) of
           None \<Rightarrow> None
         | Some (vs, r) \<Rightarrow> map_option (\<lambda>rest. vs @ rest) (decodeURIComponent r))
      else map_option (\<lambda>rest. u # rest) (decodeURIComponent us))"
  by pat_completeness auto
termination
  by (relation "measure length") (auto dest: decode_percent_shorter)

text \<open>The regular expression of \<open>decodeSarifArtifactUri\<close>: non-empty segments of unreserved units and upper-case escapes.\<close>

definition is_uri_unit :: "nat \<Rightarrow> bool" where
  "is_uri_unit u \<longleftrightarrow> is_ascii_letter u \<or> is_ascii_digit u \<or> u \<in> {0x2E, 0x5F, 0x7E, 0x2D}"

definition is_upper_hex :: "nat \<Rightarrow> bool" where
  "is_upper_hex u \<longleftrightarrow> is_ascii_digit u \<or> (0x41 \<le> u \<and> u \<le> 0x46)"

fun uri_segment_units :: "jstring \<Rightarrow> bool" where
  "uri_segment_units [] = True"
| "uri_segment_units (u # us) =
     (if u = 0x25 then (case us of a # b # r \<Rightarrow> is_upper_hex a \<and> is_upper_hex b \<and> uri_segment_units r | _ \<Rightarrow> False)
      else is_uri_unit u \<and> uri_segment_units us)"

definition is_canonical_uri_text :: "jstring \<Rightarrow> bool" where
  "is_canonical_uri_text uri \<longleftrightarrow> list_all (\<lambda>p. p \<noteq> [] \<and> uri_segment_units p) (split_on SLASH uri)"

definition decodeSarifArtifactUri :: "jstring \<Rightarrow> jstring option" where
  "decodeSarifArtifactUri uri =
     (if uri = [] \<or> includesStr uri [QUESTION] \<or> includesStr uri [0x23] \<or> \<not> is_canonical_uri_text uri then None
      else (case decodeURIComponent uri of
              None \<Rightarrow> None
            | Some decoded \<Rightarrow> if encodeSarifArtifactUri decoded = Some uri then Some decoded else None))"

subsection \<open>Bounded output\<close>

datatype output_error = UnpairedSurrogate | AggregateLimit

definition maximumOutputBytes :: nat where
  "maximumOutputBytes = 64 * 1024 * 1024"

definition maximumOutputChunkBytes :: nat where
  "maximumOutputChunkBytes = 1024 * 1024"

definition scalarByteLength :: "nat \<Rightarrow> nat" where
  "scalarByteLength codePoint =
     (if codePoint \<le> 0x7F then 1 else if codePoint \<le> 0x7FF then 2 else if codePoint \<le> 0xFFFF then 3 else 4)"

text \<open>The code point at the front of the text, its width in units and the text after it.\<close>

fun nextScalar :: "jstring \<Rightarrow> output_error + nat \<times> nat \<times> jstring" where
  "nextScalar [] = Inl UnpairedSurrogate"
| "nextScalar (first # rest) =
     (if is_high first then
        (case rest of
           [] \<Rightarrow> Inl UnpairedSurrogate
         | second # rest' \<Rightarrow>
             if \<not> is_low second then Inl UnpairedSurrogate
             else Inr (pair_code_point first second, 2, rest'))
      else if is_low first then Inl UnpairedSurrogate
      else Inr (first, 1, rest))"

lemma nextScalar_shorter: "nextScalar s = Inr (c, w, r) \<Longrightarrow> length r < length s"
  by (cases s) (auto split: if_splits list.splits)

text \<open>
  The preflight loop on the text that remains at position \<open>index\<close>: the boundaries it still pushes,
  the final \<open>text.length\<close> included.
\<close>

function outputBoundaries :: "jstring \<Rightarrow> nat \<Rightarrow> nat \<Rightarrow> nat \<Rightarrow> output_error + nat list" where
  "outputBoundaries remaining index chunkBytes totalBytes =
     (if remaining = [] then Inr [index]
      else (case nextScalar remaining of
              Inl e \<Rightarrow> Inl e
            | Inr (codePoint, width, rest) \<Rightarrow>
                let bytes = scalarByteLength codePoint;
                    full = (maximumOutputChunkBytes < chunkBytes + bytes);
                    chunkBytes' = (if full then 0 else chunkBytes) + bytes;
                    totalBytes' = totalBytes + bytes
                in if maximumOutputBytes < totalBytes' then Inl AggregateLimit
                   else bindR (outputBoundaries rest (index + width) chunkBytes' totalBytes')
                          (\<lambda>bs. Inr (if full then index # bs else bs))))"
  by pat_completeness auto
termination
  by (relation "measure (\<lambda>(r, i, c, t). length r)") (auto dest: nextScalar_shorter)

declare outputBoundaries.simps [simp del]

text \<open>The second loop: the slices between neighbouring boundaries, empty ones skipped, in write order.\<close>

fun outputChunks :: "jstring \<Rightarrow> nat list \<Rightarrow> jstring list" where
  "outputChunks s (start # stop # bs) =
     (if start = stop then outputChunks s (stop # bs)
      else take (stop - start) (drop start s) # outputChunks s (stop # bs))"
| "outputChunks s _ = []"

text \<open>The chunks handed to \<open>write\<close>, in order, when every write succeeds.\<close>

definition writeBoundedOutput :: "jstring \<Rightarrow> output_error + jstring list" where
  "writeBoundedOutput s = bindR (outputBoundaries s 0 0 0) (\<lambda>bs. Inr (outputChunks s (0 # bs)))"

subsection \<open>Lemmas on inert text\<close>

definition inert_unit :: "nat \<Rightarrow> bool" where
  "inert_unit u \<longleftrightarrow> 0x1F < u \<and> \<not> (0x7F \<le> u \<and> u \<le> 0x9F) \<and> \<not> isBidiControl u"

lemma inertControls_inert: "u \<in> set (inertControls s) \<Longrightarrow> inert_unit u"
  by (induction s rule: inertControls.induct)
    (auto simp: inert_unit_def isBidiControl_def split: if_splits option.splits)

lemma inertControls_id: "\<forall>u\<in>set s. inert_unit u \<Longrightarrow> inertControls s = s"
  by (induction s) (auto simp: inert_unit_def)

subsection \<open>Lemmas on the bounded writer\<close>

lemma nextScalar_Inr:
  "nextScalar s = Inr (c, w, r) \<Longrightarrow>
   \<exists>p. s = p @ r \<and> length p = w \<and> hasWellFormedUnicode p \<and> scalars p = [c] \<and>
       textBytes p = scalarByteLength c \<and> 0 < w"
  by (cases s)
    (auto simp: textBytes_def utf8_def utf8_scalar_def scalarByteLength_def pair_code_point_def unit_class
      split: if_splits list.splits)

lemma nextScalar_Inl: "s \<noteq> [] \<Longrightarrow> nextScalar s = Inl e \<Longrightarrow> e = UnpairedSurrogate \<and> \<not> hasWellFormedUnicode s"
  by (cases s) (auto split: if_splits list.splits)

lemma scalarByteLength_bounds: "0 < scalarByteLength c" "scalarByteLength c \<le> 4"
  by (simp_all add: scalarByteLength_def)

lemma outputChunks_step:
  assumes "s = d @ c @ r"
  shows "outputChunks s (length d # length (d @ c) # bs) =
    (if c = [] then [] else [c]) @ outputChunks s (length (d @ c) # bs)"
  using assms by simp

lemma outputBoundaries_total:
  "outputBoundaries r i cb tb = Inr bs \<Longrightarrow> tb \<le> maximumOutputBytes \<Longrightarrow>
   hasWellFormedUnicode r \<and> tb + textBytes r \<le> maximumOutputBytes"
proof (induction r i cb tb arbitrary: bs rule: outputBoundaries.induct)
  case (1 r i cb tb)
  show ?case
  proof (cases "r = []")
    case False
    with 1 obtain c w rest bs' where n: "nextScalar r = Inr (c, w, rest)"
      and ok: "\<not> maximumOutputBytes < tb + scalarByteLength c"
      and rec: "outputBoundaries rest (i + w)
        ((if maximumOutputChunkBytes < cb + scalarByteLength c then 0 else cb) + scalarByteLength c)
        (tb + scalarByteLength c) = Inr bs'"
      by (subst (asm) (2) outputBoundaries.simps) (auto simp: Let_def result_simps split: sum.splits if_splits)
    obtain p where p: "r = p @ rest" "hasWellFormedUnicode p" "textBytes p = scalarByteLength c"
      using nextScalar_Inr [OF n] by blast
    have "hasWellFormedUnicode rest \<and> tb + scalarByteLength c + textBytes rest \<le> maximumOutputBytes"
      using "1.IH" [OF False n refl refl refl refl refl refl] ok rec by simp
    with p show ?thesis by (simp add: textBytes_append hasWellFormedUnicode_append)
  qed (use 1 in simp)
qed

definition good_chunk :: "jstring \<Rightarrow> bool" where
  "good_chunk c \<longleftrightarrow> c \<noteq> [] \<and> hasWellFormedUnicode c \<and> textBytes c \<le> maximumOutputChunkBytes"

lemma outputBoundaries_chunks:
  "outputBoundaries r i cb tb = Inr bs \<Longrightarrow> s = d @ c @ r \<Longrightarrow> i = length (d @ c) \<Longrightarrow>
   hasWellFormedUnicode c \<Longrightarrow> textBytes c = cb \<Longrightarrow> cb \<le> maximumOutputChunkBytes \<Longrightarrow>
   concat (outputChunks s (length d # bs)) = c @ r \<and> list_all good_chunk (outputChunks s (length d # bs))"
proof (induction r i cb tb arbitrary: bs d c rule: outputBoundaries.induct)
  case (1 r i cb tb)
  have c: "c = [] \<or> good_chunk c" using "1.prems" by (simp add: good_chunk_def)
  show ?case
  proof (cases "r = []")
    case True
    with "1.prems"(1) have "bs = [i]" by (subst (asm) outputBoundaries.simps) simp
    with "1.prems" True c show ?thesis by auto
  next
    case False
    with "1.prems"(1) obtain cp w rest bs' where n: "nextScalar r = Inr (cp, w, rest)"
      and ok: "\<not> maximumOutputBytes < tb + scalarByteLength cp"
      and rec: "outputBoundaries rest (i + w)
        ((if maximumOutputChunkBytes < cb + scalarByteLength cp then 0 else cb) + scalarByteLength cp)
        (tb + scalarByteLength cp) = Inr bs'"
      and bs: "bs = (if maximumOutputChunkBytes < cb + scalarByteLength cp then i # bs' else bs')"
      by (subst (asm) outputBoundaries.simps) (auto simp: Let_def result_simps split: sum.splits if_splits)
    obtain p where p: "r = p @ rest" "length p = w" "hasWellFormedUnicode p" "textBytes p = scalarByteLength cp"
      using nextScalar_Inr [OF n] by blast
    note IH = "1.IH" [OF False n refl refl refl refl refl refl ok rec]
    show ?thesis
    proof (cases "maximumOutputChunkBytes < cb + scalarByteLength cp")
      case True
      have "concat (outputChunks s (length (d @ c) # bs')) = p @ rest \<and>
          list_all good_chunk (outputChunks s (length (d @ c) # bs'))"
        using True "1.prems" p scalarByteLength_bounds [of cp]
        by (intro IH) (auto simp: maximumOutputChunkBytes_def)
      moreover have "outputChunks s (length d # bs) =
          (if c = [] then [] else [c]) @ outputChunks s (length (d @ c) # bs')"
        using True bs "1.prems"(2,3) outputChunks_step [of s d c r bs'] by simp
      ultimately show ?thesis using p c by auto
    next
      case small: False
      have "concat (outputChunks s (length d # bs')) = (c @ p) @ rest \<and>
          list_all good_chunk (outputChunks s (length d # bs'))"
        using small "1.prems" p
        by (intro IH) (auto simp: textBytes_append hasWellFormedUnicode_append)
      with p bs small show ?thesis by simp
    qed
  qed
qed

lemma outputBoundaries_error:
  "outputBoundaries r i cb tb = Inl e \<Longrightarrow>
   (e = UnpairedSurrogate \<and> \<not> hasWellFormedUnicode r) \<or>
   (e = AggregateLimit \<and> maximumOutputBytes < tb + textBytes r)"
proof (induction r i cb tb rule: outputBoundaries.induct)
  case (1 r i cb tb)
  from "1.prems" have ne: "r \<noteq> []" by (auto simp: outputBoundaries.simps)
  show ?case
  proof (cases "nextScalar r")
    case (Inl d)
    with "1.prems" ne have "e = d" by (subst (asm) outputBoundaries.simps) simp
    with nextScalar_Inl [OF ne Inl] show ?thesis by simp
  next
    case (Inr x)
    obtain cp w rest where n: "nextScalar r = Inr (cp, w, rest)" using Inr by (cases x) auto
    obtain p where p: "r = p @ rest" "hasWellFormedUnicode p" "textBytes p = scalarByteLength cp"
      using nextScalar_Inr [OF n] by blast
    then have r: "textBytes r = scalarByteLength cp + textBytes rest"
      "hasWellFormedUnicode r = hasWellFormedUnicode rest"
      by (simp_all add: textBytes_append hasWellFormedUnicode_append)
    show ?thesis
    proof (cases "maximumOutputBytes < tb + scalarByteLength cp")
      case True
      with "1.prems" ne n have "e = AggregateLimit" by (subst (asm) outputBoundaries.simps) simp
      with True r show ?thesis by simp
    next
      case False
      with "1.prems" ne n have "outputBoundaries rest (i + w)
        ((if maximumOutputChunkBytes < cb + scalarByteLength cp then 0 else cb) + scalarByteLength cp)
        (tb + scalarByteLength cp) = Inl e"
        by (subst (asm) outputBoundaries.simps) (auto simp: Let_def result_simps)
      from "1.IH" [OF ne n refl refl refl refl refl refl False this] r show ?thesis by auto
    qed
  qed
qed

subsection \<open>Lemmas on URI encoding\<close>

text \<open>What the two encoding passes make of one code point.\<close>

definition encode_char :: "nat \<Rightarrow> jstring" where
  "encode_char c = (if is_uri_unit c then [c] else concat (map percent (utf8_scalar c)))"

lemma utf8_scalar_bytes: "is_scalar_value c \<Longrightarrow> b \<in> set (utf8_scalar c) \<Longrightarrow> b < 256"
  by (auto simp: utf8_scalar_def is_scalar_value_def split: if_splits)

lemma hex_value_digit [simp]: "d < 16 \<Longrightarrow> hex_value (hex_digit d) = Some d"
  by (auto simp: hex_value_def hex_digit_def)

lemma is_upper_hex_digit [simp]: "d < 16 \<Longrightarrow> is_upper_hex (hex_digit d)"
  by (auto simp: is_upper_hex_def hex_digit_def unit_class)

lemma percent_octets_percent:
  "\<forall>b\<in>set bs. b < 256 \<Longrightarrow> percent_octets (length bs) (concat (map percent bs) @ r) = Some (bs, r)"
  by (induction bs) (auto simp: percent_def)

lemma utf8_decode:
  assumes "is_scalar_value c"
  shows "sequence_length (hd (utf8_scalar c)) = Some (length (utf8_scalar c))"
    and "decode_octets (utf8_scalar c) = Some c"
proof -
  have "c div 4096 = c div 64 div 64" "c div 262144 = c div 4096 div 64"
    by (simp_all add: div_mult2_eq [symmetric])
  then have d: "c div 64 * 64 + c mod 64 = c" "c div 4096 * 64 + c div 64 mod 64 = c div 64"
    "c div 262144 * 64 + c div 4096 mod 64 = c div 4096"
    by (simp_all add: div_mult_mod_eq)
  have "c \<le> 0x10FFFF" using assms by (simp add: is_scalar_value_def)
  then show "sequence_length (hd (utf8_scalar c)) = Some (length (utf8_scalar c))"
    using assms by (auto simp: utf8_scalar_def sequence_length_def is_scalar_value_def)
  have four: "c div 262144 * 262144 + c div 4096 mod 64 * 4096 + c div 64 mod 64 * 64 + c mod 64 = c"
    and three: "c div 4096 * 4096 + c div 64 mod 64 * 64 + c mod 64 = c" using d by linarith+
  have "c div 4096 mod 64 \<le> 63" using mod_less_divisor [of 64 "c div 4096"] by linarith
  then show "decode_octets (utf8_scalar c) = Some c"
    using assms d(1) three four
    by (auto simp: utf8_scalar_def is_scalar_value_def is_continuation_def Let_def)
qed

lemma decode_percent_scalar:
  assumes "is_scalar_value c"
  shows "decode_percent (concat (map percent (utf8_scalar c)) @ r) = Some (utf16_units c, r)"
proof -
  obtain b bs where b: "utf8_scalar c = b # bs" using length_utf8_scalar(1) [of c] by (cases "utf8_scalar c") auto
  have all: "\<forall>x\<in>set (utf8_scalar c). x < 256" using utf8_scalar_bytes [OF assms] by blast
  have "percent_octets 1 (concat (map percent (utf8_scalar c)) @ r) = Some ([b], concat (map percent bs) @ r)"
    using percent_octets_percent [of "[b]" "concat (map percent bs) @ r"] all b by simp
  then show ?thesis
    using utf8_decode [OF assms] percent_octets_percent [OF all, of r] b by (simp add: decode_percent_def)
qed

lemma decode_encode_char:
  assumes "is_scalar_value c"
  shows "decodeURIComponent (encode_char c @ r) = map_option ((@) (utf16_units c)) (decodeURIComponent r)"
proof (cases "is_uri_unit c")
  case True
  then show ?thesis
    by (auto simp: encode_char_def is_uri_unit_def utf16_units_def unit_class comp_def cong: option.map_cong)
next
  case False
  have "\<exists>s. concat (map percent (utf8_scalar c)) = 0x25 # s"
    by (auto simp: utf8_scalar_def percent_def)
  then obtain s where s: "concat (map percent (utf8_scalar c)) = 0x25 # s" by blast
  with False decode_percent_scalar [OF assms, of r] show ?thesis
    by (simp add: encode_char_def comp_def)
qed

lemma decode_encode_chars:
  "\<forall>c\<in>set cs. is_scalar_value c \<Longrightarrow>
   decodeURIComponent (concat (map encode_char cs) @ r) =
     map_option ((@) (concat (map utf16_units cs))) (decodeURIComponent r)"
proof (induction cs)
  case (Cons c cs)
  then have "decodeURIComponent (encode_char c @ (concat (map encode_char cs) @ r)) =
      map_option ((@) (utf16_units c)) (map_option ((@) (concat (map utf16_units cs))) (decodeURIComponent r))"
    using decode_encode_char by simp
  then show ?case by (simp add: option.map_comp comp_def)
qed (simp add: option.map_ident cong: option.map_cong)

lemma utf16_units_pair:
  assumes "is_high h" "is_low l"
  shows "utf16_units (pair_code_point h l) = [h, l]"
proof -
  obtain x where x: "h = 0xD800 + x" using assms by (metis is_high_def le_Suc_ex)
  obtain y where y: "l = 0xDC00 + y" "y < 1024"
    using assms le_Suc_ex [of "0xDC00" l] by (auto simp: is_low_def)
  have "(x * 1024 + y) div 1024 = x" "(x * 1024 + y) mod 1024 = y" using y by simp_all
  with x y show ?thesis by (simp add: utf16_units_def pair_code_point_def)
qed

lemma utf16_scalars:
  "hasWellFormedUnicode s \<Longrightarrow> is_jstring s \<Longrightarrow> concat (map utf16_units (scalars s)) = s"
proof (induction s rule: hasWellFormedUnicode.induct)
  case (2 u us)
  then show ?case
    by (cases "is_high u"; cases us)
      (auto simp: is_jstring_def utf16_units_pair, simp_all add: utf16_units_def)
qed simp

lemma encodeSegment_chars:
  assumes "hasWellFormedUnicode p" "is_jstring p"
  shows "encodeSegment p = Some (concat (map encode_char (scalars p)))"
proof -
  let ?f = "\<lambda>c. if c \<in> {0x21, 0x27, 0x28, 0x29, 0x2A} then percent c else [c]"
  have pct: "concat (map ?f (percent b)) = percent b" if "b < 256" for b
  proof -
    have "hex_digit d \<notin> {0x21, 0x27, 0x28, 0x29, 0x2A}" if "d < 16" for d
      using that by (auto simp: hex_digit_def)
    with that show ?thesis by (simp add: percent_def)
  qed
  have pcts: "\<forall>b\<in>set bs. b < 256 \<Longrightarrow> concat (map ?f (concat (map percent bs))) = concat (map percent bs)" for bs
    by (induction bs) (simp_all add: pct del: insert_iff)
  have one: "concat (map ?f (encode_scalar c)) = encode_char c" if "is_scalar_value c" for c
  proof (cases "is_ascii_letter c \<or> is_ascii_digit c \<or> is_unreserved_mark c")
    case True
    then show ?thesis
      by (auto simp: encode_scalar_def encode_char_def is_uri_unit_def is_unreserved_mark_def utf8_scalar_def unit_class)
  next
    case False
    then have "\<not> is_uri_unit c" by (auto simp: is_uri_unit_def is_unreserved_mark_def)
    with False pcts [of "utf8_scalar c"] utf8_scalar_bytes [OF that] show ?thesis
      by (simp add: encode_scalar_def encode_char_def)
  qed
  have "concat (map ?f (concat (map encode_scalar cs))) = concat (map encode_char cs)"
    if "\<forall>c\<in>set cs. is_scalar_value c" for cs
    using that by (induction cs) (simp_all add: one del: insert_iff)
  then show ?thesis
    using assms scalars_scalar_value [OF assms] by (simp add: encodeSegment_def encodeURIComponent_def del: insert_iff)
qed

lemma uri_segment_units_percents:
  "\<forall>b\<in>set bs. b < 256 \<Longrightarrow> uri_segment_units (concat (map percent bs) @ r) = uri_segment_units r"
  by (induction bs) (auto simp: percent_def)

lemma uri_segment_units_chars:
  "\<forall>c\<in>set cs. is_scalar_value c \<Longrightarrow> uri_segment_units (concat (map encode_char cs))"
proof (induction cs)
  case (Cons c cs)
  have "uri_segment_units (encode_char c @ r) = uri_segment_units r" for r
    using uri_segment_units_percents [of "utf8_scalar c" r] utf8_scalar_bytes [of c] Cons.prems
    by (auto simp: encode_char_def is_uri_unit_def unit_class)
  with Cons show ?case by simp
qed simp

lemma uri_segment_units_set: "uri_segment_units s \<Longrightarrow> u \<in> set s \<Longrightarrow> u = 0x25 \<or> is_uri_unit u"
proof (induction s rule: uri_segment_units.induct)
  case (2 v vs)
  then show ?case
    by (auto simp: is_upper_hex_def is_uri_unit_def unit_class split: if_splits list.splits)
qed simp

lemma is_jstring_split: "is_jstring s \<Longrightarrow> p \<in> set (split_on c s) \<Longrightarrow> is_jstring p"
  using split_on_units [of c s] by (force simp: is_jstring_def list_all_iff)

lemma encodeSegments_map:
  "\<forall>p\<in>set ps. hasWellFormedUnicode p \<and> is_jstring p \<Longrightarrow>
   encodeSegments ps = Some (map (\<lambda>p. concat (map encode_char (scalars p))) ps)"
  by (induction ps) (auto simp: encodeSegment_chars)

lemma decode_joined:
  "ps \<noteq> [] \<Longrightarrow> \<forall>p\<in>set ps. hasWellFormedUnicode p \<and> is_jstring p \<Longrightarrow>
   decodeURIComponent (join_with SLASH (map (\<lambda>p. concat (map encode_char (scalars p))) ps)) =
     Some (join_with SLASH ps)"
proof (induction "SLASH" ps rule: join_with.induct)
  case (2 p)
  then show ?case
    using decode_encode_chars [of "scalars p" "[]"] scalars_scalar_value utf16_scalars by auto
next
  case (3 p q ps)
  then show ?case
    using decode_encode_chars [of "scalars p" "SLASH # r" for r] scalars_scalar_value [of p] utf16_scalars [of p]
    by simp
qed simp

lemma canonical_path_segments:
  assumes "isRepositoryRelativePath path" "is_jstring path" "p \<in> set (split_on SLASH path)"
  shows "hasWellFormedUnicode p \<and> is_jstring p \<and> p \<noteq> []"
proof -
  have "path = REPOSITORY_ROOT \<or> clean_path path" using assms(1) by (auto simp: isRepositoryRelativePath_cases)
  then have "hasWellFormedUnicode path" "p \<noteq> []"
    using assms(3) by (auto simp: REPOSITORY_ROOT_def clean_path_def safe_text_def proper_segment_def unit_class)
  then show ?thesis
    using assms is_jstring_split hasWellFormedUnicode_split_on [of SLASH path] by (auto simp: unit_class)
qed

lemma encode_char_not_Nil [simp]: "encode_char c \<noteq> []"
  using length_utf8_scalar(1) [of c] by (auto simp: encode_char_def percent_def)

lemma encoded_segment_text:
  assumes "hasWellFormedUnicode p" "is_jstring p" "p \<noteq> []"
  shows "uri_segment_units (concat (map encode_char (scalars p)))"
    and "concat (map encode_char (scalars p)) \<noteq> []"
    and "SLASH \<notin> set (concat (map encode_char (scalars p)))"
    and "QUESTION \<notin> set (concat (map encode_char (scalars p)))"
    and "0x23 \<notin> set (concat (map encode_char (scalars p)))"
proof -
  show u: "uri_segment_units (concat (map encode_char (scalars p)))"
    using scalars_scalar_value [OF assms(1,2)] by (intro uri_segment_units_chars) blast
  show "concat (map encode_char (scalars p)) \<noteq> []"
    using assms(3) by (cases "scalars p") auto
  have "\<not> is_uri_unit v \<and> v \<noteq> 0x25" if "v \<in> {SLASH, QUESTION, 0x23}" for v
    using that by (auto simp: is_uri_unit_def unit_class)
  then show "SLASH \<notin> set (concat (map encode_char (scalars p)))"
    "QUESTION \<notin> set (concat (map encode_char (scalars p)))"
    "0x23 \<notin> set (concat (map encode_char (scalars p)))"
    using uri_segment_units_set [OF u] by blast+
qed

lemma encodeSarif_decodes:
  assumes "isRepositoryRelativePath path" "is_jstring path"
  shows "\<exists>uri. encodeSarifArtifactUri path = Some uri \<and> decodeSarifArtifactUri uri = Some path"
proof -
  let ?ps = "split_on SLASH path"
  let ?es = "map (\<lambda>p. concat (map encode_char (scalars p))) ?ps"
  let ?uri = "join_with SLASH ?es"
  have ps: "\<forall>p\<in>set ?ps. hasWellFormedUnicode p \<and> is_jstring p \<and> p \<noteq> []"
    using canonical_path_segments [OF assms] by blast
  then have enc: "encodeSarifArtifactUri path = Some ?uri"
    using assms(1) encodeSegments_map [of ?ps] by (simp add: encodeSarifArtifactUri_def)
  have split: "split_on SLASH ?uri = ?es"
    using ps encoded_segment_text(3) by (intro split_join_with) (auto simp del: set_concat)
  have "QUESTION \<notin> \<Union> (set ` set ?es)" "0x23 \<notin> \<Union> (set ` set ?es)"
    using ps encoded_segment_text(4,5) by (auto simp del: set_concat)
  then have units: "QUESTION \<notin> set ?uri" "0x23 \<notin> set ?uri"
    using join_with_units [of SLASH ?es] by auto
  have canon: "is_canonical_uri_text ?uri"
    unfolding is_canonical_uri_text_def split using ps encoded_segment_text(1,2) by (simp add: list_all_iff)
  have "?uri \<noteq> []" using canon by (auto simp: is_canonical_uri_text_def)
  then have "decodeSarifArtifactUri ?uri = Some path"
    using units canon enc decode_joined [of ?ps] ps by (simp add: decodeSarifArtifactUri_def)
  with enc show ?thesis by blast
qed

subsection \<open>Properties\<close>

text \<open>
  C34. Neutralised text holds no C0, DEL or C1 control and no bidirectional control, whatever escape
  sequences the input contains; text without such characters passes unchanged, so neutralising twice
  is neutralising once.
\<close>

theorem inertControls_safe:
  "list_all (\<lambda>u. 0x1F < u \<and> \<not> (0x7F \<le> u \<and> u \<le> 0x9F) \<and> \<not> isBidiControl u) (inertControls s) \<and>
   inertControls (inertControls s) = inertControls s"
proof -
  have all: "\<forall>u\<in>set (inertControls s). inert_unit u" using inertControls_inert by blast
  then show ?thesis
    using inertControls_id [OF all] by (simp add: list_all_iff inert_unit_def)
qed

text \<open>
  The writer is all or nothing and loses nothing: on well-formed text of at most
  \<open>maximumOutputBytes\<close> bytes it writes chunks that concatenate to the text, each non-empty, at most
  \<open>maximumOutputChunkBytes\<close> bytes long and cut between code points; on any other text it writes
  nothing and reports the unpaired surrogate or the exceeded limit.
\<close>

theorem writeBoundedOutput_spec:
  "case writeBoundedOutput s of
     Inr chunks \<Rightarrow>
       concat chunks = s \<and> hasWellFormedUnicode s \<and> textBytes s \<le> maximumOutputBytes \<and>
       list_all (\<lambda>c. c \<noteq> [] \<and> hasWellFormedUnicode c \<and> textBytes c \<le> maximumOutputChunkBytes) chunks
   | Inl UnpairedSurrogate \<Rightarrow> \<not> hasWellFormedUnicode s
   | Inl AggregateLimit \<Rightarrow> maximumOutputBytes < textBytes s"
proof (cases "outputBoundaries s 0 0 0")
  case (Inl e)
  from outputBoundaries_error [OF Inl] Inl show ?thesis
    by (auto simp: writeBoundedOutput_def)
next
  case (Inr bs)
  have "concat (outputChunks s (0 # bs)) = s \<and> list_all good_chunk (outputChunks s (0 # bs))"
    using outputBoundaries_chunks [OF Inr, of s "[]" "[]"] by simp
  with outputBoundaries_total [OF Inr] Inr show ?thesis
    by (simp add: writeBoundedOutput_def good_chunk_def list_all_iff)
qed

text \<open>
  C35. The SARIF URI of a path is a faithful name for it: every canonical path has one, and a URI
  decodes to a path exactly when it is the encoding of that path, so no two paths share a URI and no
  non-canonical spelling is accepted.
\<close>

theorem sarif_uri_roundtrip:
  assumes "is_jstring path" "isRepositoryRelativePath path"
  shows "encodeSarifArtifactUri path \<noteq> None \<and>
    (decodeSarifArtifactUri uri = Some path \<longleftrightarrow> encodeSarifArtifactUri path = Some uri)"
proof -
  obtain v where v: "encodeSarifArtifactUri path = Some v" "decodeSarifArtifactUri v = Some path"
    using encodeSarif_decodes assms by blast
  have "decodeSarifArtifactUri uri = Some path \<Longrightarrow> encodeSarifArtifactUri path = Some uri"
    by (auto simp: decodeSarifArtifactUri_def split: if_splits option.splits)
  with v show ?thesis by auto
qed

text \<open>The path \<open>a b\<close>, whose encoding is \<open>a%20b\<close>.\<close>

theorem sarif_uri_roundtrip_witness:
  "decodeSarifArtifactUri [97, 37, 50, 48, 98] = Some [97, 32, 98] \<longleftrightarrow>
   encodeSarifArtifactUri [97, 32, 98] = Some [97, 37, 50, 48, 98]"
  using sarif_uri_roundtrip [of "[97, 32, 98]" "[97, 37, 50, 48, 98]"]
  by (simp add: is_jstring_def path_eval)

end
