(* ===== verification/Activation.thy ===== *)
theory Activation
  imports Repository_Path "HOL-Library.Product_Lexorder"
begin

text \<open>
  The activation algebra (\<open>packages/resolver/src/activation-algebra.ts\<close>): three-valued activation
  results with canonical provenance, their union, intersection, complement and difference, the
  validation of an activation rule and its evaluation for one target path.

  The operations act on typed values, so the checks that a value is a plain closed record or a dense
  array have no counterpart; every check on the contents (texts, limits, conflicts, selector and
  condition rules) is modelled. Node's SHA-256 is the argument \<open>sha\<close>, from the bytes of a text to the
  hexadecimal digest. A callback of the caller is a function that returns a decision or throws
  (\<open>Inl ()\<close>).
\<close>

subsection \<open>Data\<close>

datatype ActivationState = Inactive | Indeterminate | Active

text \<open>The truth order of strong Kleene logic; union is its maximum, intersection its minimum.\<close>

fun stateRank :: "ActivationState \<Rightarrow> nat" where
  "stateRank Inactive = 0"
| "stateRank Indeterminate = 1"
| "stateRank Active = 2"

instantiation ActivationState :: linorder
begin

definition less_eq_ActivationState :: "ActivationState \<Rightarrow> ActivationState \<Rightarrow> bool" where
  "less_eq_ActivationState a b \<longleftrightarrow> stateRank a \<le> stateRank b"

definition less_ActivationState :: "ActivationState \<Rightarrow> ActivationState \<Rightarrow> bool" where
  "less_ActivationState a b \<longleftrightarrow> stateRank a < stateRank b"

instance
proof
  fix a b :: ActivationState
  assume "a \<le> b" "b \<le> a"
  then show "a = b" by (cases a; cases b) (simp_all add: less_eq_ActivationState_def)
qed (auto simp: less_eq_ActivationState_def less_ActivationState_def)

end

datatype ActivationProvenanceKind =
    Always
  | ScopeRoot
  | DirectorySelector
  | GlobSelector
  | ManualFact
  | ConditionalFact
  | UnknownRule
  | CallerFact

datatype ActivationAlgebraErrorCode =
    callbackFailed
  | conflictingProvenance
  | invalidCallback
  | invalidResult
  | invalidRule
  | invalidTargetPath
  | resourceLimit

record ActivationAlgebraLimits =
  maxConditions :: nat
  maxInputTextBytes :: nat
  maxOperands :: nat
  maxProvenanceFacts :: nat
  maxSelectors :: nat
  maxTextBytes :: nat

definition ACTIVATION_ALGEBRA_LIMITS :: ActivationAlgebraLimits where
  "ACTIVATION_ALGEBRA_LIMITS =
     \<lparr>maxConditions = 1024, maxInputTextBytes = 1048576, maxOperands = 4096,
      maxProvenanceFacts = 4096, maxSelectors = 4096, maxTextBytes = 16384\<rparr>"

record ActivationProvenance =
  factKeyOf :: jstring
  factKind :: ActivationProvenanceKind
  observedState :: ActivationState
  description :: jstring

record ActivationResult =
  resultState :: ActivationState
  provenance :: "ActivationProvenance list"

record ActivationFactDecision =
  decisionState :: ActivationState
  reason :: jstring

datatype ActivationKind = KAlways | KDirectoryTree | KGlob | KManual | KConditional | KUnknown

datatype ActivationSelector =
    DirectoryTree jstring
  | Glob jstring "jstring option"

record ActivationRule =
  ruleId :: jstring
  documentId :: jstring
  profileId :: jstring
  surfaceId :: jstring
  specSnapshotId :: jstring
  ruleKind :: ActivationKind
  scopeRoot :: jstring
  includeSelectors :: "ActivationSelector list"
  excludeSelectors :: "ActivationSelector list"
  conditions :: "jstring list"
  unknownReason :: "jstring option"
  evidenceRefs :: "(jstring \<times> jstring option) list"

record GlobActivationRequest =
  gr_ruleId :: jstring
  gr_profileId :: jstring
  gr_surfaceId :: jstring
  gr_scopeRoot :: jstring
  gr_targetPath :: jstring
  gr_pattern :: jstring
  gr_dialectId :: "jstring option"

record ManualActivationRequest =
  mr_ruleId :: jstring
  mr_documentId :: jstring
  mr_profileId :: jstring
  mr_surfaceId :: jstring
  mr_specSnapshotId :: jstring
  mr_targetPath :: jstring
  mr_conditions :: "jstring list"

type_synonym 'r callback = "('r \<Rightarrow> unit + ActivationFactDecision) option"

record ActivationCallbacks =
  matchGlob :: "GlobActivationRequest callback"
  resolveManual :: "ManualActivationRequest callback"
  resolveConditional :: "ManualActivationRequest callback"

type_synonym 'a activation = "ActivationAlgebraErrorCode + 'a"

type_synonym digest = "nat list \<Rightarrow> jstring"

fun stateText :: "ActivationState \<Rightarrow> jstring" where
  "stateText Active = js ''active''"
| "stateText Inactive = js ''inactive''"
| "stateText Indeterminate = js ''indeterminate''"

fun kindText :: "ActivationProvenanceKind \<Rightarrow> jstring" where
  "kindText Always = js ''always''"
| "kindText ScopeRoot = js ''scope-root''"
| "kindText DirectorySelector = js ''directory-selector''"
| "kindText GlobSelector = js ''glob-selector''"
| "kindText ManualFact = js ''manual-fact''"
| "kindText ConditionalFact = js ''conditional-fact''"
| "kindText UnknownRule = js ''unknown-rule''"
| "kindText CallerFact = js ''caller-fact''"

subsection \<open>Texts and keys\<close>

definition assertText :: "jstring \<Rightarrow> ActivationAlgebraErrorCode \<Rightarrow> ActivationAlgebraErrorCode option" where
  "assertText value code =
     (if value = [] then Some code
      else if \<not> hasWellFormedUnicode value then Some code
      else if maxTextBytes ACTIVATION_ALGEBRA_LIMITS < textBytes value then Some resourceLimit
      else None)"

definition lengthPrefixed :: "jstring list \<Rightarrow> jstring" where
  "lengthPrefixed parts = concat (map (\<lambda>part. decimal (textBytes part) @ COLON # part) parts)"

definition factKey :: "digest \<Rightarrow> ActivationProvenanceKind \<Rightarrow> jstring list \<Rightarrow> jstring" where
  "factKey sha kind parts = kindText kind @ COLON # sha (utf8 (lengthPrefixed parts))"

definition ruleIdentityParts :: "ActivationRule \<Rightarrow> jstring list" where
  "ruleIdentityParts rule =
     [ruleId rule, documentId rule, profileId rule, surfaceId rule, specSnapshotId rule]"

definition describeText :: "digest \<Rightarrow> jstring \<Rightarrow> jstring" where
  "describeText sha value =
     (if textBytes value \<le> 1024 then 39 # value @ [39]
      else js ''[sha256:'' @ sha (utf8 value) @ js ''; '' @ decimal (textBytes value) @ js '' bytes]'')"

text \<open>The comparison of \<open>compareFacts\<close> as the order of a key: key, kind, state, description.\<close>

definition factSortKey :: "ActivationProvenance \<Rightarrow> jstring \<times> jstring \<times> jstring \<times> jstring" where
  "factSortKey f = (factKeyOf f, kindText (factKind f), stateText (observedState f), description f)"

definition compareFacts :: "ActivationProvenance \<Rightarrow> ActivationProvenance \<Rightarrow> int" where
  "compareFacts left right =
     (if factSortKey left = factSortKey right then 0
      else if factSortKey left < factSortKey right then -1 else 1)"

subsection \<open>Canonical provenance\<close>

fun normalizeFactsLoop ::
  "ActivationProvenance list \<Rightarrow> ActivationProvenance list \<Rightarrow> nat \<Rightarrow> ActivationProvenance list activation" where
  "normalizeFactsLoop [] byKey inputBytes = Inr byKey"
| "normalizeFactsLoop (fct # facts) byKey inputBytes =
     (case assertText (factKeyOf fct) invalidResult of
        Some e \<Rightarrow> Inl e
      | None \<Rightarrow>
     (case assertText (description fct) invalidResult of
        Some e \<Rightarrow> Inl e
      | None \<Rightarrow>
          let inputBytes' = inputBytes + textBytes (factKeyOf fct) + textBytes (description fct)
          in if maxInputTextBytes ACTIVATION_ALGEBRA_LIMITS < inputBytes' then Inl resourceLimit
             else (case find (\<lambda>prior. factKeyOf prior = factKeyOf fct) byKey of
                     Some prior \<Rightarrow>
                       if factKind prior \<noteq> factKind fct \<or> observedState prior \<noteq> observedState fct \<or>
                          description prior \<noteq> description fct
                       then Inl conflictingProvenance
                       else normalizeFactsLoop facts byKey inputBytes'
                   | None \<Rightarrow> normalizeFactsLoop facts (byKey @ [fct]) inputBytes')))"

definition normalizeFacts :: "ActivationProvenance list \<Rightarrow> ActivationProvenance list activation" where
  "normalizeFacts facts =
     (if maxProvenanceFacts ACTIVATION_ALGEBRA_LIMITS < length facts then Inl resourceLimit
      else bindR (normalizeFactsLoop facts [] 0) (\<lambda>byKey. Inr (sortOn factSortKey byKey)))"

definition makeResult :: "ActivationState \<Rightarrow> ActivationProvenance list \<Rightarrow> ActivationResult activation" where
  "makeResult st facts =
     bindR (normalizeFacts facts) (\<lambda>normal. Inr \<lparr>resultState = st, provenance = normal\<rparr>)"

definition normalizeResult :: "ActivationResult \<Rightarrow> ActivationResult activation" where
  "normalizeResult value = makeResult (resultState value) (provenance value)"

definition proofKey :: "ActivationResult \<Rightarrow> jstring" where
  "proofKey result =
     concat (map (\<lambda>fct. lengthPrefixed
       [factKeyOf fct, kindText (factKind fct), stateText (observedState fct), description fct])
       (provenance result))"

fun leastProofLoop :: "ActivationResult \<Rightarrow> ActivationResult list \<Rightarrow> ActivationResult" where
  "leastProofLoop selected [] = selected"
| "leastProofLoop selected (candidate # candidates) =
     leastProofLoop (if proofKey candidate < proofKey selected then candidate else selected) candidates"

fun leastProof :: "ActivationResult list \<Rightarrow> ActivationResult activation" where
  "leastProof [] = Inl invalidResult"
| "leastProof (first # rest) = Inr (leastProofLoop first rest)"

definition mergeProofs :: "ActivationResult list \<Rightarrow> ActivationProvenance list" where
  "mergeProofs results = concat (map provenance results)"

text \<open>The text bytes of the facts of one operand, added one by one against the limit.\<close>

fun operandBytes :: "ActivationProvenance list \<Rightarrow> nat \<Rightarrow> nat activation" where
  "operandBytes [] provenanceBytes = Inr provenanceBytes"
| "operandBytes (fct # facts) provenanceBytes =
     (let provenanceBytes' = provenanceBytes + textBytes (factKeyOf fct) + textBytes (description fct)
      in if maxInputTextBytes ACTIVATION_ALGEBRA_LIMITS < provenanceBytes' then Inl resourceLimit
         else operandBytes facts provenanceBytes')"

fun normalizeOperandsLoop ::
  "ActivationResult list \<Rightarrow> ActivationResult list \<Rightarrow> ActivationProvenance list \<Rightarrow> nat \<Rightarrow>
   (ActivationResult list \<times> ActivationProvenance list) activation" where
  "normalizeOperandsLoop [] normalized facts provenanceBytes = Inr (normalized, facts)"
| "normalizeOperandsLoop (operand # operands) normalized facts provenanceBytes =
     bindR (normalizeResult operand) (\<lambda>result.
       if maxProvenanceFacts ACTIVATION_ALGEBRA_LIMITS < length facts + length (provenance result)
       then Inl resourceLimit
       else bindR (operandBytes (provenance result) provenanceBytes) (\<lambda>provenanceBytes'.
              normalizeOperandsLoop operands (normalized @ [result]) (facts @ provenance result)
                provenanceBytes'))"

definition normalizeOperands :: "ActivationResult list \<Rightarrow> ActivationResult list activation" where
  "normalizeOperands operands =
     (if maxOperands ACTIVATION_ALGEBRA_LIMITS < length operands then Inl resourceLimit
      else bindR (normalizeOperandsLoop operands [] [] 0) (\<lambda>(normalized, facts).
             bindR (normalizeFacts facts) (\<lambda>_. Inr normalized)))"

subsection \<open>The algebra\<close>

definition activationFact :: "ActivationState \<Rightarrow> jstring \<Rightarrow> jstring \<Rightarrow> ActivationResult activation" where
  "activationFact st key descr =
     (case assertText key invalidResult of
        Some e \<Rightarrow> Inl e
      | None \<Rightarrow>
     (case assertText descr invalidResult of
        Some e \<Rightarrow> Inl e
      | None \<Rightarrow>
          makeResult st
            [\<lparr>factKeyOf = key, factKind = CallerFact, observedState = st, description = descr\<rparr>]))"

definition activationUnion :: "ActivationResult list \<Rightarrow> ActivationResult activation" where
  "activationUnion operands =
     bindR (normalizeOperands operands) (\<lambda>normalized.
       if normalized = [] then makeResult Inactive []
       else let active = filter (\<lambda>operand. resultState operand = Active) normalized
            in if active \<noteq> [] then
                 bindR (leastProof active) (\<lambda>proof_result. makeResult Active (provenance proof_result))
               else makeResult
                      (if list_ex (\<lambda>operand. resultState operand = Indeterminate) normalized
                       then Indeterminate else Inactive)
                      (mergeProofs normalized))"

definition activationIntersection :: "ActivationResult list \<Rightarrow> ActivationResult activation" where
  "activationIntersection operands =
     bindR (normalizeOperands operands) (\<lambda>normalized.
       if normalized = [] then makeResult Active []
       else let inactive = filter (\<lambda>operand. resultState operand = Inactive) normalized
            in if inactive \<noteq> [] then
                 bindR (leastProof inactive) (\<lambda>proof_result. makeResult Inactive (provenance proof_result))
               else makeResult
                      (if list_ex (\<lambda>operand. resultState operand = Indeterminate) normalized
                       then Indeterminate else Active)
                      (mergeProofs normalized))"

definition activationComplement :: "ActivationResult \<Rightarrow> ActivationResult activation" where
  "activationComplement operand =
     bindR (normalizeResult operand) (\<lambda>normalized.
       makeResult
         (if resultState normalized = Active then Inactive
          else if resultState normalized = Inactive then Active else Indeterminate)
         (provenance normalized))"

definition activationDifference :: "ActivationResult \<Rightarrow> ActivationResult \<Rightarrow> ActivationResult activation" where
  "activationDifference left right =
     bindR (activationComplement right) (\<lambda>complement. activationIntersection [left, complement])"

definition atomicResult ::
  "digest \<Rightarrow> ActivationState \<Rightarrow> ActivationProvenanceKind \<Rightarrow> jstring list \<Rightarrow> jstring \<Rightarrow> ActivationResult activation" where
  "atomicResult sha st kind keyParts descr =
     makeResult st
       [\<lparr>factKeyOf = factKey sha kind keyParts, factKind = kind, observedState = st, description = descr\<rparr>]"

subsection \<open>Rule validation\<close>

text \<open>The checks of a list of texts, in order; \<open>None\<close> when all pass.\<close>

fun firstError :: "'e option list \<Rightarrow> 'e option" where
  "firstError [] = None"
| "firstError (Some e # _) = Some e"
| "firstError (None # rest) = firstError rest"

text \<open>The loop over the selectors: the cumulative text bytes, or the first failure.\<close>

fun selectorBytes :: "ActivationSelector list \<Rightarrow> nat \<Rightarrow> nat activation" where
  "selectorBytes [] inputBytes = Inr inputBytes"
| "selectorBytes (selector # selectors) inputBytes =
     bindR
       (case selector of
          DirectoryTree path \<Rightarrow>
            (case assertText path invalidRule of
               Some e \<Rightarrow> Inl e
             | None \<Rightarrow>
                 if isRepositoryRelativePath path then Inr (inputBytes + textBytes path) else Inl invalidRule)
        | Glob pattern dialect \<Rightarrow>
            (case assertText pattern invalidRule of
               Some e \<Rightarrow> Inl e
             | None \<Rightarrow>
                 (case dialect of
                    None \<Rightarrow> Inr (inputBytes + textBytes pattern)
                  | Some d \<Rightarrow>
                      (case assertText d invalidRule of
                         Some e \<Rightarrow> Inl e
                       | None \<Rightarrow> Inr (inputBytes + textBytes pattern + textBytes d)))))
       (\<lambda>inputBytes'.
          if maxInputTextBytes ACTIVATION_ALGEBRA_LIMITS < inputBytes' then Inl resourceLimit
          else selectorBytes selectors inputBytes')"

fun conditionBytes :: "jstring list \<Rightarrow> jstring list \<Rightarrow> nat \<Rightarrow> nat activation" where
  "conditionBytes [] seen inputBytes = Inr inputBytes"
| "conditionBytes (condition # rest) seen inputBytes =
     (case assertText condition invalidRule of
        Some e \<Rightarrow> Inl e
      | None \<Rightarrow>
          if condition \<in> set seen then Inl invalidRule
          else let inputBytes' = inputBytes + textBytes condition
               in if maxInputTextBytes ACTIVATION_ALGEBRA_LIMITS < inputBytes' then Inl resourceLimit
                  else conditionBytes rest (condition # seen) inputBytes')"

fun evidenceBytes :: "(jstring \<times> jstring option) list \<Rightarrow> jstring list \<Rightarrow> nat \<Rightarrow> nat activation" where
  "evidenceBytes [] pairs inputBytes = Inr inputBytes"
| "evidenceBytes ((sourceId, factId) # rest) pairs inputBytes =
     (case firstError [assertText sourceId invalidRule,
                       (case factId of None \<Rightarrow> None | Some f \<Rightarrow> assertText f invalidRule)] of
        Some e \<Rightarrow> Inl e
      | None \<Rightarrow>
          let factText = (case factId of None \<Rightarrow> [] | Some f \<Rightarrow> f);
              evidencePair = lengthPrefixed [sourceId, factText];
              inputBytes' = inputBytes + textBytes sourceId +
                (case factId of None \<Rightarrow> 0 | Some f \<Rightarrow> textBytes f)
          in if evidencePair \<in> set pairs then Inl invalidRule
             else if maxInputTextBytes ACTIVATION_ALGEBRA_LIMITS < inputBytes' then Inl resourceLimit
             else evidenceBytes rest (evidencePair # pairs) inputBytes')"

fun isDirectorySelector :: "ActivationSelector \<Rightarrow> bool" where
  "isDirectorySelector (DirectoryTree _) = True"
| "isDirectorySelector (Glob _ _) = False"

text \<open>The final checks of \<open>assertRule\<close>, which relate the kind to the other fields.\<close>

definition assertRuleKind :: "ActivationRule \<Rightarrow> ActivationAlgebraErrorCode option" where
  "assertRuleKind rule =
     (if ruleKind rule = KAlways \<and> conditions rule \<noteq> [] then Some invalidRule
      else if ruleKind rule = KDirectoryTree \<and> \<not> list_ex isDirectorySelector (includeSelectors rule)
      then Some invalidRule
      else if ruleKind rule = KGlob \<and> \<not> list_ex (\<lambda>s. \<not> isDirectorySelector s) (includeSelectors rule)
      then Some invalidRule
      else if ruleKind rule = KConditional \<and> conditions rule = [] then Some invalidRule
      else if ruleKind rule = KUnknown \<and> unknownReason rule = None then Some invalidRule
      else if ruleKind rule \<noteq> KUnknown \<and> unknownReason rule \<noteq> None then Some invalidRule
      else None)"

definition assertRule :: "ActivationRule \<Rightarrow> unit activation" where
  "assertRule rule =
     (case firstError [assertText (ruleId rule) invalidRule, assertText (documentId rule) invalidRule,
                       assertText (profileId rule) invalidRule, assertText (surfaceId rule) invalidRule,
                       assertText (specSnapshotId rule) invalidRule, assertText (scopeRoot rule) invalidRule] of
        Some e \<Rightarrow> Inl e
      | None \<Rightarrow>
     checkR (isRepositoryRelativePath (scopeRoot rule)) invalidRule
    (checkR (length (includeSelectors rule) \<le> maxSelectors ACTIVATION_ALGEBRA_LIMITS) resourceLimit
    (checkR (length (excludeSelectors rule) \<le> maxSelectors ACTIVATION_ALGEBRA_LIMITS) resourceLimit
    (checkR (length (includeSelectors rule) + length (excludeSelectors rule)
               \<le> maxSelectors ACTIVATION_ALGEBRA_LIMITS) resourceLimit
    (bindR (selectorBytes (includeSelectors rule @ excludeSelectors rule)
              (textBytes (ruleId rule) + textBytes (documentId rule) + textBytes (profileId rule) +
               textBytes (surfaceId rule) + textBytes (specSnapshotId rule) + textBytes (scopeRoot rule)))
       (\<lambda>bytes1.
     checkR (length (conditions rule) \<le> maxConditions ACTIVATION_ALGEBRA_LIMITS) resourceLimit
    (bindR (conditionBytes (conditions rule) [] bytes1) (\<lambda>bytes2.
     (case (case unknownReason rule of None \<Rightarrow> None | Some r \<Rightarrow> assertText r invalidRule) of
        Some e \<Rightarrow> Inl e
      | None \<Rightarrow>
     checkR (length (evidenceRefs rule) \<le> maxSelectors ACTIVATION_ALGEBRA_LIMITS) resourceLimit
    (checkR (evidenceRefs rule \<noteq> []) invalidRule
    (bindR (evidenceBytes (evidenceRefs rule) []
              (bytes2 + (case unknownReason rule of None \<Rightarrow> 0 | Some r \<Rightarrow> textBytes r))) (\<lambda>bytes3.
     (case assertRuleKind rule of
        Some e \<Rightarrow> Inl e
      | None \<Rightarrow>
     checkR (bytes3 \<le> maxInputTextBytes ACTIVATION_ALGEBRA_LIMITS) resourceLimit (Inr ()))))))))))))))"

subsection \<open>Rule evaluation\<close>

definition normalizeDecision :: "ActivationFactDecision \<Rightarrow> ActivationFactDecision activation" where
  "normalizeDecision value =
     (case assertText (reason value) invalidCallback of Some e \<Rightarrow> Inl e | None \<Rightarrow> Inr value)"

definition invokeCallback :: "'r callback \<Rightarrow> 'r \<Rightarrow> jstring \<Rightarrow> ActivationFactDecision activation" where
  "invokeCallback callback request missingReason =
     (case callback of
        None \<Rightarrow> Inr \<lparr>decisionState = Indeterminate, reason = missingReason\<rparr>
      | Some f \<Rightarrow>
          (case f request of Inl _ \<Rightarrow> Inl callbackFailed | Inr result \<Rightarrow> normalizeDecision result))"

definition isWithinDirectory :: "jstring \<Rightarrow> jstring \<Rightarrow> bool" where
  "isWithinDirectory targetPath directory \<longleftrightarrow>
     directory = REPOSITORY_ROOT \<or> targetPath = directory \<or> startsWith targetPath (directory @ [SLASH])"

definition dialectText :: "jstring option \<Rightarrow> jstring" where
  "dialectText dialect = (case dialect of None \<Rightarrow> [] | Some d \<Rightarrow> d)"

fun selectorKey :: "digest \<Rightarrow> ActivationSelector \<Rightarrow> jstring" where
  "selectorKey sha (DirectoryTree path) = factKey sha DirectorySelector [path]"
| "selectorKey sha (Glob pattern dialect) = factKey sha GlobSelector [dialectText dialect, pattern]"

definition insideText :: "bool \<Rightarrow> jstring" where
  "insideText inside = (if inside then js ''inside'' else js ''outside'')"

definition globRequest :: "ActivationRule \<Rightarrow> jstring \<Rightarrow> jstring \<Rightarrow> jstring option \<Rightarrow> GlobActivationRequest" where
  "globRequest rule targetPath pattern dialect =
     \<lparr>gr_ruleId = ruleId rule, gr_profileId = profileId rule, gr_surfaceId = surfaceId rule,
      gr_scopeRoot = scopeRoot rule, gr_targetPath = targetPath, gr_pattern = pattern,
      gr_dialectId = dialect\<rparr>"

definition manualRequest :: "ActivationRule \<Rightarrow> jstring \<Rightarrow> ManualActivationRequest" where
  "manualRequest rule targetPath =
     \<lparr>mr_ruleId = ruleId rule, mr_documentId = documentId rule, mr_profileId = profileId rule,
      mr_surfaceId = surfaceId rule, mr_specSnapshotId = specSnapshotId rule,
      mr_targetPath = targetPath, mr_conditions = conditions rule\<rparr>"

type_synonym glob_memo = "(jstring \<times> ActivationResult) list"

text \<open>One selector: the directory test, or the memoised answer of the glob callback.\<close>

fun selectorResult ::
  "digest \<Rightarrow> ActivationRule \<Rightarrow> jstring \<Rightarrow> ActivationCallbacks \<Rightarrow> ActivationSelector \<Rightarrow> glob_memo \<Rightarrow>
   (ActivationResult \<times> glob_memo) activation" where
  "selectorResult sha rule targetPath callbacks (DirectoryTree path) globMemo =
     (let active = isWithinDirectory targetPath path
      in bindR
           (atomicResult sha (if active then Active else Inactive) DirectorySelector
              (ruleIdentityParts rule @ [targetPath, path])
              (js ''Target '' @ describeText sha targetPath @ js '' is '' @ insideText active @
               js '' directory selector '' @ describeText sha path @ [DOT]))
           (\<lambda>result. Inr (result, globMemo)))"
| "selectorResult sha rule targetPath callbacks (Glob pattern dialect) globMemo =
     (let key = selectorKey sha (Glob pattern dialect)
      in case map_of globMemo key of
           Some cached \<Rightarrow> Inr (cached, globMemo)
         | None \<Rightarrow>
             bindR
               (invokeCallback (matchGlob callbacks) (globRequest rule targetPath pattern dialect)
                  (js ''No profile-owned glob matcher was supplied.''))
               (\<lambda>decision.
             bindR
               (atomicResult sha (decisionState decision) GlobSelector
                  (ruleIdentityParts rule @ [targetPath, scopeRoot rule, dialectText dialect, pattern])
                  (reason decision))
               (\<lambda>result. Inr (result, (key, result) # globMemo))))"

fun uniqueSelectors ::
  "digest \<Rightarrow> ActivationSelector list \<Rightarrow> (jstring \<times> ActivationSelector) list \<Rightarrow>
   (jstring \<times> ActivationSelector) list" where
  "uniqueSelectors sha [] unique = unique"
| "uniqueSelectors sha (selector # selectors) unique =
     uniqueSelectors sha selectors
       (if selectorKey sha selector \<in> fst ` set unique then unique
        else unique @ [(selectorKey sha selector, selector)])"

fun selectorResults ::
  "digest \<Rightarrow> ActivationRule \<Rightarrow> jstring \<Rightarrow> ActivationCallbacks \<Rightarrow> ActivationSelector list \<Rightarrow> glob_memo \<Rightarrow>
   (ActivationResult list \<times> glob_memo) activation" where
  "selectorResults sha rule targetPath callbacks [] globMemo = Inr ([], globMemo)"
| "selectorResults sha rule targetPath callbacks (selector # selectors) globMemo =
     bindR (selectorResult sha rule targetPath callbacks selector globMemo) (\<lambda>(result, memo1).
     bindR (selectorResults sha rule targetPath callbacks selectors memo1) (\<lambda>(results, memo2).
       Inr (result # results, memo2)))"

definition selectorUnion ::
  "digest \<Rightarrow> ActivationRule \<Rightarrow> jstring \<Rightarrow> ActivationSelector list \<Rightarrow> ActivationState \<Rightarrow>
   ActivationCallbacks \<Rightarrow> glob_memo \<Rightarrow> (ActivationResult \<times> glob_memo) activation" where
  "selectorUnion sha rule targetPath selectors emptyState callbacks globMemo =
     (if selectors = [] then bindR (makeResult emptyState []) (\<lambda>result. Inr (result, globMemo))
      else
        bindR
          (selectorResults sha rule targetPath callbacks
             (map snd (sortOn fst (uniqueSelectors sha selectors []))) globMemo)
          (\<lambda>(results, memo).
             bindR (activationUnion results) (\<lambda>result. Inr (result, memo))))"

definition baseResult ::
  "digest \<Rightarrow> ActivationRule \<Rightarrow> jstring \<Rightarrow> ActivationCallbacks \<Rightarrow> ActivationResult activation" where
  "baseResult sha rule targetPath callbacks =
     (case ruleKind rule of
        KAlways \<Rightarrow>
          atomicResult sha Active Always (ruleIdentityParts rule)
            (js ''Rule '' @ describeText sha (ruleId rule) @ js '' has unconditional activation.'')
      | KDirectoryTree \<Rightarrow> makeResult Active []
      | KGlob \<Rightarrow> makeResult Active []
      | KManual \<Rightarrow>
          bindR
            (invokeCallback (resolveManual callbacks) (manualRequest rule targetPath)
               (js ''No manual-activation fact callback was supplied.''))
            (\<lambda>decision.
               atomicResult sha (decisionState decision) ManualFact
                 (ruleIdentityParts rule @ [targetPath]) (reason decision))
      | KConditional \<Rightarrow>
          bindR
            (invokeCallback (resolveConditional callbacks) (manualRequest rule targetPath)
               (js ''No conditional-activation fact callback was supplied.''))
            (\<lambda>decision.
               atomicResult sha (decisionState decision) ConditionalFact
                 (ruleIdentityParts rule @
                  [targetPath, js ''conditions'', decimal (length (conditions rule))] @ conditions rule)
                 (reason decision))
      | KUnknown \<Rightarrow>
          let unknown = (case unknownReason rule of
                           None \<Rightarrow> js ''The B03 activation rule is unknown.''
                         | Some r \<Rightarrow> r)
          in atomicResult sha Indeterminate UnknownRule (ruleIdentityParts rule @ [unknown]) unknown)"

definition scopeResult :: "digest \<Rightarrow> ActivationRule \<Rightarrow> jstring \<Rightarrow> ActivationResult activation" where
  "scopeResult sha rule targetPath =
     (let scopeInside = isWithinDirectory targetPath (scopeRoot rule)
      in if scopeRoot rule = REPOSITORY_ROOT then makeResult Active []
         else atomicResult sha (if scopeInside then Active else Inactive) ScopeRoot
                (ruleIdentityParts rule @ [targetPath, scopeRoot rule])
                (js ''Target '' @ describeText sha targetPath @ js '' is '' @ insideText scopeInside @
                 js '' scope root '' @ describeText sha (scopeRoot rule) @ [DOT]))"

text \<open>The tail of \<open>evaluateActivationRule\<close> from the exclusions on, and from the selectors on.\<close>

definition applyExclusions ::
  "digest \<Rightarrow> ActivationRule \<Rightarrow> jstring \<Rightarrow> ActivationCallbacks \<Rightarrow> ActivationResult \<Rightarrow> glob_memo \<Rightarrow>
   ActivationResult activation" where
  "applyExclusions sha rule targetPath callbacks eligible globMemo =
     bindR (selectorUnion sha rule targetPath (excludeSelectors rule) Inactive callbacks globMemo)
       (\<lambda>(excluded, memo).
          if resultState excluded = Active then activationComplement excluded
          else activationDifference eligible excluded)"

definition applySelectors ::
  "digest \<Rightarrow> ActivationRule \<Rightarrow> jstring \<Rightarrow> ActivationCallbacks \<Rightarrow> ActivationResult \<Rightarrow> ActivationResult \<Rightarrow>
   ActivationResult activation" where
  "applySelectors sha rule targetPath callbacks scope trigger =
     bindR (selectorUnion sha rule targetPath (includeSelectors rule) Active callbacks [])
       (\<lambda>(included, memo).
          bindR (activationIntersection [scope, trigger, included]) (\<lambda>eligible.
            if resultState eligible = Inactive then Inr eligible
            else applyExclusions sha rule targetPath callbacks eligible memo))"

definition evaluateActivationRule ::
  "digest \<Rightarrow> ActivationRule \<Rightarrow> jstring \<Rightarrow> ActivationCallbacks \<Rightarrow> ActivationResult activation" where
  "evaluateActivationRule sha rule targetPath callbacks =
     bindR (assertRule rule) (\<lambda>_.
     (case assertText targetPath invalidTargetPath of
        Some e \<Rightarrow> Inl e
      | None \<Rightarrow>
     checkR (isRepositoryRelativePath targetPath) invalidTargetPath
    (bindR (scopeResult sha rule targetPath) (\<lambda>scope.
       if resultState scope = Inactive then Inr scope
       else
     bindR (baseResult sha rule targetPath callbacks) (\<lambda>trigger.
       if resultState trigger = Inactive then Inr trigger
       else applySelectors sha rule targetPath callbacks scope trigger)))))"

subsection \<open>Lemmas on the truth order\<close>

fun flipState :: "ActivationState \<Rightarrow> ActivationState" where
  "flipState Active = Inactive"
| "flipState Inactive = Active"
| "flipState Indeterminate = Indeterminate"

definition unionState :: "ActivationState list \<Rightarrow> ActivationState" where
  "unionState sts = foldr max sts Inactive"

definition interState :: "ActivationState list \<Rightarrow> ActivationState" where
  "interState sts = foldr min sts Active"

lemma max_state [simp]:
  "max Inactive b = b" "max b Inactive = b" "max Active b = Active" "max b Active = Active"
  "max Indeterminate Indeterminate = Indeterminate"
  by (cases b; simp add: max_def less_eq_ActivationState_def)+

lemma min_state [simp]:
  "min Inactive b = Inactive" "min b Inactive = Inactive" "min Active b = b" "min b Active = b"
  "min Indeterminate Indeterminate = Indeterminate"
  by (cases b; simp add: min_def less_eq_ActivationState_def)+

lemma unionState_simps [simp]:
  "unionState [] = Inactive" "unionState (a # as) = max a (unionState as)"
  by (simp_all add: unionState_def)

lemma interState_simps [simp]:
  "interState [] = Active" "interState (a # as) = min a (interState as)"
  by (simp_all add: interState_def)

lemma flip_max: "flipState (max a b) = min (flipState a) (flipState b)"
  by (cases a; cases b; simp)

lemma flip_flip [simp]: "flipState (flipState a) = a"
  by (cases a; simp)

lemma unionState_cases:
  "unionState sts =
     (if Active \<in> set sts then Active else if Indeterminate \<in> set sts then Indeterminate else Inactive)"
proof (induction sts)
  case (Cons a sts)
  then show ?case by (cases a) auto
qed simp

lemma interState_cases:
  "interState sts =
     (if Inactive \<in> set sts then Inactive else if Indeterminate \<in> set sts then Indeterminate else Active)"
proof (induction sts)
  case (Cons a sts)
  then show ?case by (cases a) auto
qed simp

subsection \<open>The interface of the algebra\<close>

text \<open>
  What a user of the algebra may rely on: the state of a composed result is the strong Kleene value of
  the operand states, and its provenance is made of operand facts only.
\<close>

locale kleene_results =
  fixes st :: "'r \<Rightarrow> ActivationState"
    and facts :: "'r \<Rightarrow> 'f set"
    and union :: "'r list \<Rightarrow> 'e + 'r"
    and inter :: "'r list \<Rightarrow> 'e + 'r"
    and compl :: "'r \<Rightarrow> 'e + 'r"
  assumes union_state: "union rs = Inr r \<Longrightarrow> st r = unionState (map st rs)"
    and inter_state: "inter rs = Inr r \<Longrightarrow> st r = interState (map st rs)"
    and compl_state: "compl a = Inr r \<Longrightarrow> st r = flipState (st a)"
    and union_facts: "union rs = Inr r \<Longrightarrow> facts r \<subseteq> \<Union> (facts ` set rs)"
    and inter_facts: "inter rs = Inr r \<Longrightarrow> facts r \<subseteq> \<Union> (facts ` set rs)"
    and compl_facts: "compl a = Inr r \<Longrightarrow> facts r = facts a"
begin

lemma difference_state:
  assumes "compl b = Inr c" "inter [a, c] = Inr r"
  shows "st r = min (st a) (flipState (st b))"
  using inter_state [OF assms(2)] compl_state [OF assms(1)] by simp

lemma difference_facts:
  assumes "compl b = Inr c" "inter [a, c] = Inr r"
  shows "facts r \<subseteq> facts a \<union> facts b"
  using inter_facts [OF assms(2)] compl_facts [OF assms(1)] by auto

lemma de_morgan:
  assumes "union [a, b] = Inr u" "compl u = Inr l" "compl a = Inr a'" "compl b = Inr b'"
    and "inter [a', b'] = Inr r"
  shows "st l = st r"
  using compl_state [OF assms(2)] union_state [OF assms(1)] inter_state [OF assms(5)]
    compl_state [OF assms(3)] compl_state [OF assms(4)]
  by (simp add: flip_max)

lemma double_complement:
  assumes "compl a = Inr b" "compl b = Inr c"
  shows "st c = st a \<and> facts c = facts a"
  using compl_state [OF assms(1)] compl_state [OF assms(2)] compl_facts [OF assms(1)] compl_facts [OF assms(2)]
  by simp

end

subsection \<open>Lemmas on canonical provenance\<close>

definition textOk :: "jstring \<Rightarrow> bool" where
  "textOk s \<longleftrightarrow> s \<noteq> [] \<and> hasWellFormedUnicode s \<and> textBytes s \<le> maxTextBytes ACTIVATION_ALGEBRA_LIMITS"

definition factBytes :: "ActivationProvenance \<Rightarrow> nat" where
  "factBytes f = textBytes (factKeyOf f) + textBytes (description f)"

definition factTextOk :: "ActivationProvenance \<Rightarrow> bool" where
  "factTextOk f \<longleftrightarrow> textOk (factKeyOf f) \<and> textOk (description f)"

definition consistent :: "ActivationProvenance set \<Rightarrow> bool" where
  "consistent F \<longleftrightarrow> inj_on factKeyOf F"

lemma assertText_None: "assertText s code = None \<longleftrightarrow> textOk s"
  by (auto simp: assertText_def textOk_def)

lemma provenance_eqI:
  assumes "factKeyOf f = factKeyOf g" "factKind f = factKind g" "observedState f = observedState g"
    "description f = description (g :: ActivationProvenance)"
  shows "f = g"
  using assms by (cases f; cases g) simp

lemma find_key_None: "find (\<lambda>p. factKeyOf p = k) fs = None \<longleftrightarrow> k \<notin> factKeyOf ` set fs"
  by (auto simp: find_None_iff)

lemma find_key_Some:
  assumes "find (\<lambda>p. factKeyOf p = k) fs = Some f"
  shows "f \<in> set fs" "factKeyOf f = k"
  using assms by (auto simp: find_Some_iff)

lemma normalizeFactsLoop_sound:
  "normalizeFactsLoop fs byKey b = Inr gs \<Longrightarrow> distinct (map factKeyOf byKey) \<Longrightarrow>
   (\<forall>f\<in>set fs. factTextOk f) \<and> set gs = set byKey \<union> set fs \<and> distinct (map factKeyOf gs) \<and>
   (fs \<noteq> [] \<longrightarrow> b + sum_list (map factBytes fs) \<le> maxInputTextBytes ACTIVATION_ALGEBRA_LIMITS)"
proof (induction fs byKey b arbitrary: gs rule: normalizeFactsLoop.induct)
  case (2 f fs byKey b)
  let ?b = "b + textBytes (factKeyOf f) + textBytes (description f)"
  from "2.prems"(1) have texts: "factTextOk f" and lim: "?b \<le> maxInputTextBytes ACTIVATION_ALGEBRA_LIMITS"
    by (auto simp: factTextOk_def assertText_None Let_def split: option.splits if_splits)
  show ?case
  proof (cases "find (\<lambda>prior. factKeyOf prior = factKeyOf f) byKey")
    case None
    with "2.prems" texts lim have rec: "normalizeFactsLoop fs (byKey @ [f]) ?b = Inr gs"
      by (auto simp: factTextOk_def assertText_None Let_def split: option.splits if_splits)
    have d: "distinct (map factKeyOf (byKey @ [f]))"
      using "2.prems"(2) None by (auto simp: find_key_None)
    from "2.IH"(1) [OF _ _ refl _ None rec d] texts lim rec d show ?thesis
      by (cases fs) (auto simp: factTextOk_def assertText_None factBytes_def add.assoc)
  next
    case (Some prior)
    with "2.prems" texts lim
    have rec: "normalizeFactsLoop fs byKey ?b = Inr gs" and eq: "factKind prior = factKind f"
      "observedState prior = observedState f" "description prior = description f"
      by (auto simp: factTextOk_def assertText_None Let_def split: option.splits if_splits)
    have "prior = f" using eq find_key_Some [OF Some] by (intro provenance_eqI) auto
    then have "f \<in> set byKey" using find_key_Some [OF Some] by simp
    moreover have "(\<forall>f\<in>set fs. factTextOk f) \<and> set gs = set byKey \<union> set fs \<and> distinct (map factKeyOf gs) \<and>
       (fs \<noteq> [] \<longrightarrow> ?b + sum_list (map factBytes fs) \<le> maxInputTextBytes ACTIVATION_ALGEBRA_LIMITS)"
      by (rule "2.IH"(2) [OF _ _ refl _ Some _ rec "2.prems"(2)])
        (use texts lim eq in \<open>simp_all add: factTextOk_def assertText_None\<close>)
    ultimately show ?thesis
      using texts lim by (cases "fs = []") (auto simp: factBytes_def [of f] add.assoc)
  qed
qed auto

lemma normalizeFactsLoop_complete:
  "\<forall>f\<in>set fs. factTextOk f \<Longrightarrow>
   b + sum_list (map factBytes fs) \<le> maxInputTextBytes ACTIVATION_ALGEBRA_LIMITS \<Longrightarrow>
   consistent (set byKey \<union> set fs) \<Longrightarrow> \<exists>gs. normalizeFactsLoop fs byKey b = Inr gs"
proof (induction fs arbitrary: byKey b)
  case (Cons f fs)
  let ?b = "b + textBytes (factKeyOf f) + textBytes (description f)"
  have texts: "assertText (factKeyOf f) invalidResult = None" "assertText (description f) invalidResult = None"
    using Cons.prems(1) by (auto simp: factTextOk_def assertText_None)
  have lim: "\<not> maxInputTextBytes ACTIVATION_ALGEBRA_LIMITS < ?b"
    "?b + sum_list (map factBytes fs) \<le> maxInputTextBytes ACTIVATION_ALGEBRA_LIMITS"
    using Cons.prems(2) by (simp_all add: factBytes_def [of f])
  show ?case
  proof (cases "find (\<lambda>prior. factKeyOf prior = factKeyOf f) byKey")
    case None
    have "\<exists>gs. normalizeFactsLoop fs (byKey @ [f]) ?b = Inr gs"
      using Cons.prems lim by (intro Cons.IH) auto
    with None texts lim show ?thesis by (simp add: Let_def)
  next
    case (Some prior)
    have "prior = f"
      using find_key_Some [OF Some] Cons.prems(3) by (auto simp: consistent_def inj_on_def)
    moreover have "\<exists>gs. normalizeFactsLoop fs byKey ?b = Inr gs"
      using Cons.prems lim find_key_Some [OF Some] \<open>prior = f\<close>
      by (intro Cons.IH) (auto simp: insert_absorb)
    ultimately show ?thesis using Some texts lim by (simp add: Let_def)
  qed
qed simp

text \<open>When normalisation succeeds, and what it returns: the facts once each, in key order.\<close>

definition factsOk :: "ActivationProvenance list \<Rightarrow> bool" where
  "factsOk fs \<longleftrightarrow> length fs \<le> maxProvenanceFacts ACTIVATION_ALGEBRA_LIMITS \<and> (\<forall>f\<in>set fs. factTextOk f) \<and>
     sum_list (map factBytes fs) \<le> maxInputTextBytes ACTIVATION_ALGEBRA_LIMITS \<and> consistent (set fs)"

definition canonicalFacts :: "ActivationProvenance list \<Rightarrow> ActivationProvenance list" where
  "canonicalFacts fs = sortOn factSortKey (remdups fs)"

lemma factSortKey_inj: "consistent F \<Longrightarrow> inj_on factSortKey F"
  by (auto simp: consistent_def inj_on_def factSortKey_def)

lemma sortOn_set_unique:
  assumes "set xs = set ys" "distinct xs" "distinct ys" "inj_on k (set xs)"
  shows "sortOn k xs = sortOn k ys"
proof -
  have "mset xs = mset ys" using assms(1-3) set_eq_iff_mset_eq_distinct by blast
  then show ?thesis
    unfolding sortOn_def using assms by (intro sort_key_inj_key_eq) auto
qed

lemma canonicalFacts_cong:
  assumes "set fs = set gs" "consistent (set fs)"
  shows "canonicalFacts fs = canonicalFacts gs"
  unfolding canonicalFacts_def using assms by (intro sortOn_set_unique) (auto intro: factSortKey_inj)

lemma set_canonicalFacts [simp]: "set (canonicalFacts fs) = set fs"
  by (simp add: canonicalFacts_def sortOn_def)

lemma normalizeFacts_Inr: "normalizeFacts fs = Inr gs \<longleftrightarrow> factsOk fs \<and> gs = canonicalFacts fs"
proof
  assume "normalizeFacts fs = Inr gs"
  then obtain hs where len: "length fs \<le> maxProvenanceFacts ACTIVATION_ALGEBRA_LIMITS"
    and loop: "normalizeFactsLoop fs [] 0 = Inr hs" and gs: "gs = sortOn factSortKey hs"
    by (auto simp: normalizeFacts_def result_simps split: if_splits)
  from normalizeFactsLoop_sound [OF loop]
  have hs: "\<forall>f\<in>set fs. factTextOk f" "set hs = set fs" "distinct (map factKeyOf hs)"
    "sum_list (map factBytes fs) \<le> maxInputTextBytes ACTIVATION_ALGEBRA_LIMITS"
    by (auto split: if_splits)
  then have con: "consistent (set fs)" by (metis consistent_def distinct_map)
  have "gs = canonicalFacts fs"
    unfolding gs canonicalFacts_def using hs con
    by (intro sortOn_set_unique) (auto simp: distinct_map intro: factSortKey_inj)
  with len hs con show "factsOk fs \<and> gs = canonicalFacts fs" by (simp add: factsOk_def)
next
  assume ok: "factsOk fs \<and> gs = canonicalFacts fs"
  then obtain hs where loop: "normalizeFactsLoop fs [] 0 = Inr hs"
    using normalizeFactsLoop_complete [of fs 0 "[]"] by (auto simp: factsOk_def)
  have "set hs = set fs" "distinct (map factKeyOf hs)" using normalizeFactsLoop_sound [OF loop] by auto
  then have "sortOn factSortKey hs = canonicalFacts fs"
    unfolding canonicalFacts_def using ok
    by (intro sortOn_set_unique) (auto simp: distinct_map factsOk_def intro: factSortKey_inj)
  with ok loop show "normalizeFacts fs = Inr gs" by (simp add: normalizeFacts_def factsOk_def)
qed

lemma makeResult_Inr:
  "makeResult a fs = Inr r \<longleftrightarrow> factsOk fs \<and> r = \<lparr>resultState = a, provenance = canonicalFacts fs\<rparr>"
  by (auto simp: makeResult_def result_simps normalizeFacts_Inr)

definition canonicalResult :: "ActivationResult \<Rightarrow> ActivationResult" where
  "canonicalResult r = \<lparr>resultState = resultState r, provenance = canonicalFacts (provenance r)\<rparr>"

lemma canonicalResult_simps [simp]:
  "resultState (canonicalResult r) = resultState r"
  "provenance (canonicalResult r) = canonicalFacts (provenance r)"
  by (simp_all add: canonicalResult_def)

lemma normalizeResult_Inr: "normalizeResult r = Inr s \<longleftrightarrow> factsOk (provenance r) \<and> s = canonicalResult r"
  by (auto simp: normalizeResult_def makeResult_Inr canonicalResult_def)

lemma operandBytes_Inr:
  "b \<le> maxInputTextBytes ACTIVATION_ALGEBRA_LIMITS \<Longrightarrow>
   operandBytes fs b = Inr c \<longleftrightarrow>
     c = b + sum_list (map factBytes fs) \<and> c \<le> maxInputTextBytes ACTIVATION_ALGEBRA_LIMITS"
proof (induction fs b rule: operandBytes.induct)
  case (2 f fs b)
  then show ?case by (auto simp: Let_def factBytes_def [of f])
qed auto

lemma normalizeOperandsLoop_Inr:
  "b = sum_list (map factBytes fs) \<Longrightarrow> b \<le> maxInputTextBytes ACTIVATION_ALGEBRA_LIMITS \<Longrightarrow>
   length fs \<le> maxProvenanceFacts ACTIVATION_ALGEBRA_LIMITS \<Longrightarrow>
   normalizeOperandsLoop ops ns fs b = Inr (ns', gs) \<longleftrightarrow>
     (\<forall>a\<in>set ops. factsOk (provenance a)) \<and> ns' = ns @ map canonicalResult ops \<and>
     gs = fs @ mergeProofs (map canonicalResult ops) \<and>
     length gs \<le> maxProvenanceFacts ACTIVATION_ALGEBRA_LIMITS \<and>
     sum_list (map factBytes gs) \<le> maxInputTextBytes ACTIVATION_ALGEBRA_LIMITS"
proof (induction ops arbitrary: ns fs b)
  case (Cons a ops)
  let ?fs = "canonicalFacts (provenance a)"
  show ?case
  proof (cases "factsOk (provenance a) \<and>
      length fs + length ?fs \<le> maxProvenanceFacts ACTIVATION_ALGEBRA_LIMITS \<and>
      b + sum_list (map factBytes ?fs) \<le> maxInputTextBytes ACTIVATION_ALGEBRA_LIMITS")
    case True
    then have n: "normalizeResult a = Inr (canonicalResult a)" by (simp add: normalizeResult_Inr)
    have o: "operandBytes ?fs b = Inr (b + sum_list (map factBytes ?fs))"
      using True operandBytes_Inr [OF Cons.prems(2)] by simp
    have "normalizeOperandsLoop (a # ops) ns fs b = Inr (ns', gs) \<longleftrightarrow>
      normalizeOperandsLoop ops (ns @ [canonicalResult a]) (fs @ ?fs) (b + sum_list (map factBytes ?fs)) = Inr (ns', gs)"
      using True n o by simp
    with True Cons.prems show ?thesis
      by (subst (asm) Cons.IH) (auto simp: mergeProofs_def)
  next
    case False
    then have "normalizeOperandsLoop (a # ops) ns fs b \<noteq> Inr (ns', gs)"
      using operandBytes_Inr [OF Cons.prems(2)] by (auto simp: result_simps normalizeResult_Inr)
    with False Cons.prems(1) show ?thesis by (auto simp: mergeProofs_def)
  qed
qed (auto simp: mergeProofs_def)

definition operandsOk :: "ActivationResult list \<Rightarrow> bool" where
  "operandsOk ops \<longleftrightarrow> length ops \<le> maxOperands ACTIVATION_ALGEBRA_LIMITS \<and>
     (\<forall>a\<in>set ops. factsOk (provenance a)) \<and> factsOk (mergeProofs (map canonicalResult ops))"

lemma normalizeOperands_Inr:
  "normalizeOperands ops = Inr ns \<longleftrightarrow> operandsOk ops \<and> ns = map canonicalResult ops"
  using normalizeOperandsLoop_Inr [of 0 "[]" ops "[]"]
  by (auto simp: normalizeOperands_def operandsOk_def result_simps normalizeFacts_Inr factsOk_def)

lemma leastProofLoop_min:
  "leastProofLoop a xs \<in> insert a (set xs) \<and> (\<forall>x\<in>insert a (set xs). proofKey (leastProofLoop a xs) \<le> proofKey x)"
proof (induction xs arbitrary: a)
  case (Cons x xs)
  show ?case using Cons.IH [of a] Cons.IH [of x] by (auto simp: not_less)
qed simp

lemma leastProof_Inr:
  "leastProof xs = Inr r \<Longrightarrow> r \<in> set xs \<and> (\<forall>x\<in>set xs. proofKey r \<le> proofKey x)"
  using leastProofLoop_min by (cases xs) auto

lemma leastProof_exists: "xs \<noteq> [] \<Longrightarrow> \<exists>r. leastProof xs = Inr r"
  by (cases xs) auto

text \<open>Union and intersection are one computation, for the deciding state and the other definite one.\<close>

definition decideBy :: "ActivationState \<Rightarrow> ActivationState \<Rightarrow> ActivationResult list \<Rightarrow> ActivationResult activation" where
  "decideBy deciding other operands =
     bindR (normalizeOperands operands) (\<lambda>normalized.
       if normalized = [] then makeResult other []
       else let found = filter (\<lambda>operand. resultState operand = deciding) normalized
            in if found \<noteq> [] then
                 bindR (leastProof found) (\<lambda>proof_result. makeResult deciding (provenance proof_result))
               else makeResult
                      (if list_ex (\<lambda>operand. resultState operand = Indeterminate) normalized
                       then Indeterminate else other)
                      (mergeProofs normalized))"

lemma activationUnion_decideBy: "activationUnion ops = decideBy Active Inactive ops"
  by (simp add: activationUnion_def decideBy_def)

lemma activationIntersection_decideBy: "activationIntersection ops = decideBy Inactive Active ops"
  by (simp add: activationIntersection_def decideBy_def)

lemma decideBy_state:
  assumes "decideBy d e ops = Inr r"
  shows "resultState r = (if d \<in> resultState ` set ops then d
    else if Indeterminate \<in> resultState ` set ops then Indeterminate else e)"
  using assms
  by (auto simp: decideBy_def result_simps normalizeOperands_Inr makeResult_Inr Let_def list_ex_iff
      filter_empty_conv image_iff split: if_splits)

lemma decideBy_facts:
  assumes "decideBy d e ops = Inr r"
  shows "set (provenance r) \<subseteq> \<Union> ((\<lambda>a. set (provenance a)) ` set ops)"
proof -
  from assms have op: "operandsOk ops"
    by (auto simp: decideBy_def result_simps normalizeOperands_Inr)
  let ?found = "filter (\<lambda>a. resultState a = d) (map canonicalResult ops)"
  consider "ops = []" | p where "leastProof ?found = Inr p" "provenance r = canonicalFacts (provenance p)"
    | "provenance r = canonicalFacts (mergeProofs (map canonicalResult ops))"
    using assms
    by (auto simp: decideBy_def result_simps normalizeOperands_Inr makeResult_Inr Let_def split: if_splits)
  then show ?thesis
  proof cases
    case 1
    with assms show ?thesis
      by (auto simp: decideBy_def result_simps normalizeOperands_Inr makeResult_Inr canonicalFacts_def sortOn_def)
  next
    case (2 p)
    then have "p \<in> set ?found" using leastProof_Inr by blast
    with 2 show ?thesis by auto
  next
    case 3
    then show ?thesis by (auto simp: mergeProofs_def)
  qed
qed

interpretation algebra: kleene_results resultState "\<lambda>r. set (provenance r)" activationUnion
  activationIntersection activationComplement
proof (unfold_locales, goal_cases)
  case (1 rs r)
  then show ?case
    by (simp add: activationUnion_decideBy decideBy_state unionState_cases)
next
  case (2 rs r)
  then show ?case
    by (simp add: activationIntersection_decideBy decideBy_state interState_cases)
next
  case (3 a r)
  then show ?case
    by (cases "resultState a")
      (auto simp: activationComplement_def result_simps normalizeResult_Inr makeResult_Inr)
next
  case (4 rs r)
  then show ?case using decideBy_facts by (simp add: activationUnion_decideBy)
next
  case (5 rs r)
  then show ?case using decideBy_facts by (simp add: activationIntersection_decideBy)
next
  case (6 a r)
  then show ?case
    by (auto simp: activationComplement_def result_simps normalizeResult_Inr makeResult_Inr)
qed

subsection \<open>Lemmas on proof keys\<close>

lemma lengthPrefixed_Cons [simp]:
  "lengthPrefixed (p # ps) = decimal (textBytes p) @ COLON # p @ lengthPrefixed ps"
  "lengthPrefixed [] = []"
  by (simp_all add: lengthPrefixed_def)

lemma lengthPrefixed_append: "lengthPrefixed (ps @ qs) = lengthPrefixed ps @ lengthPrefixed qs"
  by (simp add: lengthPrefixed_def)

lemma lengthPrefixed_inj:
  "\<forall>p\<in>set ps. hasWellFormedUnicode p \<Longrightarrow> \<forall>q\<in>set qs. hasWellFormedUnicode q \<Longrightarrow>
   lengthPrefixed ps = lengthPrefixed qs \<Longrightarrow> ps = qs"
proof (induction ps arbitrary: qs)
  case Nil
  then show ?case by (cases qs) auto
next
  case (Cons p ps)
  then obtain q qs' where qs: "qs = q # qs'" by (cases qs) auto
  with Cons.prems(3) have "textBytes p = textBytes q" "p @ lengthPrefixed ps = q @ lengthPrefixed qs'"
    using decimal_prefix_unique [of "textBytes p" "p @ lengthPrefixed ps" "textBytes q" "q @ lengthPrefixed qs'"]
    by simp_all
  moreover have "hasWellFormedUnicode p" "hasWellFormedUnicode q" using Cons.prems qs by auto
  ultimately have "p = q" using byte_prefix_unique by blast
  with \<open>p @ lengthPrefixed ps = q @ lengthPrefixed qs'\<close> have "lengthPrefixed ps = lengthPrefixed qs'" by simp
  then have "ps = qs'" using Cons.prems qs by (intro Cons.IH) auto
  with \<open>p = q\<close> qs show ?case by simp
qed

definition factParts :: "ActivationProvenance \<Rightarrow> jstring list" where
  "factParts f = [factKeyOf f, kindText (factKind f), stateText (observedState f), description f]"

lemma kindText_inj: "kindText k = kindText l \<longleftrightarrow> k = l"
  by (cases k; cases l) (simp_all add: js_def)

lemma stateText_inj: "stateText k = stateText l \<longleftrightarrow> k = l"
  by (cases k; cases l) (simp_all add: js_def)

lemma texts_wellFormed:
  "hasWellFormedUnicode (kindText k)" "hasWellFormedUnicode (stateText a)"
  by (cases k; simp add: js_def unit_class) (cases a; simp add: js_def unit_class)

lemma factParts_inj: "factParts f = factParts g \<longleftrightarrow> f = g"
  by (auto simp: factParts_def kindText_inj stateText_inj intro: provenance_eqI)

lemma concat_factParts_inj: "concat (map factParts fs) = concat (map factParts gs) \<Longrightarrow> fs = gs"
proof (induction fs arbitrary: gs)
  case Nil
  then show ?case by (cases gs) (auto simp: factParts_def)
next
  case (Cons f fs)
  then obtain g gs' where gs: "gs = g # gs'" by (cases gs) (auto simp: factParts_def)
  with Cons.prems have "factParts f @ concat (map factParts fs) = factParts g @ concat (map factParts gs')" by simp
  moreover have "length (factParts f) = length (factParts g)" by (simp add: factParts_def)
  ultimately have "factParts f = factParts g" "concat (map factParts fs) = concat (map factParts gs')"
    using append_eq_append_conv by blast+
  with Cons.IH gs show ?case by (simp add: factParts_inj)
qed

lemma proofKey_lengthPrefixed: "proofKey r = lengthPrefixed (concat (map factParts (provenance r)))"
proof -
  have "concat (map (\<lambda>f. lengthPrefixed (factParts f)) fs) = lengthPrefixed (concat (map factParts fs))" for fs
    by (induction fs) (simp_all only: list.map concat.simps lengthPrefixed_append lengthPrefixed_Cons(2))
  then show ?thesis by (simp only: proofKey_def factParts_def)
qed

lemma proofKey_inj:
  assumes "\<forall>f\<in>set (provenance r) \<union> set (provenance s). factTextOk f" "proofKey r = proofKey s"
  shows "provenance r = provenance s"
proof -
  have wf: "hasWellFormedUnicode p" if "factTextOk f" "p \<in> set (factParts f)" for f p
    using that by (auto simp: factParts_def factTextOk_def textOk_def texts_wellFormed)
  have "concat (map factParts (provenance r)) = concat (map factParts (provenance s))"
    using assms wf by (intro lengthPrefixed_inj) (auto simp: proofKey_lengthPrefixed)
  then show ?thesis by (rule concat_factParts_inj)
qed

subsection \<open>Lemmas on operand order\<close>

lemma factsOk_perm: "mset fs = mset gs \<Longrightarrow> factsOk fs = factsOk gs"
proof -
  assume m: "mset fs = mset gs"
  then have "length fs = length gs" "set fs = set gs" by (metis size_mset, metis set_mset_mset)
  moreover have "sum_list (map factBytes fs) = sum_list (map factBytes gs)"
    using m by (metis mset_map sum_mset_sum_list)
  ultimately show ?thesis by (simp add: factsOk_def)
qed

lemma mergeProofs_perm: "mset xs = mset ys \<Longrightarrow> mset (mergeProofs xs) = mset (mergeProofs ys)"
  unfolding mergeProofs_def mset_concat by (metis mset_map sum_mset_sum_list)

lemma operandsOk_perm: "mset xs = mset ys \<Longrightarrow> operandsOk xs = operandsOk ys"
proof -
  assume m: "mset xs = mset ys"
  then have "factsOk (mergeProofs (map canonicalResult xs)) = factsOk (mergeProofs (map canonicalResult ys))"
    by (intro factsOk_perm mergeProofs_perm) simp
  moreover have "length xs = length ys" "set xs = set ys"
    using m by (blast dest: mset_eq_length, blast dest: mset_eq_setD)
  ultimately show ?thesis unfolding operandsOk_def by simp
qed

lemma sum_canonicalFacts: "sum_list (map g (canonicalFacts fs)) \<le> sum_list (map (g :: _ \<Rightarrow> nat) fs)"
proof -
  have "sum_list (map g (canonicalFacts fs)) = sum_list (map g (remdups fs))"
  proof -
    have "mset (map g (canonicalFacts fs)) = mset (map g (remdups fs))"
      by (simp add: canonicalFacts_def sortOn_def)
    then show ?thesis by (metis sum_mset_sum_list)
  qed
  also have "\<dots> \<le> sum_list (map g fs)" by (induction fs) auto
  finally show ?thesis .
qed

lemma factsOk_canonical: "factsOk fs \<Longrightarrow> factsOk (canonicalFacts fs) \<and> canonicalFacts (canonicalFacts fs) = canonicalFacts fs"
proof -
  assume ok: "factsOk fs"
  have sub: "mset (canonicalFacts fs) \<subseteq># mset fs"
    by (simp add: canonicalFacts_def sortOn_def mset_remdups_subset_eq)
  then have "length (canonicalFacts fs) \<le> length fs" by (metis size_mset size_mset_mono)
  moreover have "sum_list (map factBytes (canonicalFacts fs)) \<le> sum_list (map factBytes fs)"
    by (rule sum_canonicalFacts)
  ultimately have "factsOk (canonicalFacts fs)" using ok by (simp add: factsOk_def)
  moreover have "canonicalFacts (canonicalFacts fs) = canonicalFacts fs"
    using ok by (intro canonicalFacts_cong) (simp_all add: factsOk_def)
  ultimately show ?thesis by simp
qed

lemma decideBy_perm:
  assumes m: "mset ops = mset ops'" and r: "decideBy d e ops = Inr r"
  shows "decideBy d e ops' = Inr r"
proof -
  let ?ns = "map canonicalResult ops" and ?ns' = "map canonicalResult ops'"
  let ?found = "filter (\<lambda>a. resultState a = d) ?ns" and ?found' = "filter (\<lambda>a. resultState a = d) ?ns'"
  from r have ok: "operandsOk ops" by (auto simp: decideBy_def result_simps normalizeOperands_Inr)
  then have ok': "operandsOk ops'" using operandsOk_perm [OF m] by simp
  have sets: "set ?ns = set ?ns'" "set ?found = set ?found'" "ops = [] \<longleftrightarrow> ops' = []"
    using m by (auto dest: mset_eq_setD)
  have run: "decideBy d e xs =
      (if xs = [] then makeResult e []
       else let found = filter (\<lambda>a. resultState a = d) (map canonicalResult xs)
            in if found \<noteq> [] then bindR (leastProof found) (\<lambda>p. makeResult d (provenance p))
               else makeResult (if list_ex (\<lambda>a. resultState a = Indeterminate) (map canonicalResult xs)
                                then Indeterminate else e) (mergeProofs (map canonicalResult xs)))"
    if "operandsOk xs" for xs
  proof -
    have "normalizeOperands xs = Inr (map canonicalResult xs)" using that by (simp add: normalizeOperands_Inr)
    then show ?thesis by (simp add: decideBy_def)
  qed
  show ?thesis
  proof (cases "?found = []")
    case True
    then have "?found' = []" using sets by (metis set_empty)
    moreover have "makeResult st (mergeProofs ?ns) = Inr q \<Longrightarrow> makeResult st (mergeProofs ?ns') = Inr q" for st q
      using factsOk_perm [OF mergeProofs_perm, of ?ns ?ns'] m
        canonicalFacts_cong [of "mergeProofs ?ns" "mergeProofs ?ns'"]
      by (auto simp: makeResult_Inr factsOk_def mergeProofs_def dest: mset_eq_setD)
    moreover have "list_ex (\<lambda>a. resultState a = Indeterminate) ?ns =
        list_ex (\<lambda>a. resultState a = Indeterminate) ?ns'"
      using sets by (simp add: list_ex_iff)
    ultimately show ?thesis using r True sets(3) unfolding run [OF ok] run [OF ok'] by (simp add: Let_def split: if_splits)
  next
    case False
    then obtain p p' where p: "leastProof ?found = Inr p" "leastProof ?found' = Inr p'"
      using sets leastProof_exists by (metis set_empty)
    then have in_found: "p \<in> set ?found" "p' \<in> set ?found" and "proofKey p = proofKey p'"
      using leastProof_Inr [OF p(1)] leastProof_Inr [OF p(2)] sets by (auto intro: order.antisym)
    moreover have "\<forall>f\<in>set (provenance q). factTextOk f" if "q \<in> set ?found" for q
      using that ok by (auto simp: operandsOk_def factsOk_def)
    ultimately have "provenance p = provenance p'" by (intro proofKey_inj) auto
    moreover have "ops \<noteq> []" "ops' \<noteq> []" "?found' \<noteq> []" using False sets by (auto dest: arg_cong [of _ _ set])
    ultimately show ?thesis using r False p unfolding run [OF ok] run [OF ok'] by (simp add: Let_def)
  qed
qed

end
