(* ===== verification/Activation_Rule.thy ===== *)
theory Activation_Rule
  imports Activation
begin

text \<open>
  The correctness of the activation algebra and of \<open>evaluateActivationRule\<close>: the states are those of
  strong Kleene logic, the operand order does not matter, and the evaluation of a rule, with its
  memoised callbacks, its deduplicated selectors and its early returns, has the state the rule means.
\<close>

subsection \<open>The meaning of a rule\<close>

text \<open>
  The specification of an evaluation, over states alone: what the callbacks answer, what one selector,
  the trigger and the scope say, and how they combine.
\<close>

definition answeredState :: "'r callback \<Rightarrow> 'r \<Rightarrow> ActivationState" where
  "answeredState callback request =
     (case callback of
        None \<Rightarrow> Indeterminate
      | Some f \<Rightarrow> (case f request of Inl _ \<Rightarrow> Indeterminate | Inr d \<Rightarrow> decisionState d))"

fun selectorState :: "ActivationRule \<Rightarrow> jstring \<Rightarrow> ActivationCallbacks \<Rightarrow> ActivationSelector \<Rightarrow> ActivationState" where
  "selectorState rule target callbacks (DirectoryTree path) =
     (if isWithinDirectory target path then Active else Inactive)"
| "selectorState rule target callbacks (Glob pattern dialect) =
     answeredState (matchGlob callbacks) (globRequest rule target pattern dialect)"

definition triggerState :: "ActivationRule \<Rightarrow> jstring \<Rightarrow> ActivationCallbacks \<Rightarrow> ActivationState" where
  "triggerState rule target callbacks =
     (case ruleKind rule of
        KAlways \<Rightarrow> Active
      | KDirectoryTree \<Rightarrow> Active
      | KGlob \<Rightarrow> Active
      | KManual \<Rightarrow> answeredState (resolveManual callbacks) (manualRequest rule target)
      | KConditional \<Rightarrow> answeredState (resolveConditional callbacks) (manualRequest rule target)
      | KUnknown \<Rightarrow> Indeterminate)"

definition scopeState :: "ActivationRule \<Rightarrow> jstring \<Rightarrow> ActivationState" where
  "scopeState rule target = (if isWithinDirectory target (scopeRoot rule) then Active else Inactive)"

definition includedState :: "ActivationRule \<Rightarrow> jstring \<Rightarrow> ActivationCallbacks \<Rightarrow> ActivationState" where
  "includedState rule target callbacks =
     (if includeSelectors rule = [] then Active
      else unionState (map (selectorState rule target callbacks) (includeSelectors rule)))"

definition excludedState :: "ActivationRule \<Rightarrow> jstring \<Rightarrow> ActivationCallbacks \<Rightarrow> ActivationState" where
  "excludedState rule target callbacks =
     unionState (map (selectorState rule target callbacks) (excludeSelectors rule))"

definition ruleState :: "ActivationRule \<Rightarrow> jstring \<Rightarrow> ActivationCallbacks \<Rightarrow> ActivationState" where
  "ruleState rule target callbacks =
     min (scopeState rule target)
       (min (triggerState rule target callbacks)
          (min (includedState rule target callbacks) (flipState (excludedState rule target callbacks))))"

text \<open>The text whose digest identifies a selector, and that no two selectors of a rule collide.\<close>

fun selectorText :: "ActivationSelector \<Rightarrow> jstring" where
  "selectorText (DirectoryTree path) = lengthPrefixed [path]"
| "selectorText (Glob pattern dialect) = lengthPrefixed [dialectText dialect, pattern]"

definition selectorsOf :: "ActivationRule \<Rightarrow> ActivationSelector list" where
  "selectorsOf rule = includeSelectors rule @ excludeSelectors rule"

definition noCollision :: "digest \<Rightarrow> ActivationRule \<Rightarrow> bool" where
  "noCollision sha rule \<longleftrightarrow>
     list_all (\<lambda>s. list_all (\<lambda>t. sha (utf8 (selectorText s)) = sha (utf8 (selectorText t)) \<longrightarrow>
       selectorText s = selectorText t) (selectorsOf rule)) (selectorsOf rule)"

fun selectorTextOk :: "ActivationSelector \<Rightarrow> bool" where
  "selectorTextOk (DirectoryTree path) = (textOk path \<and> isRepositoryRelativePath path)"
| "selectorTextOk (Glob pattern dialect) =
     (textOk pattern \<and> (case dialect of None \<Rightarrow> True | Some d \<Rightarrow> textOk d))"

lemma selectorBytes_texts: "selectorBytes ss b = Inr c \<Longrightarrow> s \<in> set ss \<Longrightarrow> selectorTextOk s"
proof (induction ss b rule: selectorBytes.induct)
  case (2 t ss b)
  from "2.prems"(1) obtain b' where rest: "selectorBytes ss b' = Inr c" "selectorTextOk t"
    "\<not> maxInputTextBytes ACTIVATION_ALGEBRA_LIMITS < b'"
    by (auto simp: result_simps assertText_None split: ActivationSelector.splits option.splits if_splits)
  with 2 show ?case by auto
qed simp

lemma assertRule_selectors:
  assumes "assertRule rule = Inr ()" "s \<in> set (selectorsOf rule)"
  shows "selectorTextOk s"
proof -
  from assms(1) obtain b c where "selectorBytes (selectorsOf rule) b = Inr c"
    by (auto simp: assertRule_def result_simps selectorsOf_def split: option.splits)
  then show ?thesis using assms(2) by (rule selectorBytes_texts)
qed

lemma selectorText_inj:
  assumes "selectorTextOk s" "selectorTextOk t" "selectorText s = selectorText t"
    "isDirectorySelector s = isDirectorySelector t"
  shows "s = t"
proof (cases s; cases t)
  fix p q assume st: "s = DirectoryTree p" "t = DirectoryTree q"
  then have "[p] = [q]" using assms by (intro lengthPrefixed_inj) (auto simp: textOk_def)
  with st show ?thesis by simp
next
  fix p d q e assume st: "s = Glob p d" "t = Glob q e"
  then have "[dialectText d, p] = [dialectText e, q]"
    using assms by (intro lengthPrefixed_inj) (auto simp: textOk_def dialectText_def split: option.splits)
  with st assms show ?thesis by (auto simp: textOk_def dialectText_def split: option.splits)
qed (use assms in auto)

lemma selectorKey_text:
  "selectorKey sha s = kindText (if isDirectorySelector s then DirectorySelector else GlobSelector) @
     COLON # sha (utf8 (selectorText s))"
  by (cases s) (simp_all add: factKey_def)

lemma selectorKey_inj:
  assumes "assertRule rule = Inr ()" "noCollision sha rule"
  shows "inj_on (selectorKey sha) (set (selectorsOf rule))"
proof (rule inj_onI)
  fix s t assume st: "s \<in> set (selectorsOf rule)" "t \<in> set (selectorsOf rule)"
    and eq: "selectorKey sha s = selectorKey sha t"
  have d: "isDirectorySelector s = isDirectorySelector t"
    using eq by (cases s; cases t) (simp_all add: factKey_def js_def)
  then have "sha (utf8 (selectorText s)) = sha (utf8 (selectorText t))"
    using eq by (simp add: selectorKey_text split: if_splits)
  then have "selectorText s = selectorText t"
    using assms(2) st by (auto simp: noCollision_def list_all_iff)
  then show "s = t" using d assms(1) st by (intro selectorText_inj assertRule_selectors) auto
qed

lemma uniqueSelectors_set:
  assumes "inj_on (selectorKey sha) (snd ` set u \<union> set ss)" "\<forall>(k, s)\<in>set u. k = selectorKey sha s"
  shows "snd ` set (uniqueSelectors sha ss u) = snd ` set u \<union> set ss"
  using assms
proof (induction ss arbitrary: u)
  case (Cons s ss)
  show ?case
  proof (cases "selectorKey sha s \<in> fst ` set u")
    case True
    then obtain t where t: "(selectorKey sha s, t) \<in> set u" by auto
    then have "selectorKey sha s = selectorKey sha t" using Cons.prems(2) by auto
    moreover have "t \<in> snd ` set u" using t by force
    ultimately have "s = t" using Cons.prems(1) by (auto dest: inj_onD)
    with \<open>t \<in> snd ` set u\<close> have mem: "s \<in> snd ` set u" by simp
    have "snd ` set (uniqueSelectors sha ss u) = snd ` set u \<union> set ss"
      using Cons.prems by (intro Cons.IH) (auto elim: inj_on_subset)
    with True mem show ?thesis by auto
  next
    case False
    have "snd ` set (uniqueSelectors sha ss (u @ [(selectorKey sha s, s)])) = snd ` set (u @ [(selectorKey sha s, s)]) \<union> set ss"
      using Cons.prems by (intro Cons.IH) (auto elim: inj_on_subset)
    with False show ?thesis by auto
  qed
qed simp

text \<open>Every remembered answer is the state of each selector of the rule with that key.\<close>

definition memoOk :: "digest \<Rightarrow> ActivationRule \<Rightarrow> jstring \<Rightarrow> ActivationCallbacks \<Rightarrow> glob_memo \<Rightarrow> bool" where
  "memoOk sha rule target callbacks memo \<longleftrightarrow>
     (\<forall>s\<in>set (selectorsOf rule). \<forall>r. map_of memo (selectorKey sha s) = Some r \<longrightarrow>
        resultState r = selectorState rule target callbacks s)"

lemma atomicResult_state: "atomicResult sha st kind parts descr = Inr r \<Longrightarrow> resultState r = st"
  by (simp add: atomicResult_def makeResult_Inr)

lemma makeResult_state: "makeResult st fs = Inr r \<Longrightarrow> resultState r = st"
  by (simp add: makeResult_Inr)

lemma invokeCallback_state:
  "invokeCallback callback request missing = Inr d \<Longrightarrow> decisionState d = answeredState callback request"
  by (auto simp: invokeCallback_def answeredState_def normalizeDecision_def split: option.splits sum.splits)

lemma selectorResult_state:
  assumes inj: "inj_on (selectorKey sha) (set (selectorsOf rule))" and s: "s \<in> set (selectorsOf rule)"
    and ok: "memoOk sha rule target callbacks memo"
    and run: "selectorResult sha rule target callbacks s memo = Inr (r, memo')"
  shows "resultState r = selectorState rule target callbacks s \<and> memoOk sha rule target callbacks memo'"
proof (cases s)
  case (DirectoryTree path)
  with run ok show ?thesis by (auto simp: Let_def result_simps dest: atomicResult_state)
next
  case (Glob pattern dialect)
  let ?key = "selectorKey sha s"
  show ?thesis
  proof (cases "map_of memo ?key")
    case None
    with run Glob have "resultState r = selectorState rule target callbacks s" "memo' = (?key, r) # memo"
      by (auto simp: Let_def result_simps dest!: atomicResult_state invokeCallback_state)
    moreover have "t = s" if "t \<in> set (selectorsOf rule)" "selectorKey sha t = ?key" for t
      using inj s that by (auto dest: inj_onD)
    ultimately show ?thesis using ok by (auto simp: memoOk_def)
  next
    case (Some cached)
    with run Glob ok s show ?thesis by (auto simp: memoOk_def Let_def)
  qed
qed

lemma selectorResults_state:
  assumes inj: "inj_on (selectorKey sha) (set (selectorsOf rule))"
  shows "set ss \<subseteq> set (selectorsOf rule) \<Longrightarrow> memoOk sha rule target callbacks memo \<Longrightarrow>
    selectorResults sha rule target callbacks ss memo = Inr (rs, memo') \<Longrightarrow>
    map resultState rs = map (selectorState rule target callbacks) ss \<and> memoOk sha rule target callbacks memo'"
proof (induction ss arbitrary: memo rs)
  case (Cons s ss)
  from Cons.prems(3) obtain r memo1 rs1 where
    r: "selectorResult sha rule target callbacks s memo = Inr (r, memo1)"
    and rs1: "selectorResults sha rule target callbacks ss memo1 = Inr (rs1, memo')" and rs: "rs = r # rs1"
    by (auto simp: result_simps split_def)
  from selectorResult_state [OF inj _ Cons.prems(2) r] Cons.prems(1)
  have "resultState r = selectorState rule target callbacks s" "memoOk sha rule target callbacks memo1" by auto
  with Cons.IH [OF _ _ rs1] Cons.prems(1) rs show ?case by auto
qed simp

lemma unionState_set_cong: "set xs = set ys \<Longrightarrow> unionState xs = unionState ys"
  by (simp add: unionState_cases)

lemma selectorUnion_state:
  assumes inj: "inj_on (selectorKey sha) (set (selectorsOf rule))" and sub: "set ss \<subseteq> set (selectorsOf rule)"
    and ok: "memoOk sha rule target callbacks memo"
    and run: "selectorUnion sha rule target ss start callbacks memo = Inr (r, memo')"
  shows "resultState r = (if ss = [] then start else unionState (map (selectorState rule target callbacks) ss)) \<and>
    memoOk sha rule target callbacks memo'"
proof (cases "ss = []")
  case True
  with run ok show ?thesis by (auto simp: selectorUnion_def result_simps dest: makeResult_state)
next
  case False
  let ?us = "map snd (sortOn fst (uniqueSelectors sha ss []))"
  from False run obtain rs where
    rs: "selectorResults sha rule target callbacks ?us memo = Inr (rs, memo')" and r: "activationUnion rs = Inr r"
    by (auto simp: selectorUnion_def result_simps split_def)
  have us: "set ?us = set ss"
    using uniqueSelectors_set [of sha "[]" ss] inj_on_subset [OF inj sub] by (simp add: sortOn_def)
  with selectorResults_state [OF inj _ ok rs] sub
  have "map resultState rs = map (selectorState rule target callbacks) ?us" "memoOk sha rule target callbacks memo'"
    by auto
  moreover have "unionState (map (selectorState rule target callbacks) ?us) =
      unionState (map (selectorState rule target callbacks) ss)"
    using us by (intro unionState_set_cong) (simp only: set_map)
  ultimately show ?thesis using algebra.union_state [OF r] False by simp
qed

subsection \<open>Evaluation\<close>

lemma scopeResult_state: "scopeResult sha rule target = Inr r \<Longrightarrow> resultState r = scopeState rule target"
  by (auto simp: scopeResult_def scopeState_def isWithinDirectory_def Let_def split: if_splits
      dest!: atomicResult_state makeResult_state)

lemma baseResult_state:
  "baseResult sha rule target callbacks = Inr r \<Longrightarrow> resultState r = triggerState rule target callbacks"
  by (auto simp: baseResult_def triggerState_def Let_def result_simps split: ActivationKind.splits
      dest!: atomicResult_state makeResult_state invokeCallback_state)

lemma activationDifference_state:
  "activationDifference a b = Inr r \<Longrightarrow> resultState r = min (resultState a) (flipState (resultState b))"
  by (auto simp: activationDifference_def result_simps intro: algebra.difference_state)

lemma applyExclusions_state:
  assumes inj: "inj_on (selectorKey sha) (set (selectorsOf rule))" and ok: "memoOk sha rule target callbacks memo"
    and run: "applyExclusions sha rule target callbacks eligible memo = Inr r"
  shows "resultState r = min (resultState eligible) (flipState (excludedState rule target callbacks))"
proof -
  from run obtain excluded memo' where
    ex: "selectorUnion sha rule target (excludeSelectors rule) Inactive callbacks memo = Inr (excluded, memo')"
    and r: "(if resultState excluded = Active then activationComplement excluded
             else activationDifference eligible excluded) = Inr r"
    by (auto simp: applyExclusions_def bindR_Inr_iff)
  have "resultState excluded = excludedState rule target callbacks"
    using selectorUnion_state [OF inj _ ok ex] by (auto simp: excludedState_def selectorsOf_def)
  with r show ?thesis
    by (auto dest: activationDifference_state algebra.compl_state split: if_splits)
qed

lemma applySelectors_state:
  assumes inj: "inj_on (selectorKey sha) (set (selectorsOf rule))"
    and run: "applySelectors sha rule target callbacks scope trigger = Inr r"
  shows "resultState r = min (resultState scope) (min (resultState trigger)
    (min (includedState rule target callbacks) (flipState (excludedState rule target callbacks))))"
proof -
  from run obtain included memo eligible where
    inc: "selectorUnion sha rule target (includeSelectors rule) Active callbacks [] = Inr (included, memo)"
    and int: "activationIntersection [scope, trigger, included] = Inr eligible"
    and r: "(if resultState eligible = Inactive then Inr eligible
             else applyExclusions sha rule target callbacks eligible memo) = Inr r"
    by (auto simp: applySelectors_def bindR_Inr_iff)
  have incl: "resultState included = includedState rule target callbacks" "memoOk sha rule target callbacks memo"
    using selectorUnion_state [OF inj _ _ inc] by (auto simp: memoOk_def includedState_def selectorsOf_def)
  have "resultState eligible = min (resultState scope) (min (resultState trigger) (includedState rule target callbacks))"
    using algebra.inter_state [OF int] incl(1) by simp
  moreover have "resultState r = min (resultState eligible) (flipState (excludedState rule target callbacks))"
    using r applyExclusions_state [OF inj incl(2), of eligible r] by (auto split: if_splits)
  ultimately show ?thesis by (simp add: min.assoc)
qed

text \<open>The three ways an evaluation returns.\<close>

lemma evaluateActivationRule_cases:
  assumes "evaluateActivationRule sha rule target callbacks = Inr r"
  obtains (scope) "assertRule rule = Inr ()" "scopeResult sha rule target = Inr r" "resultState r = Inactive"
  | (trigger) "assertRule rule = Inr ()" "baseResult sha rule target callbacks = Inr r" "resultState r = Inactive"
  | (selectors) scope trigger where "assertRule rule = Inr ()"
      "scopeResult sha rule target = Inr scope" "baseResult sha rule target callbacks = Inr trigger"
      "applySelectors sha rule target callbacks scope trigger = Inr r"
  using assms unfolding evaluateActivationRule_def
  by (auto simp: bindR_Inr_iff checkR_Inr_iff split: option.splits if_splits)

lemma evaluate_state:
  assumes free: "noCollision sha rule" and run: "evaluateActivationRule sha rule target callbacks = Inr r"
  shows "resultState r = ruleState rule target callbacks"
  using run
proof (cases rule: evaluateActivationRule_cases)
  case scope
  then show ?thesis by (simp add: ruleState_def flip: scopeResult_state)
next
  case trigger
  then show ?thesis by (simp add: ruleState_def flip: baseResult_state)
next
  case (selectors scope trigger)
  then show ?thesis
    using applySelectors_state [OF selectorKey_inj [OF selectors(1) free] selectors(4)]
    by (simp add: ruleState_def scopeResult_state baseResult_state)
qed

text \<open>Every result the evaluation returns is canonical.\<close>

definition canonical :: "ActivationResult \<Rightarrow> bool" where
  "canonical r \<longleftrightarrow> sorted (map factSortKey (provenance r)) \<and> distinct (map factKeyOf (provenance r))"

lemma canonicalFacts_canonical:
  "factsOk fs \<Longrightarrow> sorted (map factSortKey (canonicalFacts fs)) \<and> distinct (map factKeyOf (canonicalFacts fs))"
  by (auto simp: canonicalFacts_def sortOn_def factsOk_def consistent_def distinct_map)

lemma makeResult_canonical: "makeResult st fs = Inr r \<Longrightarrow> canonical r"
  using canonicalFacts_canonical by (auto simp: makeResult_Inr canonical_def)

lemma decideBy_canonical: "decideBy d e ops = Inr r \<Longrightarrow> canonical r"
  by (auto simp: decideBy_def result_simps Let_def split: if_splits intro: makeResult_canonical)

lemma operations_canonical:
  "activationUnion ops = Inr r \<Longrightarrow> canonical r" "activationIntersection ops = Inr r \<Longrightarrow> canonical r"
  "activationComplement a = Inr r \<Longrightarrow> canonical r" "activationDifference a b = Inr r \<Longrightarrow> canonical r"
  "atomicResult sha st kind parts descr = Inr r \<Longrightarrow> canonical r"
  by (auto simp: activationUnion_decideBy activationIntersection_decideBy activationComplement_def
      activationDifference_def atomicResult_def result_simps
      intro: decideBy_canonical makeResult_canonical)

lemma evaluate_canonical:
  assumes "evaluateActivationRule sha rule target callbacks = Inr r"
  shows "canonical r"
  using assms
proof (cases rule: evaluateActivationRule_cases)
  case scope
  then show ?thesis
    by (auto simp: scopeResult_def Let_def split: if_splits intro: operations_canonical makeResult_canonical)
next
  case trigger
  then show ?thesis
    by (auto simp: baseResult_def Let_def result_simps split: ActivationKind.splits
        intro: operations_canonical makeResult_canonical)
next
  case (selectors scope trigger)
  then show ?thesis
    by (auto simp: applySelectors_def applyExclusions_def bindR_Inr_iff split: if_splits intro: operations_canonical)
qed

subsection \<open>Errors\<close>

text \<open>A computation that does not blame a callback.\<close>

definition blameless :: "'a activation \<Rightarrow> bool" where
  "blameless x \<longleftrightarrow> x \<noteq> Inl callbackFailed \<and> x \<noteq> Inl invalidCallback"

lemma blameless_Inr [simp]: "blameless (Inr x)"
  by (simp add: blameless_def)

lemma blameless_Inl: "blameless (Inl e) \<longleftrightarrow> e \<noteq> callbackFailed \<and> e \<noteq> invalidCallback"
  by (simp add: blameless_def)

lemma blameless_bindR [intro]: "blameless m \<Longrightarrow> (\<And>x. m = Inr x \<Longrightarrow> blameless (f x)) \<Longrightarrow> blameless (bindR m f)"
  by (cases m) (auto simp: blameless_def)

lemma blameless_checkR [intro]: "blameless (Inl e :: 'a activation) \<Longrightarrow> (ok \<Longrightarrow> blameless k) \<Longrightarrow> blameless (checkR ok e k :: 'a activation)"
  by (simp add: checkR_def)

lemma assertText_code: "assertText s code = Some e \<Longrightarrow> e = code \<or> e = resourceLimit"
  by (auto simp: assertText_def split: if_splits)

lemma assertText_rule [simp]:
  "assertText s invalidRule \<noteq> Some callbackFailed" "Some callbackFailed \<noteq> assertText s invalidRule"
  "assertText s invalidRule \<noteq> Some invalidCallback" "Some invalidCallback \<noteq> assertText s invalidRule"
  by (auto simp: assertText_def)

lemma firstError_Some: "firstError es = Some e \<Longrightarrow> Some e \<in> set es"
  by (induction es rule: firstError.induct) auto

lemma blameless_normalizeFacts: "blameless (normalizeFacts fs)"
proof -
  have "blameless (normalizeFactsLoop fs k b)" for k b
    by (induction fs k b rule: normalizeFactsLoop.induct)
      (auto simp: blameless_Inl Let_def dest: assertText_code split: option.splits)
  then show ?thesis by (auto simp: normalizeFacts_def blameless_Inl)
qed

lemma blameless_makeResult [intro]: "blameless (makeResult st fs)"
  unfolding makeResult_def by (intro blameless_bindR blameless_normalizeFacts) simp

lemma blameless_normalizeOperands: "blameless (normalizeOperands ops)"
proof -
  have bytes: "blameless (operandBytes fs b)" for fs b
    by (induction fs b rule: operandBytes.induct) (auto simp: blameless_Inl Let_def)
  have "blameless (normalizeOperandsLoop ops ns fs b)" for ns fs b
    by (induction ops ns fs b rule: normalizeOperandsLoop.induct)
      (auto simp: blameless_Inl normalizeResult_def intro!: bytes blameless_bindR blameless_makeResult)
  then show ?thesis
    by (auto simp: normalizeOperands_def blameless_Inl intro!: blameless_bindR blameless_normalizeFacts)
qed

lemma blameless_leastProof: "blameless (leastProof xs)"
  by (cases xs) (simp_all add: blameless_Inl)

lemma blameless_decideBy: "blameless (decideBy d e ops)"
  by (auto simp: decideBy_def Let_def intro!: blameless_bindR blameless_normalizeOperands blameless_makeResult
      blameless_leastProof)

lemma blameless_algebra:
  "blameless (activationUnion ops)" "blameless (activationIntersection ops)"
  "blameless (activationComplement a)" "blameless (activationDifference a b)"
  "blameless (atomicResult sha st kind parts descr)"
  by (auto simp: activationUnion_decideBy activationIntersection_decideBy activationComplement_def
      activationDifference_def atomicResult_def normalizeResult_def
      intro!: blameless_bindR blameless_decideBy blameless_makeResult)

lemma blameless_assertRule: "blameless (assertRule rule)"
proof -
  have sel: "blameless (selectorBytes ss b)" for ss b
    by (induction ss b rule: selectorBytes.induct)
      (auto simp: blameless_Inl dest: assertText_code split: ActivationSelector.splits option.splits intro!: blameless_bindR)
  have cond: "blameless (conditionBytes cs seen b)" for cs seen b
    by (induction cs seen b rule: conditionBytes.induct)
      (auto simp: blameless_Inl Let_def dest: assertText_code split: option.splits)
  have ev: "blameless (evidenceBytes es seen b)" for es seen b
    by (induction es seen b rule: evidenceBytes.induct)
      (auto simp: blameless_Inl Let_def dest!: firstError_Some dest: assertText_code split: option.splits)
  have kind: "assertRuleKind rule \<noteq> Some callbackFailed" "assertRuleKind rule \<noteq> Some invalidCallback"
    by (auto simp: assertRuleKind_def split: if_splits)
  have texts: "firstError (map (\<lambda>t. assertText t invalidRule) ts) = Some e \<Longrightarrow> blameless (Inl e)" for ts e
    by (auto simp: blameless_Inl dest!: firstError_Some)
  show ?thesis
    unfolding assertRule_def
    using texts [of "[ruleId rule, documentId rule, profileId rule, surfaceId rule, specSnapshotId rule, scopeRoot rule]"]
    by (auto intro!: blameless_bindR blameless_checkR sel cond ev simp: blameless_Inl kind
        dest: assertText_code split: option.splits)
qed

text \<open>
  The callbacks answer what the rule may ask about a target in its scope: the manual callback is asked for a manual
  rule only, the conditional one for a conditional rule only, and the glob matcher for the glob selectors.
\<close>

definition answers :: "'r callback \<Rightarrow> 'r \<Rightarrow> bool" where
  "answers callback request \<longleftrightarrow>
     (case callback of
        None \<Rightarrow> True
      | Some f \<Rightarrow> (case f request of Inl _ \<Rightarrow> False | Inr d \<Rightarrow> textOk (reason d)))"

definition callbacksAnswerInside :: "ActivationRule \<Rightarrow> jstring \<Rightarrow> ActivationCallbacks \<Rightarrow> bool" where
  "callbacksAnswerInside rule target callbacks \<longleftrightarrow>
     (ruleKind rule = KManual \<longrightarrow> answers (resolveManual callbacks) (manualRequest rule target)) \<and>
     (ruleKind rule = KConditional \<longrightarrow> answers (resolveConditional callbacks) (manualRequest rule target)) \<and>
     list_all (\<lambda>s. case s of
                  DirectoryTree _ \<Rightarrow> True
                | Glob pattern dialect \<Rightarrow> answers (matchGlob callbacks) (globRequest rule target pattern dialect))
       (selectorsOf rule)"

definition callbacksAnswer :: "ActivationRule \<Rightarrow> jstring \<Rightarrow> ActivationCallbacks \<Rightarrow> bool" where
  "callbacksAnswer rule target callbacks \<longleftrightarrow>
     (isWithinDirectory target (scopeRoot rule) \<longrightarrow> callbacksAnswerInside rule target callbacks)"

lemma blameless_invokeCallback: "answers callback request \<Longrightarrow> blameless (invokeCallback callback request missing)"
  by (auto simp: answers_def invokeCallback_def normalizeDecision_def blameless_Inl assertText_None
      split: option.splits sum.splits) (metis assertText_None option.distinct(1))+

lemma blameless_selectorResult:
  assumes "callbacksAnswerInside rule target callbacks" "s \<in> set (selectorsOf rule)"
  shows "blameless (selectorResult sha rule target callbacks s memo)"
  using assms
  by (cases s) (auto simp: callbacksAnswerInside_def list_all_iff Let_def split: option.splits
      intro!: blameless_bindR blameless_algebra blameless_invokeCallback)

lemma uniqueSelectors_subset: "snd ` set (uniqueSelectors sha ss u) \<subseteq> snd ` set u \<union> set ss"
proof (induction ss arbitrary: u)
  case (Cons s ss)
  show ?case using Cons.IH [of u] Cons.IH [of "u @ [(selectorKey sha s, s)]"] by auto
qed simp

lemma blameless_selectorUnion:
  assumes "callbacksAnswerInside rule target callbacks" "set ss \<subseteq> set (selectorsOf rule)"
  shows "blameless (selectorUnion sha rule target ss start callbacks memo)"
proof -
  have "set ts \<subseteq> set (selectorsOf rule) \<Longrightarrow> blameless (selectorResults sha rule target callbacks ts memo)" for ts memo
    by (induction ts arbitrary: memo)
      (auto simp: split_def intro!: blameless_bindR blameless_selectorResult [OF assms(1)])
  moreover have "set (map snd (sortOn fst (uniqueSelectors sha ss []))) \<subseteq> set (selectorsOf rule)"
    using uniqueSelectors_subset [of sha ss "[]"] assms(2) by (auto simp: sortOn_def)
  ultimately show ?thesis
    by (auto simp: selectorUnion_def split_def intro!: blameless_bindR blameless_algebra blameless_makeResult)
qed

lemma blameless_baseResult:
  "callbacksAnswerInside rule target callbacks \<Longrightarrow> blameless (baseResult sha rule target callbacks)"
  by (auto simp: baseResult_def callbacksAnswerInside_def Let_def split: ActivationKind.splits
      intro!: blameless_bindR blameless_algebra blameless_makeResult blameless_invokeCallback)

lemma blameless_applySelectors:
  assumes "callbacksAnswerInside rule target callbacks"
  shows "blameless (applySelectors sha rule target callbacks scope trigger)"
  using assms unfolding applySelectors_def applyExclusions_def split_def
  by (intro blameless_bindR blameless_selectorUnion blameless_algebra)
    (auto simp: selectorsOf_def intro!: blameless_bindR blameless_selectorUnion blameless_algebra)

lemma evaluate_blameless:
  assumes "callbacksAnswer rule target callbacks"
  shows "blameless (evaluateActivationRule sha rule target callbacks)"
proof -
  have scope: "blameless (scopeResult sha rule target)"
    by (auto simp: scopeResult_def Let_def intro: blameless_algebra)
  have inside: "callbacksAnswerInside rule target callbacks"
    if "scopeResult sha rule target = Inr r" "resultState r \<noteq> Inactive" for r
    using scopeResult_state [OF that(1)] that(2) assms by (auto simp: scopeState_def callbacksAnswer_def split: if_splits)
  have "blameless (bindR (scopeResult sha rule target) (\<lambda>scope.
      if resultState scope = Inactive then Inr scope
      else bindR (baseResult sha rule target callbacks) (\<lambda>trigger.
        if resultState trigger = Inactive then Inr trigger
        else applySelectors sha rule target callbacks scope trigger)))"
  proof (cases "scopeResult sha rule target")
    case (Inr r)
    then show ?thesis
      using inside [OF Inr] blameless_baseResult blameless_applySelectors
      by (cases "resultState r = Inactive") (auto intro!: blameless_bindR simp: blameless_Inl)
  qed (use scope in simp)
  then show ?thesis
    unfolding evaluateActivationRule_def
    by (auto intro!: blameless_bindR [OF blameless_assertRule] blameless_checkR simp: blameless_Inl
        dest: assertText_code split: option.splits)
qed

subsection \<open>The interface of a glob matcher\<close>

text \<open>
  What rule evaluation relies on when a glob matcher is its only callback: the matcher answers every
  request of a given class with a usable reason.
\<close>

locale glob_provider =
  fixes matcher :: "GlobActivationRequest \<Rightarrow> unit + ActivationFactDecision"
    and fits :: "GlobActivationRequest \<Rightarrow> bool"
  assumes answers_fitting: "fits request \<Longrightarrow> \<exists>d. matcher request = Inr d \<and> textOk (reason d)"
begin

definition callbacks :: ActivationCallbacks where
  "callbacks = \<lparr>matchGlob = Some matcher, resolveManual = None, resolveConditional = None\<rparr>"

lemma callbacks_answer:
  assumes "list_all (\<lambda>s. case s of DirectoryTree _ \<Rightarrow> True | Glob p d \<Rightarrow> fits (globRequest rule target p d)) (selectorsOf rule)"
  shows "callbacksAnswer rule target callbacks"
proof -
  have "answers (matchGlob callbacks) request" if "fits request" for request
    using answers_fitting [OF that] by (auto simp: answers_def callbacks_def)
  moreover have "answers (resolveManual callbacks) r" "answers (resolveConditional callbacks) r" for r
    by (simp_all add: answers_def callbacks_def)
  ultimately show ?thesis
    using assms by (auto simp: callbacksAnswer_def callbacksAnswerInside_def list_all_iff split: ActivationSelector.splits)
qed

lemma never_blamed:
  assumes "list_all (\<lambda>s. case s of DirectoryTree _ \<Rightarrow> True | Glob p d \<Rightarrow> fits (globRequest rule target p d)) (selectorsOf rule)"
  shows "blameless (evaluateActivationRule sha rule target callbacks)"
  by (rule evaluate_blameless [OF callbacks_answer [OF assms]])

end

subsection \<open>The information order\<close>

definition informs :: "ActivationState \<Rightarrow> ActivationState \<Rightarrow> bool" where
  "informs a b \<longleftrightarrow> a = Indeterminate \<or> a = b"

definition callbackInforms :: "'r callback \<Rightarrow> 'r callback \<Rightarrow> bool" where
  "callbackInforms f g \<longleftrightarrow> (\<forall>request. informs (answeredState f request) (answeredState g request))"

definition callbacksInform :: "ActivationCallbacks \<Rightarrow> ActivationCallbacks \<Rightarrow> bool" where
  "callbacksInform c d \<longleftrightarrow> callbackInforms (matchGlob c) (matchGlob d) \<and>
     callbackInforms (resolveManual c) (resolveManual d) \<and>
     callbackInforms (resolveConditional c) (resolveConditional d)"

lemma informs_min: "informs a b \<Longrightarrow> informs c d \<Longrightarrow> informs (min a c) (min b d)"
  by (cases a; cases b; cases c; cases d) (simp_all add: informs_def)

lemma informs_max: "informs a b \<Longrightarrow> informs c d \<Longrightarrow> informs (max a c) (max b d)"
  by (cases a; cases b; cases c; cases d) (simp_all add: informs_def)

lemma informs_flip: "informs a b \<Longrightarrow> informs (flipState a) (flipState b)"
  by (auto simp: informs_def)

lemma informs_union: "(\<And>x. informs (f x) (g x)) \<Longrightarrow> informs (unionState (map f xs)) (unionState (map g xs))"
  by (induction xs) (auto intro: informs_max simp: informs_def [of Inactive])

lemma ruleState_informs:
  assumes "callbacksInform c d"
  shows "informs (ruleState rule target c) (ruleState rule target d)"
proof -
  have sel: "informs (selectorState rule target c s) (selectorState rule target d s)" for s
    using assms by (cases s) (auto simp: callbacksInform_def callbackInforms_def informs_def)
  have "informs (triggerState rule target c) (triggerState rule target d)"
    using assms
    by (cases "ruleKind rule") (auto simp: callbacksInform_def callbackInforms_def triggerState_def informs_def)
  moreover have "informs (includedState rule target c) (includedState rule target d)"
    "informs (excludedState rule target c) (excludedState rule target d)"
    using informs_union [OF sel] by (auto simp: includedState_def excludedState_def informs_def [of Active])
  ultimately show ?thesis
    unfolding ruleState_def by (intro informs_min informs_flip) (simp_all add: informs_def)
qed

subsection \<open>Properties of the algebra\<close>

text \<open>
  C26. The algebra is strong Kleene logic with provenance: the state of a union, an intersection, a
  complement and a difference is the maximum, the minimum, the negation and the minimum with the
  negation of the operand states, and every fact of a result is a fact of an operand.
\<close>
theorem activation_kleene:
  "(activationUnion rs = Inr r \<longrightarrow>
      resultState r = unionState (map resultState rs) \<and> set (provenance r) \<subseteq> set (mergeProofs rs)) \<and>
   (activationIntersection rs = Inr r \<longrightarrow>
      resultState r = interState (map resultState rs) \<and> set (provenance r) \<subseteq> set (mergeProofs rs)) \<and>
   (activationComplement a = Inr r \<longrightarrow>
      resultState r = flipState (resultState a) \<and> set (provenance r) = set (provenance a)) \<and>
   (activationDifference a b = Inr r \<longrightarrow>
      resultState r = min (resultState a) (flipState (resultState b)) \<and>
      set (provenance r) \<subseteq> set (provenance a) \<union> set (provenance b))"
proof -
  have "set (mergeProofs rs) = \<Union> ((\<lambda>r. set (provenance r)) ` set rs)" by (auto simp: mergeProofs_def)
  moreover have "activationDifference a b = Inr r \<Longrightarrow> set (provenance r) \<subseteq> set (provenance a) \<union> set (provenance b)"
    unfolding activationDifference_def bindR_Inr_iff using algebra.difference_facts by blast
  ultimately show ?thesis
    using algebra.union_state algebra.union_facts algebra.inter_state algebra.inter_facts
      algebra.compl_state algebra.compl_facts activationDifference_state by auto
qed

theorem activation_kleene_witness:
  "\<exists>r. activationUnion [\<lparr>resultState = Inactive, provenance = []\<rparr>, \<lparr>resultState = Indeterminate, provenance = []\<rparr>] = Inr r \<and>
     resultState r = unionState [Inactive, Indeterminate]"
proof -
  let ?rs = "[\<lparr>resultState = Inactive, provenance = []\<rparr>, \<lparr>resultState = Indeterminate, provenance = []\<rparr>]"
  have "activationUnion ?rs = Inr \<lparr>resultState = Indeterminate, provenance = []\<rparr>"
    by (simp add: activationUnion_def normalizeOperands_def normalizeResult_def makeResult_def normalizeFacts_def
        mergeProofs_def sortOn_def ACTIVATION_ALGEBRA_LIMITS_def)
  with activation_kleene [of ?rs "\<lparr>resultState = Indeterminate, provenance = []\<rparr>"] show ?thesis by auto
qed

text \<open>
  C27. The order of the operands does not matter: a union or an intersection that succeeds gives the
  same result, provenance included, for every permutation of its operands.
\<close>
theorem activation_order_independent:
  assumes "mset rs = mset rs'"
  shows "(activationUnion rs = Inr r \<longleftrightarrow> activationUnion rs' = Inr r) \<and>
    (activationIntersection rs = Inr r \<longleftrightarrow> activationIntersection rs' = Inr r)"
  unfolding activationUnion_decideBy activationIntersection_decideBy
  by (intro conjI iffI) (erule decideBy_perm [OF assms] decideBy_perm [OF assms [symmetric]])+

theorem activation_order_independent_witness:
  "activationUnion [\<lparr>resultState = Inactive, provenance = []\<rparr>, \<lparr>resultState = Active, provenance = []\<rparr>] =
     Inr \<lparr>resultState = Active, provenance = []\<rparr> \<longleftrightarrow>
   activationUnion [\<lparr>resultState = Active, provenance = []\<rparr>, \<lparr>resultState = Inactive, provenance = []\<rparr>] =
     Inr \<lparr>resultState = Active, provenance = []\<rparr>"
  using activation_order_independent
    [of "[\<lparr>resultState = Inactive, provenance = []\<rparr>, \<lparr>resultState = Active, provenance = []\<rparr>]"
        "[\<lparr>resultState = Active, provenance = []\<rparr>, \<lparr>resultState = Inactive, provenance = []\<rparr>]"
        "\<lparr>resultState = Active, provenance = []\<rparr>"] by simp

text \<open>
  The length-prefixed serialisation behind fact keys and proof keys is injective on lists of
  well-formed texts, whatever separators the texts contain.
\<close>
theorem lengthPrefixed_injective:
  assumes "list_all hasWellFormedUnicode ps" "list_all hasWellFormedUnicode qs"
  shows "lengthPrefixed ps = lengthPrefixed qs \<longleftrightarrow> ps = qs"
  using assms lengthPrefixed_inj by (auto simp: list_all_iff)

theorem lengthPrefixed_injective_witness:
  "lengthPrefixed [[49, COLON], [97]] = lengthPrefixed [[49], [COLON, 97]] \<longleftrightarrow> [[49, COLON], [97]] = [[49], [COLON, 97]]"
  using lengthPrefixed_injective [of "[[49, COLON], [97]]" "[[49], [COLON, 97]]"] by (simp add: unit_class)

subsection \<open>Properties of rule evaluation\<close>

text \<open>A rule, a target and callbacks at which the properties are instantiated.\<close>

definition exampleRule :: ActivationRule where
  "exampleRule =
     \<lparr>ruleId = js ''r'', documentId = js ''d'', profileId = js ''p'', surfaceId = js ''s'', specSnapshotId = js ''v'',
      ruleKind = KGlob, scopeRoot = [DOT], includeSelectors = [Glob (js ''*'') None],
      excludeSelectors = [Glob (js ''*'') None], conditions = [], unknownReason = None,
      evidenceRefs = [(js ''e'', None)]\<rparr>"

definition exampleCallbacks :: "ActivationState \<Rightarrow> ActivationCallbacks" where
  "exampleCallbacks st =
     \<lparr>matchGlob = Some (\<lambda>_. Inr \<lparr>decisionState = st, reason = js ''m''\<rparr>), resolveManual = None,
      resolveConditional = None\<rparr>"

definition exampleDigest :: digest where
  "exampleDigest bytes = [48]"

lemmas example_eval = exampleRule_def exampleCallbacks_def exampleDigest_def js_def isWithinDirectory_def
  REPOSITORY_ROOT_def ACTIVATION_ALGEBRA_LIMITS_def

lemma assertText_ascii:
  "list_all (\<lambda>u. u < 128) s \<Longrightarrow> s \<noteq> [] \<Longrightarrow> length s \<le> 16384 \<Longrightarrow> assertText s code = None"
proof -
  have "list_all (\<lambda>u. u < 128) s \<Longrightarrow> hasWellFormedUnicode s" by (induction s) (auto simp: unit_class)
  then show "list_all (\<lambda>u. u < 128) s \<Longrightarrow> s \<noteq> [] \<Longrightarrow> length s \<le> 16384 \<Longrightarrow> assertText s code = None"
    by (simp add: assertText_def textBytes_ascii ACTIVATION_ALGEBRA_LIMITS_def)
qed

lemma exampleRule_ok: "assertRule exampleRule = Inr ()"
proof -
  have "isRepositoryRelativePath [DOT]" by (simp add: path_eval)
  then show ?thesis
    by (simp add: assertRule_def assertText_ascii textBytes_ascii example_eval assertRuleKind_def)
qed

lemma example_run_manual:
  "evaluateActivationRule exampleDigest exampleRule (js ''a'') ((exampleCallbacks Active)\<lparr>resolveManual := m\<rparr>) =
     Inr \<lparr>resultState = Inactive, provenance =
       [\<lparr>factKeyOf = js ''glob-selector:0'', factKind = GlobSelector, observedState = Active, description = js ''m''\<rparr>]\<rparr>"
proof -
  have "isRepositoryRelativePath (js ''a'')" by (simp add: path_eval js_def)
  then show ?thesis
    by (simp add: evaluateActivationRule_def exampleRule_ok assertText_ascii textBytes_ascii)
      (simp add: example_eval scopeResult_def baseResult_def makeResult_def normalizeFacts_def sortOn_def
        applySelectors_def selectorUnion_def factKey_def dialectText_def invokeCallback_def normalizeDecision_def
        assertText_ascii textBytes_ascii atomicResult_def activationUnion_def activationIntersection_def
        normalizeOperands_def normalizeResult_def mergeProofs_def applyExclusions_def activationComplement_def Let_def)
qed

lemmas example_run = example_run_manual [of None, unfolded exampleCallbacks_def ActivationCallbacks.simps,
  folded exampleCallbacks_def]

text \<open>
  C1. The evaluation of a rule means what the rule says: whenever \<open>evaluateActivationRule\<close> returns, the
  state is the conjunction of the scope, the trigger, the include selectors and the negated exclude
  selectors, with memoised callbacks, deduplicated selectors and early returns making no difference,
  and the provenance is in canonical order with one fact per key. The only assumption on the digest is
  that no two selectors of the rule collide.
\<close>
theorem evaluateActivationRule_meaning:
  assumes "noCollision sha rule" "evaluateActivationRule sha rule target callbacks = Inr r"
  shows "resultState r = ruleState rule target callbacks \<and> canonical r"
  using evaluate_state [OF assms] evaluate_canonical [OF assms(2)] by simp

theorem evaluateActivationRule_meaning_witness:
  "\<exists>r. evaluateActivationRule exampleDigest exampleRule (js ''a'') (exampleCallbacks Active) = Inr r \<and>
     resultState r = ruleState exampleRule (js ''a'') (exampleCallbacks Active)"
proof -
  have "noCollision exampleDigest exampleRule" by (simp add: noCollision_def exampleRule_def selectorsOf_def)
  from evaluateActivationRule_meaning [OF this example_run] example_run show ?thesis by blast
qed

text \<open>
  C28. Evaluation is monotone in information: if callbacks only turn indeterminate answers into definite
  ones, a definite result stays what it was.
\<close>
theorem evaluateActivationRule_monotone:
  assumes "noCollision sha rule" "callbacksInform callbacks callbacks'"
    "evaluateActivationRule sha rule target callbacks = Inr r"
    "evaluateActivationRule sha rule target callbacks' = Inr r'"
    "resultState r \<noteq> Indeterminate"
  shows "resultState r' = resultState r"
  using ruleState_informs [OF assms(2), of rule target] assms(5)
    evaluate_state [OF assms(1,3)] evaluate_state [OF assms(1,4)] by (simp add: informs_def)

theorem evaluateActivationRule_monotone_witness:
  "\<exists>r. evaluateActivationRule exampleDigest exampleRule (js ''a'')
     ((exampleCallbacks Active)\<lparr>resolveManual := Some (\<lambda>_. Inr \<lparr>decisionState = Active, reason = js ''m''\<rparr>)\<rparr>) = Inr r \<and>
     resultState r = Inactive"
proof -
  let ?c = "exampleCallbacks Active"
  let ?d = "?c\<lparr>resolveManual := Some (\<lambda>_. Inr \<lparr>decisionState = Active, reason = js ''m''\<rparr>)\<rparr>"
  have free: "noCollision exampleDigest exampleRule" by (simp add: noCollision_def exampleRule_def selectorsOf_def)
  have inf: "callbacksInform ?c ?d"
    by (simp add: callbacksInform_def callbackInforms_def informs_def exampleCallbacks_def answeredState_def)
  show ?thesis using example_run_manual evaluateActivationRule_monotone [OF free inf example_run example_run_manual] by auto
qed

text \<open>
  C29. A callback is blamed only when it failed, and no callback that the rule has no use for is called:
  if, for a target inside the scope, the manual callback of a manual rule, the conditional callback of a
  conditional rule and the glob matcher on the glob selectors answer the requests of the rule with
  well-formed reasons, the evaluation does not end in \<open>callback-failed\<close> or \<open>invalid-callback\<close>. Nothing is
  required of the other callbacks, and nothing at all for a target outside the scope.
\<close>
theorem evaluateActivationRule_blameless:
  assumes "callbacksAnswer rule target callbacks"
  shows "evaluateActivationRule sha rule target callbacks \<noteq> Inl callbackFailed \<and>
    evaluateActivationRule sha rule target callbacks \<noteq> Inl invalidCallback"
  using evaluate_blameless [OF assms] by (simp add: blameless_def)

theorem evaluateActivationRule_blameless_witness:
  "evaluateActivationRule exampleDigest exampleRule (js ''a'')
     ((exampleCallbacks Active)\<lparr>resolveConditional := Some (\<lambda>_. Inl ())\<rparr>) \<noteq> Inl callbackFailed"
proof -
  have "textOk (js ''m'')" by (simp add: textOk_def js_def unit_class textBytes_ascii ACTIVATION_ALGEBRA_LIMITS_def)
  then have "callbacksAnswer exampleRule (js ''a'') ((exampleCallbacks Active)\<lparr>resolveConditional := Some (\<lambda>_. Inl ())\<rparr>)"
    by (simp add: callbacksAnswer_def callbacksAnswerInside_def answers_def exampleRule_def exampleCallbacks_def selectorsOf_def)
  then show ?thesis using evaluateActivationRule_blameless by blast
qed

text \<open>
  Outside the scope root nothing is asked: the outcome for a target outside the scope does not
  depend on the callbacks at all, and when it is a result, its state is inactive.
\<close>
theorem evaluateActivationRule_outside_scope:
  assumes "\<not> isWithinDirectory target (scopeRoot rule)"
  shows "evaluateActivationRule sha rule target callbacks = evaluateActivationRule sha rule target callbacks' \<and>
    (\<forall>r. evaluateActivationRule sha rule target callbacks = Inr r \<longrightarrow> resultState r = Inactive)"
proof -
  have sc: "resultState scope = Inactive" if "scopeResult sha rule target = Inr scope" for scope
    using scopeResult_state [OF that] assms by (simp add: scopeState_def)
  then show ?thesis
    by (cases "scopeResult sha rule target")
      (auto simp: evaluateActivationRule_def bindR_Inr_iff checkR_Inr_iff split: option.splits)
qed

theorem evaluateActivationRule_outside_scope_witness:
  "evaluateActivationRule exampleDigest (exampleRule\<lparr>scopeRoot := js ''b''\<rparr>) (js ''a'') (exampleCallbacks Active) =
   evaluateActivationRule exampleDigest (exampleRule\<lparr>scopeRoot := js ''b''\<rparr>) (js ''a'') (exampleCallbacks Inactive)"
proof -
  have "\<not> isWithinDirectory (js ''a'') (scopeRoot (exampleRule\<lparr>scopeRoot := js ''b''\<rparr>))"
    by (simp add: isWithinDirectory_def js_def REPOSITORY_ROOT_def)
  then show ?thesis using evaluateActivationRule_outside_scope by blast
qed

end
