(* ===== verification/Profile_Glob.thy ===== *)
theory Profile_Glob
  imports Activation Wildcard
begin

text \<open>
  The profile-owned glob matcher: the closed catalog of dialects
  (\<open>packages/profiles/src/glob-dialects.ts\<close>) and the resolution of a glob request under its dialect
  (\<open>packages/resolver/src/profile-glob-dialects.ts\<close>): request validation, brace expansion, the two
  dynamic-programming matchers with their shared work budget, the documented subset and the decision.

  A request is a typed record, so the checks that it is a closed data record have no counterpart; a
  request field that is not text cannot occur. A thrown \<open>ProfileGlobDialectError\<close> is an \<open>Inl\<close>.
\<close>

subsection \<open>The dialect catalog\<close>

datatype ProfileGlobPatternBase = BaseRepositoryRoot | BaseScopeRoot | BaseUnknown

datatype ProfileGlobFeatureState = Documented | UndocumentedFeature

datatype ProfileGlobBracketState = InvalidIsNoMatch | UnknownBracket

datatype ProfileGlobBraceLimit = LiteralNoMatch | IndeterminateLimit

record ProfileGlobDialect =
  gd_id :: jstring
  gd_profileId :: jstring
  gd_surfaceIds :: "jstring list"
  gd_specSnapshotId :: jstring
  gd_patternBase :: ProfileGlobPatternBase
  gd_star :: ProfileGlobFeatureState
  gd_globstar :: ProfileGlobFeatureState
  gd_braceExpansion :: ProfileGlobFeatureState
  gd_braceExpansionMaximumPatterns :: "nat option"
  gd_braceExpansionMaximumBytes :: "nat option"
  gd_braceLimitResult :: ProfileGlobBraceLimit
  gd_bracketExpressions :: ProfileGlobBracketState
  gd_questionMark :: ProfileGlobFeatureState
  gd_evidenceRefs :: "jstring list"
  gd_unknownReason :: "jstring option"

definition claudeCodeDialect :: ProfileGlobDialect where
  "claudeCodeDialect =
     \<lparr>gd_id = js ''claude-code/project-rule-paths/2026-08-01'',
      gd_profileId = js ''claude-code'',
      gd_surfaceIds = [js ''claude-code/local-session''],
      gd_specSnapshotId = js ''claude-code/2026-08-01'',
      gd_patternBase = BaseRepositoryRoot,
      gd_star = Documented, gd_globstar = Documented, gd_braceExpansion = Documented,
      gd_braceExpansionMaximumPatterns = Some 1000, gd_braceExpansionMaximumBytes = Some 4194304,
      gd_braceLimitResult = LiteralNoMatch, gd_bracketExpressions = InvalidIsNoMatch,
      gd_questionMark = UndocumentedFeature,
      gd_evidenceRefs = [js ''CC-RULE-08'', js ''CC-RULE-09'', js ''CC-RULE-10'', js ''CC-RULE-12'', js ''CC-RULE-13''],
      gd_unknownReason = None\<rparr>"

definition copilotCliDialect :: ProfileGlobDialect where
  "copilotCliDialect =
     \<lparr>gd_id = js ''copilot-cli/apply-to/2026-08-01'',
      gd_profileId = js ''copilot-cli'',
      gd_surfaceIds = [js ''copilot-cli/local-terminal''],
      gd_specSnapshotId = js ''copilot-surfaces/2026-08-01.0'',
      gd_patternBase = BaseUnknown,
      gd_star = Documented, gd_globstar = Documented, gd_braceExpansion = UndocumentedFeature,
      gd_braceExpansionMaximumPatterns = None, gd_braceExpansionMaximumBytes = None,
      gd_braceLimitResult = IndeterminateLimit, gd_bracketExpressions = UnknownBracket,
      gd_questionMark = UndocumentedFeature,
      gd_evidenceRefs = [js ''COP-GAP-004'', js ''COP-PRE-004''],
      gd_unknownReason = Some (js ''Copilot CLI does not document the pattern base or a complete glob dialect.'')\<rparr>"

definition copilotCloudAgentDialect :: ProfileGlobDialect where
  "copilotCloudAgentDialect =
     \<lparr>gd_id = js ''copilot-cloud-agent/apply-to/2026-08-01'',
      gd_profileId = js ''copilot-cloud-agent'',
      gd_surfaceIds = [js ''copilot-cloud-agent/github-hosted''],
      gd_specSnapshotId = js ''copilot-surfaces/2026-08-01.0'',
      gd_patternBase = BaseUnknown,
      gd_star = Documented, gd_globstar = Documented, gd_braceExpansion = UndocumentedFeature,
      gd_braceExpansionMaximumPatterns = None, gd_braceExpansionMaximumBytes = None,
      gd_braceLimitResult = IndeterminateLimit, gd_bracketExpressions = UnknownBracket,
      gd_questionMark = UndocumentedFeature,
      gd_evidenceRefs = [js ''COP-GAP-004'', js ''COP-PRE-004''],
      gd_unknownReason = Some (js ''The hosted coding-agent snapshot does not document the pattern base.'')\<rparr>"

definition copilotCodeReviewDialect :: ProfileGlobDialect where
  "copilotCodeReviewDialect =
     \<lparr>gd_id = js ''copilot-code-review/apply-to/2026-08-01'',
      gd_profileId = js ''copilot-code-review'',
      gd_surfaceIds = [js ''copilot-code-review/github-hosted''],
      gd_specSnapshotId = js ''copilot-surfaces/2026-08-01.0'',
      gd_patternBase = BaseUnknown,
      gd_star = Documented, gd_globstar = Documented, gd_braceExpansion = UndocumentedFeature,
      gd_braceExpansionMaximumPatterns = None, gd_braceExpansionMaximumBytes = None,
      gd_braceLimitResult = IndeterminateLimit, gd_bracketExpressions = UnknownBracket,
      gd_questionMark = UndocumentedFeature,
      gd_evidenceRefs = [js ''COP-GAP-004'', js ''COP-PRE-004''],
      gd_unknownReason = Some (js ''The hosted code-review snapshot does not document the pattern base.'')\<rparr>"

definition copilotVscodeDialect :: ProfileGlobDialect where
  "copilotVscodeDialect =
     \<lparr>gd_id = js ''copilot-vscode/apply-to/2026-08-01'',
      gd_profileId = js ''copilot-vscode'',
      gd_surfaceIds = [js ''copilot-vscode/local-chat''],
      gd_specSnapshotId = js ''copilot-surfaces/2026-08-01.0'',
      gd_patternBase = BaseScopeRoot,
      gd_star = Documented, gd_globstar = Documented, gd_braceExpansion = Documented,
      gd_braceExpansionMaximumPatterns = None, gd_braceExpansionMaximumBytes = None,
      gd_braceLimitResult = IndeterminateLimit, gd_bracketExpressions = UnknownBracket,
      gd_questionMark = UndocumentedFeature,
      gd_evidenceRefs = [js ''COP-PRE-004'', js ''VSC-INSTRUCTIONS''],
      gd_unknownReason = None\<rparr>"

definition cursorAgentDialect :: ProfileGlobDialect where
  "cursorAgentDialect =
     \<lparr>gd_id = js ''cursor-agent/mdc-globs/2026-08-01'',
      gd_profileId = js ''cursor-agent'',
      gd_surfaceIds = [js ''cursor-agent/cli'', js ''cursor-agent/ide''],
      gd_specSnapshotId = js ''cursor/2026-08-01'',
      gd_patternBase = BaseUnknown,
      gd_star = UndocumentedFeature, gd_globstar = UndocumentedFeature, gd_braceExpansion = UndocumentedFeature,
      gd_braceExpansionMaximumPatterns = None, gd_braceExpansionMaximumBytes = None,
      gd_braceLimitResult = IndeterminateLimit, gd_bracketExpressions = UnknownBracket,
      gd_questionMark = UndocumentedFeature,
      gd_evidenceRefs = [js ''CURSOR-GLOB-03'', js ''CURSOR-GLOB-05'', js ''CURSOR-GLOB-06'', js ''CURSOR-GLOB-07''],
      gd_unknownReason = Some (js ''Cursor does not publish a complete MDC glob grammar or pattern base.'')\<rparr>"

definition PROFILE_GLOB_DIALECTS :: "ProfileGlobDialect list" where
  "PROFILE_GLOB_DIALECTS =
     [claudeCodeDialect, copilotCliDialect, copilotCloudAgentDialect, copilotCodeReviewDialect,
      copilotVscodeDialect, cursorAgentDialect]"

definition profileGlobDialect :: "jstring \<Rightarrow> ProfileGlobDialect option" where
  "profileGlobDialect i = map_of (map (\<lambda>d. (gd_id d, d)) PROFILE_GLOB_DIALECTS) i"

subsection \<open>Requests\<close>

record ProfileGlobDialectLimits =
  maxExpandedBytes :: nat
  maxExpandedPatterns :: nat
  maxGlobInputTextBytes :: nat
  maxMatchWork :: nat
  maxPatternBytes :: nat
  maxPathSegments :: nat
  maxTargetBytes :: nat

definition PROFILE_GLOB_DIALECT_LIMITS :: ProfileGlobDialectLimits where
  "PROFILE_GLOB_DIALECT_LIMITS =
     \<lparr>maxExpandedBytes = 4194304, maxExpandedPatterns = 1000, maxGlobInputTextBytes = 65536,
      maxMatchWork = 1048576, maxPatternBytes = 16384, maxPathSegments = 1024, maxTargetBytes = 16384\<rparr>"

datatype ProfileGlobDialectErrorCode = invalidRequest | globResourceLimit

datatype MatchResult = Matched | NotMatched | UnknownMatch

datatype ExpansionResult = Expanded "jstring list" | ExpansionLimit | ExpansionUnsupported

definition hasControl :: "jstring \<Rightarrow> bool" where
  "hasControl value \<longleftrightarrow> list_ex (\<lambda>u. u \<le> 0x1F \<or> (0x7F \<le> u \<and> u \<le> 0x9F)) value"

definition decision :: "ActivationState \<Rightarrow> jstring \<Rightarrow> ActivationFactDecision" where
  "decision st why = \<lparr>decisionState = st, reason = why\<rparr>"

definition invalidInputDecision :: ActivationFactDecision where
  "invalidInputDecision =
     decision Indeterminate
       (js ''The glob request contains unsupported text; profile activation remains indeterminate.'')"

definition unsupportedDecision :: "ProfileGlobDialect \<Rightarrow> ActivationFactDecision" where
  "unsupportedDecision dialect =
     decision Indeterminate
       (js ''Dialect '' @ gd_id dialect @
        js '' does not document the requested behavior; activation remains indeterminate.'')"

text \<open>The loop over the request keys: the text bytes, or the first empty text.\<close>

fun requestBytes :: "jstring list \<Rightarrow> nat \<Rightarrow> ProfileGlobDialectErrorCode + nat" where
  "requestBytes [] inputBytes = Inr inputBytes"
| "requestBytes (value # rest) inputBytes =
     (if value = [] then Inl invalidRequest else requestBytes rest (inputBytes + textBytes value))"

definition validateRequest :: "GlobActivationRequest \<Rightarrow> ProfileGlobDialectErrorCode + GlobActivationRequest" where
  "validateRequest input =
     bindR
       (requestBytes
          ([gr_ruleId input, gr_profileId input, gr_surfaceId input, gr_scopeRoot input,
            gr_targetPath input, gr_pattern input] @
           (case gr_dialectId input of None \<Rightarrow> [] | Some d \<Rightarrow> [d])) 0)
       (\<lambda>inputBytes.
     checkR (inputBytes \<le> maxGlobInputTextBytes PROFILE_GLOB_DIALECT_LIMITS) globResourceLimit
    (checkR (textBytes (gr_pattern input) \<le> maxPatternBytes PROFILE_GLOB_DIALECT_LIMITS) globResourceLimit
    (checkR (textBytes (gr_targetPath input) \<le> maxTargetBytes PROFILE_GLOB_DIALECT_LIMITS) globResourceLimit
    (checkR (isRepositoryRelativePath (gr_targetPath input) \<and> isRepositoryRelativePath (gr_scopeRoot input))
       invalidRequest (Inr input)))))"

text \<open>Whether the target is inside the scope, and its path relative to it.\<close>

definition relativeToScope :: "jstring \<Rightarrow> jstring \<Rightarrow> bool \<times> jstring" where
  "relativeToScope targetPath scope =
     (if scope = REPOSITORY_ROOT then (True, targetPath)
      else if targetPath = scope then (True, REPOSITORY_ROOT)
      else if startsWith targetPath (scope @ [SLASH])
      then (True, drop (length (scope @ [SLASH])) targetPath)
      else (False, targetPath))"

subsection \<open>Brace expansion\<close>

abbreviation OPEN_BRACE :: nat where "OPEN_BRACE \<equiv> 123"
abbreviation CLOSE_BRACE :: nat where "CLOSE_BRACE \<equiv> 125"
abbreviation COMMA :: nat where "COMMA \<equiv> 44"

text \<open>\<open>limit !== null && amount > limit\<close>.\<close>

definition overOptional :: "nat option \<Rightarrow> nat \<Rightarrow> bool" where
  "overOptional limit amount = (case limit of None \<Rightarrow> False | Some n \<Rightarrow> n < amount)"

text \<open>The loop over the alternatives of one brace group.\<close>

fun expandAlternatives ::
  "ProfileGlobDialect \<Rightarrow> jstring \<Rightarrow> jstring \<Rightarrow> jstring list \<Rightarrow> jstring list \<Rightarrow> nat \<Rightarrow>
   ExpansionResult + (jstring list \<times> nat)" where
  "expandAlternatives dialect before rest [] nxt nextBytes = Inr (nxt, nextBytes)"
| "expandAlternatives dialect before rest (alternative # alternatives) nxt nextBytes =
     (let candidate = before @ alternative @ rest
      in if maxExpandedPatterns PROFILE_GLOB_DIALECT_LIMITS < length nxt + 1 \<or>
            overOptional (gd_braceExpansionMaximumPatterns dialect) (length nxt + 1)
         then Inl ExpansionLimit
         else let nextBytes' = nextBytes + textBytes candidate
              in if maxExpandedBytes PROFILE_GLOB_DIALECT_LIMITS < nextBytes' \<or>
                    overOptional (gd_braceExpansionMaximumBytes dialect) nextBytes'
                 then Inl ExpansionLimit
                 else expandAlternatives dialect before rest alternatives (nxt @ [candidate]) nextBytes')"

text \<open>One round: the first brace group of every value is expanded.\<close>

fun expandValues ::
  "ProfileGlobDialect \<Rightarrow> jstring list \<Rightarrow> jstring list \<Rightarrow> nat \<Rightarrow> bool \<Rightarrow> ExpansionResult + (jstring list \<times> bool)" where
  "expandValues dialect [] nxt nextBytes expanded = Inr (nxt, expanded)"
| "expandValues dialect (value # values) nxt nextBytes expanded =
     (case indexOf OPEN_BRACE value of
        None \<Rightarrow>
          if CLOSE_BRACE \<in> set value then Inl ExpansionUnsupported
          else let nextBytes' = nextBytes + textBytes value
               in if maxExpandedBytes PROFILE_GLOB_DIALECT_LIMITS < nextBytes' then Inl ExpansionLimit
                  else expandValues dialect values (nxt @ [value]) nextBytes' expanded
      | Some opn \<Rightarrow>
          if gd_braceExpansion dialect \<noteq> Documented then Inl ExpansionUnsupported
          else (case indexOfFrom CLOSE_BRACE value (opn + 1) of
                  None \<Rightarrow> Inl ExpansionUnsupported
                | Some close \<Rightarrow>
                    if (case indexOfFrom OPEN_BRACE value (opn + 1) of
                          None \<Rightarrow> False
                        | Some nestedOpen \<Rightarrow> nestedOpen < close)
                    then Inl ExpansionUnsupported
                    else let alternatives = split_on COMMA (take (close - (opn + 1)) (drop (opn + 1) value))
                         in if length alternatives < 2 \<or> [] \<in> set alternatives then Inl ExpansionUnsupported
                            else bindR
                                   (expandAlternatives dialect (take opn value) (drop (close + 1) value)
                                      alternatives nxt nextBytes)
                                   (\<lambda>(nxt', nextBytes'). expandValues dialect values nxt' nextBytes' True)))"

definition openBraces :: "jstring list \<Rightarrow> nat" where
  "openBraces values = foldr (\<lambda>v n. max (count_list v OPEN_BRACE) n) values 0"

lemma openBraces_simps [simp]:
  "openBraces [] = 0" "openBraces (v # vs) = max (count_list v OPEN_BRACE) (openBraces vs)"
  by (simp_all add: openBraces_def)

lemma openBraces_append [simp]: "openBraces (vs @ ws) = max (openBraces vs) (openBraces ws)"
  by (induction vs) auto

lemma openBraces_le: "openBraces vs \<le> n \<longleftrightarrow> (\<forall>v\<in>set vs. count_list v OPEN_BRACE \<le> n)"
  by (induction vs) auto

lemma expandAlternatives_Inr:
  "expandAlternatives d before rest alts nxt b = Inr (nxt', b') \<Longrightarrow>
   nxt' = nxt @ map (\<lambda>a. before @ a @ rest) alts"
  by (induction d before rest alts nxt b rule: expandAlternatives.induct) (auto simp: Let_def split: if_splits)

text \<open>A value cut at its first brace group.\<close>

lemma brace_group:
  assumes "indexOf OPEN_BRACE v = Some opn" "indexOfFrom CLOSE_BRACE v (opn + 1) = Some close"
    and "\<not> (case indexOfFrom OPEN_BRACE v (opn + 1) of None \<Rightarrow> False | Some nested \<Rightarrow> nested < close)"
  obtains before body rest where "v = before @ OPEN_BRACE # body @ CLOSE_BRACE # rest"
    "OPEN_BRACE \<notin> set before" "OPEN_BRACE \<notin> set body" "CLOSE_BRACE \<notin> set body"
    "take opn v = before" "take (close - (opn + 1)) (drop (opn + 1) v) = body" "drop (close + 1) v = rest"
proof -
  let ?tail = "drop (opn + 1) v"
  from assms(2) obtain i where i: "indexOf CLOSE_BRACE ?tail = Some i" and close: "close = opn + 1 + i"
    by (auto simp: indexOfFrom_def)
  have "OPEN_BRACE \<notin> set (take i ?tail)"
  proof (cases "indexOf OPEN_BRACE ?tail")
    case None
    then show ?thesis using set_take_subset by (metis indexOf_None subset_iff)
  next
    case (Some j)
    with assms(3) close have "i \<le> j" by (simp add: indexOfFrom_def)
    moreover have "OPEN_BRACE \<notin> set (take j ?tail)" using Some indexOf_split(2) by blast
    ultimately show ?thesis using set_take_subset_set_take by (metis subset_iff)
  qed
  moreover have "v = take opn v @ OPEN_BRACE # ?tail" "?tail = take i ?tail @ CLOSE_BRACE # drop (Suc i) ?tail"
    using indexOf_split(1) [OF assms(1)] indexOf_split(1) [OF i] by simp_all
  moreover have "drop (close + 1) v = drop (Suc i) ?tail" by (simp add: close add.commute)
  ultimately show thesis
    using indexOf_split(2) [OF assms(1)] indexOf_split(2) [OF i]
    by (intro that [of "take opn v" "take i ?tail" "drop (Suc i) ?tail"]) (simp_all add: close)
qed

lemma split_on_free: "c \<notin> set s \<Longrightarrow> a \<in> set (split_on d s) \<Longrightarrow> c \<notin> set a"
  using split_on_units [of d s] by auto

lemma expandValues_openBraces:
  "expandValues d vs nxt b e = Inr (nxt', e') \<Longrightarrow>
   (e' \<longrightarrow> e \<or> 0 < openBraces vs) \<and> openBraces nxt' \<le> max (openBraces nxt) (openBraces vs - 1)"
proof (induction d vs nxt b e rule: expandValues.induct)
  case (2 d v vs nxt b e)
  show ?case
  proof (cases "indexOf OPEN_BRACE v")
    case None
    then have "count_list v OPEN_BRACE = 0" by (simp add: count_list_0_iff)
    with 2 None show ?thesis by (auto simp: Let_def split: if_splits)
  next
    case (Some opn)
    with "2.prems" obtain close where close: "indexOfFrom CLOSE_BRACE v (opn + 1) = Some close"
      and nested: "\<not> (case indexOfFrom OPEN_BRACE v (opn + 1) of None \<Rightarrow> False | Some nested \<Rightarrow> nested < close)"
      by (auto split: option.splits if_splits)
    obtain before body rest where v: "v = before @ OPEN_BRACE # body @ CLOSE_BRACE # rest"
      "OPEN_BRACE \<notin> set before" "OPEN_BRACE \<notin> set body"
      "take opn v = before" "take (close - (opn + 1)) (drop (opn + 1) v) = body" "drop (close + 1) v = rest"
      by (rule brace_group [OF Some close nested])
    let ?alts = "split_on COMMA body"
    from "2.prems" Some close nested v obtain nxt1 b1 where
      alts: "expandAlternatives d before rest ?alts nxt b = Inr (nxt1, b1)"
      and rec: "expandValues d vs nxt1 b1 True = Inr (nxt', e')"
      and dialect: "gd_braceExpansion d = Documented" and two: "\<not> (length ?alts < 2 \<or> [] \<in> set ?alts)"
      by (auto simp: Let_def bindR_Inr_iff split: if_splits)
    have nxt1: "nxt1 = nxt @ map (\<lambda>a. before @ a @ rest) ?alts" by (rule expandAlternatives_Inr [OF alts])
    have cnt: "count_list v OPEN_BRACE = Suc (count_list rest OPEN_BRACE)"
      using v by (simp add: count_list_0_iff)
    have "count_list a OPEN_BRACE = 0" if "a \<in> set ?alts" for a
      using split_on_free [OF v(3) that] by (simp add: count_list_0_iff)
    then have "openBraces (map (\<lambda>a. before @ a @ rest) ?alts) \<le> count_list rest OPEN_BRACE"
      using v(2) by (auto simp: openBraces_le count_list_0_iff)
    moreover have "(e' \<longrightarrow> True \<or> 0 < openBraces vs) \<and> openBraces nxt' \<le> max (openBraces nxt1) (openBraces vs - 1)"
      by (rule "2.IH"(2) [OF Some _ close nested refl _ rec]) (use dialect two v in auto)
    ultimately show ?thesis using cnt nxt1 by auto
  qed
qed auto

text \<open>The outer loop ends: a round that expanded something removed one opening brace from the worst value.\<close>

function braceLoop :: "ProfileGlobDialect \<Rightarrow> jstring list \<Rightarrow> ExpansionResult" where
  "braceLoop dialect values =
     (case expandValues dialect values [] 0 False of
        Inl failure \<Rightarrow> failure
      | Inr (nxt, expanded) \<Rightarrow> if expanded then braceLoop dialect nxt else Expanded nxt)"
  by pat_completeness auto
termination
proof (relation "measure (\<lambda>(d, vs). openBraces vs)")
  fix d :: ProfileGlobDialect and vs p nxt expanded
  assume "expandValues d vs [] 0 False = Inr p" "(nxt, expanded) = p" expanded
  then show "((d, nxt), (d, vs)) \<in> measure (\<lambda>(d, vs). openBraces vs)"
    using expandValues_openBraces [of d vs "[]" 0 False nxt True] by auto
qed simp

declare braceLoop.simps [simp del]

definition braceExpansion :: "jstring \<Rightarrow> ProfileGlobDialect \<Rightarrow> ExpansionResult" where
  "braceExpansion pattern dialect = braceLoop dialect [pattern]"

subsection \<open>The matchers\<close>

abbreviation OPEN_BRACKET :: nat where "OPEN_BRACKET \<equiv> 91"
abbreviation CLOSE_BRACKET :: nat where "CLOSE_BRACKET \<equiv> 93"

fun bracketLoop :: "nat list \<Rightarrow> bool \<Rightarrow> bool" where
  "bracketLoop [] opn = opn"
| "bracketLoop (scalar # rest) opn =
     (if scalar = OPEN_BRACKET then (if opn then True else bracketLoop rest True)
      else if scalar = CLOSE_BRACKET then (if \<not> opn then True else bracketLoop rest False)
      else bracketLoop rest opn)"

definition malformedBracketExpression :: "jstring \<Rightarrow> bool" where
  "malformedBracketExpression pattern = bracketLoop (scalars pattern) False"

definition foldUnit :: "nat \<Rightarrow> nat" where
  "foldUnit unit_value = (if 0x41 \<le> unit_value \<and> unit_value \<le> 0x5A then unit_value + 0x20 else unit_value)"

definition asciiFold :: "jstring \<Rightarrow> jstring" where
  "asciiFold value = map foldUnit value"

text \<open>The work budget is its counter; \<open>consume\<close> gives the new counter and whether it is within the limit.\<close>

definition consume :: "nat \<Rightarrow> nat \<times> bool" where
  "consume work = (work + 1, work + 1 \<le> maxMatchWork PROFILE_GLOB_DIALECT_LIMITS)"

definition exhausted :: "nat \<Rightarrow> bool" where
  "exhausted work \<longleftrightarrow> maxMatchWork PROFILE_GLOB_DIALECT_LIMITS < work"

text \<open>One cell of the table of \<open>segmentMatch\<close>; \<open>current\<close> holds the cells before \<open>index\<close>.\<close>

definition segmentCell :: "nat \<Rightarrow> nat list \<Rightarrow> bool list \<Rightarrow> bool list \<Rightarrow> nat \<Rightarrow> bool" where
  "segmentCell token valueScalars prior current index =
     (if token = STAR then prior ! index \<or> (0 < index \<and> current ! (index - 1))
      else if token = QUESTION then 0 < index \<and> prior ! (index - 1)
      else 0 < index \<and> prior ! (index - 1) \<and> valueScalars ! (index - 1) = token)"

text \<open>The inner loop: the finished row, or \<open>None\<close> when the budget ran out, with the work done.\<close>

fun segmentRow :: "nat \<Rightarrow> nat list \<Rightarrow> bool list \<Rightarrow> bool list \<Rightarrow> nat list \<Rightarrow> nat \<Rightarrow> bool list option \<times> nat" where
  "segmentRow token valueScalars prior current [] work = (Some current, work)"
| "segmentRow token valueScalars prior current (index # indices) work =
     (case consume work of
        (work', False) \<Rightarrow> (None, work')
      | (work', True) \<Rightarrow>
          segmentRow token valueScalars prior (current @ [segmentCell token valueScalars prior current index])
            indices work')"

fun segmentRows :: "nat list \<Rightarrow> nat list \<Rightarrow> bool list \<Rightarrow> nat \<Rightarrow> bool list option \<times> nat" where
  "segmentRows [] valueScalars prior work = (Some prior, work)"
| "segmentRows (token # tokens) valueScalars prior work =
     (case segmentRow token valueScalars prior [] [0..<Suc (length valueScalars)] work of
        (None, work') \<Rightarrow> (None, work')
      | (Some current, work') \<Rightarrow> segmentRows tokens valueScalars current work')"

definition startsWildcard :: "nat list \<Rightarrow> bool" where
  "startsWildcard patternScalars \<longleftrightarrow>
     (case patternScalars of [] \<Rightarrow> False | c # _ \<Rightarrow> c = STAR \<or> c = QUESTION)"

definition startsDot :: "nat list \<Rightarrow> bool" where
  "startsDot valueScalars \<longleftrightarrow> (case valueScalars of [] \<Rightarrow> False | c # _ \<Rightarrow> c = DOT)"

definition segmentMatch :: "jstring \<Rightarrow> jstring \<Rightarrow> bool \<Rightarrow> bool \<Rightarrow> nat \<Rightarrow> MatchResult \<times> nat" where
  "segmentMatch pattern value dotWildcards foldCase work =
     (let patternScalars = scalars (if foldCase then asciiFold pattern else pattern);
          valueScalars = scalars (if foldCase then asciiFold value else value)
      in if \<not> dotWildcards \<and> startsDot valueScalars \<and> startsWildcard patternScalars then (NotMatched, work)
         else (case segmentRows patternScalars valueScalars (initial_row (length valueScalars)) work of
                 (None, work') \<Rightarrow> (UnknownMatch, work')
               | (Some final, work') \<Rightarrow>
                   (if final ! length valueScalars then Matched else NotMatched, work')))"

definition GLOBSTAR :: jstring where
  "GLOBSTAR = [STAR, STAR]"

text \<open>The body of the inner loop of \<open>pathMatch\<close> after the budget check: the current row, written in place.\<close>

definition pathCell ::
  "jstring \<Rightarrow> jstring list \<Rightarrow> bool \<Rightarrow> bool \<Rightarrow> bool list \<Rightarrow> bool list \<Rightarrow> nat \<Rightarrow> nat \<Rightarrow> bool list option \<times> nat" where
  "pathCell segment pathSegments dotWildcards foldCase prior current pathIndex work =
     (if segment = GLOBSTAR then
        let current' = (if prior ! pathIndex then current[pathIndex := True] else current)
        in (Some (if pathIndex < length pathSegments \<and> current' ! pathIndex \<and>
                     (dotWildcards \<or> \<not> startsWith (pathSegments ! pathIndex) [DOT])
                  then current'[pathIndex + 1 := True] else current'), work)
      else if prior ! pathIndex then
        if pathIndex < length pathSegments then
          (case segmentMatch segment (pathSegments ! pathIndex) dotWildcards foldCase work of
             (UnknownMatch, work') \<Rightarrow> (None, work')
           | (Matched, work') \<Rightarrow> (Some (current[pathIndex + 1 := True]), work')
           | (NotMatched, work') \<Rightarrow> (Some current, work'))
        else (Some current, work)
      else (Some current, work))"

fun pathRow ::
  "jstring \<Rightarrow> jstring list \<Rightarrow> bool \<Rightarrow> bool \<Rightarrow> bool list \<Rightarrow> bool list \<Rightarrow> nat list \<Rightarrow> nat \<Rightarrow> bool list option \<times> nat" where
  "pathRow segment pathSegments dotWildcards foldCase prior current [] work = (Some current, work)"
| "pathRow segment pathSegments dotWildcards foldCase prior current (pathIndex # indices) work =
     (case consume work of
        (work', False) \<Rightarrow> (None, work')
      | (work', True) \<Rightarrow>
          (case pathCell segment pathSegments dotWildcards foldCase prior current pathIndex work' of
             (None, work'') \<Rightarrow> (None, work'')
           | (Some current', work'') \<Rightarrow>
               pathRow segment pathSegments dotWildcards foldCase prior current' indices work''))"

fun pathRows :: "jstring list \<Rightarrow> jstring list \<Rightarrow> bool \<Rightarrow> bool \<Rightarrow> bool list \<Rightarrow> nat \<Rightarrow> bool list option \<times> nat" where
  "pathRows [] pathSegments dotWildcards foldCase prior work = (Some prior, work)"
| "pathRows (segment # segments) pathSegments dotWildcards foldCase prior work =
     (case pathRow segment pathSegments dotWildcards foldCase prior
             (replicate (Suc (length pathSegments)) False) [0..<Suc (length pathSegments)] work of
        (None, work') \<Rightarrow> (None, work')
      | (Some current, work') \<Rightarrow> pathRows segments pathSegments dotWildcards foldCase current work')"

definition pathSegmentsOf :: "jstring \<Rightarrow> jstring list" where
  "pathSegmentsOf path = (if path = REPOSITORY_ROOT then [] else split_on SLASH path)"

definition pathMatch :: "jstring \<Rightarrow> jstring \<Rightarrow> bool \<Rightarrow> bool \<Rightarrow> nat \<Rightarrow> MatchResult \<times> nat" where
  "pathMatch pattern path dotWildcards foldCase work =
     (let patternSegments = split_on SLASH pattern; pathSegments = pathSegmentsOf path
      in if maxPathSegments PROFILE_GLOB_DIALECT_LIMITS < length patternSegments \<or>
            maxPathSegments PROFILE_GLOB_DIALECT_LIMITS < length pathSegments
         then (UnknownMatch, work)
         else (case pathRows patternSegments pathSegments dotWildcards foldCase
                      (initial_row (length pathSegments)) work of
                 (None, work') \<Rightarrow> (UnknownMatch, work')
               | (Some final, work') \<Rightarrow>
                   (if final ! length pathSegments then Matched else NotMatched, work')))"

definition hasNonAscii :: "jstring \<Rightarrow> bool" where
  "hasNonAscii value \<longleftrightarrow> list_ex (\<lambda>u. 0x7F < u) value"

subsection \<open>The documented subset and the decision\<close>

text \<open>The syntactic gates of \<open>matchDocumentedSubset\<close>: the answer they force, or \<open>None\<close>.\<close>

definition unsupportedShape :: "jstring \<Rightarrow> bool" where
  "unsupportedShape pattern \<longleftrightarrow>
     startsWith pattern [SLASH] \<or> startsWith pattern [DOT, SLASH] \<or> startsWith pattern [DOT, DOT, SLASH] \<or>
     endsWith pattern [SLASH] \<or> includesStr pattern [SLASH, SLASH] \<or> includesStr pattern [BACKSLASH] \<or>
     startsWith pattern [33]"

definition unsupportedSegment :: "ProfileGlobDialect \<Rightarrow> jstring \<Rightarrow> bool" where
  "unsupportedSegment dialect segment \<longleftrightarrow>
     (includesStr segment GLOBSTAR \<and> segment \<noteq> GLOBSTAR) \<or>
     (includesStr segment [STAR] \<and> gd_star dialect \<noteq> Documented) \<or>
     (segment = GLOBSTAR \<and> gd_globstar dialect \<noteq> Documented)"

definition documentedGate :: "jstring \<Rightarrow> ProfileGlobDialect \<Rightarrow> MatchResult option" where
  "documentedGate pattern dialect =
     (if unsupportedShape pattern then Some UnknownMatch
      else if includesStr pattern [OPEN_BRACKET] \<or> includesStr pattern [CLOSE_BRACKET] then
        if gd_bracketExpressions dialect = InvalidIsNoMatch \<and> malformedBracketExpression pattern
        then Some NotMatched else Some UnknownMatch
      else if includesStr pattern [QUESTION] \<and> gd_questionMark dialect \<noteq> Documented then Some UnknownMatch
      else if list_ex (unsupportedSegment dialect) (split_on SLASH pattern) then Some UnknownMatch
      else None)"

definition matchDocumentedSubset ::
  "jstring \<Rightarrow> jstring \<Rightarrow> ProfileGlobDialect \<Rightarrow> nat \<Rightarrow> MatchResult \<times> nat" where
  "matchDocumentedSubset pattern path dialect work =
     (case documentedGate pattern dialect of
        Some forced \<Rightarrow> (forced, work)
      | None \<Rightarrow>
          let (sensitiveWithoutDots, work1) = pathMatch pattern path False False work
          in if sensitiveWithoutDots \<noteq> NotMatched then (sensitiveWithoutDots, work1)
             else let (sensitiveWithDots, work2) = pathMatch pattern path True False work1
                  in if sensitiveWithDots \<noteq> NotMatched then (UnknownMatch, work2)
                     else let (foldedWithoutDots, work3) = pathMatch pattern path False True work2
                          in if foldedWithoutDots \<noteq> NotMatched then (UnknownMatch, work3)
                             else let (foldedWithDots, work4) = pathMatch pattern path True True work3
                                  in if foldedWithDots \<noteq> NotMatched then (UnknownMatch, work4)
                                     else if hasNonAscii pattern \<or> hasNonAscii path then (UnknownMatch, work4)
                                     else (NotMatched, work4))"

text \<open>The loop over the expanded patterns.\<close>

fun matchPatterns ::
  "jstring list \<Rightarrow> jstring \<Rightarrow> ProfileGlobDialect \<Rightarrow> nat \<Rightarrow> bool \<Rightarrow> ActivationFactDecision \<times> nat" where
  "matchPatterns [] path dialect work sawUnknown =
     (if sawUnknown then unsupportedDecision dialect
      else decision Inactive (js ''Dialect '' @ gd_id dialect @ js '' did not match the target.''), work)"
| "matchPatterns (pattern # patterns) path dialect work sawUnknown =
     (let (result, work') = matchDocumentedSubset pattern path dialect work
      in if result = Matched then
           (decision Active
              (js ''Dialect '' @ gd_id dialect @ js '' matched the target under its documented subset.''), work')
         else if exhausted work' then (unsupportedDecision dialect, work')
         else matchPatterns patterns path dialect work' (sawUnknown \<or> result = UnknownMatch))"

definition resolveDialect :: "GlobActivationRequest \<Rightarrow> ProfileGlobDialect \<Rightarrow> ActivationFactDecision" where
  "resolveDialect request dialect =
     (if gd_profileId dialect \<noteq> gr_profileId request \<or> gr_surfaceId request \<notin> set (gd_surfaceIds dialect) then
        decision Indeterminate
          (js ''Dialect '' @ gd_id dialect @
           js '' is not owned by the requested profile surface; activation remains indeterminate.'')
      else if gd_patternBase dialect = BaseUnknown then unsupportedDecision dialect
      else let (inside, path) =
                 (if gd_patternBase dialect = BaseRepositoryRoot then (True, gr_targetPath request)
                  else relativeToScope (gr_targetPath request) (gr_scopeRoot request))
           in if \<not> inside then
                decision Inactive
                  (js ''Target is outside the scope-root base owned by dialect '' @ gd_id dialect @ [DOT])
              else (case braceExpansion (gr_pattern request) dialect of
                      ExpansionUnsupported \<Rightarrow> unsupportedDecision dialect
                    | ExpansionLimit \<Rightarrow>
                        if gd_braceLimitResult dialect = LiteralNoMatch then
                          decision Inactive
                            (js ''Dialect '' @ gd_id dialect @
                             js '' defines over-budget brace expansion as a literal non-match.'')
                        else unsupportedDecision dialect
                    | Expanded patterns \<Rightarrow> fst (matchPatterns patterns path dialect 0 False)))"

definition matchProfileGlob :: "GlobActivationRequest \<Rightarrow> ProfileGlobDialectErrorCode + ActivationFactDecision" where
  "matchProfileGlob input =
     bindR (validateRequest input) (\<lambda>request.
       if \<not> hasWellFormedUnicode (gr_pattern request) \<or> hasControl (gr_pattern request) \<or>
          \<not> hasWellFormedUnicode (gr_ruleId request) \<or> \<not> hasWellFormedUnicode (gr_profileId request) \<or>
          \<not> hasWellFormedUnicode (gr_surfaceId request) \<or>
          (case gr_dialectId request of None \<Rightarrow> False | Some d \<Rightarrow> \<not> hasWellFormedUnicode d)
       then Inr invalidInputDecision
       else (case gr_dialectId request of
               None \<Rightarrow>
                 Inr (decision Indeterminate
                   (js ''The activation selector has no profile-owned glob dialect; activation remains indeterminate.''))
             | Some d \<Rightarrow>
                 (case profileGlobDialect d of
                    None \<Rightarrow>
                      Inr (decision Indeterminate
                        (js ''No profile-owned semantics are registered for the requested glob dialect.''))
                  | Some dialect \<Rightarrow> Inr (resolveDialect request dialect))))"

definition createProfileGlobActivationCallbacks :: ActivationCallbacks where
  "createProfileGlobActivationCallbacks =
     \<lparr>matchGlob = Some (\<lambda>request. case matchProfileGlob request of Inl _ \<Rightarrow> Inl () | Inr d \<Rightarrow> Inr d),
      resolveManual = None, resolveConditional = None\<rparr>"

end
