(* ===== verification/Profile_Glob_Match.thy ===== *)
theory Profile_Glob_Match
  imports Profile_Glob Activation_Rule
begin

text \<open>
  The correctness of the profile glob matcher: both dynamic-programming matchers compute wildcard
  matching within their work budget, brace expansion computes the product of its groups, a definite
  answer holds under every reading of the undocumented case and dotfile rules, and the matcher meets
  the contract that rule evaluation expects of a glob callback.
\<close>

subsection \<open>Budgeted computations\<close>

abbreviation WORK_LIMIT :: nat where "WORK_LIMIT \<equiv> maxMatchWork PROFILE_GLOB_DIALECT_LIMITS"

text \<open>
  A computation, run with the given work done, either yields its value with the counter within the
  limit, or runs out with the counter one past the limit; it yields its value whenever the limit
  leaves room for its cost.
\<close>

definition budgeted :: "nat \<Rightarrow> 'a option \<times> nat \<Rightarrow> 'a \<Rightarrow> nat \<Rightarrow> bool" where
  "budgeted work outcome y c \<longleftrightarrow>
     (fst outcome = Some y \<and> snd outcome \<le> WORK_LIMIT \<or> fst outcome = None \<and> snd outcome = WORK_LIMIT + 1) \<and>
     (work + c \<le> WORK_LIMIT \<longrightarrow> fst outcome = Some y \<and> snd outcome \<le> work + c)"

lemma budgeted_return: "work \<le> WORK_LIMIT \<Longrightarrow> budgeted work (Some y, work) y 0"
  by (simp add: budgeted_def)

lemma budgeted_bind:
  assumes "budgeted work p x c" "\<And>w. w \<le> WORK_LIMIT \<Longrightarrow> budgeted w (f x w) y d"
  shows "budgeted work (case p of (None, w) \<Rightarrow> (None, w) | (Some x, w) \<Rightarrow> f x w) y (c + d)"
proof (cases p)
  case (Pair o' w)
  show ?thesis
  proof (cases o')
    case None
    with Pair assms(1) show ?thesis by (auto simp: budgeted_def)
  next
    case (Some x')
    with Pair assms(1) have "x' = x" "w \<le> WORK_LIMIT" "work + c \<le> WORK_LIMIT \<Longrightarrow> w \<le> work + c"
      by (auto simp: budgeted_def)
    moreover have "budgeted w (f x w) y d" using assms(2) calculation(2) by blast
    ultimately show ?thesis using Pair Some by (auto simp: budgeted_def)
  qed
qed

lemma budgeted_consume:
  assumes "\<And>w. w \<le> WORK_LIMIT \<Longrightarrow> budgeted w (f w) y d" "work \<le> WORK_LIMIT"
  shows "budgeted work (case consume work of (w, False) \<Rightarrow> (None, w) | (w, True) \<Rightarrow> f w) y (1 + d)"
  using assms(1) [of "work + 1"] assms(2)
  by (cases "work + 1 \<le> WORK_LIMIT") (auto simp: budgeted_def consume_def)

lemma budgeted_weaken: "budgeted work p y c \<Longrightarrow> c \<le> d \<Longrightarrow> budgeted work p y d"
  by (auto simp: budgeted_def)

subsection \<open>One segment\<close>

definition segmentStar :: "nat \<Rightarrow> bool" where
  "segmentStar token \<longleftrightarrow> token = STAR"

definition segmentAccepts :: "nat \<Rightarrow> nat \<Rightarrow> bool" where
  "segmentAccepts token scalar \<longleftrightarrow> token = STAR \<or> token = QUESTION \<or> scalar = token"

definition segmentCells :: "nat \<Rightarrow> nat list \<Rightarrow> bool list \<Rightarrow> bool list" where
  "segmentCells token vs prior =
     foldl (\<lambda>current index. current @ [segmentCell token vs prior current index]) [] [0..<Suc (length vs)]"

lemma grow_length [simp]: "length (foldl (\<lambda>cur i. cur @ [g cur i]) [] [0..<n]) = n"
  by (induction n) auto

lemma grow_nth:
  "k < n \<Longrightarrow> foldl (\<lambda>cur i. cur @ [g cur i]) [] [0..<n] ! k =
     g (take k (foldl (\<lambda>cur i. cur @ [g cur i]) [] [0..<n])) k"
proof (induction n)
  case (Suc n)
  then show ?case by (cases "k = n") (auto simp: nth_append)
qed simp

interpretation segment_table: wildcard_row segmentStar segmentAccepts segmentCells
proof (unfold_locales, goal_cases)
  case (1 r cs t)
  show ?case by (simp add: segmentCells_def del: upt_Suc)
next
  case (2 r cs t)
  show ?case
    unfolding segmentCells_def
    by (subst grow_nth) (auto simp: segmentCell_def segmentStar_def simp del: upt_Suc)
next
  case (3 r cs i t)
  then show ?case
    unfolding segmentCells_def
    by (subst grow_nth) (auto simp: segmentCell_def segmentStar_def segmentAccepts_def simp del: upt_Suc)
next
  case (4 r cs i t)
  then show ?case
    unfolding segmentCells_def
    by (subst grow_nth) (auto simp: segmentCell_def segmentStar_def segmentAccepts_def simp del: upt_Suc)
qed

lemma segmentRow_budgeted:
  "work \<le> WORK_LIMIT \<Longrightarrow>
   budgeted work (segmentRow token vs prior current indices work)
     (foldl (\<lambda>current index. current @ [segmentCell token vs prior current index]) current indices) (length indices)"
proof (induction indices arbitrary: current work)
  case Nil
  then show ?case by (simp add: budgeted_return)
next
  case (Cons i indices)
  let ?f = "\<lambda>w. segmentRow token vs prior (current @ [segmentCell token vs prior current i]) indices w"
  have "budgeted work (case consume work of (w, False) \<Rightarrow> (None, w) | (w, True) \<Rightarrow> ?f w)
     (foldl (\<lambda>current index. current @ [segmentCell token vs prior current index])
        (current @ [segmentCell token vs prior current i]) indices) (1 + length indices)"
    using Cons by (intro budgeted_consume) auto
  then show ?case by simp
qed

lemma segmentRows_budgeted:
  "work \<le> WORK_LIMIT \<Longrightarrow>
   budgeted work (segmentRows tokens vs prior work) (foldl (\<lambda>r t. segmentCells t vs r) prior tokens)
     (length tokens * Suc (length vs))"
proof (induction tokens arbitrary: prior work)
  case Nil
  then show ?case by (simp add: budgeted_return)
next
  case (Cons t tokens)
  have row: "budgeted work (segmentRow t vs prior [] [0..<Suc (length vs)] work) (segmentCells t vs prior) (Suc (length vs))"
    using segmentRow_budgeted [OF Cons.prems, of t vs prior "[]" "[0..<Suc (length vs)]"]
    by (simp add: segmentCells_def del: upt_Suc)
  from budgeted_bind [OF row, where f = "\<lambda>current w. segmentRows tokens vs current w", OF Cons.IH] show ?case by (simp add: ac_simps del: upt_Suc)
qed

text \<open>What one pattern segment accepts, for a reading of the dotfile and case rules.\<close>

definition segmentSpec :: "bool \<Rightarrow> bool \<Rightarrow> jstring \<Rightarrow> jstring \<Rightarrow> bool" where
  "segmentSpec dots folded pattern value \<longleftrightarrow>
     (let ps = scalars (if folded then asciiFold pattern else pattern);
          vs = scalars (if folded then asciiFold value else value)
      in (dots \<or> \<not> (startsDot vs \<and> startsWildcard ps)) \<and> wild segmentStar segmentAccepts ps vs)"

text \<open>The outcome of a matcher in the form of a budgeted computation.\<close>

definition verdict :: "MatchResult \<times> nat \<Rightarrow> bool option \<times> nat" where
  "verdict p = (case fst p of Matched \<Rightarrow> Some True | NotMatched \<Rightarrow> Some False | UnknownMatch \<Rightarrow> None, snd p)"

definition segmentCost :: "jstring \<Rightarrow> jstring \<Rightarrow> nat" where
  "segmentCost pattern value = length pattern * Suc (length value)"

lemma length_scalars: "length (scalars s) \<le> length s"
  by (induction s rule: scalars.induct) auto

lemma segmentMatch_budgeted:
  assumes "work \<le> WORK_LIMIT"
  shows "budgeted work (verdict (segmentMatch p v dots folded work)) (segmentSpec dots folded p v) (segmentCost p v)"
proof -
  let ?ps = "scalars (if folded then asciiFold p else p)" and ?vs = "scalars (if folded then asciiFold v else v)"
  have cost: "length ?ps * Suc (length ?vs) \<le> segmentCost p v"
    unfolding segmentCost_def
    by (intro mult_le_mono) (use length_scalars [of p] length_scalars [of v] length_scalars [of "asciiFold p"]
        length_scalars [of "asciiFold v"] in \<open>auto simp: asciiFold_def\<close>)
  let ?final = "foldl (\<lambda>r t. segmentCells t ?vs r) (initial_row (length ?vs)) ?ps"
  have "budgeted work (segmentRows ?ps ?vs (initial_row (length ?vs)) work) ?final (segmentCost p v)"
    by (rule budgeted_weaken [OF segmentRows_budgeted [OF assms] cost])
  moreover have "?final ! length ?vs = wild segmentStar segmentAccepts ?ps ?vs"
    by (rule segment_table.table_last)
  ultimately show ?thesis
    using assms
    by (cases "segmentRows ?ps ?vs (initial_row (length ?vs)) work")
      (auto simp: segmentMatch_def segmentSpec_def verdict_def budgeted_def Let_def split: option.splits)
qed

subsection \<open>One path\<close>

definition pathStar :: "jstring \<Rightarrow> bool" where
  "pathStar segment \<longleftrightarrow> segment = GLOBSTAR"

definition pathAccepts :: "bool \<Rightarrow> bool \<Rightarrow> jstring \<Rightarrow> jstring \<Rightarrow> bool" where
  "pathAccepts dots folded segment pathSegment \<longleftrightarrow>
     (if segment = GLOBSTAR then dots \<or> \<not> startsWith pathSegment [DOT] else segmentSpec dots folded segment pathSegment)"

text \<open>The row of \<open>pathMatch\<close>, written in place, when the budget does not run out.\<close>

definition pathStep :: "bool \<Rightarrow> bool \<Rightarrow> jstring \<Rightarrow> jstring list \<Rightarrow> bool list \<Rightarrow> bool list \<Rightarrow> nat \<Rightarrow> bool list" where
  "pathStep dots folded segment segs prior current i =
     (if segment = GLOBSTAR then
        let current' = (if prior ! i then current[i := True] else current)
        in (if i < length segs \<and> current' ! i \<and> pathAccepts dots folded segment (segs ! i)
            then current'[i + 1 := True] else current')
      else if prior ! i \<and> i < length segs \<and> pathAccepts dots folded segment (segs ! i)
      then current[i + 1 := True] else current)"

definition pathCells :: "bool \<Rightarrow> bool \<Rightarrow> jstring \<Rightarrow> jstring list \<Rightarrow> bool list \<Rightarrow> bool list" where
  "pathCells dots folded segment segs prior =
     foldl (pathStep dots folded segment segs prior) (replicate (Suc (length segs)) False) [0..<Suc (length segs)]"

text \<open>The row after the first \<open>k\<close> writes: final below \<open>k\<close>, the pending entry at \<open>k\<close>, nothing above.\<close>

definition partialRow :: "bool \<Rightarrow> bool \<Rightarrow> jstring \<Rightarrow> jstring list \<Rightarrow> bool list \<Rightarrow> nat \<Rightarrow> bool list" where
  "partialRow dots folded segment segs prior k =
     (let final = full_row pathStar (pathAccepts dots folded) segment segs prior
      in map (\<lambda>j. if j < k then final ! j
                  else j = k \<and> 0 < k \<and> (if pathStar segment then final ! (k - 1) else prior ! (k - 1)) \<and>
                       pathAccepts dots folded segment (segs ! (k - 1)))
           [0..<Suc (length segs)])"

lemma length_pathStep [simp]: "length (pathStep dots folded segment segs prior current i) = length current"
  by (simp add: pathStep_def Let_def)

lemma pathStep_nth:
  assumes "length current = Suc (length segs)" "k \<le> length segs" "j \<le> length segs"
  shows "pathStep dots folded segment segs prior current k ! j =
    (current ! j \<or> (j = k \<and> segment = GLOBSTAR \<and> prior ! k) \<or>
     (j = Suc k \<and> (if segment = GLOBSTAR then current ! k \<or> prior ! k else prior ! k) \<and>
      pathAccepts dots folded segment (segs ! k)))"
  using assms
  by (cases "segment = GLOBSTAR"; cases "prior ! k"; cases "j = k"; cases "j = Suc k")
    (auto simp: pathStep_def Let_def nth_list_update)

lemma length_partialRow [simp]: "length (partialRow dots folded segment segs prior k) = Suc (length segs)"
  by (simp add: partialRow_def Let_def)

lemma partialRow_nth:
  "j \<le> length segs \<Longrightarrow> partialRow dots folded segment segs prior k ! j =
    (if j < k then full_row pathStar (pathAccepts dots folded) segment segs prior ! j
     else j = k \<and> 0 < k \<and>
       (if pathStar segment then full_row pathStar (pathAccepts dots folded) segment segs prior ! (k - 1)
        else prior ! (k - 1)) \<and> pathAccepts dots folded segment (segs ! (k - 1)))"
  by (simp add: partialRow_def Let_def del: upt_Suc)

lemma pathStep_partialRow:
  assumes len: "length prior = Suc (length segs)" and k: "k \<le> length segs"
  shows "pathStep dots folded segment segs prior (partialRow dots folded segment segs prior k) k =
    partialRow dots folded segment segs prior (Suc k)"
proof -
  let ?F = "full_row pathStar (pathAccepts dots folded) segment segs prior"
  note laws = wildcard_row.row_0 [OF full_row_wildcard_row len] wildcard_row.row_star [OF full_row_wildcard_row len]
    wildcard_row.row_single [OF full_row_wildcard_row len]
  have final: "?F ! k = (if pathStar segment then prior ! k \<or>
      (0 < k \<and> ?F ! (k - 1) \<and> pathAccepts dots folded segment (segs ! (k - 1)))
      else 0 < k \<and> prior ! (k - 1) \<and> pathAccepts dots folded segment (segs ! (k - 1)))"
  proof (cases k)
    case 0
    then show ?thesis by (simp add: laws(1))
  next
    case (Suc i)
    with k have "i < length segs" by simp
    from laws(2) [OF this, of pathStar segment "pathAccepts dots folded"]
      laws(3) [OF this, of pathStar segment "pathAccepts dots folded"] Suc show ?thesis by simp
  qed
  have "pathStep dots folded segment segs prior (partialRow dots folded segment segs prior k) k ! j =
    partialRow dots folded segment segs prior (Suc k) ! j" if j: "j \<le> length segs" for j
  proof -
    consider "j < k" | "j = k" | "j = Suc k" | "Suc k < j" by linarith
    then show ?thesis
      using final
      unfolding pathStep_nth [OF length_partialRow k j] partialRow_nth [OF j] partialRow_nth [OF k] pathStar_def
      by cases (cases "segment = GLOBSTAR"; auto)+
  qed
  then show ?thesis by (intro nth_equalityI) (simp_all add: less_Suc_eq_le)
qed

lemma pathCells_full_row:
  assumes "length prior = Suc (length segs)"
  shows "pathCells dots folded segment segs prior = full_row pathStar (pathAccepts dots folded) segment segs prior"
proof -
  have "k \<le> Suc (length segs) \<Longrightarrow>
    foldl (pathStep dots folded segment segs prior) (replicate (Suc (length segs)) False) [0..<k] =
    partialRow dots folded segment segs prior k" for k
  proof (induction k)
    case 0
    show ?case by (rule nth_equalityI) (auto simp: partialRow_def Let_def simp del: upt_Suc replicate_Suc)
  next
    case (Suc k)
    then show ?case using pathStep_partialRow [OF assms] by simp
  qed
  then have "pathCells dots folded segment segs prior = partialRow dots folded segment segs prior (Suc (length segs))"
    by (simp add: pathCells_def del: upt_Suc)
  also have "\<dots> = full_row pathStar (pathAccepts dots folded) segment segs prior"
    by (intro nth_equalityI)
      (auto simp: partialRow_def Let_def wildcard_row.row_length [OF full_row_wildcard_row assms] simp del: upt_Suc)
  finally show ?thesis .
qed

interpretation path_table: wildcard_row pathStar "pathAccepts dots folded" "pathCells dots folded"
  for dots folded
  using wildcard_row.row_length [OF full_row_wildcard_row] wildcard_row.row_0 [OF full_row_wildcard_row]
    wildcard_row.row_star [OF full_row_wildcard_row] wildcard_row.row_single [OF full_row_wildcard_row]
  by unfold_locales (simp_all add: pathCells_full_row)

text \<open>The cost of a whole table is bounded by the products of the lengths.\<close>

definition pathRowCost :: "jstring \<Rightarrow> jstring list \<Rightarrow> nat" where
  "pathRowCost segment segs = Suc (length segs) + (\<Sum>c\<leftarrow>segs. segmentCost segment c)"

definition cellCost :: "jstring \<Rightarrow> jstring list \<Rightarrow> nat \<Rightarrow> nat" where
  "cellCost segment segs i = (if i < length segs then segmentCost segment (segs ! i) else 0)"

lemma pathCell_budgeted:
  assumes "work \<le> WORK_LIMIT"
  shows "budgeted work (pathCell segment segs dots folded prior current i work)
    (pathStep dots folded segment segs prior current i) (cellCost segment segs i)"
proof (cases "segment \<noteq> GLOBSTAR \<and> prior ! i \<and> i < length segs")
  case True
  then show ?thesis
    using segmentMatch_budgeted [OF assms, of segment "segs ! i" dots folded]
    by (cases "segmentMatch segment (segs ! i) dots folded work"; cases "fst (segmentMatch segment (segs ! i) dots folded work)")
      (auto simp: pathCell_def pathStep_def pathAccepts_def cellCost_def budgeted_def verdict_def)
next
  case False
  then have "pathCell segment segs dots folded prior current i work =
      (Some (pathStep dots folded segment segs prior current i), work)"
    by (auto simp: pathCell_def pathStep_def pathAccepts_def Let_def)
  with assms show ?thesis by (simp add: budgeted_weaken [OF budgeted_return])
qed

lemma pathRow_budgeted:
  "work \<le> WORK_LIMIT \<Longrightarrow>
   budgeted work (pathRow segment segs dots folded prior current indices work)
     (foldl (pathStep dots folded segment segs prior) current indices)
     (length indices + (\<Sum>i\<leftarrow>indices. cellCost segment segs i))"
proof (induction indices arbitrary: current work)
  case Nil
  then show ?case by (simp add: budgeted_return)
next
  case (Cons i indices)
  let ?rest = "\<lambda>current w. pathRow segment segs dots folded prior current indices w"
  let ?y = "foldl (pathStep dots folded segment segs prior) (pathStep dots folded segment segs prior current i) indices"
  have "budgeted w (case pathCell segment segs dots folded prior current i w of
      (None, w') \<Rightarrow> (None, w') | (Some c, w') \<Rightarrow> ?rest c w') ?y
      (cellCost segment segs i + (length indices + (\<Sum>i\<leftarrow>indices. cellCost segment segs i)))"
    if "w \<le> WORK_LIMIT" for w
    using that Cons.IH by (intro budgeted_bind [OF pathCell_budgeted, where f = ?rest]) auto
  from budgeted_consume [OF this Cons.prems] show ?case by (simp add: ac_simps)
qed

lemma sum_cellCost: "(\<Sum>i\<leftarrow>[0..<Suc (length segs)]. cellCost segment segs i) = (\<Sum>c\<leftarrow>segs. segmentCost segment c)"
proof -
  have "map (cellCost segment segs) [0..<length segs] = map (segmentCost segment) segs"
    by (rule nth_equalityI) (simp_all add: cellCost_def)
  moreover have "cellCost segment segs (length segs) = 0" by (simp add: cellCost_def)
  ultimately show ?thesis by simp
qed

lemma pathRows_budgeted:
  "work \<le> WORK_LIMIT \<Longrightarrow>
   budgeted work (pathRows segments segs dots folded prior work)
     (foldl (\<lambda>r s. pathCells dots folded s segs r) prior segments) (\<Sum>s\<leftarrow>segments. pathRowCost s segs)"
proof (induction segments arbitrary: prior work)
  case Nil
  then show ?case by (simp add: budgeted_return)
next
  case (Cons s segments)
  have row: "budgeted work (pathRow s segs dots folded prior (replicate (Suc (length segs)) False) [0..<Suc (length segs)] work)
      (pathCells dots folded s segs prior) (pathRowCost s segs)"
    using pathRow_budgeted [OF Cons.prems, of s segs dots folded prior "replicate (Suc (length segs)) False"
        "[0..<Suc (length segs)]"]
    by (simp only: pathCells_def pathRowCost_def sum_cellCost length_upt diff_zero)
  from budgeted_bind [OF row, where f = "\<lambda>current w. pathRows segments segs dots folded current w", OF Cons.IH]
  show ?case by (simp del: upt_Suc replicate_Suc)
qed

text \<open>What a pattern accepts, for a reading of the dotfile and case rules.\<close>

definition pathSpec :: "bool \<Rightarrow> bool \<Rightarrow> jstring \<Rightarrow> jstring \<Rightarrow> bool" where
  "pathSpec dots folded pattern path \<longleftrightarrow>
     wild pathStar (pathAccepts dots folded) (split_on SLASH pattern) (pathSegmentsOf path)"

definition pathCost :: "jstring \<Rightarrow> jstring \<Rightarrow> nat" where
  "pathCost pattern path = (\<Sum>s\<leftarrow>split_on SLASH pattern. pathRowCost s (pathSegmentsOf path))"

definition segmentsFit :: "jstring \<Rightarrow> jstring \<Rightarrow> bool" where
  "segmentsFit pattern path \<longleftrightarrow>
     length (split_on SLASH pattern) \<le> maxPathSegments PROFILE_GLOB_DIALECT_LIMITS \<and>
     length (pathSegmentsOf path) \<le> maxPathSegments PROFILE_GLOB_DIALECT_LIMITS"

lemma pathMatch_budgeted:
  assumes "work \<le> WORK_LIMIT" "segmentsFit pattern path"
  shows "budgeted work (verdict (pathMatch pattern path dots folded work)) (pathSpec dots folded pattern path)
    (pathCost pattern path)"
proof -
  let ?ps = "split_on SLASH pattern" and ?vs = "pathSegmentsOf path"
  let ?final = "foldl (\<lambda>r s. pathCells dots folded s ?vs r) (initial_row (length ?vs)) ?ps"
  have "budgeted work (pathRows ?ps ?vs dots folded (initial_row (length ?vs)) work) ?final (pathCost pattern path)"
    using pathRows_budgeted [OF assms(1)] by (simp add: pathCost_def)
  moreover have "?final ! length ?vs = pathSpec dots folded pattern path"
    unfolding pathSpec_def by (rule path_table.table_last)
  ultimately show ?thesis
    using assms(2)
    by (cases "pathRows ?ps ?vs dots folded (initial_row (length ?vs)) work")
      (auto simp: pathMatch_def verdict_def budgeted_def Let_def segmentsFit_def split: option.splits)
qed

lemma pathMatch_unfit: "\<not> segmentsFit pattern path \<Longrightarrow> pathMatch pattern path dots folded work = (UnknownMatch, work)"
  by (auto simp: pathMatch_def segmentsFit_def Let_def)

text \<open>What a caller needs of \<open>pathMatch\<close>.\<close>

lemma pathMatch_sound:
  assumes "pathMatch pattern path dots folded work = (r, w)" "work \<le> WORK_LIMIT"
  shows "(r = Matched \<longrightarrow> pathSpec dots folded pattern path) \<and> (r = NotMatched \<longrightarrow> \<not> pathSpec dots folded pattern path) \<and>
    w \<le> WORK_LIMIT + 1 \<and> (r \<noteq> UnknownMatch \<longrightarrow> w \<le> WORK_LIMIT)"
proof (cases "segmentsFit pattern path")
  case True
  from pathMatch_budgeted [OF assms(2) True, of dots folded] assms(1) show ?thesis
    by (cases r) (auto simp: budgeted_def verdict_def)
qed (use assms pathMatch_unfit in auto)

lemma pathMatch_complete:
  assumes "work + pathCost pattern path \<le> WORK_LIMIT" "segmentsFit pattern path"
  shows "\<exists>w \<le> work + pathCost pattern path.
    pathMatch pattern path dots folded work = (if pathSpec dots folded pattern path then Matched else NotMatched, w)"
proof -
  have "budgeted work (verdict (pathMatch pattern path dots folded work)) (pathSpec dots folded pattern path)
    (pathCost pattern path)"
    using assms by (intro pathMatch_budgeted) auto
  with assms(1) show ?thesis
    by (cases "pathMatch pattern path dots folded work"; cases "fst (pathMatch pattern path dots folded work)")
      (auto simp: budgeted_def verdict_def)
qed

subsection \<open>The readings of the undocumented rules\<close>

lemma wild_map_in:
  assumes "\<And>t. star' (f t) = star t" "\<And>t c. t \<in> set ts \<Longrightarrow> c \<in> set cs \<Longrightarrow> ok t c \<Longrightarrow> ok' (f t) (g c)"
    and "wild star ok ts cs"
  shows "wild star' ok' (map f ts) (map g cs)"
proof -
  from assms(3) obtain pieces where pieces: "concat pieces = cs" "list_all2 (token_piece star ok) ts pieces"
    by (auto simp: wild_def)
  have "token_piece star ok t p \<Longrightarrow> token_piece star' ok' (f t) (map g p)" if "t \<in> set ts" "p \<in> set pieces" for t p
    using assms(1) assms(2) [OF that(1)] that(2) pieces(1) by (fastforce simp: token_piece_def)
  then have "list_all2 (\<lambda>t p. token_piece star' ok' (f t) (map g p)) ts pieces"
    using pieces(2) by (rule list.rel_mono_strong [rotated])
  then show ?thesis
    unfolding wild_def using pieces(1)
    by (intro exI [of _ "map (map g) pieces"]) (auto simp: map_concat list_all2_map1 list_all2_map2)
qed

lemma wild_map:
  assumes "\<And>t. star' (f t) = star t" "\<And>t c. ok t c \<Longrightarrow> ok' (f t) (g c)" "wild star ok ts cs"
  shows "wild star' ok' (map f ts) (map g cs)"
  using wild_map_in [of star' f star ts cs ok ok' g] assms by blast

lemma foldUnit_class [simp]:
  "is_high (foldUnit u) = is_high u" "is_low (foldUnit u) = is_low u"
  "foldUnit u = STAR \<longleftrightarrow> u = STAR" "foldUnit u = QUESTION \<longleftrightarrow> u = QUESTION" "foldUnit u = DOT \<longleftrightarrow> u = DOT"
  by (auto simp: foldUnit_def unit_class)

lemma foldUnit_surrogate: "is_high u \<or> is_low u \<Longrightarrow> foldUnit u = u"
  by (auto simp: foldUnit_def unit_class)

lemma foldUnit_pair: "is_high u \<Longrightarrow> is_low v \<Longrightarrow> foldUnit (pair_code_point u v) = pair_code_point u v"
  by (simp add: foldUnit_def pair_code_point_def)

lemma scalars_asciiFold: "scalars (asciiFold s) = map foldUnit (scalars s)"
  unfolding asciiFold_def
  by (induction s rule: scalars.induct) (auto simp: foldUnit_surrogate foldUnit_pair)

lemma starts_fold [simp]:
  "startsDot (map foldUnit s) = startsDot s" "startsWildcard (map foldUnit s) = startsWildcard s"
  by (cases s; simp add: startsDot_def startsWildcard_def)+

text \<open>The strictest reading implies each of the others.\<close>

lemma segmentSpec_strict:
  assumes "segmentSpec dots' folded' p v" "dots' \<longrightarrow> dots" "folded' \<longrightarrow> folded"
  shows "segmentSpec dots folded p v"
proof -
  have "wild segmentStar segmentAccepts (map foldUnit ps) (map foldUnit vs)" if "wild segmentStar segmentAccepts ps vs" for ps vs
    using that by (rule wild_map [rotated 2]) (auto simp: segmentStar_def segmentAccepts_def)
  with assms show ?thesis
    by (cases folded'; cases folded) (auto simp: segmentSpec_def Let_def scalars_asciiFold)
qed

lemma pathSpec_strict:
  assumes "pathSpec dots' folded' pattern path" "dots' \<longrightarrow> dots" "folded' \<longrightarrow> folded"
  shows "pathSpec dots folded pattern path"
proof -
  have "pathAccepts dots' folded' s v \<Longrightarrow> pathAccepts dots folded s v" for s v
    using segmentSpec_strict [OF _ assms(2,3)] assms(2) by (auto simp: pathAccepts_def split: if_splits)
  then show ?thesis
    using wild_map [of pathStar id pathStar "pathAccepts dots' folded'" "pathAccepts dots folded" id] assms(1)
    by (simp add: pathSpec_def)
qed







text \<open>On ASCII texts no reading is looser than ASCII folding with wildcards that reach dots.\<close>

definition asciiText :: "jstring \<Rightarrow> bool" where
  "asciiText s \<longleftrightarrow> (\<forall>u\<in>set s. u < 128)"



lemma hasNonAscii_iff: "hasNonAscii s \<longleftrightarrow> \<not> asciiText s"
proof -
  have "0x7F < u \<longleftrightarrow> \<not> u < 128" for u :: nat
    by linarith
  then show ?thesis
    by (simp add: hasNonAscii_def asciiText_def list_ex_iff)
qed




subsection \<open>The documented subset\<close>

lemma documented_sound:
  assumes run: "matchDocumentedSubset pattern path dialect work = (r, w)" and work: "work \<le> WORK_LIMIT"
  shows "w \<le> WORK_LIMIT + 1 \<and>
    (r = Matched \<longrightarrow> documentedGate pattern dialect = None \<and> pathSpec False False pattern path) \<and>
    (r = NotMatched \<longrightarrow> documentedGate pattern dialect = Some NotMatched \<or>
       \<not> pathSpec True True pattern path \<and> asciiText pattern \<and> asciiText path)"
proof (cases "documentedGate pattern dialect")
  case None
  obtain r1 w1 where 1: "pathMatch pattern path False False work = (r1, w1)" by fastforce
  obtain r2 w2 where 2: "pathMatch pattern path True False w1 = (r2, w2)" by fastforce
  obtain r3 w3 where 3: "pathMatch pattern path False True w2 = (r3, w3)" by fastforce
  obtain r4 w4 where 4: "pathMatch pattern path True True w3 = (r4, w4)" by fastforce
  note run = run [unfolded matchDocumentedSubset_def None option.simps 1 2 3 4 Let_def split]
  note s1 = pathMatch_sound [OF 1 work]
  show ?thesis
  proof (cases "r1 = NotMatched")
    case False
    with run s1 None show ?thesis by auto
  next
    case r1: True
    note s2 = pathMatch_sound [OF 2]
    show ?thesis
    proof (cases "r2 = NotMatched")
      case False
      with run s1 s2 r1 show ?thesis by auto
    next
      case r2: True
      note s3 = pathMatch_sound [OF 3]
      show ?thesis
      proof (cases "r3 = NotMatched")
        case False
        with run s1 s2 s3 r1 r2 show ?thesis by auto
      next
        case r3: True
        from run s1 s2 s3 pathMatch_sound [OF 4] r1 r2 r3 show ?thesis by (auto simp: hasNonAscii_iff split: if_splits)
      qed
    qed
  qed
next
  case (Some forced)
  moreover have "forced \<noteq> Matched" using Some by (auto simp: documentedGate_def split: if_splits)
  ultimately show ?thesis using run work by (auto simp: matchDocumentedSubset_def)
qed

text \<open>With enough budget left the answer is determined by the readings alone.\<close>

lemma documented_complete:
  assumes "work + 4 * pathCost pattern path \<le> WORK_LIMIT" "segmentsFit pattern path"
    and gate: "documentedGate pattern dialect = None"
  shows "fst (matchDocumentedSubset pattern path dialect work) =
    (if pathSpec False False pattern path then Matched
     else if pathSpec True True pattern path \<or> hasNonAscii pattern \<or> hasNonAscii path then UnknownMatch
     else NotMatched)"
proof -
  let ?c = "pathCost pattern path"
  obtain w1 where w1: "w1 \<le> work + ?c" "pathMatch pattern path False False work =
      (if pathSpec False False pattern path then Matched else NotMatched, w1)"
    using pathMatch_complete [of work pattern path False False] assms by auto
  obtain w2 where w2: "w2 \<le> w1 + ?c" "pathMatch pattern path True False w1 =
      (if pathSpec True False pattern path then Matched else NotMatched, w2)"
    using pathMatch_complete [of w1 pattern path True False] assms w1 by auto
  obtain w3 where w3: "w3 \<le> w2 + ?c" "pathMatch pattern path False True w2 =
      (if pathSpec False True pattern path then Matched else NotMatched, w3)"
    using pathMatch_complete [of w2 pattern path False True] assms w1 w2 by auto
  obtain w4 where w4: "pathMatch pattern path True True w3 =
      (if pathSpec True True pattern path then Matched else NotMatched, w4)"
    using pathMatch_complete [of w3 pattern path True True] assms w1 w2 w3 by auto
  have "pathSpec True False pattern path \<Longrightarrow> pathSpec True True pattern path"
    "pathSpec False True pattern path \<Longrightarrow> pathSpec True True pattern path"
    by (erule pathSpec_strict; simp)+
  then show ?thesis
    by (auto simp: matchDocumentedSubset_def gate w1(2) w2(2) w3(2) w4 Let_def)
qed

subsection \<open>Brace expansion\<close>

text \<open>The product of the brace groups of a pattern, leftmost group outermost.\<close>

function expansions :: "jstring \<Rightarrow> jstring list" where
  "expansions p =
     (case indexOf OPEN_BRACE p of
        None \<Rightarrow> [p]
      | Some i \<Rightarrow>
          (case indexOf CLOSE_BRACE (drop (Suc i) p) of
             None \<Rightarrow> [p]
           | Some j \<Rightarrow>
               concat (map (\<lambda>a. map (\<lambda>q. take i p @ a @ q) (expansions (drop (Suc j) (drop (Suc i) p))))
                 (split_on COMMA (take j (drop (Suc i) p))))))"
  by pat_completeness auto
termination
  by (relation "measure length") (auto dest!: indexOf_split(3))

declare expansions.simps [simp del]

lemma expansions_free: "OPEN_BRACE \<notin> set p \<Longrightarrow> expansions p = [p]"
  by (simp add: expansions.simps [of p] flip: indexOf_None)

lemma expansions_group:
  assumes "OPEN_BRACE \<notin> set before" "CLOSE_BRACE \<notin> set body"
  shows "expansions (before @ OPEN_BRACE # body @ CLOSE_BRACE # rest) =
    concat (map (\<lambda>a. map (\<lambda>q. before @ a @ q) (expansions rest)) (split_on COMMA body))"
  using assms by (simp add: expansions.simps [of "before @ _"] indexOf_append)

lemma expansions_unclosed:
  assumes "OPEN_BRACE \<notin> set before" "CLOSE_BRACE \<notin> set tail"
  shows "expansions (before @ OPEN_BRACE # tail) = [before @ OPEN_BRACE # tail]"
proof -
  have "indexOf CLOSE_BRACE tail = None" using assms by simp
  with assms(1) show ?thesis
    by (subst expansions.simps) (simp add: indexOf_append del: indexOf_None)
qed

lemma expansions_prefix:
  assumes "OPEN_BRACE \<notin> set x"
  shows "expansions (x @ p) = map (\<lambda>q. x @ q) (expansions p)"
proof (cases "indexOf OPEN_BRACE p")
  case None
  with assms show ?thesis by (simp add: expansions_free)
next
  case (Some i)
  then obtain before tail where p: "p = before @ OPEN_BRACE # tail" "OPEN_BRACE \<notin> set before"
    using indexOf_split by blast
  show ?thesis
  proof (cases "indexOf CLOSE_BRACE tail")
    case None
    then show ?thesis
      using expansions_unclosed [of "x @ before" tail] expansions_unclosed [of before tail] p assms by simp
  next
    case (Some j)
    then obtain body rest where tail: "tail = body @ CLOSE_BRACE # rest" "CLOSE_BRACE \<notin> set body"
      using indexOf_split by blast
    have "expansions ((x @ before) @ OPEN_BRACE # body @ CLOSE_BRACE # rest) =
      concat (map (\<lambda>a. map (\<lambda>q. (x @ before) @ a @ q) (expansions rest)) (split_on COMMA body))"
      using p assms tail by (intro expansions_group) auto
    then show ?thesis using p tail by (simp add: expansions_group map_concat comp_def)
  qed
qed

text \<open>One value of a round, in the shape the proofs on rounds need.\<close>

lemma expandValues_Cons_Inr:
  assumes "expandValues d (v # vs) nxt b e = Inr (nxt', e')"
  obtains (free) "OPEN_BRACE \<notin> set v" "CLOSE_BRACE \<notin> set v" "b + textBytes v \<le> maxExpandedBytes PROFILE_GLOB_DIALECT_LIMITS"
      "expandValues d vs (nxt @ [v]) (b + textBytes v) e = Inr (nxt', e')"
  | (group) before body rest nxt1 b1 where "v = before @ OPEN_BRACE # body @ CLOSE_BRACE # rest"
      "OPEN_BRACE \<notin> set before" "OPEN_BRACE \<notin> set body" "CLOSE_BRACE \<notin> set body"
      "expandAlternatives d before rest (split_on COMMA body) nxt b = Inr (nxt1, b1)"
      "expandValues d vs nxt1 b1 True = Inr (nxt', e')"
proof (cases "indexOf OPEN_BRACE v")
  case None
  with assms show ?thesis by (intro free) (auto simp: Let_def split: if_splits simp flip: indexOf_None)
next
  case (Some opn)
  with assms obtain close where close: "indexOfFrom CLOSE_BRACE v (opn + 1) = Some close"
    and nested: "\<not> (case indexOfFrom OPEN_BRACE v (opn + 1) of None \<Rightarrow> False | Some nested \<Rightarrow> nested < close)"
    by (auto split: option.splits if_splits)
  obtain before body rest where v: "v = before @ OPEN_BRACE # body @ CLOSE_BRACE # rest"
    "OPEN_BRACE \<notin> set before" "OPEN_BRACE \<notin> set body" "CLOSE_BRACE \<notin> set body"
    "take opn v = before" "take (close - (opn + 1)) (drop (opn + 1) v) = body" "drop (close + 1) v = rest"
    by (rule brace_group [OF Some close nested])
  from assms Some close nested v(5-7) obtain nxt1 b1 where
    "expandAlternatives d before rest (split_on COMMA body) nxt b = Inr (nxt1, b1)"
    "expandValues d vs nxt1 b1 True = Inr (nxt', e')"
    by (auto simp: Let_def bindR_Inr_iff split: if_splits)
  with v show ?thesis by (intro group)
qed

lemma expandValues_expansions:
  "expandValues d vs nxt b e = Inr (nxt', e') \<Longrightarrow>
   concat (map expansions nxt') = concat (map expansions nxt) @ concat (map expansions vs) \<and>
   (\<not> e' \<longrightarrow> \<not> e \<and> nxt' = nxt @ vs \<and> list_all (\<lambda>v. OPEN_BRACE \<notin> set v \<and> CLOSE_BRACE \<notin> set v) vs)"
proof (induction vs arbitrary: nxt b e)
  case (Cons v vs)
  from Cons.prems show ?case
  proof (cases rule: expandValues_Cons_Inr)
    case free
    from Cons.IH [OF free(4)] free(1,2) show ?thesis by simp
  next
    case (group before body rest nxt1 b1)
    have nxt1: "nxt1 = nxt @ map (\<lambda>a. before @ a @ rest) (split_on COMMA body)"
      by (rule expandAlternatives_Inr [OF group(5)])
    have pre: "expansions (before @ a @ rest) = map (\<lambda>q. before @ a @ q) (expansions rest)"
      if "a \<in> set (split_on COMMA body)" for a
      using expansions_prefix [of "before @ a" rest] group(2) split_on_free [OF group(3) that] by simp
    have "concat (map expansions (map (\<lambda>a. before @ a @ rest) (split_on COMMA body))) = expansions v"
      using group(1,2,4) pre by (simp add: expansions_group comp_def cong: map_cong)
    with Cons.IH [OF group(6)] nxt1 show ?thesis by auto
  qed
qed simp

lemma expandAlternatives_Inl: "expandAlternatives d before rest alts nxt b = Inl f \<Longrightarrow> f = ExpansionLimit"
  by (induction d before rest alts nxt b rule: expandAlternatives.induct) (auto simp: Let_def split: if_splits)

lemma expandValues_Inl: "expandValues d vs nxt b e = Inl f \<Longrightarrow> f = ExpansionLimit \<or> f = ExpansionUnsupported"
  by (induction d vs nxt b e rule: expandValues.induct)
    (auto simp: Let_def bindR_Inl_iff split: option.splits if_splits dest: expandAlternatives_Inl)

lemma braceLoop_expansions:
  "braceLoop d vs = Expanded ps \<Longrightarrow>
   ps = concat (map expansions vs) \<and> list_all (\<lambda>p. OPEN_BRACE \<notin> set p \<and> CLOSE_BRACE \<notin> set p) ps"
proof (induction d vs arbitrary: ps rule: braceLoop.induct)
  case (1 d vs)
  from "1.prems" obtain nxt e where run: "expandValues d vs [] 0 False = Inr (nxt, e)"
    by (cases "expandValues d vs [] 0 False") (auto simp: braceLoop.simps [of d vs] dest: expandValues_Inl)
  note round = expandValues_expansions [OF run]
  show ?case
  proof (cases e)
    case True
    with "1.prems" run have "braceLoop d nxt = Expanded ps" by (simp add: braceLoop.simps [of d vs])
    note ih = "1.IH" [OF run refl True this]
    have "ps = concat (map expansions vs)" using conjunct1 [OF ih] conjunct1 [OF round] by simp
    then show ?thesis using conjunct2 [OF ih] by blast
  next
    case False
    with "1.prems" run have "ps = nxt" by (simp add: braceLoop.simps [of d vs])
    moreover have "concat (map expansions vs) = vs" if "list_all (\<lambda>v. OPEN_BRACE \<notin> set v \<and> CLOSE_BRACE \<notin> set v) vs"
      using that by (induction vs) (auto simp: expansions_free)
    ultimately show ?thesis using round False by simp
  qed
qed

text \<open>
  The bounds. Every value of a round has the same number of brace groups left, so a round expands all
  values or none, and the pattern count is checked at every push of the last expanding round.
\<close>

lemma expandAlternatives_bounds:
  "expandAlternatives d before rest alts nxt b = Inr (nxt', b') \<Longrightarrow> alts \<noteq> [] \<Longrightarrow>
   b = (\<Sum>v\<leftarrow>nxt. textBytes v) \<Longrightarrow>
   length nxt' \<le> maxExpandedPatterns PROFILE_GLOB_DIALECT_LIMITS \<and>
   b' = (\<Sum>v\<leftarrow>nxt'. textBytes v) \<and> b' \<le> maxExpandedBytes PROFILE_GLOB_DIALECT_LIMITS"
proof (induction d before rest alts nxt b rule: expandAlternatives.induct)
  case (2 d before rest a alts nxt b)
  let ?c = "before @ a @ rest"
  from "2.prems"(1) have lim: "length nxt + 1 \<le> maxExpandedPatterns PROFILE_GLOB_DIALECT_LIMITS"
    "\<not> overOptional (gd_braceExpansionMaximumPatterns d) (length nxt + 1)"
    "b + textBytes ?c \<le> maxExpandedBytes PROFILE_GLOB_DIALECT_LIMITS"
    "\<not> overOptional (gd_braceExpansionMaximumBytes d) (b + textBytes ?c)"
    and rec: "expandAlternatives d before rest alts (nxt @ [?c]) (b + textBytes ?c) = Inr (nxt', b')"
    by (auto simp: Let_def split: if_splits)
  show ?case
  proof (cases "alts = []")
    case True
    with rec lim "2.prems" show ?thesis by auto
  next
    case False
    have sum: "b + textBytes ?c = (\<Sum>v\<leftarrow>nxt @ [?c]. textBytes v)" using "2.prems"(3) by simp
    show ?thesis by (rule "2.IH" [OF refl _ refl _ rec False sum]) (use lim in auto)
  qed
qed simp

lemma expandValues_bytes:
  "expandValues d vs nxt b e = Inr (nxt', e') \<Longrightarrow> b = (\<Sum>v\<leftarrow>nxt. textBytes v) \<Longrightarrow>
   b \<le> maxExpandedBytes PROFILE_GLOB_DIALECT_LIMITS \<Longrightarrow>
   (\<Sum>v\<leftarrow>nxt'. textBytes v) \<le> maxExpandedBytes PROFILE_GLOB_DIALECT_LIMITS"
proof (induction vs arbitrary: nxt b e)
  case (Cons v vs)
  from Cons.prems(1) show ?case
  proof (cases rule: expandValues_Cons_Inr)
    case free
    have "b + textBytes v = (\<Sum>v\<leftarrow>nxt @ [v]. textBytes v)" using Cons.prems(2) by simp
    then show ?thesis using Cons.IH [OF free(4)] free(3) by blast
  next
    case (group before body rest nxt1 b1)
    from expandAlternatives_bounds [OF group(5) _ Cons.prems(2)] Cons.IH [OF group(6)] show ?thesis by auto
  qed
qed simp

lemma expandValues_uniform:
  "expandValues d vs nxt b e = Inr (nxt', e') \<Longrightarrow> b = (\<Sum>v\<leftarrow>nxt. textBytes v) \<Longrightarrow>
   list_all (\<lambda>v. count_list v OPEN_BRACE = Suc k) vs \<Longrightarrow> list_all (\<lambda>v. count_list v OPEN_BRACE = k) nxt \<Longrightarrow>
   length nxt \<le> maxExpandedPatterns PROFILE_GLOB_DIALECT_LIMITS \<Longrightarrow>
   list_all (\<lambda>v. count_list v OPEN_BRACE = k) nxt' \<and> length nxt' \<le> maxExpandedPatterns PROFILE_GLOB_DIALECT_LIMITS"
proof (induction vs arbitrary: nxt b e)
  case (Cons v vs)
  from Cons.prems(1) show ?case
  proof (cases rule: expandValues_Cons_Inr)
    case free
    with Cons.prems(3) show ?thesis by (simp add: count_list_0_iff [THEN iffD2])
  next
    case (group before body rest nxt1 b1)
    have bounds: "length nxt1 \<le> maxExpandedPatterns PROFILE_GLOB_DIALECT_LIMITS" "b1 = (\<Sum>v\<leftarrow>nxt1. textBytes v)"
      using expandAlternatives_bounds [OF group(5) _ Cons.prems(2)] by auto
    have "count_list rest OPEN_BRACE = k"
      using Cons.prems(3) group(1-3) by (simp add: count_list_0_iff [THEN iffD2])
    then have "list_all (\<lambda>v. count_list v OPEN_BRACE = k) (map (\<lambda>a. before @ a @ rest) (split_on COMMA body))"
      using group(2) split_on_free [OF group(3)] by (auto simp: list_all_iff count_list_0_iff [THEN iffD2])
    then have "list_all (\<lambda>v. count_list v OPEN_BRACE = k) nxt1"
      using expandAlternatives_Inr [OF group(5)] Cons.prems(4) by simp
    with Cons.IH [OF group(6) bounds(2)] Cons.prems(3) bounds(1) show ?thesis by simp
  qed
qed simp

lemma braceLoop_bounds:
  "braceLoop d vs = Expanded ps \<Longrightarrow> list_all (\<lambda>v. count_list v OPEN_BRACE = k) vs \<Longrightarrow>
   length vs \<le> maxExpandedPatterns PROFILE_GLOB_DIALECT_LIMITS \<Longrightarrow>
   length ps \<le> maxExpandedPatterns PROFILE_GLOB_DIALECT_LIMITS \<and>
   (\<Sum>v\<leftarrow>ps. textBytes v) \<le> maxExpandedBytes PROFILE_GLOB_DIALECT_LIMITS"
proof (induction d vs arbitrary: ps k rule: braceLoop.induct)
  case (1 d vs)
  from "1.prems"(1) obtain nxt e where run: "expandValues d vs [] 0 False = Inr (nxt, e)"
    by (cases "expandValues d vs [] 0 False") (auto simp: braceLoop.simps [of d vs] dest: expandValues_Inl)
  show ?case
  proof (cases e)
    case True
    with "1.prems" run have rec: "braceLoop d nxt = Expanded ps" by (simp add: braceLoop.simps [of d vs])
    have "k \<noteq> 0"
    proof
      assume "k = 0"
      then have "openBraces vs = 0" using "1.prems"(2) by (induction vs) auto
      with expandValues_openBraces [OF run] True show False by simp
    qed
    then obtain j where "k = Suc j" by (cases k) auto
    with expandValues_uniform [OF run, of j] "1.prems" have "list_all (\<lambda>v. count_list v OPEN_BRACE = j) nxt"
      "length nxt \<le> maxExpandedPatterns PROFILE_GLOB_DIALECT_LIMITS" by auto
    then show ?thesis using "1.IH" [OF run refl True rec] by blast
  next
    case False
    with "1.prems" run have "ps = nxt" by (simp add: braceLoop.simps [of d vs])
    moreover have "nxt = vs" using expandValues_expansions [OF run] False by simp
    ultimately show ?thesis using expandValues_bytes [OF run] "1.prems" by simp
  qed
qed

subsection \<open>The decision\<close>

lemma matchPatterns_decision:
  "matchPatterns ps path dialect work saw = (d, w) \<Longrightarrow> work \<le> WORK_LIMIT \<Longrightarrow>
   w \<le> WORK_LIMIT + 1 \<and>
   (decisionState d = Active \<longrightarrow>
      (\<exists>p\<in>set ps. documentedGate p dialect = None \<and> pathSpec False False p path)) \<and>
   (decisionState d = Inactive \<longrightarrow>
      \<not> saw \<and> (\<forall>p\<in>set ps. documentedGate p dialect = Some NotMatched \<or>
         \<not> pathSpec True True p path \<and> asciiText p \<and> asciiText path))"
proof (induction ps path dialect work saw rule: matchPatterns.induct)
  case (1 path dialect work saw)
  then show ?case by (auto simp: unsupportedDecision_def decision_def split: if_splits)
next
  case (2 p ps path dialect work saw)
  obtain r w1 where run: "matchDocumentedSubset p path dialect work = (r, w1)" by fastforce
  note s = documented_sound [OF run "2.prems"(2)]
  show ?case
  proof (cases "r = Matched \<or> exhausted w1")
    case True
    with "2.prems" run s show ?thesis by (auto simp: unsupportedDecision_def decision_def split: if_splits)
  next
    case False
    then have le: "w1 \<le> WORK_LIMIT" by (simp add: exhausted_def)
    have rec: "matchPatterns ps path dialect w1 (saw \<or> r = UnknownMatch) = (d, w)"
      using "2.prems"(1) run False by simp
    have "r = Matched \<or> r = NotMatched \<or> r = UnknownMatch" by (cases r) auto
    with "2.IH" [OF run [symmetric] refl _ _ rec le] s False show ?thesis by auto
  qed
qed






subsection \<open>The matcher as a glob callback\<close>

definition requestFits :: "GlobActivationRequest \<Rightarrow> bool" where
  "requestFits r \<longleftrightarrow> (\<exists>valid. validateRequest r = Inr valid)"

definition profileMatcher :: "GlobActivationRequest \<Rightarrow> unit + ActivationFactDecision" where
  "profileMatcher request = (case matchProfileGlob request of Inl _ \<Rightarrow> Inl () | Inr d \<Rightarrow> Inr d)"

lemma catalog_ids: "profileGlobDialect i = Some d \<Longrightarrow> list_all (\<lambda>u. u < 128) (gd_id d) \<and> length (gd_id d) \<le> 64"
  by (auto simp: profileGlobDialect_def PROFILE_GLOB_DIALECTS_def claudeCodeDialect_def copilotCliDialect_def
      copilotCloudAgentDialect_def copilotCodeReviewDialect_def copilotVscodeDialect_def cursorAgentDialect_def js_def
      split: if_splits)

lemma textOk_ascii: "list_all (\<lambda>u. u < 128) s \<Longrightarrow> s \<noteq> [] \<Longrightarrow> length s \<le> 16384 \<Longrightarrow> textOk s"
  using assertText_ascii [of s invalidRule] by (simp add: assertText_None)

lemma unsupported_reason:
  "list_all (\<lambda>u. u < 128) (gd_id d) \<and> length (gd_id d) \<le> 64 \<Longrightarrow> textOk (reason (unsupportedDecision d))"
  by (intro textOk_ascii) (simp_all add: unsupportedDecision_def decision_def js_def)

lemma matchPatterns_reason:
  "list_all (\<lambda>u. u < 128) (gd_id dialect) \<and> length (gd_id dialect) \<le> 64 \<Longrightarrow>
   textOk (reason (fst (matchPatterns ps path dialect work saw)))"
proof (induction ps path dialect work saw rule: matchPatterns.induct)
  case (1 path dialect work saw)
  then show ?case using unsupported_reason [of dialect] by (auto simp: decision_def js_def intro!: textOk_ascii)
next
  case (2 p ps path dialect work saw)
  obtain r w where run: "matchDocumentedSubset p path dialect work = (r, w)" by fastforce
  show ?case
  proof (cases "r = Matched \<or> exhausted w")
    case True
    with 2 run unsupported_reason [of dialect] show ?thesis
      by (auto simp: decision_def js_def intro!: textOk_ascii)
  next
    case False
    with "2.IH" [OF run [symmetric] refl] "2.prems" run show ?thesis by simp
  qed
qed

lemma resolveDialect_reason:
  "list_all (\<lambda>u. u < 128) (gd_id dialect) \<and> length (gd_id dialect) \<le> 64 \<Longrightarrow> textOk (reason (resolveDialect request dialect))"
  using unsupported_reason [of dialect] matchPatterns_reason [of dialect]
  by (auto simp: resolveDialect_def decision_def js_def Let_def split_def split: ExpansionResult.splits
      intro!: textOk_ascii)

lemma matchProfileGlob_answers:
  assumes "requestFits request"
  shows "\<exists>d. matchProfileGlob request = Inr d \<and> textOk (reason d)"
proof -
  from assms have "validateRequest request = Inr request"
    by (auto simp: requestFits_def validateRequest_def bindR_Inr_iff checkR_Inr_iff)
  then show ?thesis
    using resolveDialect_reason [OF catalog_ids]
    by (auto simp: matchProfileGlob_def invalidInputDecision_def decision_def js_def split: option.splits
        intro!: textOk_ascii)
qed

interpretation profile_matcher: glob_provider profileMatcher requestFits
  rewrites "glob_provider.callbacks profileMatcher = createProfileGlobActivationCallbacks"
proof -
  show p: "glob_provider profileMatcher requestFits"
    by unfold_locales (use matchProfileGlob_answers in \<open>fastforce simp: profileMatcher_def\<close>)
  show "glob_provider.callbacks profileMatcher = createProfileGlobActivationCallbacks"
    unfolding glob_provider.callbacks_def [OF p] createProfileGlobActivationCallbacks_def
    by (simp add: profileMatcher_def [abs_def])
qed

subsection \<open>Properties\<close>

text \<open>
  C10. The two-level table of \<open>pathMatch\<close> decides wildcard matching: \<open>**\<close> stands for any run of segments,
  every other pattern segment for one segment it matches under \<open>*\<close> and \<open>?\<close>. A definite answer is right,
  the budget is overrun by at most one unit, and within the budget and the segment limit the answer is
  definite.
\<close>
theorem pathMatch_correct:
  assumes "work \<le> WORK_LIMIT" "pathMatch pattern path dots folded work = (r, w)"
  shows "(r = Matched \<longrightarrow> pathSpec dots folded pattern path) \<and> (r = NotMatched \<longrightarrow> \<not> pathSpec dots folded pattern path) \<and>
    w \<le> WORK_LIMIT + 1 \<and>
    (segmentsFit pattern path \<and> work + pathCost pattern path \<le> WORK_LIMIT \<longrightarrow> r \<noteq> UnknownMatch)"
proof -
  have "r \<noteq> UnknownMatch" if "segmentsFit pattern path" "work + pathCost pattern path \<le> WORK_LIMIT"
    using pathMatch_complete [OF that(2,1), of dots folded] assms(2) by (auto split: if_splits)
  then show ?thesis using pathMatch_sound [OF assms(2,1)] by blast
qed

theorem pathMatch_correct_witness:
  "pathMatch [STAR, STAR, SLASH, 97] [98, SLASH, 97] False False 0 = (Matched, 10) \<and>
   pathSpec False False [STAR, STAR, SLASH, 97] [98, SLASH, 97]"
proof -
  have "pathMatch [STAR, STAR, SLASH, 97] [98, SLASH, 97] False False 0 = (Matched, 10)"
    by (simp add: pathMatch_def Let_def PROFILE_GLOB_DIALECT_LIMITS_def pathSegmentsOf_def REPOSITORY_ROOT_def
        initial_row_def consume_def pathCell_def GLOBSTAR_def segmentMatch_def startsDot_def startsWildcard_def
        segmentCell_def)
  then show ?thesis using pathMatch_correct [of 0 "[STAR, STAR, SLASH, 97]" "[98, SLASH, 97]" False False Matched 10] by simp
qed









text \<open>
  C11. Brace expansion ends for every pattern and, when it succeeds, returns the product of the brace
  groups in order, free of braces, with at most 1000 patterns and 4 MiB of text.
\<close>
theorem braceExpansion_correct:
  assumes "braceExpansion pattern dialect = Expanded ps"
  shows "ps = expansions pattern \<and> list_all (\<lambda>p. OPEN_BRACE \<notin> set p \<and> CLOSE_BRACE \<notin> set p) ps \<and>
    length ps \<le> 1000 \<and> (\<Sum>p\<leftarrow>ps. textBytes p) \<le> 4194304"
proof -
  from assms have run: "braceLoop dialect [pattern] = Expanded ps" by (simp add: braceExpansion_def)
  have "length ps \<le> 1000 \<and> (\<Sum>p\<leftarrow>ps. textBytes p) \<le> 4194304"
    using braceLoop_bounds [OF run, of "count_list pattern OPEN_BRACE"] by (simp add: PROFILE_GLOB_DIALECT_LIMITS_def)
  moreover have "ps = expansions pattern" using conjunct1 [OF braceLoop_expansions [OF run]] by simp
  ultimately show ?thesis using conjunct2 [OF braceLoop_expansions [OF run]] by blast
qed

theorem braceExpansion_correct_witness:
  "braceExpansion (js ''a{b,c}'') claudeCodeDialect = Expanded [js ''ab'', js ''ac''] \<and>
   [js ''ab'', js ''ac''] = expansions (js ''a{b,c}'')"
proof -
  have "braceExpansion (js ''a{b,c}'') claudeCodeDialect = Expanded [js ''ab'', js ''ac'']"
    by (simp add: braceExpansion_def braceLoop.simps js_def textBytes_ascii PROFILE_GLOB_DIALECT_LIMITS_def
        claudeCodeDialect_def indexOfFrom_def overOptional_def Let_def)
  then show ?thesis using braceExpansion_correct by blast
qed

text \<open>
  The matcher does bounded work: for every list of patterns, every path and every dialect, one
  request consumes at most one unit more than the budget of 1048576.
\<close>
theorem matchPatterns_work_bounded: "snd (matchPatterns ps path dialect 0 False) \<le> 1048577"
  using matchPatterns_decision [of ps path dialect 0 False "fst (matchPatterns ps path dialect 0 False)"
      "snd (matchPatterns ps path dialect 0 False)"]
  by (simp add: PROFILE_GLOB_DIALECT_LIMITS_def)

text \<open>
  Within the budget the documented subset has a complete decision table: a pattern that passes the
  gates matches when the strictest reading matches, is unknown when only a looser reading matches or
  the texts are not ASCII, and does not match otherwise.
\<close>
theorem matchDocumentedSubset_complete:
  assumes "work + 4 * pathCost pattern path \<le> WORK_LIMIT" "segmentsFit pattern path" "documentedGate pattern dialect = None"
  shows "fst (matchDocumentedSubset pattern path dialect work) =
    (if pathSpec False False pattern path then Matched
     else if pathSpec True True pattern path \<or> hasNonAscii pattern \<or> hasNonAscii path then UnknownMatch
     else NotMatched)"
  using assms by (rule documented_complete)

theorem matchDocumentedSubset_complete_witness:
  "fst (matchDocumentedSubset (js ''a'') (js ''a'') claudeCodeDialect 0) = Matched"
proof -
  have "pathMatch (js ''a'') (js ''a'') False False 0 = (Matched, 4)"
    by (simp add: pathMatch_def Let_def PROFILE_GLOB_DIALECT_LIMITS_def pathSegmentsOf_def REPOSITORY_ROOT_def
        initial_row_def consume_def pathCell_def GLOBSTAR_def segmentMatch_def startsDot_def startsWildcard_def
        segmentCell_def js_def)
  then have "pathSpec False False (js ''a'') (js ''a'')" using pathMatch_sound by blast
  moreover
  have "documentedGate (js ''a'') claudeCodeDialect = None"
    by (simp add: documentedGate_def unsupportedShape_def unsupportedSegment_def js_def GLOBSTAR_def endsWith_def)
  moreover have "segmentsFit (js ''a'') (js ''a'')"
    by (simp add: segmentsFit_def js_def pathSegmentsOf_def REPOSITORY_ROOT_def PROFILE_GLOB_DIALECT_LIMITS_def)
  moreover have "0 + 4 * pathCost (js ''a'') (js ''a'') \<le> WORK_LIMIT"
    by (simp add: pathCost_def pathRowCost_def segmentCost_def js_def pathSegmentsOf_def REPOSITORY_ROOT_def
        PROFILE_GLOB_DIALECT_LIMITS_def)
  ultimately show ?thesis using matchDocumentedSubset_complete [of 0 "js ''a''" "js ''a''" claudeCodeDialect] by simp
qed

text \<open>
  The catalog is closed and consistent: every entry is found under its own id, the ids are
  distinct, and only the Claude Code and the Copilot VS Code dialects have a known pattern base, so no
  other profile ever gets a definite answer.
\<close>
theorem catalog_closed:
  "list_all (\<lambda>d. profileGlobDialect (gd_id d) = Some d) PROFILE_GLOB_DIALECTS \<and>
   distinct (map gd_id PROFILE_GLOB_DIALECTS) \<and>
   filter (\<lambda>d. gd_patternBase d \<noteq> BaseUnknown) PROFILE_GLOB_DIALECTS = [claudeCodeDialect, copilotVscodeDialect]"
  by (simp add: profileGlobDialect_def PROFILE_GLOB_DIALECTS_def claudeCodeDialect_def copilotCliDialect_def
      copilotCloudAgentDialect_def copilotCodeReviewDialect_def copilotVscodeDialect_def cursorAgentDialect_def js_def)

text \<open>
  C30. Rule evaluation with the profile matcher as its callback never ends in a callback error when
  each glob request of the rule passes the matcher's own request validation.
\<close>
theorem profile_matcher_never_blamed:
  assumes "list_all (\<lambda>s. case s of DirectoryTree _ \<Rightarrow> True | Glob p d \<Rightarrow> requestFits (globRequest rule target p d))
    (selectorsOf rule)"
  shows "evaluateActivationRule sha rule target createProfileGlobActivationCallbacks \<noteq> Inl callbackFailed \<and>
    evaluateActivationRule sha rule target createProfileGlobActivationCallbacks \<noteq> Inl invalidCallback"
  using profile_matcher.never_blamed [OF assms] by (simp add: blameless_def)

theorem profile_matcher_never_blamed_witness:
  "evaluateActivationRule exampleDigest exampleRule (js ''a'') createProfileGlobActivationCallbacks \<noteq> Inl callbackFailed"
proof -
  have "isRepositoryRelativePath [DOT]" "isRepositoryRelativePath (js ''a'')" by (simp_all add: path_eval js_def)
  then have "validateRequest (globRequest exampleRule (js ''a'') (js ''*'') None) =
      Inr (globRequest exampleRule (js ''a'') (js ''*'') None)"
    by (simp add: validateRequest_def globRequest_def exampleRule_def textBytes_ascii js_def PROFILE_GLOB_DIALECT_LIMITS_def)
  then have "requestFits (globRequest exampleRule (js ''a'') (js ''*'') None)" by (auto simp: requestFits_def)
  then have "list_all (\<lambda>s. case s of DirectoryTree _ \<Rightarrow> True | Glob p d \<Rightarrow> requestFits (globRequest exampleRule (js ''a'') p d))
    (selectorsOf exampleRule)"
    by (simp add: selectorsOf_def exampleRule_def)
  then show ?thesis using profile_matcher_never_blamed by blast
qed

end
