(* ===== verification/Ignore_Pattern.thy ===== *)
theory Ignore_Pattern
  imports Repository_Path Wildcard
begin

text \<open>
  Ignore patterns (\<open>packages/evidence/src/ignore-engine.ts\<close>, the part from \<open>WorkBudget\<close> to
  \<open>excludedBy\<close>): the work budget with its deadline and cancellation checkpoints, the parsing and
  compilation of a pattern, the matching tables and the choice of the deciding rule for a path.

  The clock and the abort signal are outside the program; the budget carries the readings they will
  give, one per checkpoint: \<open>None\<close> is a clock that throws or gives no finite number, or a signal that is
  no longer an \<open>AbortSignal\<close>. Times are integers. An operation that may throw maps the budget to an
  error or to its value with the new budget.
\<close>

subsection \<open>The work budget\<close>

datatype IgnoreEngineErrorCode =
    aborted
  | deadlineExceeded
  | invalidInput
  | invalidOptions
  | limitExceeded
  | malformedInput

record IgnoreEngineLimits =
  maximumDurationMs :: nat
  maximumIgnoreFileBytes :: nat
  maximumIgnoreFiles :: nat
  maximumMatchWork :: nat
  maximumPathDepth :: nat
  maximumPaths :: nat
  maximumPatternBytes :: nat
  maximumPatternLength :: nat
  maximumPatterns :: nat
  maximumProblems :: nat

definition IGNORE_ENGINE_DEFAULT_LIMITS :: IgnoreEngineLimits where
  "IGNORE_ENGINE_DEFAULT_LIMITS =
     \<lparr>maximumDurationMs = 30000, maximumIgnoreFileBytes = 65536, maximumIgnoreFiles = 1024,
      maximumMatchWork = 50000000, maximumPathDepth = 128, maximumPaths = 100000,
      maximumPatternBytes = 4194304, maximumPatternLength = 4096, maximumPatterns = 10000,
      maximumProblems = 256\<rparr>"

definition IGNORE_ENGINE_HARD_LIMITS :: IgnoreEngineLimits where
  "IGNORE_ENGINE_HARD_LIMITS =
     \<lparr>maximumDurationMs = 300000, maximumIgnoreFileBytes = 1048576, maximumIgnoreFiles = 10000,
      maximumMatchWork = 200000000, maximumPathDepth = 1024, maximumPaths = 1000000,
      maximumPatternBytes = 16777216, maximumPatternLength = 16384, maximumPatterns = 100000,
      maximumProblems = 4096\<rparr>"

record WorkBudget =
  wb_clock :: "nat \<Rightarrow> int option"
  wb_signal :: "nat \<Rightarrow> bool option"
  wb_limits :: IgnoreEngineLimits
  wb_startedAt :: int
  wb_lastNow :: int
  wb_lastCheckpointWork :: nat
  wb_work :: nat
  wb_clockReads :: nat
  wb_signalReads :: nat

text \<open>What an operation throws: an engine error, or an error of the repository facade or the path module.\<close>

datatype IgnoreFailure =
    EngineError IgnoreEngineErrorCode
  | RepositoryFailure jstring
  | PathFailure RepositoryPathErrorCode

type_synonym 'a ignoring = "WorkBudget \<Rightarrow> IgnoreFailure + ('a \<times> WorkBudget)"

definition returnB :: "'a \<Rightarrow> 'a ignoring" where
  "returnB x = (\<lambda>budget. Inr (x, budget))"

definition failB :: "IgnoreFailure \<Rightarrow> 'a ignoring" where
  "failB e = (\<lambda>budget. Inl e)"

definition bindB :: "'a ignoring \<Rightarrow> ('a \<Rightarrow> 'b ignoring) \<Rightarrow> 'b ignoring" where
  "bindB m f = (\<lambda>budget. case m budget of Inl e \<Rightarrow> Inl e | Inr (x, budget') \<Rightarrow> f x budget')"

definition readClock :: "int ignoring" where
  "readClock budget =
     (case wb_clock budget (wb_clockReads budget) of
        None \<Rightarrow> Inl (EngineError invalidOptions)
      | Some now \<Rightarrow> Inr (now, budget\<lparr>wb_clockReads := wb_clockReads budget + 1\<rparr>))"

definition checkpoint :: "unit ignoring" where
  "checkpoint budget =
     (case wb_signal budget (wb_signalReads budget) of
        None \<Rightarrow> Inl (EngineError invalidOptions)
      | Some True \<Rightarrow> Inl (EngineError aborted)
      | Some False \<Rightarrow>
          (case readClock (budget\<lparr>wb_signalReads := wb_signalReads budget + 1\<rparr>) of
             Inl e \<Rightarrow> Inl e
           | Inr (now, budget1) \<Rightarrow>
               let budget2 = budget1\<lparr>wb_lastNow := max (wb_lastNow budget1) now\<rparr>
               in if int (maximumDurationMs (wb_limits budget2)) < wb_lastNow budget2 - wb_startedAt budget2
                  then Inl (EngineError deadlineExceeded)
                  else Inr ((), budget2\<lparr>wb_lastCheckpointWork := wb_work budget2\<rparr>)))"

definition consume :: "nat \<Rightarrow> unit ignoring" where
  "consume amount budget =
     (let budget1 = budget\<lparr>wb_work := wb_work budget + amount\<rparr>
      in if 9007199254740991 < wb_work budget1 \<or> maximumMatchWork (wb_limits budget1) < wb_work budget1
         then Inl (EngineError limitExceeded)
         else if 1024 \<le> wb_work budget1 - wb_lastCheckpointWork budget1 then checkpoint budget1
         else Inr ((), budget1))"

definition newBudget :: "IgnoreEngineLimits \<Rightarrow> (nat \<Rightarrow> bool option) \<Rightarrow> (nat \<Rightarrow> int option) \<Rightarrow> IgnoreFailure + WorkBudget" where
  "newBudget limits signal clock =
     (case readClock \<lparr>wb_clock = clock, wb_signal = signal, wb_limits = limits, wb_startedAt = 0, wb_lastNow = 0,
                      wb_lastCheckpointWork = 0, wb_work = 0, wb_clockReads = 0, wb_signalReads = 0\<rparr> of
        Inl e \<Rightarrow> Inl e
      | Inr (now, budget) \<Rightarrow>
          (case checkpoint (budget\<lparr>wb_startedAt := now, wb_lastNow := now\<rparr>) of
             Inl e \<Rightarrow> Inl e
           | Inr (_, budget') \<Rightarrow> Inr budget'))"

subsection \<open>Pattern text\<close>

definition unsafeUnit :: "nat \<Rightarrow> bool" where
  "unsafeUnit u \<longleftrightarrow>
     u \<le> 0x1F \<or> (0x7F \<le> u \<and> u \<le> 0x9F) \<or> (0xD800 \<le> u \<and> u \<le> 0xDFFF) \<or> u = 0xFEFF \<or> u = 0x061C \<or>
     u = 0x200E \<or> u = 0x200F \<or> (0x202A \<le> u \<and> u \<le> 0x202E) \<or> (0x2066 \<le> u \<and> u \<le> 0x2069)"

definition unsafeText :: "jstring \<Rightarrow> bool" where
  "unsafeText value \<longleftrightarrow> list_ex unsafeUnit value"

abbreviation SPACE :: nat where "SPACE \<equiv> 32"
abbreviation HASH :: nat where "HASH \<equiv> 35"
abbreviation BANG :: nat where "BANG \<equiv> 33"
abbreviation CARET :: nat where "CARET \<equiv> 94"
abbreviation DASH :: nat where "DASH \<equiv> 45"
abbreviation LBRACKET :: nat where "LBRACKET \<equiv> 91"
abbreviation RBRACKET :: nat where "RBRACKET \<equiv> 93"

function stripTrailingSpaces :: "jstring \<Rightarrow> jstring" where
  "stripTrailingSpaces result =
     (if result \<noteq> [] \<and> last result = SPACE then
        let slashes = length (takeWhile (\<lambda>u. u = BACKSLASH) (rev (butlast result)))
        in if slashes mod 2 = 1 then
             let escapeIndex = length result - 1 - slashes
             in take escapeIndex result @ drop (escapeIndex + 1) result
           else stripTrailingSpaces (butlast result)
      else result)"
  by pat_completeness auto
termination
  by (relation "measure length") auto

declare stripTrailingSpaces.simps [simp del]

fun patternComponentsLoop :: "jstring \<Rightarrow> jstring \<Rightarrow> jstring list" where
  "patternComponentsLoop [] component = [component]"
| "patternComponentsLoop (u # us) component =
     (if u = BACKSLASH \<and> us \<noteq> [] \<and> hd us = SLASH then component # patternComponentsLoop (tl us) []
      else if u = SLASH then component # patternComponentsLoop us []
      else patternComponentsLoop us (component @ [u]))"

definition patternComponents :: "jstring \<Rightarrow> jstring list option" where
  "patternComponents value =
     (let components = patternComponentsLoop value []
      in if [] \<in> set components then None else Some components)"

fun normalizeEscapedSeparators :: "jstring \<Rightarrow> jstring" where
  "normalizeEscapedSeparators [] = []"
| "normalizeEscapedSeparators (u # us) =
     (if u = BACKSLASH \<and> us \<noteq> [] \<and> hd us = SLASH then SLASH # normalizeEscapedSeparators (tl us)
      else u # normalizeEscapedSeparators us)"

subsection \<open>Compilation\<close>

datatype CharacterToken =
    AnyToken
  | ClassToken bool "(nat \<times> nat) list"
  | LiteralToken nat
  | StarToken

datatype PatternComponent = Globstar | Component "CharacterToken list"

record CompiledPattern =
  componentsOf :: "PatternComponent list"
  hasSlash :: bool
  trailingGlobstarRequiresChild :: bool

text \<open>
  The loop of \<open>compileClass\<close> over the characters of a class: the collected values and the characters
  after the closing bracket, or \<open>None\<close> when the class is not closed.
\<close>

fun classValues :: "nat list \<Rightarrow> nat list \<Rightarrow> (nat list \<times> nat list) option" where
  "classValues [] values = None"
| "classValues (c # cs) values =
     (if c = RBRACKET \<and> values \<noteq> [] then Some (values, cs)
      else if c = BACKSLASH \<and> cs \<noteq> [] then classValues (tl cs) (values @ [hd cs])
      else classValues cs (values @ [c]))"

fun classRanges :: "nat list \<Rightarrow> (nat \<times> nat) list" where
  "classRanges [] = []"
| "classRanges (first # d # lst # rest) =
     (if d = DASH then (first, lst) # classRanges rest else (first, first) # classRanges (d # lst # rest))"
| "classRanges (first # rest) = (first, first) # classRanges rest"

text \<open>\<open>compileClass\<close> on the characters after the opening bracket: the token and the remaining characters.\<close>

definition compileClass :: "nat list \<Rightarrow> (CharacterToken \<times> nat list) option" where
  "compileClass characters =
     (let inverted = (characters \<noteq> [] \<and> (hd characters = BANG \<or> hd characters = CARET));
          body = (if inverted then tl characters else characters);
          initial = (if body \<noteq> [] \<and> hd body = RBRACKET then [RBRACKET] else []);
          rest = (if body \<noteq> [] \<and> hd body = RBRACKET then tl body else body)
      in map_option (\<lambda>(values, after). (ClassToken inverted (classRanges values), after)) (classValues rest initial))"

lemma classValues_shorter: "classValues cs vs = Some (ws, rest) \<Longrightarrow> length rest < length cs"
proof (induction cs vs rule: classValues.induct)
  case (2 c cs vs)
  then show ?case by (cases cs) (auto split: if_splits)
qed simp

lemma compileClass_shorter [termination_simp]:
  "compileClass cs = Some (token, rest) \<Longrightarrow> length rest < Suc (length cs)"
proof -
  assume run: "compileClass cs = Some (token, rest)"
  define body where "body = (if cs \<noteq> [] \<and> (hd cs = BANG \<or> hd cs = CARET) then tl cs else cs)"
  define chars where "chars = (if body \<noteq> [] \<and> hd body = RBRACKET then tl body else body)"
  from run [unfolded compileClass_def Let_def, folded body_def, folded chars_def]
  obtain vs ws where "classValues chars vs = Some (ws, rest)" by (auto simp del: classValues.simps)
  then have "length rest < length chars" by (rule classValues_shorter)
  moreover have "length chars \<le> length cs" by (simp add: chars_def body_def)
  ultimately show "length rest < Suc (length cs)" by simp
qed

function compileTokens :: "nat list \<Rightarrow> CharacterToken list option" where
  "compileTokens [] = Some []"
| "compileTokens (c # cs) =
     (if c = BACKSLASH then
        (case cs of
           [] \<Rightarrow> None
         | escaped # rest \<Rightarrow> map_option (\<lambda>ts. LiteralToken escaped # ts) (compileTokens rest))
      else if c = STAR then
        map_option (\<lambda>ts. StarToken # ts) (compileTokens (dropWhile (\<lambda>d. d = STAR) cs))
      else if c = QUESTION then map_option (\<lambda>ts. AnyToken # ts) (compileTokens cs)
      else if c = LBRACKET then
        (case compileClass cs of
           None \<Rightarrow> map_option (\<lambda>ts. LiteralToken LBRACKET # ts) (compileTokens cs)
         | Some (token, rest) \<Rightarrow> map_option (\<lambda>ts. token # ts) (compileTokens rest))
      else map_option (\<lambda>ts. LiteralToken c # ts) (compileTokens cs))"
  by pat_completeness auto
termination
  by (relation "measure length")
    (auto simp: le_imp_less_Suc length_dropWhile_le dest: compileClass_shorter)

definition compileComponent :: "jstring \<Rightarrow> CharacterToken list option" where
  "compileComponent value = compileTokens (scalars value)"

fun compileComponents :: "bool \<Rightarrow> jstring list \<Rightarrow> PatternComponent list option" where
  "compileComponents slash [] = Some []"
| "compileComponents slash (component # rest) =
     (if slash \<and> component = [STAR, STAR] then
        map_option (\<lambda>cs. Globstar # cs) (compileComponents slash rest)
      else (case compileComponent component of
              None \<Rightarrow> None
            | Some compiled \<Rightarrow> map_option (\<lambda>cs. Component compiled # cs) (compileComponents slash rest)))"

definition compilePattern :: "jstring \<Rightarrow> bool \<Rightarrow> CompiledPattern option" where
  "compilePattern value slash =
     (case patternComponents value of
        None \<Rightarrow> None
      | Some raw \<Rightarrow>
          map_option
            (\<lambda>cs. \<lparr>componentsOf = cs, hasSlash = slash,
                   trailingGlobstarRequiresChild = (slash \<and> 1 < length cs \<and> last cs = Globstar)\<rparr>)
            (compileComponents slash raw))"

subsection \<open>Rules\<close>

datatype IgnoreRuleSourceKind = BuiltInSource | ConfigurationSource | GitignoreSource | ProfileSource

record IgnoreRuleSource =
  src_factId :: "jstring option"
  src_kind :: IgnoreRuleSourceKind
  src_line :: "nat option"
  src_path :: "jstring option"
  src_profileId :: "jstring option"
  src_sourceUrl :: "jstring option"

record IgnoreRule =
  basePath :: jstring
  directoryOnly :: bool
  ignoreRuleId :: jstring
  negative :: bool
  patternText :: jstring
  precedence :: nat
  ruleSource :: IgnoreRuleSource
  ruleValid :: bool

record InternalRule =
  compiledOf :: "CompiledPattern option"
  ruleOf :: IgnoreRule
  sourceRank :: nat
  sourceSequence :: nat

fun SOURCE_RANK :: "IgnoreRuleSourceKind \<Rightarrow> nat" where
  "SOURCE_RANK GitignoreSource = 1"
| "SOURCE_RANK ProfileSource = 2"
| "SOURCE_RANK ConfigurationSource = 3"
| "SOURCE_RANK BuiltInSource = 4"

fun sourceKindText :: "IgnoreRuleSourceKind \<Rightarrow> jstring" where
  "sourceKindText BuiltInSource = js ''built-in''"
| "sourceKindText ConfigurationSource = js ''configuration''"
| "sourceKindText GitignoreSource = js ''gitignore''"
| "sourceKindText ProfileSource = js ''profile''"

definition safePatternText :: "jstring \<Rightarrow> IgnoreEngineLimits \<Rightarrow> bool" where
  "safePatternText value limits \<longleftrightarrow>
     \<not> (unsafeText value \<or> maximumPatternLength limits < length (scalars value) \<or>
        maximumPathDepth limits < length (split_on SLASH value))"

text \<open>\<open>a ?? b\<close> on nullable values.\<close>

definition orElse :: "'a option \<Rightarrow> 'a \<Rightarrow> 'a" where
  "orElse a b = (case a of None \<Rightarrow> b | Some x \<Rightarrow> x)"

text \<open>The steps of \<open>makeRule\<close> between the text check and the compilation, on the stripped text.\<close>

definition dropFirst :: "nat \<Rightarrow> jstring \<Rightarrow> jstring" where
  "dropFirst c s = (if s \<noteq> [] \<and> hd s = c then tl s else s)"

definition dropLast :: "nat \<Rightarrow> jstring \<Rightarrow> jstring" where
  "dropLast c s = (if s \<noteq> [] \<and> last s = c then butlast s else s)"

definition makeRule ::
  "jstring \<Rightarrow> IgnoreRuleSource \<Rightarrow> jstring \<Rightarrow> nat \<Rightarrow> IgnoreEngineLimits \<Rightarrow> IgnoreFailure + InternalRule option" where
  "makeRule rawValue src base sequence limits =
     (if \<not> safePatternText rawValue limits then Inl (EngineError malformedInput)
      else let stripped = stripTrailingSpaces rawValue
           in if stripped = [] \<or> startsWith stripped [HASH] then Inr None
              else let neg = startsWith stripped [BANG];
                       value1 = normalizeEscapedSeparators (dropFirst BANG stripped);
                       dirOnly = endsWith value1 [SLASH];
                       value2 = dropLast SLASH value1;
                       anchored = startsWith value2 [SLASH];
                       value3 = dropFirst SLASH value2;
                       slash = (anchored \<or> includesStr value3 [SLASH]);
                       cpat = (if value3 = [] then None else compilePattern value3 slash);
                       rank = SOURCE_RANK (src_kind src);
                       idText = sourceKindText (src_kind src) @ COLON #
                         orElse (src_path src) (orElse (src_factId src) (js ''root'')) @ COLON #
                         decimal (orElse (src_line src) sequence)
                   in Inr (Some
                        \<lparr>compiledOf = cpat,
                         ruleOf = \<lparr>basePath = base, directoryOnly = dirOnly, ignoreRuleId = idText, negative = neg,
                                 patternText = rawValue, precedence = rank * 1000000 + sequence, ruleSource = src,
                                 ruleValid = (cpat \<noteq> None)\<rparr>,
                         sourceRank = rank, sourceSequence = sequence\<rparr>))"

definition validSuppliedPattern :: "jstring \<Rightarrow> IgnoreEngineLimits \<Rightarrow> bool" where
  "validSuppliedPattern value limits \<longleftrightarrow>
     (if \<not> safePatternText value limits then False
      else let stripped = stripTrailingSpaces value
           in if stripped = [] \<or> startsWith stripped [HASH] then False
              else let normalized = dropFirst SLASH (dropLast SLASH (normalizeEscapedSeparators (dropFirst BANG stripped)))
                   in if normalized = [] then False
                      else compilePattern normalized (includesStr normalized [SLASH]) \<noteq> None)"

subsection \<open>Matching\<close>

fun rangesMatch :: "(nat \<times> nat) list \<Rightarrow> nat \<Rightarrow> bool" where
  "rangesMatch [] code = False"
| "rangesMatch ((first, lst) # rest) code = ((first \<le> code \<and> code \<le> lst) \<or> rangesMatch rest code)"

definition classMatches :: "bool \<Rightarrow> (nat \<times> nat) list \<Rightarrow> nat \<Rightarrow> bool" where
  "classMatches inverted ranges character =
     (if inverted then \<not> rangesMatch ranges character else rangesMatch ranges character)"

text \<open>One entry of the row of \<open>componentMatches\<close>, from the previous row and the entry to the left.\<close>

fun componentCell :: "CharacterToken \<Rightarrow> nat list \<Rightarrow> bool list \<Rightarrow> bool \<Rightarrow> nat \<Rightarrow> bool" where
  "componentCell StarToken characters previous left index = (previous ! index \<or> left)"
| "componentCell AnyToken characters previous left index = previous ! (index - 1)"
| "componentCell (LiteralToken value) characters previous left index =
     (previous ! (index - 1) \<and> value = characters ! (index - 1))"
| "componentCell (ClassToken inverted ranges) characters previous left index =
     (previous ! (index - 1) \<and> classMatches inverted ranges (characters ! (index - 1)))"

fun componentRow :: "CharacterToken \<Rightarrow> nat list \<Rightarrow> bool list \<Rightarrow> bool list \<Rightarrow> nat list \<Rightarrow> bool list ignoring" where
  "componentRow token characters previous nxt [] = returnB nxt"
| "componentRow token characters previous nxt (index # indices) =
     bindB (consume 1) (\<lambda>_.
       componentRow token characters previous
         (nxt[index := componentCell token characters previous (nxt ! (index - 1)) index]) indices)"

definition firstCell :: "bool \<Rightarrow> bool list \<Rightarrow> nat \<Rightarrow> bool list" where
  "firstCell star previous n = (star \<and> previous ! 0) # replicate n False"

fun componentRows :: "CharacterToken list \<Rightarrow> nat list \<Rightarrow> bool list \<Rightarrow> bool list ignoring" where
  "componentRows [] characters previous = returnB previous"
| "componentRows (token # tokens) characters previous =
     bindB
       (componentRow token characters previous (firstCell (token = StarToken) previous (length characters))
          [1..<Suc (length characters)])
       (\<lambda>nxt. componentRows tokens characters nxt)"

definition componentMatches :: "CharacterToken list \<Rightarrow> jstring \<Rightarrow> bool ignoring" where
  "componentMatches tokens value =
     bindB (componentRows tokens (scalars value) (initial_row (length (scalars value))))
       (\<lambda>final. returnB (final ! length (scalars value)))"

text \<open>One entry of the row of \<open>compiledMatches\<close>; the component is consulted only where the row can be true.\<close>

fun patternCell :: "PatternComponent \<Rightarrow> jstring list \<Rightarrow> bool list \<Rightarrow> bool \<Rightarrow> nat \<Rightarrow> bool ignoring" where
  "patternCell Globstar pathComponents previous left index = returnB (previous ! index \<or> left)"
| "patternCell (Component tokens) pathComponents previous left index =
     (if previous ! (index - 1) then componentMatches tokens (pathComponents ! (index - 1)) else returnB False)"

fun patternRow :: "PatternComponent \<Rightarrow> jstring list \<Rightarrow> bool list \<Rightarrow> bool list \<Rightarrow> nat list \<Rightarrow> bool list ignoring" where
  "patternRow component pathComponents previous nxt [] = returnB nxt"
| "patternRow component pathComponents previous nxt (index # indices) =
     bindB (consume 1) (\<lambda>_.
     bindB (patternCell component pathComponents previous (nxt ! (index - 1)) index) (\<lambda>cell.
       patternRow component pathComponents previous (nxt[index := cell]) indices))"

fun patternRows :: "PatternComponent list \<Rightarrow> jstring list \<Rightarrow> bool list \<Rightarrow> bool list ignoring" where
  "patternRows [] pathComponents previous = returnB previous"
| "patternRows (component # rest) pathComponents previous =
     bindB
       (patternRow component pathComponents previous
          (firstCell (component = Globstar) previous (length pathComponents)) [1..<Suc (length pathComponents)])
       (\<lambda>nxt. patternRows rest pathComponents nxt)"

definition compiledMatches :: "CompiledPattern \<Rightarrow> jstring \<Rightarrow> bool ignoring" where
  "compiledMatches cpat value =
     bindB (consume (max 1 (length value))) (\<lambda>_.
       let pathComponents = split_on SLASH value
       in if \<not> hasSlash cpat then
            (case componentsOf cpat of
               Component tokens # _ \<Rightarrow> componentMatches tokens (last pathComponents)
             | _ \<Rightarrow> returnB False)
          else if trailingGlobstarRequiresChild cpat \<and> length pathComponents < length (componentsOf cpat) then returnB False
          else bindB (patternRows (componentsOf cpat) pathComponents (initial_row (length pathComponents)))
                 (\<lambda>final. returnB (final ! length pathComponents)))"

definition relativeToBase :: "jstring \<Rightarrow> jstring \<Rightarrow> jstring option" where
  "relativeToBase pathValue base =
     (if base = REPOSITORY_ROOT then Some pathValue
      else if startsWith pathValue (base @ [SLASH]) then Some (drop (length base + 1) pathValue)
      else None)"

text \<open>The comparison by which a matching rule replaces the selected one.\<close>

definition overrides :: "InternalRule \<Rightarrow> InternalRule option \<Rightarrow> bool" where
  "overrides r selected =
     (case selected of
        None \<Rightarrow> True
      | Some s \<Rightarrow>
          sourceRank s < sourceRank r \<or> (sourceRank r = sourceRank s \<and> sourceSequence s < sourceSequence r))"

text \<open>Whether one rule matches: the guards of the loop body of \<open>matchingRule\<close>.\<close>

definition ruleMatches :: "InternalRule \<Rightarrow> jstring \<Rightarrow> bool \<Rightarrow> bool ignoring" where
  "ruleMatches r pathValue directory =
     (case compiledOf r of
        None \<Rightarrow> returnB False
      | Some cpat \<Rightarrow>
          if directoryOnly (ruleOf r) \<and> \<not> directory then returnB False
          else (case relativeToBase pathValue (basePath (ruleOf r)) of
                  None \<Rightarrow> returnB False
                | Some relative \<Rightarrow> compiledMatches cpat relative))"

fun matchingRuleLoop :: "jstring \<Rightarrow> bool \<Rightarrow> InternalRule list \<Rightarrow> InternalRule option \<Rightarrow> InternalRule option ignoring" where
  "matchingRuleLoop pathValue directory [] selected = returnB selected"
| "matchingRuleLoop pathValue directory (r # rules) selected =
     bindB (consume 1) (\<lambda>_.
     bindB (ruleMatches r pathValue directory) (\<lambda>matched.
       matchingRuleLoop pathValue directory rules (if matched \<and> overrides r selected then Some r else selected)))"

definition matchingRule :: "jstring \<Rightarrow> bool \<Rightarrow> InternalRule list \<Rightarrow> InternalRule option ignoring" where
  "matchingRule pathValue directory rules = matchingRuleLoop pathValue directory rules None"

text \<open>The loop of \<open>excludedBy\<close> over the directory prefixes, by depth.\<close>

fun excludedDirectory :: "jstring list \<Rightarrow> InternalRule list \<Rightarrow> nat list \<Rightarrow> InternalRule option ignoring" where
  "excludedDirectory parts rules [] = returnB None"
| "excludedDirectory parts rules (depth # depths) =
     (let directory = join_with SLASH (take depth parts)
      in bindB (consume (max 1 (length directory))) (\<lambda>_.
         bindB (matchingRule directory True rules) (\<lambda>found.
           case found of
             Some r \<Rightarrow> if \<not> negative (ruleOf r) then returnB (Some r) else excludedDirectory parts rules depths
           | None \<Rightarrow> excludedDirectory parts rules depths)))"

definition excludedBy :: "jstring \<Rightarrow> bool \<Rightarrow> InternalRule list \<Rightarrow> InternalRule option ignoring" where
  "excludedBy pathValue file rules =
     (let parts = split_on SLASH pathValue;
          directoryCount = (if file then length parts - 1 else length parts)
      in bindB (excludedDirectory parts rules [1..<Suc directoryCount]) (\<lambda>byDirectory.
           case byDirectory of
             Some r \<Rightarrow> returnB (Some r)
           | None \<Rightarrow>
               if file then
                 bindB (matchingRule pathValue False rules) (\<lambda>found.
                   case found of
                     Some r \<Rightarrow> if \<not> negative (ruleOf r) then returnB (Some r) else returnB None
                   | None \<Rightarrow> returnB None)
               else returnB None))"

end
