(* ===== verification/Ignore_Engine.thy ===== *)
theory Ignore_Engine
  imports Ignore_Pattern Output_Text
begin

text \<open>
  The ignore engine (\<open>packages/evidence/src/ignore-engine.ts\<close>): the validation of the options, the
  profile facts and the enumeration, the reading of ignore files and \<open>applyIgnoreRulesWithClock\<close>.

  Options and enumeration are typed records, so the checks for plain objects, dense arrays, accessor
  properties and forged abort signals have no counterpart. Parameters of the model: \<open>parseUrl\<close> is the
  WHATWG \<open>URL\<close> constructor, \<open>collate\<close> is \<open>localeCompare\<close> for the locale en-US (true when the first text
  does not sort after the second), and \<open>inspect\<close> and \<open>readFile\<close> are what the repository facade answers.
\<close>

subsection \<open>Options\<close>

datatype ProfileIgnoreApplicability =
  FactConditional | FactContradiction | FactKnownActive | FactKnownInactive | FactUnknown

datatype ProfileIgnoreEvidence =
  DocumentedEvidence | DocumentedVersionedEvidence | ObservedEvidence | SourceDerivedEvidence

record ProfileIgnoreFact =
  pf_applicability :: ProfileIgnoreApplicability
  pf_clientVersion :: "jstring option"
  pf_evidence :: ProfileIgnoreEvidence
  pf_factId :: jstring
  pf_pattern :: jstring
  pf_profileId :: jstring
  pf_reason :: "jstring option"
  pf_retrievedAt :: jstring
  pf_sourceUrl :: jstring

record ParsedUrl =
  url_protocol :: jstring
  url_username :: jstring
  url_password :: jstring
  url_href :: jstring

record IgnoreEngineOptions =
  opt_configurationPatterns :: "jstring list option"
  opt_limits :: "(jstring \<times> int) list"
  opt_profileFacts :: "ProfileIgnoreFact list option"

record OptionsSnapshot =
  os_configurationPatterns :: "jstring list"
  os_limits :: IgnoreEngineLimits
  os_profileFacts :: "ProfileIgnoreFact list"

definition is_lower_alnum :: "nat \<Rightarrow> bool" where
  "is_lower_alnum u \<longleftrightarrow> (97 \<le> u \<and> u \<le> 122) \<or> (48 \<le> u \<and> u \<le> 57)"

text \<open>The expression \<open>[a-z0-9]([a-z0-9._-]{0,126}[a-z0-9])?\<close>.\<close>

definition validIdentifier :: "jstring \<Rightarrow> bool" where
  "validIdentifier value \<longleftrightarrow>
     value \<noteq> [] \<and> length value \<le> 128 \<and> is_lower_alnum (hd value) \<and> is_lower_alnum (last value) \<and>
     list_all (\<lambda>u. is_lower_alnum u \<or> u \<in> {46, 95, 45}) value"

definition number_of_digits :: "jstring \<Rightarrow> nat" where
  "number_of_digits ds = foldl (\<lambda>n d. 10 * n + (d - 48)) 0 ds"

definition leapYear :: "nat \<Rightarrow> bool" where
  "leapYear year \<longleftrightarrow> year mod 4 = 0 \<and> (year mod 100 \<noteq> 0 \<or> year mod 400 = 0)"

definition daysOfMonth :: "nat \<Rightarrow> nat \<Rightarrow> nat" where
  "daysOfMonth year month =
     [31, if leapYear year then 29 else 28, 31, 30, 31, 30, 31, 31, 30, 31, 30, 31] ! (month - 1)"

fun validDate :: "jstring \<Rightarrow> bool" where
  "validDate [y1, y2, y3, y4, h1, m1, m2, h2, d1, d2] =
     (if list_all is_ascii_digit [y1, y2, y3, y4, m1, m2, d1, d2] \<and> h1 = DASH \<and> h2 = DASH then
        let year = number_of_digits [y1, y2, y3, y4]; month = number_of_digits [m1, m2];
            day = number_of_digits [d1, d2]
        in if month < 1 \<or> 12 < month \<or> day < 1 then False else day \<le> daysOfMonth year month
      else False)"
| "validDate _ = False"

definition validReason :: "ProfileIgnoreFact \<Rightarrow> bool" where
  "validReason pfact =
     (if pf_applicability pfact \<noteq> FactKnownActive \<and> pf_applicability pfact \<noteq> FactKnownInactive then
        (case pf_reason pfact of
           None \<Rightarrow> False
         | Some reason \<Rightarrow> reason \<noteq> [] \<and> length reason \<le> 1024 \<and> \<not> unsafeText reason)
      else pf_reason pfact = None)"

definition snapshotProfileFact ::
  "(jstring \<Rightarrow> ParsedUrl option) \<Rightarrow> ProfileIgnoreFact \<Rightarrow> IgnoreEngineLimits \<Rightarrow> IgnoreFailure + ProfileIgnoreFact" where
  "snapshotProfileFact parseUrl pfact limits =
     (if 2048 < length (pf_sourceUrl pfact) then Inl (EngineError invalidOptions)
      else (case parseUrl (pf_sourceUrl pfact) of
              None \<Rightarrow> Inl (EngineError invalidOptions)
            | Some url \<Rightarrow>
                if (case pf_clientVersion pfact of
                      None \<Rightarrow> False
                    | Some version \<Rightarrow> version = [] \<or> 128 < length version \<or> unsafeText version) \<or>
                   \<not> validIdentifier (pf_factId pfact) \<or>
                   pf_pattern pfact = [] \<or> maximumPatternLength limits * 2 < length (pf_pattern pfact) \<or>
                   unsafeText (pf_pattern pfact) \<or>
                   \<not> validIdentifier (pf_profileId pfact) \<or>
                   \<not> validReason pfact \<or> \<not> validDate (pf_retrievedAt pfact) \<or>
                   url_protocol url \<noteq> js ''https:'' \<or> url_username url \<noteq> [] \<or> url_password url \<noteq> []
                then Inl (EngineError invalidOptions)
                else Inr (pfact\<lparr>pf_sourceUrl := url_href url\<rparr>)))"

text \<open>One limit given by the caller, checked against the hard limit of its key.\<close>

definition overrideLimit :: "(jstring \<times> int) list \<Rightarrow> jstring \<Rightarrow> nat \<Rightarrow> nat \<Rightarrow> IgnoreFailure + nat" where
  "overrideLimit given key hard standard =
     (case map_of given key of
        None \<Rightarrow> Inr standard
      | Some candidate \<Rightarrow>
          if candidate < 1 \<or> int hard < candidate then Inl (EngineError invalidOptions)
          else Inr (nat candidate))"

definition snapshotLimits :: "(jstring \<times> int) list \<Rightarrow> IgnoreFailure + IgnoreEngineLimits" where
  "snapshotLimits given =
     (let d = IGNORE_ENGINE_DEFAULT_LIMITS; h = IGNORE_ENGINE_HARD_LIMITS in
      bindR (overrideLimit given (js ''maximumDurationMs'') (maximumDurationMs h) (maximumDurationMs d)) (\<lambda>durationMs.
      bindR (overrideLimit given (js ''maximumIgnoreFileBytes'') (maximumIgnoreFileBytes h) (maximumIgnoreFileBytes d)) (\<lambda>fileBytes.
      bindR (overrideLimit given (js ''maximumIgnoreFiles'') (maximumIgnoreFiles h) (maximumIgnoreFiles d)) (\<lambda>files.
      bindR (overrideLimit given (js ''maximumMatchWork'') (maximumMatchWork h) (maximumMatchWork d)) (\<lambda>matchWork.
      bindR (overrideLimit given (js ''maximumPathDepth'') (maximumPathDepth h) (maximumPathDepth d)) (\<lambda>pathDepth.
      bindR (overrideLimit given (js ''maximumPaths'') (maximumPaths h) (maximumPaths d)) (\<lambda>paths.
      bindR (overrideLimit given (js ''maximumPatternBytes'') (maximumPatternBytes h) (maximumPatternBytes d)) (\<lambda>patternBytes.
      bindR (overrideLimit given (js ''maximumPatternLength'') (maximumPatternLength h) (maximumPatternLength d)) (\<lambda>patternLength.
      bindR (overrideLimit given (js ''maximumPatterns'') (maximumPatterns h) (maximumPatterns d)) (\<lambda>patterns.
      bindR (overrideLimit given (js ''maximumProblems'') (maximumProblems h) (maximumProblems d)) (\<lambda>problems.
        Inr \<lparr>maximumDurationMs = durationMs, maximumIgnoreFileBytes = fileBytes, maximumIgnoreFiles = files,
             maximumMatchWork = matchWork, maximumPathDepth = pathDepth, maximumPaths = paths,
             maximumPatternBytes = patternBytes, maximumPatternLength = patternLength,
             maximumPatterns = patterns, maximumProblems = problems\<rparr>)))))))))))"

definition validConfigurationPattern :: "IgnoreEngineLimits \<Rightarrow> jstring \<Rightarrow> bool" where
  "validConfigurationPattern limits candidate \<longleftrightarrow>
     \<not> (candidate = [] \<or> maximumPatternLength limits * 2 < length candidate \<or> unsafeText candidate) \<and>
     validSuppliedPattern candidate limits"

fun mapR :: "('a \<Rightarrow> 'e + 'b) \<Rightarrow> 'a list \<Rightarrow> 'e + 'b list" where
  "mapR f [] = Inr []"
| "mapR f (x # xs) = bindR (f x) (\<lambda>y. bindR (mapR f xs) (\<lambda>ys. Inr (y # ys)))"

text \<open>The loop that checks the patterns of the profile facts and that their identifiers are unique.\<close>

fun checkFacts :: "IgnoreEngineLimits \<Rightarrow> ProfileIgnoreFact list \<Rightarrow> jstring list \<Rightarrow> bool" where
  "checkFacts limits [] factIds = True"
| "checkFacts limits (pfact # facts) factIds =
     (validSuppliedPattern (pf_pattern pfact) limits \<and> pf_factId pfact \<notin> set factIds \<and>
      checkFacts limits facts (pf_factId pfact # factIds))"

definition snapshotOptions ::
  "(jstring \<Rightarrow> ParsedUrl option) \<Rightarrow> IgnoreEngineOptions option \<Rightarrow> IgnoreFailure + OptionsSnapshot" where
  "snapshotOptions parseUrl value =
     (case value of
        None \<Rightarrow>
          Inr \<lparr>os_configurationPatterns = [], os_limits = IGNORE_ENGINE_DEFAULT_LIMITS, os_profileFacts = []\<rparr>
      | Some options \<Rightarrow>
          bindR (snapshotLimits (opt_limits options)) (\<lambda>limits.
          let patterns = orElse (opt_configurationPatterns options) [];
              facts = orElse (opt_profileFacts options) []
          in checkR (length patterns \<le> maximumPatterns limits) (EngineError invalidOptions)
            (checkR (list_all (validConfigurationPattern limits) patterns) (EngineError invalidOptions)
            (checkR (length facts \<le> maximumPatterns limits) (EngineError invalidOptions)
            (bindR (mapR (\<lambda>pfact. snapshotProfileFact parseUrl pfact limits) facts) (\<lambda>profileFacts.
             checkR (checkFacts limits profileFacts []) (EngineError invalidOptions)
               (Inr \<lparr>os_configurationPatterns = patterns, os_limits = limits, os_profileFacts = profileFacts\<rparr>)))))))"

subsection \<open>The enumeration\<close>

datatype EnumerationSource = GitIndexSource | FilesystemFallbackSource

datatype EnumerationCertainty = TrackedCertainty | AllFilesNotTracked

record IgnoreEngineProblem =
  pb_code :: jstring
  pb_line :: "nat option"
  pb_path :: "jstring option"

record TrackedFileEnumeration =
  en_source :: EnumerationSource
  en_certainty :: EnumerationCertainty
  en_paths :: "jstring list"
  en_omittedProblems :: int
  en_problems :: "(jstring \<times> jstring) list"

record EnumerationSnapshot =
  es_fallback :: bool
  es_omittedProblems :: nat
  es_paths :: "jstring list"
  es_problems :: "IgnoreEngineProblem list"

text \<open>The canonical form, when the text is its own canonical form in the POSIX grammar.\<close>

definition isCanonicalPosix :: "jstring \<Rightarrow> bool" where
  "isCanonicalPosix candidate \<longleftrightarrow>
     (case canonicalizeRepositoryRelativePath candidate Posix of Inl _ \<Rightarrow> False | Inr canonical \<Rightarrow> canonical = candidate)"

fun snapshotPaths :: "IgnoreEngineLimits \<Rightarrow> jstring option \<Rightarrow> jstring list \<Rightarrow> bool" where
  "snapshotPaths limits previous [] = True"
| "snapshotPaths limits previous (candidate # candidates) =
     (length candidate \<le> 16384 \<and> textBytes candidate \<le> 16384 \<and> isCanonicalPosix candidate \<and>
      candidate \<noteq> REPOSITORY_ROOT \<and> length (split_on SLASH candidate) \<le> maximumPathDepth limits \<and>
      (case previous of None \<Rightarrow> True | Some p \<Rightarrow> p < candidate) \<and>
      snapshotPaths limits (Some candidate) candidates)"

definition validProblem :: "jstring \<times> jstring \<Rightarrow> bool" where
  "validProblem problem \<longleftrightarrow>
     fst problem \<noteq> [] \<and> length (fst problem) \<le> 256 \<and> isCanonicalPosix (snd problem)"

definition snapshotEnumeration ::
  "TrackedFileEnumeration \<Rightarrow> IgnoreEngineLimits \<Rightarrow> IgnoreFailure + EnumerationSnapshot" where
  "snapshotEnumeration value limits =
     (if (en_source value = GitIndexSource \<and> en_certainty value \<noteq> TrackedCertainty) \<or>
         (en_source value = FilesystemFallbackSource \<and> en_certainty value \<noteq> AllFilesNotTracked) \<or>
         maximumPaths limits < length (en_paths value) \<or>
         \<not> snapshotPaths limits None (en_paths value) \<or>
         en_omittedProblems value < 0 \<or> 9007199254740991 < en_omittedProblems value \<or>
         maximumPaths limits < length (en_problems value) \<or>
         \<not> list_all validProblem (en_problems value)
      then Inl (EngineError invalidInput)
      else Inr \<lparr>es_fallback = (en_source value = FilesystemFallbackSource),
                es_omittedProblems = nat (en_omittedProblems value),
                es_paths = en_paths value,
                es_problems = map (\<lambda>(code, path). \<lparr>pb_code = code, pb_line = None, pb_path = Some path\<rparr>)
                  (en_problems value)\<rparr>)"

subsection \<open>Ignore files\<close>

text \<open>\<open>TextDecoder("utf-8", fatal)\<close>: the decoded text, or \<open>None\<close> when the bytes are not UTF-8.\<close>

function decodeUtf8 :: "nat list \<Rightarrow> jstring option" where
  "decodeUtf8 [] = Some []"
| "decodeUtf8 (b # bs) =
     (case sequence_length b of
        None \<Rightarrow> None
      | Some n \<Rightarrow>
          (case decode_octets (take n (b # bs)) of
             None \<Rightarrow> None
           | Some c \<Rightarrow> map_option (\<lambda>rest. utf16_units c @ rest) (decodeUtf8 (drop n (b # bs)))))"
  by pat_completeness auto
termination
  by (relation "measure length") (auto simp: sequence_length_def split: if_splits)

text \<open>The bytes of a text decode to the text.\<close>

lemma decodeUtf8_scalars:
  "\<forall>c\<in>set cs. is_scalar_value c \<Longrightarrow> decodeUtf8 (concat (map utf8_scalar cs)) = Some (concat (map utf16_units cs))"
proof (induction cs)
  case (Cons c cs)
  then have c: "is_scalar_value c" by simp
  obtain b bs where b: "utf8_scalar c = b # bs" using length_utf8_scalar(1) [of c] by (cases "utf8_scalar c") auto
  have "sequence_length b = Some (length (utf8_scalar c))" "decode_octets (utf8_scalar c) = Some c"
    using utf8_decode [OF c] b by simp_all
  with Cons b show ?case by simp
qed simp

lemma decodeUtf8_utf8:
  assumes "hasWellFormedUnicode s" "is_jstring s"
  shows "decodeUtf8 (utf8 s) = Some s"
  using decodeUtf8_scalars [of "scalars s"] scalars_scalar_value [OF assms] utf16_scalars [OF assms]
  by (simp add: utf8_def)

lemma utf8_injective:
  assumes "utf8 s = utf8 t" "hasWellFormedUnicode s" "is_jstring s" "hasWellFormedUnicode t" "is_jstring t"
  shows "s = t"
  using decodeUtf8_utf8 [OF assms(2,3)] decodeUtf8_utf8 [OF assms(4,5)] unfolding assms(1) by (simp only: option.inject)

text \<open>\<open>replaceAll("\r\n", "\n").replaceAll("\n", "")\<close>.\<close>

fun replaceCrLf :: "jstring \<Rightarrow> jstring" where
  "replaceCrLf [] = []"
| "replaceCrLf (u # us) = (if u = 13 \<and> us \<noteq> [] \<and> hd us = 10 then 10 # replaceCrLf (tl us) else u # replaceCrLf us)"

definition withoutLineBreaks :: "jstring \<Rightarrow> jstring" where
  "withoutLineBreaks text_value = filter (\<lambda>u. u \<noteq> 10) (replaceCrLf text_value)"

definition decodeIgnoreFile :: "nat list \<Rightarrow> IgnoreFailure + jstring" where
  "decodeIgnoreFile bytes =
     (case decodeUtf8 bytes of
        None \<Rightarrow> Inl (EngineError malformedInput)
      | Some text_value \<Rightarrow>
          if startsWith text_value [0xFEFF] \<or> unsafeText (withoutLineBreaks text_value)
          then Inl (EngineError malformedInput)
          else Inr text_value)"

fun lastIndexOf :: "nat \<Rightarrow> jstring \<Rightarrow> nat option" where
  "lastIndexOf c [] = None"
| "lastIndexOf c (u # us) =
     (case lastIndexOf c us of
        Some i \<Rightarrow> Some (Suc i)
      | None \<Rightarrow> if u = c then Some 0 else None)"

definition baseOfIgnoreFile :: "jstring \<Rightarrow> RepositoryPathErrorCode + jstring" where
  "baseOfIgnoreFile pathValue =
     (case lastIndexOf SLASH pathValue of
        None \<Rightarrow> canonicalizeRepositoryRelativePath [DOT] Posix
      | Some slash \<Rightarrow> canonicalizeRepositoryRelativePath (take slash pathValue) Posix)"

definition frozenProblem :: "jstring \<Rightarrow> jstring option \<Rightarrow> nat option \<Rightarrow> IgnoreEngineProblem" where
  "frozenProblem code pathValue line = \<lparr>pb_code = code, pb_line = line, pb_path = pathValue\<rparr>"

text \<open>
  What the repository facade answers: an error, with whether \<open>fatalFacadeError\<close> holds of it and the
  problem code it would be recorded under, or the facts of the entry.
\<close>

datatype 'a FacadeOutcome = FacadeError bool jstring | FacadeOk 'a

record InspectedEntry =
  ie_isFile :: bool
  ie_linkDepth :: nat
  ie_size :: nat
  ie_device :: nat
  ie_inode :: nat

record ReadEntry =
  re_linkDepth :: nat
  re_device :: nat
  re_inode :: nat
  re_bytes :: "nat list"

subsection \<open>The rule table\<close>

record RuleTable =
  rt_rules :: "InternalRule list"
  rt_problems :: "IgnoreEngineProblem list"
  rt_omitted :: nat
  rt_patternBytes :: nat
  rt_sequence :: nat

definition recordProblem :: "IgnoreEngineLimits \<Rightarrow> IgnoreEngineProblem \<Rightarrow> RuleTable \<Rightarrow> RuleTable" where
  "recordProblem limits problem table =
     (if length (rt_problems table) < maximumProblems limits
      then table\<lparr>rt_problems := rt_problems table @ [problem]\<rparr>
      else table\<lparr>rt_omitted := rt_omitted table + 1\<rparr>)"

definition consumePatternBytes :: "IgnoreEngineLimits \<Rightarrow> nat \<Rightarrow> RuleTable \<Rightarrow> IgnoreFailure + RuleTable" where
  "consumePatternBytes limits amount table =
     (let table1 = table\<lparr>rt_patternBytes := rt_patternBytes table + amount\<rparr>
      in if maximumPatternBytes limits < rt_patternBytes table1 then Inl (EngineError limitExceeded) else Inr table1)"

definition addRule ::
  "IgnoreEngineLimits \<Rightarrow> jstring \<Rightarrow> IgnoreRuleSource \<Rightarrow> jstring \<Rightarrow> bool \<Rightarrow> RuleTable \<Rightarrow> IgnoreFailure + RuleTable" where
  "addRule limits raw src base countBytes table =
     bindR (if countBytes then consumePatternBytes limits (textBytes raw) table else Inr table) (\<lambda>table1.
     let nextSequence = rt_sequence table1 + 1
     in bindR (makeRule raw src base nextSequence limits) (\<lambda>made.
          case made of
            None \<Rightarrow> Inr table1
          | Some r \<Rightarrow>
              if maximumPatterns limits \<le> length (rt_rules table1) then Inl (EngineError limitExceeded)
              else let table2 = table1\<lparr>rt_sequence := nextSequence, rt_rules := rt_rules table1 @ [r]\<rparr>
                   in Inr (if ruleValid (ruleOf r) then table2
                           else recordProblem limits
                                  (frozenProblem (js ''INVALID_PATTERN_NEVER_MATCHES'') (src_path src) (src_line src))
                                  table2)))"

definition plainSource :: "IgnoreRuleSourceKind \<Rightarrow> nat option \<Rightarrow> IgnoreRuleSource" where
  "plainSource kind line =
     \<lparr>src_factId = None, src_kind = kind, src_line = line, src_path = None, src_profileId = None, src_sourceUrl = None\<rparr>"

text \<open>The loops over the built-in and the configuration patterns, numbered from \<open>line\<close>.\<close>

fun addPatterns ::
  "IgnoreEngineLimits \<Rightarrow> IgnoreRuleSourceKind \<Rightarrow> nat \<Rightarrow> jstring list \<Rightarrow> RuleTable \<Rightarrow> IgnoreFailure + RuleTable" where
  "addPatterns limits kind line [] table = Inr table"
| "addPatterns limits kind line (p # ps) table =
     bindR (addRule limits p (plainSource kind (Some line)) REPOSITORY_ROOT True table) (\<lambda>table1.
       addPatterns limits kind (line + 1) ps table1)"

fun addFacts :: "IgnoreEngineLimits \<Rightarrow> ProfileIgnoreFact list \<Rightarrow> RuleTable \<Rightarrow> IgnoreFailure + RuleTable" where
  "addFacts limits [] table = Inr table"
| "addFacts limits (pfact # facts) table =
     (if pf_applicability pfact \<noteq> FactKnownActive then addFacts limits facts table
      else bindR
             (addRule limits (pf_pattern pfact)
                \<lparr>src_factId = Some (pf_factId pfact), src_kind = ProfileSource, src_line = None, src_path = None,
                 src_profileId = Some (pf_profileId pfact), src_sourceUrl = Some (pf_sourceUrl pfact)\<rparr>
                REPOSITORY_ROOT True table)
             (\<lambda>table1. addFacts limits facts table1))"

fun addLines :: "IgnoreEngineLimits \<Rightarrow> jstring \<Rightarrow> jstring \<Rightarrow> nat \<Rightarrow> jstring list \<Rightarrow> RuleTable \<Rightarrow> IgnoreFailure + RuleTable" where
  "addLines limits ignorePath base line [] table = Inr table"
| "addLines limits ignorePath base line (raw # raws) table =
     bindR
       (addRule limits (dropLast 13 raw)
          \<lparr>src_factId = None, src_kind = GitignoreSource, src_line = Some line, src_path = Some ignorePath,
           src_profileId = None, src_sourceUrl = Some (js ''https://git-scm.com/docs/gitignore/2.55.0'')\<rparr>
          base False table)
       (\<lambda>table1. addLines limits ignorePath base (line + 1) raws table1)"

definition BUILT_IN_IGNORE_PATTERNS :: "jstring list" where
  "BUILT_IN_IGNORE_PATTERNS =
     map js [''.cache/'', ''.dart_tool/'', ''.git/'', ''.gradle/'', ''.next/'', ''.nuxt/'', ''.nx/'', ''.pnpm/'',
       ''.turbo/'', ''.venv/'', ''.yarn/cache/'', ''DerivedData/'', ''Pods/'', ''__pycache__/'', ''build/'',
       ''coverage/'', ''dist/'', ''node_modules/'', ''target/'', ''vendor/'', ''venv/'']"

subsection \<open>Applying the rules\<close>

text \<open>A result without budget as a budgeted operation.\<close>

definition liftR :: "IgnoreFailure + 'a \<Rightarrow> 'a ignoring" where
  "liftR r = (case r of Inl e \<Rightarrow> failB e | Inr x \<Rightarrow> returnB x)"

text \<open>\<open>Array.prototype.sort\<close> with a comparator, a stable sort; \<open>le a b\<close> says that \<open>a\<close> may stand before \<open>b\<close>.\<close>

fun insertBy :: "('a \<Rightarrow> 'a \<Rightarrow> bool) \<Rightarrow> 'a \<Rightarrow> 'a list \<Rightarrow> 'a list" where
  "insertBy le x [] = [x]"
| "insertBy le x (y # ys) = (if le x y then x # y # ys else y # insertBy le x ys)"

definition sortBy :: "('a \<Rightarrow> 'a \<Rightarrow> bool) \<Rightarrow> 'a list \<Rightarrow> 'a list" where
  "sortBy le xs = foldr (insertBy le) xs []"

definition isIgnoreFile :: "jstring \<Rightarrow> bool" where
  "isIgnoreFile pathValue \<longleftrightarrow> pathValue = js ''.gitignore'' \<or> endsWith pathValue (js ''/.gitignore'')"

definition ignoreFilesOf :: "(jstring \<Rightarrow> jstring \<Rightarrow> bool) \<Rightarrow> jstring list \<Rightarrow> jstring list" where
  "ignoreFilesOf collate paths =
     sortBy (\<lambda>left right.
        let l = length (split_on SLASH left); r = length (split_on SLASH right)
        in if l = r then collate left right else l < r)
       (filter isIgnoreFile paths)"

text \<open>The body of the loop over the ignore files, after the exclusion test: the file is inspected, read and parsed.\<close>

definition readIgnoreFile ::
  "IgnoreEngineLimits \<Rightarrow> (jstring \<Rightarrow> InspectedEntry FacadeOutcome) \<Rightarrow> (jstring \<Rightarrow> ReadEntry FacadeOutcome) \<Rightarrow>
   jstring \<Rightarrow> jstring \<Rightarrow> RuleTable \<Rightarrow> IgnoreFailure + RuleTable" where
  "readIgnoreFile limits inspect readFile ignorePath base table =
     (case inspect ignorePath of
        FacadeError fatal code \<Rightarrow>
          if fatal then Inl (RepositoryFailure code)
          else Inr (recordProblem limits (frozenProblem code (Some ignorePath) None) table)
      | FacadeOk inspected \<Rightarrow>
          if \<not> ie_isFile inspected then
            Inr (recordProblem limits (frozenProblem (js ''IGNORE_FILE_UNSAFE_TYPE'') (Some ignorePath) None) table)
          else if ie_linkDepth inspected \<noteq> 0 then
            Inr (recordProblem limits (frozenProblem (js ''IGNORE_FILE_LINK_SKIPPED'') (Some ignorePath) None) table)
          else if maximumIgnoreFileBytes limits < ie_size inspected then Inl (EngineError limitExceeded)
          else (case readFile ignorePath of
                  FacadeError fatal code \<Rightarrow>
                    if fatal then Inl (RepositoryFailure code)
                    else Inr (recordProblem limits (frozenProblem code (Some ignorePath) None) table)
                | FacadeOk content \<Rightarrow>
                    if re_linkDepth content \<noteq> 0 \<or> re_device content \<noteq> ie_device inspected \<or>
                       re_inode content \<noteq> ie_inode inspected
                    then Inl (RepositoryFailure (js ''pathChanged''))
                    else if maximumIgnoreFileBytes limits < length (re_bytes content) then Inl (EngineError limitExceeded)
                    else bindR (consumePatternBytes limits (length (re_bytes content)) table) (\<lambda>table1.
                         bindR (decodeIgnoreFile (re_bytes content)) (\<lambda>text_value.
                           addLines limits ignorePath base 1 (split_on 10 text_value) table1))))"

fun readIgnoreFiles ::
  "IgnoreEngineLimits \<Rightarrow> (jstring \<Rightarrow> InspectedEntry FacadeOutcome) \<Rightarrow> (jstring \<Rightarrow> ReadEntry FacadeOutcome) \<Rightarrow>
   jstring list \<Rightarrow> RuleTable \<Rightarrow> RuleTable ignoring" where
  "readIgnoreFiles limits inspect readFile [] table = returnB table"
| "readIgnoreFiles limits inspect readFile (ignorePath # rest) table =
     bindB checkpoint (\<lambda>_.
       case baseOfIgnoreFile ignorePath of
         Inl e \<Rightarrow> failB (PathFailure e)
       | Inr base \<Rightarrow>
           bindB (if base \<noteq> REPOSITORY_ROOT then excludedBy base False (rt_rules table) else returnB None) (\<lambda>excluded.
             if excluded \<noteq> None then readIgnoreFiles limits inspect readFile rest table
             else bindB (liftR (readIgnoreFile limits inspect readFile ignorePath base table)) (\<lambda>table1.
                    readIgnoreFiles limits inspect readFile rest table1)))"

record IgnoredPathDecision =
  ig_trackingUncertain :: bool
  ig_path :: jstring
  ig_ruleId :: jstring

text \<open>The loop that decides every path: the included paths and the ignored ones.\<close>

fun decidePaths ::
  "bool \<Rightarrow> InternalRule list \<Rightarrow> jstring list \<Rightarrow> (jstring list \<times> IgnoredPathDecision list) ignoring" where
  "decidePaths fallback rules [] = returnB ([], [])"
| "decidePaths fallback rules (pathValue # paths) =
     bindB (consume 1) (\<lambda>_.
     bindB (excludedBy pathValue True rules) (\<lambda>found.
     bindB (decidePaths fallback rules paths) (\<lambda>(included, ignored).
       case found of
         None \<Rightarrow> returnB (pathValue # included, ignored)
       | Some r \<Rightarrow>
           returnB (included,
             \<lparr>ig_trackingUncertain = (fallback \<and> src_kind (ruleSource (ruleOf r)) = GitignoreSource),
              ig_path = pathValue, ig_ruleId = ignoreRuleId (ruleOf r)\<rparr> # ignored))))"

record IgnoreEngineResult =
  ir_appliedProfileFactIds :: "jstring list"
  ir_fallback :: bool
  ir_deferredProfileFacts :: "ProfileIgnoreFact list"
  ir_ignored :: "IgnoredPathDecision list"
  ir_limits :: IgnoreEngineLimits
  ir_omittedProblems :: nat
  ir_paths :: "jstring list"
  ir_problems :: "IgnoreEngineProblem list"
  ir_profileFacts :: "ProfileIgnoreFact list"
  ir_rules :: "IgnoreRule list"

definition deferred :: "ProfileIgnoreFact \<Rightarrow> bool" where
  "deferred pfact \<longleftrightarrow>
     pf_applicability pfact = FactConditional \<or> pf_applicability pfact = FactContradiction \<or>
     pf_applicability pfact = FactUnknown"

definition initialTable :: "IgnoreEngineLimits \<Rightarrow> EnumerationSnapshot \<Rightarrow> RuleTable" where
  "initialTable limits input =
     \<lparr>rt_rules = [], rt_problems = take (maximumProblems limits) (es_problems input),
      rt_omitted = es_omittedProblems input + (length (es_problems input) - maximumProblems limits),
      rt_patternBytes = 0, rt_sequence = 0\<rparr>"

text \<open>The order of the reported problems: by path, then by line.\<close>

definition problemLe :: "(jstring \<Rightarrow> jstring \<Rightarrow> bool) \<Rightarrow> IgnoreEngineProblem \<Rightarrow> IgnoreEngineProblem \<Rightarrow> bool" where
  "problemLe collate left right =
     (let l = orElse (pb_path left) []; r = orElse (pb_path right) []
      in if l = r then orElse (pb_line left) 0 \<le> orElse (pb_line right) 0 else collate l r)"

definition suppliedRules :: "OptionsSnapshot \<Rightarrow> EnumerationSnapshot \<Rightarrow> IgnoreFailure + RuleTable" where
  "suppliedRules snapshot input =
     bindR (addPatterns (os_limits snapshot) BuiltInSource 1 BUILT_IN_IGNORE_PATTERNS
              (initialTable (os_limits snapshot) input)) (\<lambda>table1.
     bindR (addPatterns (os_limits snapshot) ConfigurationSource 1 (os_configurationPatterns snapshot) table1) (\<lambda>table2.
       addFacts (os_limits snapshot) (os_profileFacts snapshot) table2))"

definition fallbackRules ::
  "(jstring \<Rightarrow> jstring \<Rightarrow> bool) \<Rightarrow> (jstring \<Rightarrow> InspectedEntry FacadeOutcome) \<Rightarrow> (jstring \<Rightarrow> ReadEntry FacadeOutcome) \<Rightarrow>
   OptionsSnapshot \<Rightarrow> EnumerationSnapshot \<Rightarrow> RuleTable \<Rightarrow> RuleTable ignoring" where
  "fallbackRules collate inspect readFile snapshot input table =
     (if es_fallback input then
        let ignoreFiles = ignoreFilesOf collate (es_paths input)
        in if maximumIgnoreFiles (os_limits snapshot) < length ignoreFiles then failB (EngineError limitExceeded)
           else readIgnoreFiles (os_limits snapshot) inspect readFile ignoreFiles table
      else returnB table)"

definition applyIgnoreRulesWithClock ::
  "(jstring \<Rightarrow> ParsedUrl option) \<Rightarrow> (jstring \<Rightarrow> jstring \<Rightarrow> bool) \<Rightarrow> (jstring \<Rightarrow> InspectedEntry FacadeOutcome) \<Rightarrow>
   (jstring \<Rightarrow> ReadEntry FacadeOutcome) \<Rightarrow> TrackedFileEnumeration \<Rightarrow> IgnoreEngineOptions option \<Rightarrow>
   (nat \<Rightarrow> bool option) \<Rightarrow> (nat \<Rightarrow> int option) \<Rightarrow> IgnoreFailure + IgnoreEngineResult" where
  "applyIgnoreRulesWithClock parseUrl collate inspect readFile enumeration options signal clock =
     bindR (snapshotOptions parseUrl options) (\<lambda>snapshot.
     bindR (snapshotEnumeration enumeration (os_limits snapshot)) (\<lambda>input.
     bindR (newBudget (os_limits snapshot) signal clock) (\<lambda>budget.
     bindR (suppliedRules snapshot input) (\<lambda>table1.
     bindR (bindB (fallbackRules collate inspect readFile snapshot input table1) (\<lambda>table2.
            bindB (decidePaths (es_fallback input) (rt_rules table2) (es_paths input)) (\<lambda>(included, ignored).
            bindB checkpoint (\<lambda>_. returnB (table2, included, ignored)))) budget)
       (\<lambda>((table2, included, ignored), budget').
          Inr \<lparr>ir_appliedProfileFactIds =
                 map pf_factId (filter (\<lambda>pfact. pf_applicability pfact = FactKnownActive) (os_profileFacts snapshot)),
               ir_fallback = es_fallback input,
               ir_deferredProfileFacts = filter deferred (os_profileFacts snapshot),
               ir_ignored = ignored, ir_limits = os_limits snapshot,
               ir_omittedProblems = rt_omitted table2, ir_paths = included,
               ir_problems = sortBy (problemLe collate) (rt_problems table2),
               ir_profileFacts = os_profileFacts snapshot,
               ir_rules = map ruleOf (rt_rules table2)\<rparr>)))))"

end
