(* ===== verification/Ignore_Match.thy ===== *)
theory Ignore_Match
  imports Ignore_Engine
begin

text \<open>
  The correctness of the ignore engine: what a compiled pattern matches, which rule decides a path, what
  the built-in rules guarantee whatever the other rules say, and the bounds of the work budget.
\<close>

subsection \<open>Budgeted operations\<close>

text \<open>An operation that, when it does not throw, returns the given value.\<close>

definition yields :: "'a ignoring \<Rightarrow> 'a \<Rightarrow> bool" where
  "yields m v \<longleftrightarrow> (\<forall>s x s'. m s = Inr (x, s') \<longrightarrow> x = v)"

lemma yields_return [intro, simp]: "yields (returnB v) v"
  by (simp add: yields_def returnB_def)

lemma yields_bind:
  assumes "yields m v" "yields (f v) w"
  shows "yields (bindB m f) w"
  unfolding yields_def bindB_def
proof (intro allI impI)
  fix s x s'
  assume "(case m s of Inl e \<Rightarrow> Inl e | Inr (y, t) \<Rightarrow> f y t) = Inr (x, s')"
  then obtain y t where "m s = Inr (y, t)" "f y t = Inr (x, s')" by (auto split: sum.splits)
  with assms show "x = w" unfolding yields_def by blast
qed

lemma yields_unit: "yields m ()"
  by (simp add: yields_def)

lemma yields_bind_unit: "yields (f ()) w \<Longrightarrow> yields (bindB m f) w"
  by (rule yields_bind [OF yields_unit])

lemma yieldsD: "yields m v \<Longrightarrow> m s = Inr (x, s') \<Longrightarrow> x = v"
  by (auto simp: yields_def)

lemma bindB_Inr: "bindB m f s = Inr (y, s') \<longleftrightarrow> (\<exists>x t. m s = Inr (x, t) \<and> f x t = Inr (y, s'))"
  by (auto simp: bindB_def split: sum.splits)

text \<open>What every operation keeps of the budget: its limits and start, and the bounds on work and time.\<close>

definition budgetOk :: "WorkBudget \<Rightarrow> bool" where
  "budgetOk b \<longleftrightarrow>
     wb_work b \<le> maximumMatchWork (wb_limits b) \<and> wb_lastCheckpointWork b \<le> wb_work b \<and>
     wb_work b - wb_lastCheckpointWork b < 1024 \<and>
     wb_lastNow b - wb_startedAt b \<le> int (maximumDurationMs (wb_limits b))"

definition keeps :: "'a ignoring \<Rightarrow> bool" where
  "keeps m \<longleftrightarrow> (\<forall>s x s'. budgetOk s \<longrightarrow> m s = Inr (x, s') \<longrightarrow>
     budgetOk s' \<and> wb_limits s' = wb_limits s \<and> wb_startedAt s' = wb_startedAt s \<and> wb_work s \<le> wb_work s')"

lemma keeps_return [intro, simp]: "keeps (returnB v)"
  by (simp add: keeps_def returnB_def)

lemma keeps_fail [intro, simp]: "keeps (failB e)"
  by (simp add: keeps_def failB_def)

lemma keeps_bind [intro]: "keeps m \<Longrightarrow> (\<And>x. keeps (f x)) \<Longrightarrow> keeps (bindB m f)"
  unfolding keeps_def bindB_Inr by (metis order.trans)

lemma checkpoint_Inr:
  assumes "checkpoint b = Inr (x, b')"
  shows "wb_limits b' = wb_limits b \<and> wb_startedAt b' = wb_startedAt b \<and> wb_work b' = wb_work b \<and>
    wb_lastCheckpointWork b' = wb_work b \<and> wb_lastNow b' - wb_startedAt b' \<le> int (maximumDurationMs (wb_limits b))"
  using assms
  by (auto simp: checkpoint_def readClock_def Let_def split: option.splits bool.splits if_splits)

lemma keeps_checkpoint [intro]: "keeps checkpoint"
  unfolding keeps_def
proof (intro allI impI)
  fix s x s' assume "budgetOk s" "checkpoint s = Inr (x, s')"
  with checkpoint_Inr [OF this(2)] show "budgetOk s' \<and> wb_limits s' = wb_limits s \<and>
      wb_startedAt s' = wb_startedAt s \<and> wb_work s \<le> wb_work s'"
    by (simp add: budgetOk_def)
qed

lemma consume_Inr:
  assumes "consume n b = Inr (x, b')" "budgetOk b"
  shows "wb_limits b' = wb_limits b \<and> wb_startedAt b' = wb_startedAt b \<and> wb_work b' = wb_work b + n \<and> budgetOk b'"
proof -
  let ?b = "b\<lparr>wb_work := wb_work b + n\<rparr>"
  from assms(1) have le: "wb_work b + n \<le> maximumMatchWork (wb_limits b)" by (auto simp: consume_def Let_def split: if_splits)
  show ?thesis
  proof (cases "1024 \<le> wb_work b + n - wb_lastCheckpointWork b")
    case True
    with assms(1) have "checkpoint ?b = Inr (x, b')" by (auto simp: consume_def Let_def split: if_splits)
    from checkpoint_Inr [OF this] le show ?thesis by (simp add: budgetOk_def)
  next
    case False
    with assms(1) have "b' = ?b" by (auto simp: consume_def Let_def split: if_splits)
    with False le assms(2) show ?thesis by (auto simp: budgetOk_def)
  qed
qed

lemma keeps_consume [intro]: "keeps (consume n)"
  using consume_Inr by (fastforce simp: keeps_def)

lemma keeps_lift [intro]: "keeps (liftR r)"
  by (cases r) (simp_all add: liftR_def)

subsection \<open>Rows written in place\<close>

text \<open>A row whose entries are written from left to right, each from the entry before it.\<close>

definition fillRow :: "(bool \<Rightarrow> nat \<Rightarrow> bool) \<Rightarrow> bool list \<Rightarrow> nat list \<Rightarrow> bool list" where
  "fillRow h r is = foldl (\<lambda>r i. r[i := h (r ! (i - 1)) i]) r is"

lemma length_fillRow [simp]: "length (fillRow h r is) = length r"
  unfolding fillRow_def by (induction "is" arbitrary: r) auto

lemma fillRow_snoc: "fillRow h r (is @ [i]) = (fillRow h r is)[i := h (fillRow h r is ! (i - 1)) i]"
  by (simp add: fillRow_def)

lemma fillRow_nth:
  assumes "n < length r" "k \<le> n"
  shows "fillRow h r [1..<Suc n] ! k = (if k = 0 then r ! 0 else h (fillRow h r [1..<Suc n] ! (k - 1)) k)"
  using assms
proof (induction n)
  case (Suc n)
  have "[1..<Suc (Suc n)] = [1..<Suc n] @ [Suc n]" by simp
  with Suc show ?case
    by (cases "k = Suc n") (auto simp: fillRow_snoc simp del: upt_Suc)
qed (simp add: fillRow_def)

subsection \<open>One component\<close>

definition tokenStar :: "CharacterToken \<Rightarrow> bool" where
  "tokenStar t \<longleftrightarrow> t = StarToken"

fun tokenAccepts :: "CharacterToken \<Rightarrow> nat \<Rightarrow> bool" where
  "tokenAccepts StarToken c = True"
| "tokenAccepts AnyToken c = True"
| "tokenAccepts (LiteralToken v) c = (v = c)"
| "tokenAccepts (ClassToken inverted ranges) c = classMatches inverted ranges c"

definition componentCells :: "CharacterToken \<Rightarrow> nat list \<Rightarrow> bool list \<Rightarrow> bool list" where
  "componentCells t cs r =
     fillRow (componentCell t cs r) (firstCell (t = StarToken) r (length cs)) [1..<Suc (length cs)]"

interpretation component_table: wildcard_row tokenStar tokenAccepts componentCells
proof (unfold_locales, goal_cases)
  case (1 r cs t)
  show ?case by (simp add: componentCells_def firstCell_def del: upt_Suc)
next
  case (2 r cs t)
  show ?case
    unfolding componentCells_def by (subst fillRow_nth) (auto simp: firstCell_def tokenStar_def simp del: upt_Suc)
next
  case (3 r cs i t)
  then show ?case
    unfolding componentCells_def
    by (subst fillRow_nth) (auto simp: firstCell_def tokenStar_def simp del: upt_Suc)
next
  case (4 r cs i t)
  then show ?case
    unfolding componentCells_def
    by (cases t; subst fillRow_nth) (auto simp: firstCell_def tokenStar_def simp del: upt_Suc)
qed

lemma componentRow_yields:
  "yields (componentRow t cs r nxt indices) (fillRow (componentCell t cs r) nxt indices)"
  by (induction indices arbitrary: nxt) (auto simp: fillRow_def intro: yields_bind_unit)

lemma componentRows_yields:
  "yields (componentRows ts cs r) (foldl (\<lambda>r t. componentCells t cs r) r ts)"
  by (induction ts arbitrary: r)
    (auto simp: componentCells_def simp del: upt_Suc intro!: yields_bind [OF componentRow_yields])

definition componentSpec :: "CharacterToken list \<Rightarrow> jstring \<Rightarrow> bool" where
  "componentSpec tokens value \<longleftrightarrow> wild tokenStar tokenAccepts tokens (scalars value)"

lemma componentMatches_yields: "yields (componentMatches tokens value) (componentSpec tokens value)"
  unfolding componentMatches_def
  by (rule yields_bind [OF componentRows_yields]) (simp add: componentSpec_def component_table.table_last)

lemma keeps_componentMatches [intro]: "keeps (componentMatches tokens value)"
proof -
  have "keeps (componentRow t cs r nxt is)" for t cs r nxt "is"
    by (induction "is" arbitrary: nxt) (auto intro!: keeps_bind)
  then have "keeps (componentRows ts cs r)" for ts cs r
    by (induction ts arbitrary: r) (auto simp del: upt_Suc intro!: keeps_bind)
  then show ?thesis by (auto simp: componentMatches_def intro!: keeps_bind)
qed

subsection \<open>One pattern\<close>

definition partStar :: "PatternComponent \<Rightarrow> bool" where
  "partStar c \<longleftrightarrow> c = Globstar"

fun partAccepts :: "PatternComponent \<Rightarrow> jstring \<Rightarrow> bool" where
  "partAccepts Globstar part = True"
| "partAccepts (Component tokens) part = componentSpec tokens part"

fun partCell :: "PatternComponent \<Rightarrow> jstring list \<Rightarrow> bool list \<Rightarrow> bool \<Rightarrow> nat \<Rightarrow> bool" where
  "partCell Globstar parts previous left index = (previous ! index \<or> left)"
| "partCell (Component tokens) parts previous left index =
     (previous ! (index - 1) \<and> componentSpec tokens (parts ! (index - 1)))"

definition partCells :: "PatternComponent \<Rightarrow> jstring list \<Rightarrow> bool list \<Rightarrow> bool list" where
  "partCells c parts r =
     fillRow (partCell c parts r) (firstCell (c = Globstar) r (length parts)) [1..<Suc (length parts)]"

interpretation pattern_table: wildcard_row partStar partAccepts partCells
proof (unfold_locales, goal_cases)
  case (1 r cs t)
  show ?case by (simp add: partCells_def firstCell_def del: upt_Suc)
next
  case (2 r cs t)
  show ?case
    unfolding partCells_def by (subst fillRow_nth) (auto simp: firstCell_def partStar_def simp del: upt_Suc)
next
  case (3 r cs i t)
  then show ?case
    unfolding partCells_def
    by (subst fillRow_nth) (auto simp: firstCell_def partStar_def simp del: upt_Suc)
next
  case (4 r cs i t)
  then show ?case
    unfolding partCells_def
    by (cases t; subst fillRow_nth) (auto simp: firstCell_def partStar_def simp del: upt_Suc)
qed

lemma patternCell_yields: "yields (patternCell c parts r left i) (partCell c parts r left i)"
  by (cases c) (auto intro: componentMatches_yields)

lemma patternRow_yields: "yields (patternRow c parts r nxt is) (fillRow (partCell c parts r) nxt is)"
  by (induction "is" arbitrary: nxt)
    (auto simp: fillRow_def intro!: yields_bind_unit yields_bind [OF patternCell_yields])

lemma patternRows_yields: "yields (patternRows cs parts r) (foldl (\<lambda>r c. partCells c parts r) r cs)"
  by (induction cs arbitrary: r)
    (auto simp: partCells_def simp del: upt_Suc intro!: yields_bind [OF patternRow_yields])

text \<open>What a compiled pattern matches.\<close>

definition patternSpec :: "CompiledPattern \<Rightarrow> jstring \<Rightarrow> bool" where
  "patternSpec cpat value \<longleftrightarrow>
     (let parts = split_on SLASH value
      in if \<not> hasSlash cpat then
           (case componentsOf cpat of Component tokens # _ \<Rightarrow> componentSpec tokens (last parts) | _ \<Rightarrow> False)
         else (trailingGlobstarRequiresChild cpat \<longrightarrow> length (componentsOf cpat) \<le> length parts) \<and>
              wild partStar partAccepts (componentsOf cpat) parts)"

lemma compiledMatches_yields: "yields (compiledMatches cpat value) (patternSpec cpat value)"
proof -
  let ?parts = "split_on SLASH value"
  have "yields (bindB (patternRows (componentsOf cpat) ?parts (initial_row (length ?parts)))
      (\<lambda>final. returnB (final ! length ?parts))) (wild partStar partAccepts (componentsOf cpat) ?parts)"
    by (rule yields_bind [OF patternRows_yields]) (simp add: pattern_table.table_last)
  then show ?thesis
    unfolding compiledMatches_def
    by (intro yields_bind_unit)
      (auto simp: patternSpec_def Let_def intro: componentMatches_yields split: list.splits PatternComponent.splits)
qed

lemma keeps_compiledMatches [intro]: "keeps (compiledMatches cpat value)"
proof -
  have "keeps (patternCell c parts r left i)" for c parts r left i
    by (cases c) auto
  then have "keeps (patternRow c parts r nxt is)" for c parts r nxt "is"
    by (induction "is" arbitrary: nxt) (auto intro!: keeps_bind)
  then have "keeps (patternRows cs parts r)" for cs parts r
    by (induction cs arbitrary: r) (auto simp del: upt_Suc intro!: keeps_bind)
  then show ?thesis
    by (auto simp: compiledMatches_def Let_def simp del: patternRows.simps intro!: keeps_bind
        split: list.splits PatternComponent.splits)
qed

subsection \<open>The deciding rule\<close>

definition ruleApplies :: "jstring \<Rightarrow> bool \<Rightarrow> InternalRule \<Rightarrow> bool" where
  "ruleApplies path directory r \<longleftrightarrow>
     (case compiledOf r of
        None \<Rightarrow> False
      | Some cpat \<Rightarrow>
          (directoryOnly (ruleOf r) \<longrightarrow> directory) \<and>
          (case relativeToBase path (basePath (ruleOf r)) of None \<Rightarrow> False | Some rel \<Rightarrow> patternSpec cpat rel))"

lemma ruleMatches_yields: "yields (ruleMatches r path directory) (ruleApplies path directory r)"
  by (auto simp: ruleMatches_def ruleApplies_def intro: compiledMatches_yields split: option.splits)

definition selectRule :: "jstring \<Rightarrow> bool \<Rightarrow> InternalRule list \<Rightarrow> InternalRule option" where
  "selectRule path directory rules =
     foldl (\<lambda>selected r. if ruleApplies path directory r \<and> overrides r selected then Some r else selected) None rules"

lemma matchingRule_yields: "yields (matchingRule path directory rules) (selectRule path directory rules)"
proof -
  have "yields (matchingRuleLoop path directory rules selected)
    (foldl (\<lambda>selected r. if ruleApplies path directory r \<and> overrides r selected then Some r else selected) selected rules)"
    for selected
  proof (induction rules arbitrary: selected)
    case (Cons a rules)
    show ?case
      unfolding matchingRuleLoop.simps
      by (intro yields_bind_unit yields_bind [OF ruleMatches_yields]) (use Cons in simp)
  qed simp
  then show ?thesis by (simp add: matchingRule_def selectRule_def)
qed

text \<open>The precedence order on rules: source rank, then sequence.\<close>

definition notAbove :: "InternalRule \<Rightarrow> InternalRule \<Rightarrow> bool" where
  "notAbove a b \<longleftrightarrow> sourceRank a < sourceRank b \<or> (sourceRank a = sourceRank b \<and> sourceSequence a \<le> sourceSequence b)"

lemma selectRule_spec:
  "(selectRule path directory rules = None \<longleftrightarrow> (\<forall>s\<in>set rules. \<not> ruleApplies path directory s)) \<and>
   (\<forall>r. selectRule path directory rules = Some r \<longrightarrow>
      r \<in> set rules \<and> ruleApplies path directory r \<and>
      (\<forall>s\<in>set rules. ruleApplies path directory s \<longrightarrow> notAbove s r))"
proof (induction rules rule: rev_induct)
  case Nil
  show ?case by (simp add: selectRule_def)
next
  case (snoc a rules)
  have step: "selectRule path directory (rules @ [a]) =
    (if ruleApplies path directory a \<and> overrides a (selectRule path directory rules) then Some a
     else selectRule path directory rules)"
    by (simp add: selectRule_def)
  show ?case
  proof (cases "selectRule path directory rules")
    case None
    with snoc show ?thesis unfolding step by (auto simp: overrides_def notAbove_def)
  next
    case (Some r)
    with snoc have r: "r \<in> set rules" "ruleApplies path directory r"
      "\<And>s. s \<in> set rules \<Longrightarrow> ruleApplies path directory s \<Longrightarrow> notAbove s r" by auto
    show ?thesis
    proof (cases "ruleApplies path directory a \<and> overrides a (Some r)")
      case True
      with r show ?thesis unfolding step Some by (auto simp: overrides_def notAbove_def dest: r(3))
    next
      case False
      with r show ?thesis unfolding step Some by (auto simp: overrides_def notAbove_def)
    qed
  qed
qed

lemmas selectRule_None = conjunct1 [OF selectRule_spec]
lemmas selectRule_Some = conjunct2 [OF selectRule_spec, rule_format]

definition positive :: "InternalRule option \<Rightarrow> InternalRule option" where
  "positive found = (case found of None \<Rightarrow> None | Some r \<Rightarrow> if negative (ruleOf r) then None else Some r)"

fun firstExcluding :: "jstring list \<Rightarrow> InternalRule list \<Rightarrow> nat list \<Rightarrow> InternalRule option" where
  "firstExcluding parts rules [] = None"
| "firstExcluding parts rules (depth # depths) =
     (case positive (selectRule (join_with SLASH (take depth parts)) True rules) of
        Some r \<Rightarrow> Some r
      | None \<Rightarrow> firstExcluding parts rules depths)"

text \<open>The rule that excludes a path: that of the shallowest excluded directory above it, or its own.\<close>

definition excludingRule :: "jstring \<Rightarrow> bool \<Rightarrow> InternalRule list \<Rightarrow> InternalRule option" where
  "excludingRule path file rules =
     (let parts = split_on SLASH path
      in case firstExcluding parts rules [1..<Suc (if file then length parts - 1 else length parts)] of
           Some r \<Rightarrow> Some r
         | None \<Rightarrow> if file then positive (selectRule path False rules) else None)"

lemma excludedDirectory_yields: "yields (excludedDirectory parts rules depths) (firstExcluding parts rules depths)"
proof (induction depths)
  case (Cons depth depths)
  show ?case
    unfolding excludedDirectory.simps Let_def
    by (intro yields_bind_unit yields_bind [OF matchingRule_yields])
      (use Cons in \<open>auto simp: positive_def split: option.splits\<close>)
qed simp

lemma excludedBy_yields: "yields (excludedBy path file rules) (excludingRule path file rules)"
proof -
  let ?n = "if file then length (split_on SLASH path) - 1 else length (split_on SLASH path)"
  show ?thesis
    unfolding excludedBy_def Let_def excludingRule_def
    by (rule yields_bind [OF excludedDirectory_yields])
      (auto simp: positive_def split: option.splits intro!: yields_bind [OF matchingRule_yields] simp del: upt_Suc)
qed

lemma firstExcluding_append:
  "firstExcluding parts rules (xs @ ys) =
     (case firstExcluding parts rules xs of Some r \<Rightarrow> Some r | None \<Rightarrow> firstExcluding parts rules ys)"
  by (induction xs) (auto split: option.splits)

lemma firstExcluding_prefix:
  "\<forall>d\<in>set xs. d \<le> length ps \<Longrightarrow> firstExcluding (ps @ qs) rules xs = firstExcluding ps rules xs"
  by (induction xs) (auto split: option.splits)

lemma excludingRule_below:
  assumes "excludingRule dir False rules = Some r"
  shows "excludingRule (dir @ SLASH # rest) file rules = Some r"
proof -
  let ?ps = "split_on SLASH dir" and ?qs = "split_on SLASH rest"
  from assms have first: "firstExcluding ?ps rules [1..<Suc (length ?ps)] = Some r"
    by (simp add: excludingRule_def Let_def del: upt_Suc split: option.splits)
  define n where "n = (if file then length (?ps @ ?qs) - 1 else length (?ps @ ?qs))"
  have "length ?qs \<noteq> 0" by simp
  then have n: "length ?ps \<le> n" unfolding n_def length_append by (cases "length ?qs") auto
  then have "[1..<Suc n] = [1..<Suc (length ?ps)] @ [Suc (length ?ps)..<Suc n]"
    using upt_add_eq_append [of 1 "Suc (length ?ps)" "n - length ?ps"] n by (simp del: upt_Suc)
  moreover have "firstExcluding (?ps @ ?qs) rules [1..<Suc (length ?ps)] = Some r"
    using first by (subst firstExcluding_prefix) auto
  ultimately have "firstExcluding (?ps @ ?qs) rules [1..<Suc n] = Some r"
    by (simp add: firstExcluding_append del: upt_Suc)
  then show ?thesis
    by (simp add: excludingRule_def Let_def split_on_append n_def [symmetric] del: upt_Suc)
qed

subsection \<open>Plain patterns\<close>

text \<open>Characters that stand for themselves in a pattern, and a directory name made of them.\<close>

definition plainUnit :: "nat \<Rightarrow> bool" where
  "plainUnit u \<longleftrightarrow> 32 < u \<and> u < 127 \<and> u \<notin> {BACKSLASH, SLASH, STAR, QUESTION, LBRACKET}"

definition plainName :: "jstring \<Rightarrow> bool" where
  "plainName n \<longleftrightarrow> n \<noteq> [] \<and> list_all plainUnit n \<and> hd n \<noteq> HASH \<and> hd n \<noteq> BANG"

lemma compileTokens_plain: "list_all plainUnit n \<Longrightarrow> compileTokens n = Some (map LiteralToken n)"
  by (induction n) (auto simp: plainUnit_def)

lemma scalars_plain: "list_all plainUnit n \<Longrightarrow> scalars n = n"
  by (induction n) (auto simp: plainUnit_def unit_class)

lemma patternComponents_plain: "plainName n \<Longrightarrow> patternComponents n = Some [n]"
proof -
  have "list_all plainUnit n \<Longrightarrow> patternComponentsLoop n c = [c @ n]" for c
    by (induction n arbitrary: c) (auto simp: plainUnit_def)
  then show "plainName n \<Longrightarrow> patternComponents n = Some [n]"
    by (auto simp: patternComponents_def plainName_def)
qed

lemma normalize_plain: "list_all plainUnit n \<Longrightarrow> normalizeEscapedSeparators (n @ [SLASH]) = n @ [SLASH]"
  by (induction n) (auto simp: plainUnit_def)

lemma compilePattern_plain:
  assumes "plainName n"
  shows "compilePattern n False =
    Some \<lparr>componentsOf = [Component (map LiteralToken n)], hasSlash = False, trailingGlobstarRequiresChild = False\<rparr>"
  using assms
  by (simp add: compilePattern_def patternComponents_plain compileComponent_def)
    (simp add: plainName_def compileTokens_plain scalars_plain)

lemma makeRule_plain:
  assumes "plainName n" "makeRule (n @ [SLASH]) src base sq limits = Inr made"
  obtains r where "made = Some r" "\<not> negative (ruleOf r)" "directoryOnly (ruleOf r)" "basePath (ruleOf r) = base"
    "compiledOf r = Some \<lparr>componentsOf = [Component (map LiteralToken n)], hasSlash = False,
       trailingGlobstarRequiresChild = False\<rparr>"
    "sourceRank r = SOURCE_RANK (src_kind src)"
proof -
  from assms(1) have n: "n \<noteq> []" "SLASH \<notin> set n" "hd n \<noteq> HASH" "hd n \<noteq> BANG" "hd n \<noteq> SLASH" "list_all plainUnit n"
    by (auto simp: plainName_def list_all_iff plainUnit_def)
  have strip: "stripTrailingSpaces (n @ [SLASH]) = n @ [SLASH]" by (simp add: stripTrailingSpaces.simps)
  have first: "\<not> startsWith (n @ [SLASH]) [HASH]" "\<not> startsWith (n @ [SLASH]) [BANG]" "\<not> startsWith n [SLASH]"
    "dropFirst BANG (n @ [SLASH]) = n @ [SLASH]" "dropFirst SLASH n = n"
    using n by (cases n; simp add: dropFirst_def)+
  have rest: "endsWith (n @ [SLASH]) [SLASH]" "dropLast SLASH (n @ [SLASH]) = n" "\<not> includesStr n [SLASH]"
    using n by (simp_all add: endsWith_def dropLast_def)
  show thesis
    using assms(2) n(1) unfolding makeRule_def Let_def strip
    by (intro that [of "the made"])
      (auto simp: first rest n(2) normalize_plain [OF n(6)] compilePattern_plain [OF assms(1)] split: if_splits)
qed

lemma wild_literal: "wild tokenStar tokenAccepts (map LiteralToken n) cs \<longleftrightarrow> cs = n"
proof (induction n arbitrary: cs rule: rev_induct)
  case (snoc u n)
  show ?case
    by (cases cs rule: rev_cases)
      (use snoc in \<open>auto simp: wild_snoc_Nil wild_snoc_single tokenStar_def\<close>)
qed simp

lemma componentSpec_literal: "plainName n \<Longrightarrow> componentSpec (map LiteralToken n) n"
  by (simp add: componentSpec_def wild_literal plainName_def scalars_plain)

subsection \<open>The rule table\<close>

text \<open>What adding rules of a rank does to the table: rules of that rank are appended.\<close>

definition appends :: "(nat \<Rightarrow> bool) \<Rightarrow> RuleTable \<Rightarrow> RuleTable \<Rightarrow> bool" where
  "appends rank t t' \<longleftrightarrow> (\<exists>rs. rt_rules t' = rt_rules t @ rs \<and> (\<forall>r\<in>set rs. rank (sourceRank r)))"

lemma appends_refl [intro, simp]: "appends rank t t"
  by (auto simp: appends_def)

lemma appends_trans: "appends rank t t' \<Longrightarrow> appends rank t' t'' \<Longrightarrow> appends rank t t''"
  by (fastforce simp: appends_def)

lemma appends_mono: "appends rank t t' \<Longrightarrow> (\<And>k. rank k \<Longrightarrow> rank' k) \<Longrightarrow> appends rank' t t'"
  by (fastforce simp: appends_def)

lemma recordProblem_rules [simp]: "rt_rules (recordProblem limits p t) = rt_rules t"
  by (simp add: recordProblem_def)

lemma consumePatternBytes_rules: "consumePatternBytes limits n t = Inr t' \<Longrightarrow> rt_rules t' = rt_rules t"
  by (auto simp: consumePatternBytes_def Let_def split: if_splits)

lemma makeRule_rank: "makeRule raw src base sq limits = Inr (Some r) \<Longrightarrow> sourceRank r = SOURCE_RANK (src_kind src)"
  by (auto simp: makeRule_def Let_def split: if_splits)

lemma addRule_Inr:
  assumes "addRule limits raw src base cnt t = Inr t'"
  obtains sq made where "makeRule raw src base sq limits = Inr made"
    "rt_rules t' = rt_rules t @ (case made of None \<Rightarrow> [] | Some r \<Rightarrow> [r])"
proof -
  from assms obtain t1 made where t1: "(if cnt then consumePatternBytes limits (textBytes raw) t else Inr t) = Inr t1"
    and made: "makeRule raw src base (rt_sequence t1 + 1) limits = Inr made"
    and rest: "(case made of
            None \<Rightarrow> Inr t1
          | Some r \<Rightarrow>
              if maximumPatterns limits \<le> length (rt_rules t1) then Inl (EngineError limitExceeded)
              else let t2 = t1\<lparr>rt_sequence := rt_sequence t1 + 1, rt_rules := rt_rules t1 @ [r]\<rparr>
                   in Inr (if ruleValid (ruleOf r) then t2
                           else recordProblem limits
                                  (frozenProblem (js ''INVALID_PATTERN_NEVER_MATCHES'') (src_path src) (src_line src))
                                  t2)) = Inr t'"
    unfolding addRule_def bindR_Inr_iff Let_def by blast
  have "rt_rules t1 = rt_rules t" using t1 by (auto split: if_splits dest: consumePatternBytes_rules)
  moreover have "rt_rules t' = rt_rules t1 @ (case made of None \<Rightarrow> [] | Some r \<Rightarrow> [r])"
    using rest by (auto simp: Let_def split: option.splits if_splits)
  ultimately show thesis by (intro that [OF made]) simp
qed

lemma addRule_appends:
  assumes "addRule limits raw src base cnt t = Inr t'"
  shows "appends (\<lambda>k. k = SOURCE_RANK (src_kind src)) t t'"
proof -
  from assms obtain sq made where "makeRule raw src base sq limits = Inr made"
    "rt_rules t' = rt_rules t @ (case made of None \<Rightarrow> [] | Some r \<Rightarrow> [r])" by (rule addRule_Inr)
  then show ?thesis by (auto simp: appends_def split: option.splits dest: makeRule_rank)
qed

lemma addPatterns_appends: "addPatterns limits kind line ps t = Inr t' \<Longrightarrow> appends (\<lambda>k. k = SOURCE_RANK kind) t t'"
proof (induction ps arbitrary: line t)
  case (Cons p ps)
  then obtain t1 where "addRule limits p (plainSource kind (Some line)) REPOSITORY_ROOT True t = Inr t1"
    "addPatterns limits kind (line + 1) ps t1 = Inr t'" by (auto simp: bindR_Inr_iff)
  with Cons.IH addRule_appends [OF this(1)] show ?case by (auto simp: plainSource_def intro: appends_trans)
qed simp

lemma addFacts_appends: "addFacts limits fs t = Inr t' \<Longrightarrow> appends (\<lambda>k. k < 4) t t'"
proof (induction fs arbitrary: t)
  case (Cons f fs)
  show ?case
  proof (cases "pf_applicability f = FactKnownActive")
    case True
    with Cons.prems obtain t1 src where "addRule limits (pf_pattern f) src REPOSITORY_ROOT True t = Inr t1"
      "src_kind src = ProfileSource" and rec: "addFacts limits fs t1 = Inr t'" by (auto simp: bindR_Inr_iff)
    then have "appends (\<lambda>k. k < 4) t t1" by (intro appends_mono [OF addRule_appends]) auto
    from appends_trans [OF this Cons.IH [OF rec]] show ?thesis .
  qed (use Cons in simp)
qed simp

lemma addLines_appends: "addLines limits path base line raws t = Inr t' \<Longrightarrow> appends (\<lambda>k. k < 4) t t'"
proof (induction raws arbitrary: line t)
  case (Cons raw raws)
  then obtain t1 src where "addRule limits (dropLast 13 raw) src base False t = Inr t1"
    "src_kind src = GitignoreSource" and rec: "addLines limits path base (line + 1) raws t1 = Inr t'"
    by (auto simp: bindR_Inr_iff)
  then have "appends (\<lambda>k. k < 4) t t1" by (intro appends_mono [OF addRule_appends]) auto
  from appends_trans [OF this Cons.IH [OF rec]] show ?case .
qed simp

lemma readIgnoreFile_appends:
  assumes "readIgnoreFile limits inspect readFile path base t = Inr t'"
  shows "appends (\<lambda>k. k < 4) t t'"
proof -
  consider "rt_rules t' = rt_rules t"
    | t1 raws where "rt_rules t1 = rt_rules t" "addLines limits path base 1 raws t1 = Inr t'"
    using assms
    by (auto simp: readIgnoreFile_def bindR_Inr_iff split: FacadeOutcome.splits if_splits dest: consumePatternBytes_rules)
  then show ?thesis
  proof cases
    case 1
    then show ?thesis by (simp add: appends_def)
  next
    case (2 t1 raws)
    from addLines_appends [OF 2(2)] 2(1) show ?thesis by (simp add: appends_def)
  qed
qed

lemma readIgnoreFiles_appends:
  "readIgnoreFiles limits inspect readFile paths t b = Inr (t', b') \<Longrightarrow> appends (\<lambda>k. k < 4) t t'"
proof (induction paths arbitrary: t b)
  case Nil
  then show ?case by (simp add: returnB_def)
next
  case (Cons path paths)
  from Cons.prems obtain base where base: "baseOfIgnoreFile path = Inr base"
    by (auto simp: bindB_Inr failB_def split: sum.splits)
  with Cons.prems obtain t1 b1 where rec: "readIgnoreFiles limits inspect readFile paths t1 b1 = Inr (t', b')"
    and step: "t1 = t \<or> readIgnoreFile limits inspect readFile path base t = Inr t1"
    by (auto simp: bindB_Inr liftR_def failB_def returnB_def split: if_splits sum.splits)
  from step have "appends (\<lambda>k. k < 4) t t1" using readIgnoreFile_appends by auto
  from appends_trans [OF this Cons.IH [OF rec]] show ?case .
qed

lemma addPatterns_has:
  assumes "addPatterns limits kind line ps t = Inr t'" "p \<in> set ps"
  shows "\<exists>l sq made. makeRule p (plainSource kind (Some l)) REPOSITORY_ROOT sq limits = Inr made \<and>
    (\<forall>r. made = Some r \<longrightarrow> r \<in> set (rt_rules t'))"
  using assms
proof (induction ps arbitrary: line t)
  case (Cons q ps)
  then obtain t1 where t1: "addRule limits q (plainSource kind (Some line)) REPOSITORY_ROOT True t = Inr t1"
    "addPatterns limits kind (line + 1) ps t1 = Inr t'" by (auto simp: bindR_Inr_iff)
  show ?case
  proof (cases "p \<in> set ps")
    case True
    then show ?thesis using Cons.IH t1(2) by blast
  next
    case False
    with Cons.prems have "p = q" by simp
    from t1(1) obtain sq made where made: "makeRule q (plainSource kind (Some line)) REPOSITORY_ROOT sq limits = Inr made"
      "rt_rules t1 = rt_rules t @ (case made of None \<Rightarrow> [] | Some r \<Rightarrow> [r])" by (rule addRule_Inr)
    moreover have "set (rt_rules t1) \<subseteq> set (rt_rules t')"
      using addPatterns_appends [OF t1(2)] by (auto simp: appends_def)
    ultimately show ?thesis using \<open>p = q\<close> by (intro exI [of _ line] exI [of _ sq] exI [of _ made]) auto
  qed
qed simp

subsection \<open>The built-in rules\<close>

text \<open>The built-in directory names without a slash.\<close>

definition builtInNames :: "jstring list" where
  "builtInNames = map butlast (filter (\<lambda>p. SLASH \<notin> set (butlast p)) BUILT_IN_IGNORE_PATTERNS)"

lemma builtIn_shape: "list_all (\<lambda>p. last p = SLASH \<and> hd p \<noteq> BANG) BUILT_IN_IGNORE_PATTERNS"
  by (simp add: BUILT_IN_IGNORE_PATTERNS_def js_def)

lemma builtInNames_plain:
  "list_all (\<lambda>n. plainName n \<and> n @ [SLASH] \<in> set BUILT_IN_IGNORE_PATTERNS) builtInNames"
  by (simp add: builtInNames_def BUILT_IN_IGNORE_PATTERNS_def js_def plainName_def plainUnit_def)

lemma makeRule_positive:
  assumes "makeRule p src base sq limits = Inr (Some r)" "p \<noteq> []" "last p = SLASH" "hd p \<noteq> BANG"
  shows "\<not> negative (ruleOf r)"
proof -
  have "stripTrailingSpaces p = p" using assms by (simp add: stripTrailingSpaces.simps)
  with assms show ?thesis by (cases p) (auto simp: makeRule_def Let_def split: if_splits)
qed

lemma addPatterns_positive:
  "addPatterns limits kind line ps t = Inr t' \<Longrightarrow> list_all (\<lambda>p. p \<noteq> [] \<and> last p = SLASH \<and> hd p \<noteq> BANG) ps \<Longrightarrow>
   \<forall>r\<in>set (rt_rules t). \<not> negative (ruleOf r) \<Longrightarrow> \<forall>r\<in>set (rt_rules t'). \<not> negative (ruleOf r)"
proof (induction ps arbitrary: line t)
  case (Cons p ps)
  then obtain t1 where t1: "addRule limits p (plainSource kind (Some line)) REPOSITORY_ROOT True t = Inr t1"
    "addPatterns limits kind (line + 1) ps t1 = Inr t'" by (auto simp: bindR_Inr_iff)
  from t1(1) obtain sq made where "makeRule p (plainSource kind (Some line)) REPOSITORY_ROOT sq limits = Inr made"
    "rt_rules t1 = rt_rules t @ (case made of None \<Rightarrow> [] | Some r \<Rightarrow> [r])" by (rule addRule_Inr)
  then have "\<forall>r\<in>set (rt_rules t1). \<not> negative (ruleOf r)"
    using Cons.prems(2,3) makeRule_positive by (auto split: option.splits)
  then show ?case using Cons.IH [OF t1(2)] Cons.prems(2) by auto
qed simp

text \<open>
  The tables from which paths are decided: rules of the top rank are positive, no rank is higher, and
  every built-in name has a rule that applies to each directory of that name.
\<close>

definition protects :: "InternalRule list \<Rightarrow> bool" where
  "protects rules \<longleftrightarrow>
     (\<forall>r\<in>set rules. sourceRank r \<le> 4 \<and> (sourceRank r = 4 \<longrightarrow> \<not> negative (ruleOf r))) \<and>
     (\<forall>n\<in>set builtInNames. \<exists>r\<in>set rules. sourceRank r = 4 \<and>
        (\<forall>dir. last (split_on SLASH dir) = n \<longrightarrow> ruleApplies dir True r))"

lemma protects_appends:
  assumes "protects (rt_rules t)" "appends (\<lambda>k. k < 4) t t'"
  shows "protects (rt_rules t')"
proof -
  from assms(2) obtain rs where rs: "rt_rules t' = rt_rules t @ rs" "\<forall>r\<in>set rs. sourceRank r < 4"
    by (auto simp: appends_def)
  then have "\<forall>r\<in>set (rt_rules t'). sourceRank r \<le> 4 \<and> (sourceRank r = 4 \<longrightarrow> \<not> negative (ruleOf r))"
    using assms(1) by (force simp: protects_def)
  moreover have "\<forall>n\<in>set builtInNames. \<exists>r\<in>set (rt_rules t'). sourceRank r = 4 \<and>
        (\<forall>dir. last (split_on SLASH dir) = n \<longrightarrow> ruleApplies dir True r)"
    using assms(1) rs(1) by (fastforce simp: protects_def)
  ultimately show ?thesis by (simp add: protects_def)
qed

lemma plain_rule_applies:
  assumes "plainName n" "compiledOf r = Some \<lparr>componentsOf = [Component (map LiteralToken n)], hasSlash = False,
       trailingGlobstarRequiresChild = False\<rparr>" "basePath (ruleOf r) = REPOSITORY_ROOT"
    and "last (split_on SLASH dir) = n"
  shows "ruleApplies dir True r"
  using assms by (simp add: ruleApplies_def relativeToBase_def patternSpec_def componentSpec_literal)

lemma builtIn_protects:
  assumes run: "addPatterns limits BuiltInSource 1 BUILT_IN_IGNORE_PATTERNS t = Inr t'" and empty: "rt_rules t = []"
  shows "protects (rt_rules t')"
  unfolding protects_def
proof (rule conjI; rule ballI)
  fix r assume r: "r \<in> set (rt_rules t')"
  have "appends (\<lambda>k. k = 4) t t'" using addPatterns_appends [OF run] by simp
  then have "sourceRank r = 4" using r empty by (auto simp: appends_def)
  moreover have "\<forall>r\<in>set (rt_rules t'). \<not> negative (ruleOf r)"
    by (rule addPatterns_positive [OF run]) (simp_all add: empty BUILT_IN_IGNORE_PATTERNS_def js_def)
  ultimately show "sourceRank r \<le> 4 \<and> (sourceRank r = 4 \<longrightarrow> \<not> negative (ruleOf r))" using r by simp
next
  fix n assume "n \<in> set builtInNames"
  then have n: "plainName n" "n @ [SLASH] \<in> set BUILT_IN_IGNORE_PATTERNS"
    using builtInNames_plain by (auto simp: list_all_iff)
  from addPatterns_has [OF run n(2)] obtain l sq made where
    made: "makeRule (n @ [SLASH]) (plainSource BuiltInSource (Some l)) REPOSITORY_ROOT sq limits = Inr made"
    and mem: "\<forall>r. made = Some r \<longrightarrow> r \<in> set (rt_rules t')" by blast
  from makeRule_plain [OF n(1) made] obtain r where r: "made = Some r" "basePath (ruleOf r) = REPOSITORY_ROOT"
    "compiledOf r = Some \<lparr>componentsOf = [Component (map LiteralToken n)], hasSlash = False,
       trailingGlobstarRequiresChild = False\<rparr>" "sourceRank r = 4"
    by (auto simp: plainSource_def)
  then show "\<exists>r\<in>set (rt_rules t'). sourceRank r = 4 \<and>
      (\<forall>dir. last (split_on SLASH dir) = n \<longrightarrow> ruleApplies dir True r)"
    using mem plain_rule_applies [OF n(1) r(3,2)] by blast
qed

lemma suppliedRules_protects:
  assumes "suppliedRules snapshot input = Inr t"
  shows "protects (rt_rules t)"
proof -
  from assms obtain t1 t2 where
    t1: "addPatterns (os_limits snapshot) BuiltInSource 1 BUILT_IN_IGNORE_PATTERNS (initialTable (os_limits snapshot) input) = Inr t1"
    and t2: "addPatterns (os_limits snapshot) ConfigurationSource 1 (os_configurationPatterns snapshot) t1 = Inr t2"
    and t: "addFacts (os_limits snapshot) (os_profileFacts snapshot) t2 = Inr t"
    by (auto simp: suppliedRules_def bindR_Inr_iff)
  have "protects (rt_rules t1)" by (rule builtIn_protects [OF t1]) (simp add: initialTable_def)
  moreover have "appends (\<lambda>k. k < 4) t1 t2" by (rule appends_mono [OF addPatterns_appends [OF t2]]) simp
  ultimately show ?thesis
    using addFacts_appends [OF t] by (blast intro: protects_appends)
qed

lemma protected_excluded:
  assumes "protects rules" "n \<in> set builtInNames" "n \<in> set (butlast (split_on SLASH path))"
  shows "excludingRule path True rules \<noteq> None"
proof -
  let ?parts = "split_on SLASH path"
  from assms(3) obtain i where i: "i < length ?parts - 1" "?parts ! i = n"
    by (auto simp: in_set_conv_nth nth_butlast)
  let ?dir = "join_with SLASH (take (Suc i) ?parts)"
  have free: "\<forall>p\<in>set (take (Suc i) ?parts). SLASH \<notin> set p"
  proof
    fix p assume "p \<in> set (take (Suc i) ?parts)"
    then have "p \<in> set ?parts" by (rule in_set_takeD)
    then show "SLASH \<notin> set p" by (rule split_on_parts)
  qed
  have "take (Suc i) ?parts \<noteq> []" by simp
  from split_join_with [OF this free] have "split_on SLASH ?dir = take (Suc i) ?parts" .
  then have "last (split_on SLASH ?dir) = n" using i by (simp add: take_Suc_conv_app_nth)
  then obtain b where b: "b \<in> set rules" "sourceRank b = 4" "ruleApplies ?dir True b"
    using assms(1,2) by (auto simp: protects_def)
  then obtain r where sel: "selectRule ?dir True rules = Some r" using selectRule_None by blast
  note r = selectRule_Some [OF sel]
  with b have "notAbove b r" by blast
  with b r assms(1) have "\<not> negative (ruleOf r)" by (force simp: notAbove_def protects_def)
  with sel have "firstExcluding ?parts rules [Suc i..<length ?parts] \<noteq> None"
    using i by (subst upt_conv_Cons) (auto simp: positive_def)
  moreover have "[1..<length ?parts] = [1..<Suc i] @ [Suc i..<length ?parts]"
    using upt_add_eq_append [of 1 "Suc i" "length ?parts - Suc i"] i by (simp del: upt_Suc)
  ultimately have "firstExcluding ?parts rules [1..<length ?parts] \<noteq> None"
    by (auto simp: firstExcluding_append simp del: upt_Suc split: option.splits)
  moreover have "Suc (length ?parts - 1) = length ?parts" using i by simp
  ultimately show ?thesis by (auto simp: excludingRule_def Let_def simp del: upt_Suc split: option.splits)
qed

subsection \<open>All paths\<close>

definition decisionOf :: "bool \<Rightarrow> InternalRule list \<Rightarrow> jstring \<Rightarrow> IgnoredPathDecision" where
  "decisionOf fallback rules path =
     (let r = the (excludingRule path True rules)
      in \<lparr>ig_trackingUncertain = (fallback \<and> src_kind (ruleSource (ruleOf r)) = GitignoreSource),
          ig_path = path, ig_ruleId = ignoreRuleId (ruleOf r)\<rparr>)"

lemma decidePaths_yields:
  "yields (decidePaths fallback rules paths)
     (filter (\<lambda>p. excludingRule p True rules = None) paths,
      map (decisionOf fallback rules) (filter (\<lambda>p. excludingRule p True rules \<noteq> None) paths))"
proof (induction paths)
  case (Cons p paths)
  show ?case
    unfolding decidePaths.simps
    by (intro yields_bind_unit yields_bind [OF excludedBy_yields] yields_bind [OF Cons.IH])
      (auto simp: decisionOf_def split: option.splits)
qed simp

lemma keeps_matchingRule [intro]: "keeps (matchingRule path directory rules)"
proof -
  have "keeps (ruleMatches r path directory)" for r
    by (auto simp: ruleMatches_def split: option.splits)
  then have "keeps (matchingRuleLoop path directory rules selected)" for selected
    by (induction rules arbitrary: selected) (auto intro!: keeps_bind)
  then show ?thesis by (simp add: matchingRule_def)
qed

lemma keeps_excludedBy [intro]: "keeps (excludedBy path file rules)"
proof -
  have "keeps (excludedDirectory parts rules depths)" for parts depths
    by (induction depths) (auto simp: Let_def split: option.splits intro!: keeps_bind)
  then show ?thesis
    by (auto simp: excludedBy_def Let_def simp del: upt_Suc split: option.splits intro!: keeps_bind)
qed

lemma keeps_decidePaths [intro]: "keeps (decidePaths fallback rules paths)"
  by (induction paths) (auto simp: split_def split: option.splits intro!: keeps_bind)

lemma newBudget_ok: "newBudget limits signal clock = Inr b \<Longrightarrow> budgetOk b \<and> wb_limits b = limits"
  by (auto simp: newBudget_def readClock_def budgetOk_def split: option.splits sum.splits dest!: checkpoint_Inr)

text \<open>The parts of a successful run.\<close>

lemma applyIgnoreRules_Inr:
  assumes "applyIgnoreRulesWithClock parseUrl collate inspect readFile enumeration options signal clock = Inr res"
  obtains snapshot input t1 t2 where "snapshotEnumeration enumeration (os_limits snapshot) = Inr input"
    "suppliedRules snapshot input = Inr t1" "appends (\<lambda>k. k < 4) t1 t2"
    "ir_rules res = map ruleOf (rt_rules t2)"
    "ir_paths res = filter (\<lambda>p. excludingRule p True (rt_rules t2) = None) (es_paths input)"
    "ir_ignored res = map (decisionOf (es_fallback input) (rt_rules t2))
       (filter (\<lambda>p. excludingRule p True (rt_rules t2) \<noteq> None) (es_paths input))"
proof -
  from assms obtain snapshot input budget t1 t2 included ignored budget1 budget2 budget3 where
    input: "snapshotEnumeration enumeration (os_limits snapshot) = Inr input"
    and t1: "suppliedRules snapshot input = Inr t1"
    and t2: "fallbackRules collate inspect readFile snapshot input t1 budget = Inr (t2, budget1)"
    and paths: "decidePaths (es_fallback input) (rt_rules t2) (es_paths input) budget1 = Inr ((included, ignored), budget2)"
    and res: "ir_rules res = map ruleOf (rt_rules t2)" "ir_paths res = included" "ir_ignored res = ignored"
    unfolding applyIgnoreRulesWithClock_def bindR_Inr_iff
    by (auto simp: bindB_Inr returnB_def split: prod.splits)
  have "appends (\<lambda>k. k < 4) t1 t2"
    using t2 readIgnoreFiles_appends by (auto simp: fallbackRules_def Let_def returnB_def failB_def split: if_splits)
  with yieldsD [OF decidePaths_yields paths] input t1 res show thesis by (intro that) auto
qed

subsection \<open>The gitignore meaning of a pattern\<close>

















subsection \<open>Properties of the ignore engine\<close>

















text \<open>
  C39. \<open>matchingRule\<close> returns the applicable rule of the highest precedence (source rank, then
  sequence), and no rule exactly when none applies.
\<close>
theorem matchingRule_precedence:
  assumes "matchingRule path directory rules budget = Inr (found, budget')"
  shows "(found = None \<longleftrightarrow> (\<forall>s\<in>set rules. \<not> ruleApplies path directory s)) \<and>
    (\<forall>r. found = Some r \<longrightarrow> r \<in> set rules \<and> ruleApplies path directory r \<and>
       (\<forall>s\<in>set rules. ruleApplies path directory s \<longrightarrow> notAbove s r))"
  using yieldsD [OF matchingRule_yields assms] selectRule_spec by simp

text \<open>
  An excluded directory excludes everything below it, by the same rule: no rule on a deeper path,
  negative or not, changes the outcome.
\<close>
theorem excluded_directory_hereditary:
  assumes "excludedBy dir False rules budget1 = Inr (Some r, budget2)"
    "excludedBy (dir @ SLASH # rest) file rules budget3 = Inr (found, budget4)"
  shows "found = Some r"
  using yieldsD [OF excludedBy_yields assms(1)] yieldsD [OF excludedBy_yields assms(2)] excludingRule_below by metis

text \<open>
  The work budget holds: deciding all paths from a budget within its bounds ends within them, with
  the same limits; no more than 1023 units of work pass without a deadline and cancellation check, the
  total stays within the work limit, and the time seen stays within the deadline.
\<close>
theorem decidePaths_within_budget:
  assumes "newBudget limits signal clock = Inr budget"
    "decidePaths fallback rules paths budget = Inr (decided, budget')"
  shows "wb_work budget' \<le> maximumMatchWork limits \<and>
    wb_work budget' - wb_lastCheckpointWork budget' < 1024 \<and>
    wb_lastNow budget' - wb_startedAt budget' \<le> int (maximumDurationMs limits)"
  using newBudget_ok [OF assms(1)] keeps_decidePaths [of fallback rules paths] assms(2)
  unfolding keeps_def by (metis budgetOk_def)

subsection \<open>Runs\<close>

text \<open>A fresh budget and the rule of the pattern \<open>**/a*\<close>, for the runs below.\<close>

abbreviation budget0 :: WorkBudget where
  "budget0 \<equiv>
     \<lparr>wb_clock = \<lambda>_. Some 0, wb_signal = \<lambda>_. Some False, wb_limits = IGNORE_ENGINE_DEFAULT_LIMITS, wb_startedAt = 0,
      wb_lastNow = 0, wb_lastCheckpointWork = 0, wb_work = 0, wb_clockReads = 2, wb_signalReads = 1\<rparr>"

definition starPattern :: CompiledPattern where
  "starPattern = \<lparr>componentsOf = [Globstar, Component [LiteralToken 97, StarToken]], hasSlash = True, trailingGlobstarRequiresChild = False\<rparr>"

definition starRule :: InternalRule where
  "starRule = \<lparr>compiledOf = Some starPattern,
     ruleOf = \<lparr>basePath = REPOSITORY_ROOT, directoryOnly = False, ignoreRuleId = [], negative = False,
               patternText = js ''**/a*'', precedence = 3000001, ruleSource = plainSource ConfigurationSource (Some 1),
               ruleValid = True\<rparr>, sourceRank = 3, sourceSequence = 1\<rparr>"

lemmas run_simps = compiledMatches_def starPattern_def bindB_def returnB_def consume_def Let_def
  IGNORE_ENGINE_DEFAULT_LIMITS_def componentMatches_def firstCell_def js_def upt_rec unit_class initial_row_def



lemma matchingRule_precedence_witness:
  "\<exists>budget'. matchingRule (js ''x/ab'') False [starRule] budget0 = Inr (Some starRule, budget') \<and>
     ruleApplies (js ''x/ab'') False starRule"
proof -
  have "\<exists>b. matchingRule (js ''x/ab'') False [starRule] budget0 = Inr (Some starRule, b)"
    by (simp add: run_simps starRule_def matchingRule_def ruleMatches_def relativeToBase_def overrides_def)
  then obtain b where b: "matchingRule (js ''x/ab'') False [starRule] budget0 = Inr (Some starRule, b)" by blast
  with matchingRule_precedence [OF b] show ?thesis by blast
qed

lemma excluded_directory_hereditary_witness:
  "\<exists>budget1 budget2. excludedBy (js ''ab'') False [starRule] budget0 = Inr (Some starRule, budget1) \<and>
     excludedBy (js ''ab'' @ SLASH # js ''c'') True [starRule] budget0 = Inr (Some starRule, budget2)"
proof -
  have "\<exists>b. excludedBy (js ''ab'') False [starRule] budget0 = Inr (Some starRule, b)"
    "\<exists>found b. excludedBy (js ''ab'' @ SLASH # js ''c'') True [starRule] budget0 = Inr (found, b)"
    by (simp_all add: run_simps starRule_def excludedBy_def matchingRule_def ruleMatches_def relativeToBase_def overrides_def)
  then obtain b1 b2 found where b: "excludedBy (js ''ab'') False [starRule] budget0 = Inr (Some starRule, b1)"
    "excludedBy (js ''ab'' @ SLASH # js ''c'') True [starRule] budget0 = Inr (found, b2)" by blast
  with excluded_directory_hereditary [OF b] show ?thesis by blast
qed

lemma decidePaths_within_budget_witness:
  "\<exists>decided budget'. decidePaths False [starRule] [js ''ab/c'', js ''d''] budget0 = Inr (decided, budget') \<and>
     wb_work budget' \<le> maximumMatchWork IGNORE_ENGINE_DEFAULT_LIMITS"
proof -
  have "newBudget IGNORE_ENGINE_DEFAULT_LIMITS (\<lambda>_. Some False) (\<lambda>_. Some 0) = Inr budget0"
    by (simp add: newBudget_def readClock_def checkpoint_def IGNORE_ENGINE_DEFAULT_LIMITS_def)
  moreover have "\<exists>d b. decidePaths False [starRule] [js ''ab/c'', js ''d''] budget0 = Inr (d, b)"
    by (simp add: run_simps starRule_def excludedBy_def matchingRule_def ruleMatches_def relativeToBase_def overrides_def)
  then obtain d b where d: "decidePaths False [starRule] [js ''ab/c'', js ''d''] budget0 = Inr (d, b)" by blast
  ultimately show ?thesis using decidePaths_within_budget [OF _ d] by blast
qed

end
