(* ===== verification/Ignore_Live.thy ===== *)
theory Ignore_Live
  imports Ignore_Match
begin

text \<open>
  The ignore engine returns: an explicit bound on the units of work of every operation, and the proof
  that an operation whose bound fits the budget does not throw while the clock stays within the deadline
  and the run is not cancelled. Also what becomes of supplied patterns and of the bytes of ignore files.
\<close>

subsection \<open>Work bounds\<close>

definition healthy :: "WorkBudget \<Rightarrow> bool" where
  "healthy b \<longleftrightarrow>
     (\<forall>k. wb_signal b k = Some False) \<and>
     (\<forall>k. \<exists>now. wb_clock b k = Some now \<and> now - wb_startedAt b \<le> int (maximumDurationMs (wb_limits b))) \<and>
     wb_lastNow b - wb_startedAt b \<le> int (maximumDurationMs (wb_limits b)) \<and>
     maximumMatchWork (wb_limits b) \<le> 9007199254740991"

text \<open>The operation returns from every healthy budget that has \<open>n\<close> units left, and takes at most those.\<close>

definition within :: "'a ignoring \<Rightarrow> nat \<Rightarrow> bool" where
  "within m n \<longleftrightarrow> (\<forall>b. healthy b \<longrightarrow> wb_work b + n \<le> maximumMatchWork (wb_limits b) \<longrightarrow>
     (\<exists>x b'. m b = Inr (x, b') \<and> healthy b' \<and> wb_limits b' = wb_limits b \<and> wb_work b' \<le> wb_work b + n))"

lemma withinD:
  assumes "within m n" "healthy b" "wb_work b + n \<le> maximumMatchWork (wb_limits b)"
  obtains x b' where "m b = Inr (x, b')" "healthy b'" "wb_limits b' = wb_limits b" "wb_work b' \<le> wb_work b + n"
  using assms unfolding within_def by blast

lemma within_return [intro, simp]: "within (returnB v) n"
  by (auto simp: within_def returnB_def)

lemma within_bind:
  assumes "within m n" "\<And>x. within (f x) k"
  shows "within (bindB m f) (n + k)"
  unfolding within_def
proof (intro allI impI)
  fix b assume b: "healthy b" "wb_work b + (n + k) \<le> maximumMatchWork (wb_limits b)"
  then have "wb_work b + n \<le> maximumMatchWork (wb_limits b)" by simp
  with assms(1) b(1) obtain x b1 where 1: "m b = Inr (x, b1)" "healthy b1" "wb_limits b1 = wb_limits b"
    "wb_work b1 \<le> wb_work b + n" by (rule withinD)
  moreover from 1 b have "wb_work b1 + k \<le> maximumMatchWork (wb_limits b1)" by simp
  ultimately obtain y b2 where "f x b1 = Inr (y, b2)" "healthy b2" "wb_limits b2 = wb_limits b1"
    "wb_work b2 \<le> wb_work b1 + k" using withinD [OF assms(2)] by metis
  with 1 show "\<exists>x b'. bindB m f b = Inr (x, b') \<and> healthy b' \<and> wb_limits b' = wb_limits b \<and>
      wb_work b' \<le> wb_work b + (n + k)"
    by (auto simp: bindB_def)
qed

lemma within_mono: "within m n \<Longrightarrow> n \<le> k \<Longrightarrow> within m k"
  unfolding within_def by (meson add_left_mono le_trans)

lemma within_bind_le: "within m n \<Longrightarrow> (\<And>x. within (f x) k) \<Longrightarrow> n + k \<le> t \<Longrightarrow> within (bindB m f) t"
  by (rule within_mono [OF within_bind])

lemma checkpoint_healthy:
  assumes "healthy b"
  obtains b' where "checkpoint b = Inr ((), b')" "healthy b'" "wb_limits b' = wb_limits b" "wb_work b' = wb_work b"
proof -
  from assms obtain now where "wb_signal b (wb_signalReads b) = Some False" "wb_clock b (wb_clockReads b) = Some now"
    "now - wb_startedAt b \<le> int (maximumDurationMs (wb_limits b))" unfolding healthy_def by blast
  then have "\<exists>b'. checkpoint b = Inr ((), b') \<and> healthy b' \<and> wb_limits b' = wb_limits b \<and> wb_work b' = wb_work b"
    using assms by (auto simp: checkpoint_def readClock_def healthy_def max_def)
  with that show thesis by blast
qed

lemma within_checkpoint [intro]: "within checkpoint 0"
  unfolding within_def by (metis add_0_right checkpoint_healthy order_refl)

lemma within_consume [intro]: "within (consume n) n"
  unfolding within_def
proof (intro allI impI)
  fix b assume b: "healthy b" "wb_work b + n \<le> maximumMatchWork (wb_limits b)"
  let ?b = "b\<lparr>wb_work := wb_work b + n\<rparr>"
  have h: "healthy ?b" using b(1) by (simp add: healthy_def)
  have "\<not> 9007199254740991 < wb_work b + n" using b by (simp add: healthy_def)
  then have step: "consume n b = (if 1024 \<le> wb_work b + n - wb_lastCheckpointWork b then checkpoint ?b else Inr ((), ?b))"
    using b(2) by (auto simp: consume_def Let_def)
  from h obtain b' where "checkpoint ?b = Inr ((), b')" "healthy b'" "wb_limits b' = wb_limits ?b" "wb_work b' = wb_work ?b"
    by (rule checkpoint_healthy)
  then show "\<exists>x b'. consume n b = Inr (x, b') \<and> healthy b' \<and> wb_limits b' = wb_limits b \<and> wb_work b' \<le> wb_work b + n"
    using h unfolding step by auto
qed

lemma newBudget_healthy:
  assumes "\<forall>k. signal k = Some False" "\<forall>k. \<exists>now. clock k = Some now \<and> now - the (clock 0) \<le> int (maximumDurationMs limits)"
    "maximumMatchWork limits \<le> 9007199254740991"
  obtains b where "newBudget limits signal clock = Inr b" "healthy b" "wb_limits b = limits" "wb_work b = 0"
proof -
  from assms(2) obtain now where now: "clock 0 = Some now" by blast
  let ?b = "\<lparr>wb_clock = clock, wb_signal = signal, wb_limits = limits, wb_startedAt = now, wb_lastNow = now,
             wb_lastCheckpointWork = 0, wb_work = 0, wb_clockReads = 1, wb_signalReads = 0\<rparr>"
  have "healthy ?b" using assms now by (simp add: healthy_def)
  then obtain b' where "checkpoint ?b = Inr ((), b')" "healthy b'" "wb_limits b' = wb_limits ?b" "wb_work b' = wb_work ?b"
    by (rule checkpoint_healthy)
  with now show thesis by (intro that [of b']) (simp_all add: newBudget_def readClock_def)
qed

subsection \<open>The work of matching\<close>

definition tokenWork :: "CharacterToken list \<Rightarrow> jstring \<Rightarrow> nat" where
  "tokenWork tokens value = length tokens * length (scalars value)"

fun partWork :: "PatternComponent \<Rightarrow> jstring \<Rightarrow> nat" where
  "partWork Globstar part = 1"
| "partWork (Component tokens) part = 1 + tokenWork tokens part"

definition patternWork :: "CompiledPattern \<Rightarrow> jstring \<Rightarrow> nat" where
  "patternWork cpat value =
     max 1 (length value) +
     (if hasSlash cpat
      then (\<Sum>c\<leftarrow>componentsOf cpat. \<Sum>part\<leftarrow>split_on SLASH value. partWork c part)
      else (case componentsOf cpat of
              Component tokens # _ \<Rightarrow> tokenWork tokens (last (split_on SLASH value))
            | _ \<Rightarrow> 0))"

definition ruleWork :: "jstring \<Rightarrow> bool \<Rightarrow> InternalRule \<Rightarrow> nat" where
  "ruleWork path directory r =
     1 + (if directoryOnly (ruleOf r) \<and> \<not> directory then 0
          else (case (compiledOf r, relativeToBase path (basePath (ruleOf r))) of
                  (Some cpat, Some relative) \<Rightarrow> patternWork cpat relative
                | _ \<Rightarrow> 0))"

definition rulesWork :: "InternalRule list \<Rightarrow> jstring \<Rightarrow> bool \<Rightarrow> nat" where
  "rulesWork rules path directory = (\<Sum>r\<leftarrow>rules. ruleWork path directory r)"

definition directoryWork :: "InternalRule list \<Rightarrow> jstring \<Rightarrow> nat" where
  "directoryWork rules directory = max 1 (length directory) + rulesWork rules directory True"

definition pathWork :: "InternalRule list \<Rightarrow> jstring \<Rightarrow> nat" where
  "pathWork rules path =
     (\<Sum>depth\<leftarrow>[1..<length (split_on SLASH path)].
        directoryWork rules (join_with SLASH (take depth (split_on SLASH path)))) +
     rulesWork rules path False"

definition pathsWork :: "InternalRule list \<Rightarrow> jstring list \<Rightarrow> nat" where
  "pathsWork rules paths = (\<Sum>path\<leftarrow>paths. 1 + pathWork rules path)"

lemma within_componentMatches [intro]: "within (componentMatches tokens value) (tokenWork tokens value)"
proof -
  have row: "within (componentRow t cs r nxt is) (length is)" for t cs r nxt "is"
  proof (induction "is" arbitrary: nxt)
    case (Cons i "is")
    show ?case by (auto intro!: within_bind_le [OF within_consume] Cons)
  qed simp
  have "within (componentRows ts cs r) (length ts * length cs)" for ts cs r
  proof (induction ts arbitrary: r)
    case (Cons t ts)
    show ?case by (auto intro!: within_bind_le [OF row] Cons simp del: upt_Suc)
  qed simp
  then show ?thesis
    unfolding componentMatches_def tokenWork_def by (intro within_bind_le) auto
qed

lemma within_patternRow:
  assumes "\<forall>i\<in>set is. 0 < i"
  shows "within (patternRow c parts r nxt is) (\<Sum>i\<leftarrow>is. partWork c (parts ! (i - 1)))"
  using assms
proof (induction "is" arbitrary: nxt)
  case (Cons i "is")
  have "within (patternCell c parts r left i) (partWork c (parts ! (i - 1)) - 1)" for left
    by (cases c) auto
  then have "within (bindB (patternCell c parts r (nxt ! (i - 1)) i) (\<lambda>cell. patternRow c parts r (nxt[i := cell]) is))
      (partWork c (parts ! (i - 1)) - 1 + (\<Sum>i\<leftarrow>is. partWork c (parts ! (i - 1))))"
    using Cons by (intro within_bind) auto
  moreover have "1 \<le> partWork c (parts ! (i - 1))" by (cases c) auto
  ultimately show ?case by (auto intro!: within_bind_le [OF within_consume])
qed simp

lemma map_nth_pred: "map (\<lambda>i. f (xs ! (i - 1))) [1..<Suc (length xs)] = map f xs"
  by (rule nth_equalityI) (simp_all del: upt_Suc)

lemma within_patternRows: "within (patternRows cs parts r) (\<Sum>c\<leftarrow>cs. \<Sum>part\<leftarrow>parts. partWork c part)"
proof (induction cs arbitrary: r)
  case (Cons c cs)
  have "within (patternRow c parts r nxt [1..<Suc (length parts)]) (\<Sum>part\<leftarrow>parts. partWork c part)" for nxt
    using within_patternRow [of "[1..<Suc (length parts)]" c parts r nxt]
    by (simp only: map_nth_pred) (simp del: upt_Suc)
  then show ?case by (auto intro!: within_bind Cons simp del: upt_Suc)
qed simp

lemma within_compiledMatches [intro]: "within (compiledMatches cpat value) (patternWork cpat value)"
  unfolding compiledMatches_def patternWork_def
  by (rule within_bind [OF within_consume])
    (auto simp: Let_def simp del: patternRows.simps sum_list.Cons list.map split: list.splits PatternComponent.splits
      intro!: within_bind_le [OF within_patternRows])

lemma within_ruleMatches: "within (ruleMatches r path directory) (ruleWork path directory r - 1)"
  by (auto simp: ruleMatches_def ruleWork_def split: option.splits)

lemma within_matchingRule [intro]: "within (matchingRule path directory rules) (rulesWork rules path directory)"
proof -
  have "within (matchingRuleLoop path directory rules selected) (rulesWork rules path directory)" for selected
  proof (induction rules arbitrary: selected)
    case (Cons r rules)
    have "within (bindB (ruleMatches r path directory) (\<lambda>matched.
        matchingRuleLoop path directory rules (if matched \<and> overrides r selected then Some r else selected)))
      (ruleWork path directory r - 1 + rulesWork rules path directory)"
      by (intro within_bind within_ruleMatches Cons)
    then show ?case
      by (auto intro!: within_bind_le [OF within_consume] simp: rulesWork_def ruleWork_def)
  qed simp
  then show ?thesis by (simp add: matchingRule_def)
qed

lemma within_excludedDirectory:
  "within (excludedDirectory parts rules depths)
     (\<Sum>depth\<leftarrow>depths. directoryWork rules (join_with SLASH (take depth parts)))"
proof (induction depths)
  case (Cons depth depths)
  let ?dir = "join_with SLASH (take depth parts)"
  let ?rest = "\<Sum>depth\<leftarrow>depths. directoryWork rules (join_with SLASH (take depth parts))"
  have "within (bindB (matchingRule ?dir True rules) (\<lambda>found.
      case found of
        Some r \<Rightarrow> if \<not> negative (ruleOf r) then returnB (Some r) else excludedDirectory parts rules depths
      | None \<Rightarrow> excludedDirectory parts rules depths)) (rulesWork rules ?dir True + ?rest)"
    using Cons by (intro within_bind within_matchingRule) (auto split: option.split)
  from within_bind [OF within_consume this, of "max 1 (length ?dir)"] show ?case
    by (simp add: Let_def directoryWork_def add.assoc)
qed simp

lemma within_excludedBy: "within (excludedBy path True rules) (pathWork rules path)"
proof -
  have "split_on SLASH path \<noteq> []" by simp
  then have "Suc (length (split_on SLASH path) - 1) = length (split_on SLASH path)" by (cases "split_on SLASH path") auto
  then show ?thesis
    unfolding excludedBy_def pathWork_def Let_def
    by (auto simp del: upt_Suc split: option.split
        intro!: within_bind [OF within_excludedDirectory] within_bind_le [OF within_matchingRule])
qed

lemma within_decidePaths: "within (decidePaths fallback rules paths) (pathsWork rules paths)"
proof (induction paths)
  case (Cons p paths)
  have step: "within (bindB (excludedBy p True rules) (\<lambda>found. bindB (decidePaths fallback rules paths) (k found)))
      (pathWork rules p + pathsWork rules paths)" if "\<And>found x. within (k found x) 0" for k
    by (intro within_bind within_excludedBy within_bind_le [OF Cons that]) simp
  have "pathsWork rules (p # paths) = 1 + (pathWork rules p + pathsWork rules paths)" by (simp add: pathsWork_def)
  then show ?case
    unfolding decidePaths.simps
    by (simp only:) (intro within_bind within_consume step, auto split: option.split)
qed simp

subsection \<open>Supplied rules\<close>

lemma compileComponents_slash:
  "compileComponents slash raw \<noteq> None \<longleftrightarrow> list_all (\<lambda>c. compileComponent c \<noteq> None) raw"
proof (induction raw)
  case (Cons c raw)
  have "compileComponent [STAR, STAR] \<noteq> None" by (simp add: compileComponent_def is_high_def)
  with Cons show ?case by (auto split: option.splits)
qed simp

lemma compilePattern_slash: "compilePattern value a \<noteq> None \<longleftrightarrow> compilePattern value b \<noteq> None"
  using compileComponents_slash [of a] compileComponents_slash [of b]
  by (auto simp: compilePattern_def split: option.splits)

lemma makeRule_supplied:
  assumes "safePatternText value limits \<longrightarrow> validSuppliedPattern value limits"
    "makeRule value src base sq limits = Inr made"
  shows "\<exists>r. made = Some r \<and> ruleValid (ruleOf r) \<and> compiledOf r \<noteq> None"
proof -
  let ?v = "dropFirst SLASH (dropLast SLASH (normalizeEscapedSeparators (dropFirst BANG (stripTrailingSpaces value))))"
  from assms(2) have "safePatternText value limits" by (auto simp: makeRule_def split: if_splits)
  with assms(1) have v: "safePatternText value limits" "stripTrailingSpaces value \<noteq> []"
    "\<not> startsWith (stripTrailingSpaces value) [HASH]" "?v \<noteq> []"
    "compilePattern ?v (includesStr ?v [SLASH]) \<noteq> None"
    by (auto simp: validSuppliedPattern_def Let_def split: if_splits)
  then have "compilePattern ?v slash \<noteq> None" for slash
    using compilePattern_slash by metis
  with v assms(2) show ?thesis by (auto simp: makeRule_def Let_def)
qed

definition allCompiled :: "RuleTable \<Rightarrow> bool" where
  "allCompiled table \<longleftrightarrow> (\<forall>r\<in>set (rt_rules table). ruleValid (ruleOf r) \<and> compiledOf r \<noteq> None)"

lemma addRule_supplied:
  assumes "addRule limits raw src base countBytes t = Inr t'"
    "safePatternText raw limits \<longrightarrow> validSuppliedPattern raw limits" "allCompiled t"
  shows "allCompiled t' \<and> rt_problems t' = rt_problems t \<and> rt_omitted t' = rt_omitted t"
proof -
  from assms(1) obtain t1 where first: "(if countBytes then consumePatternBytes limits (textBytes raw) t else Inr t) = Inr t1"
    and rest: "addRule limits raw src base False t1 = Inr t'"
    by (auto simp: addRule_def bindR_Inr_iff)
  from first have t1: "rt_rules t1 = rt_rules t" "rt_problems t1 = rt_problems t" "rt_omitted t1 = rt_omitted t"
    by (auto simp: consumePatternBytes_def Let_def split: if_splits)
  from rest obtain made where made: "makeRule raw src base (rt_sequence t1 + 1) limits = Inr made"
    and t': "(case made of
            None \<Rightarrow> Inr t1
          | Some r \<Rightarrow>
              if maximumPatterns limits \<le> length (rt_rules t1) then Inl (EngineError limitExceeded)
              else let table2 = t1\<lparr>rt_sequence := rt_sequence t1 + 1, rt_rules := rt_rules t1 @ [r]\<rparr>
                   in Inr (if ruleValid (ruleOf r) then table2
                           else recordProblem limits
                                  (frozenProblem (js ''INVALID_PATTERN_NEVER_MATCHES'') (src_path src) (src_line src))
                                  table2)) = Inr t'"
    unfolding addRule_def bindR_Inr_iff Let_def by auto
  from makeRule_supplied [OF assms(2) made] obtain r where "made = Some r" "ruleValid (ruleOf r)" "compiledOf r \<noteq> None"
    by blast
  with t' t1 assms(3) show ?thesis by (auto simp: allCompiled_def Let_def split: if_splits)
qed

lemma addPatterns_supplied:
  "addPatterns limits kind line ps t = Inr t' \<Longrightarrow> 
   list_all (\<lambda>p. safePatternText p limits \<longrightarrow> validSuppliedPattern p limits) ps \<Longrightarrow> allCompiled t \<Longrightarrow>
   allCompiled t' \<and> rt_problems t' = rt_problems t \<and> rt_omitted t' = rt_omitted t"
proof (induction ps arbitrary: line t)
  case (Cons p ps)
  then obtain t1 where "addRule limits p (plainSource kind (Some line)) REPOSITORY_ROOT True t = Inr t1"
    "addPatterns limits kind (line + 1) ps t1 = Inr t'" by (auto simp: bindR_Inr_iff)
  with Cons show ?case using addRule_supplied by (metis list.pred_inject(2))
qed simp

lemma addFacts_supplied:
  "addFacts limits facts t = Inr t' \<Longrightarrow> list_all (\<lambda>f. validSuppliedPattern (pf_pattern f) limits) facts \<Longrightarrow> allCompiled t \<Longrightarrow>
   allCompiled t' \<and> rt_problems t' = rt_problems t \<and> rt_omitted t' = rt_omitted t"
proof (induction facts arbitrary: t)
  case (Cons f facts)
  show ?case
  proof (cases "pf_applicability f = FactKnownActive")
    case True
    with Cons.prems(1) obtain t1 src where "addRule limits (pf_pattern f) src REPOSITORY_ROOT True t = Inr t1"
      "addFacts limits facts t1 = Inr t'" by (auto simp: bindR_Inr_iff)
    with Cons show ?thesis using addRule_supplied by (metis list.pred_inject(2))
  next
    case False
    with Cons show ?thesis by simp
  qed
qed simp

lemma checkFacts_patterns: "checkFacts limits facts ids \<Longrightarrow> list_all (\<lambda>f. validSuppliedPattern (pf_pattern f) limits) facts"
  by (induction facts arbitrary: ids) auto

lemma snapshotOptions_patterns:
  assumes "snapshotOptions parseUrl options = Inr snapshot"
  shows "list_all (\<lambda>p. validSuppliedPattern p (os_limits snapshot)) (os_configurationPatterns snapshot)"
    "list_all (\<lambda>f. validSuppliedPattern (pf_pattern f) (os_limits snapshot)) (os_profileFacts snapshot)"
  using assms checkFacts_patterns
  by (auto simp: snapshotOptions_def bindR_Inr_iff checkR_Inr_iff validConfigurationPattern_def Let_def list_all_iff
      split: option.splits)

text \<open>A directory pattern of plain characters passes the check of supplied patterns.\<close>

definition plainDirectory :: "jstring \<Rightarrow> bool" where
  "plainDirectory n \<longleftrightarrow>
     n \<noteq> [] \<and> list_all (\<lambda>u. plainUnit u \<or> u = SLASH) n \<and> hd n \<notin> {HASH, BANG, SLASH} \<and>
     (case patternComponents n of None \<Rightarrow> False | Some ps \<Rightarrow> list_all (list_all plainUnit) ps)"

lemma compileComponents_plain: "list_all (list_all plainUnit) ps \<Longrightarrow> compileComponents slash ps \<noteq> None"
  unfolding compileComponents_slash
  by (induction ps) (auto simp: compileComponent_def compileTokens_plain scalars_plain)

lemma validSuppliedPattern_plain:
  assumes "plainDirectory n" "safePatternText (n @ [SLASH]) limits"
  shows "validSuppliedPattern (n @ [SLASH]) limits"
proof -
  from assms(1) have n: "n \<noteq> []" "list_all (\<lambda>u. plainUnit u \<or> u = SLASH) n" "hd n \<noteq> HASH" "hd n \<noteq> BANG" "hd n \<noteq> SLASH"
    by (auto simp: plainDirectory_def)
  have strip: "stripTrailingSpaces (n @ [SLASH]) = n @ [SLASH]" by (simp add: stripTrailingSpaces.simps)
  have first: "\<not> startsWith (n @ [SLASH]) [HASH]" "dropFirst BANG (n @ [SLASH]) = n @ [SLASH]" "dropFirst SLASH n = n"
    "dropLast SLASH (n @ [SLASH]) = n"
    using n by (cases n; simp add: dropFirst_def dropLast_def)+
  have norm: "normalizeEscapedSeparators (n @ [SLASH]) = n @ [SLASH]"
    using n(2) by (induction n) (auto simp: plainUnit_def)
  have "compilePattern n slash \<noteq> None" for slash
    using assms(1) compileComponents_plain by (auto simp: plainDirectory_def compilePattern_def split: option.splits)
  then show ?thesis
    using n(1) assms(2) by (auto simp: validSuppliedPattern_def Let_def strip first norm)
qed

lemma builtIn_plain: "list_all (\<lambda>p. plainDirectory (butlast p) \<and> p = butlast p @ [SLASH]) BUILT_IN_IGNORE_PATTERNS"
  by (simp add: BUILT_IN_IGNORE_PATTERNS_def js_def plainDirectory_def patternComponents_def plainUnit_def)

lemma builtIn_supplied:
  "list_all (\<lambda>p. safePatternText p limits \<longrightarrow> validSuppliedPattern p limits) BUILT_IN_IGNORE_PATTERNS"
  using builtIn_plain validSuppliedPattern_plain unfolding list_all_iff by metis

text \<open>Adding safe patterns within the limits never throws.\<close>

lemma addRule_returns:
  assumes "safePatternText raw limits" "rt_patternBytes t + textBytes raw \<le> maximumPatternBytes limits"
    "length (rt_rules t) < maximumPatterns limits"
  shows "\<exists>t'. addRule limits raw src base True t = Inr t' \<and> rt_patternBytes t' = rt_patternBytes t + textBytes raw \<and>
    length (rt_rules t') \<le> Suc (length (rt_rules t))"
proof -
  let ?t = "t\<lparr>rt_patternBytes := rt_patternBytes t + textBytes raw\<rparr>"
  have "consumePatternBytes limits (textBytes raw) t = Inr ?t" using assms(2) by (simp add: consumePatternBytes_def)
  moreover have "\<exists>made. makeRule raw src base (rt_sequence t + 1) limits = Inr made"
    using assms(1) unfolding makeRule_def Let_def by auto
  then obtain made where "makeRule raw src base (rt_sequence t + 1) limits = Inr made" by blast
  ultimately show ?thesis
    using assms(3) by (cases made) (auto simp: addRule_def Let_def recordProblem_def)
qed

lemma addPatterns_returns:
  "list_all (\<lambda>p. safePatternText p limits) ps \<Longrightarrow>
   rt_patternBytes t + (\<Sum>p\<leftarrow>ps. textBytes p) \<le> maximumPatternBytes limits \<Longrightarrow>
   length (rt_rules t) + length ps \<le> maximumPatterns limits \<Longrightarrow> \<exists>t'. addPatterns limits kind line ps t = Inr t'"
proof (induction ps arbitrary: line t)
  case (Cons p ps)
  then obtain t1 where t1: "addRule limits p (plainSource kind (Some line)) REPOSITORY_ROOT True t = Inr t1"
    "rt_patternBytes t1 = rt_patternBytes t + textBytes p" "length (rt_rules t1) \<le> Suc (length (rt_rules t))"
    using addRule_returns [of p limits t] by fastforce
  with Cons.IH [of t1 "line + 1"] Cons.prems show ?case by simp
qed simp

lemma snapshotLimits_hard:
  assumes "snapshotLimits given = Inr limits"
  shows "maximumMatchWork limits \<le> maximumMatchWork IGNORE_ENGINE_HARD_LIMITS"
proof -
  have "n \<le> hard" if "overrideLimit given key hard standard = Inr n" "standard \<le> hard" for key hard standard n
    using that by (auto simp: overrideLimit_def split: option.splits if_splits)
  moreover from assms obtain matchWork where "maximumMatchWork limits = matchWork"
    "overrideLimit given (js ''maximumMatchWork'') (maximumMatchWork IGNORE_ENGINE_HARD_LIMITS)
       (maximumMatchWork IGNORE_ENGINE_DEFAULT_LIMITS) = Inr matchWork"
    unfolding snapshotLimits_def Let_def bindR_Inr_iff by force
  ultimately show ?thesis
    by (simp add: IGNORE_ENGINE_HARD_LIMITS_def IGNORE_ENGINE_DEFAULT_LIMITS_def)
qed

lemma snapshotOptions_work:
  assumes "snapshotOptions parseUrl options = Inr snapshot"
  shows "maximumMatchWork (os_limits snapshot) \<le> 9007199254740991"
proof -
  have "os_limits snapshot = IGNORE_ENGINE_DEFAULT_LIMITS \<or> (\<exists>given. snapshotLimits given = Inr (os_limits snapshot))"
    using assms by (auto simp: snapshotOptions_def bindR_Inr_iff checkR_Inr_iff Let_def split: option.splits)
  then show ?thesis
  proof
    assume "\<exists>given. snapshotLimits given = Inr (os_limits snapshot)"
    then have "maximumMatchWork (os_limits snapshot) \<le> 200000000"
      using snapshotLimits_hard by (auto simp: IGNORE_ENGINE_HARD_LIMITS_def)
    then show ?thesis by simp
  qed (simp add: IGNORE_ENGINE_DEFAULT_LIMITS_def)
qed

text \<open>A run on the files of an index, from the outcomes of its parts.\<close>

lemma indexed_run:
  assumes "snapshotOptions parseUrl options = Inr snapshot"
    and "snapshotEnumeration enumeration (os_limits snapshot) = Inr input" "\<not> es_fallback input"
    and "suppliedRules snapshot input = Inr table"
    and "pathsWork (rt_rules table) (es_paths input) \<le> maximumMatchWork (os_limits snapshot)"
    and "\<forall>k. signal k = Some False"
    and "\<forall>k. \<exists>now. clock k = Some now \<and> now - the (clock 0) \<le> int (maximumDurationMs (os_limits snapshot))"
  shows "\<exists>res. applyIgnoreRulesWithClock parseUrl collate inspect readFile enumeration options signal clock = Inr res \<and>
    ir_paths res = filter (\<lambda>p. excludingRule p True (rt_rules table) = None) (es_paths input)"
proof -
  from assms(6,7) snapshotOptions_work [OF assms(1)] obtain b where
    b: "newBudget (os_limits snapshot) signal clock = Inr b" "healthy b" "wb_limits b = os_limits snapshot" "wb_work b = 0"
    by (rule newBudget_healthy)
  let ?k = "\<lambda>(included, ignored). bindB checkpoint (\<lambda>_. returnB (table, included, ignored))"
  have "within (bindB (decidePaths (es_fallback input) (rt_rules table) (es_paths input)) ?k)
      (pathsWork (rt_rules table) (es_paths input) + 0)"
    by (intro within_bind within_decidePaths) (auto intro!: within_bind_le [OF within_checkpoint])
  moreover have "wb_work b + (pathsWork (rt_rules table) (es_paths input) + 0) \<le> maximumMatchWork (wb_limits b)"
    using b assms(5) by simp
  ultimately obtain x b' where
    run: "bindB (decidePaths (es_fallback input) (rt_rules table) (es_paths input)) ?k b = Inr (x, b')"
    using b(2) unfolding within_def by blast
  then obtain d ignored b1 where
    d: "decidePaths (es_fallback input) (rt_rules table) (es_paths input) b = Inr ((d, ignored), b1)" and x: "x = (table, d, ignored)"
    by (auto simp: bindB_Inr returnB_def)
  from yieldsD [OF decidePaths_yields d] have d: "d = filter (\<lambda>p. excludingRule p True (rt_rules table) = None) (es_paths input)"
    by simp
  have "bindB (fallbackRules collate inspect readFile snapshot input table) (\<lambda>table2.
      bindB (decidePaths (es_fallback input) (rt_rules table2) (es_paths input)) (\<lambda>(included, ignored).
      bindB checkpoint (\<lambda>_. returnB (table2, included, ignored)))) b = Inr (x, b')"
    using assms(3) run by (simp add: fallbackRules_def bindB_def returnB_def)
  with assms(1,2,4) b(1) x d show ?thesis
    by (simp add: applyIgnoreRulesWithClock_def)
qed

subsection \<open>A run\<close>

text \<open>A run on an index with one file: default options, a clock that stands still and no cancellation.\<close>

definition sampleEnumeration :: TrackedFileEnumeration where
  "sampleEnumeration =
     \<lparr>en_source = GitIndexSource, en_certainty = TrackedCertainty, en_paths = [js ''a''],
      en_omittedProblems = 0, en_problems = []\<rparr>"

definition sampleSnapshot :: OptionsSnapshot where
  "sampleSnapshot = \<lparr>os_configurationPatterns = [], os_limits = IGNORE_ENGINE_DEFAULT_LIMITS, os_profileFacts = []\<rparr>"

definition sampleInput :: EnumerationSnapshot where
  "sampleInput = \<lparr>es_fallback = False, es_omittedProblems = 0, es_paths = [js ''a''], es_problems = []\<rparr>"

lemma sample_options: "snapshotOptions parseUrl None = Inr sampleSnapshot"
  by (simp add: snapshotOptions_def sampleSnapshot_def)

lemma sample_enumeration: "snapshotEnumeration sampleEnumeration (os_limits sampleSnapshot) = Inr sampleInput"
  by (simp add: snapshotEnumeration_def sampleEnumeration_def sampleSnapshot_def sampleInput_def js_def
      IGNORE_ENGINE_DEFAULT_LIMITS_def isCanonicalPosix_def path_eval textBytes_def utf8_ascii)

lemma builtIn_safe: "list_all (\<lambda>p. safePatternText p IGNORE_ENGINE_DEFAULT_LIMITS) BUILT_IN_IGNORE_PATTERNS"
  by (simp add: BUILT_IN_IGNORE_PATTERNS_def IGNORE_ENGINE_DEFAULT_LIMITS_def js_def safePatternText_def unsafeText_def
      unsafeUnit_def unit_class)

lemma builtIn_bytes: "(\<Sum>p\<leftarrow>BUILT_IN_IGNORE_PATTERNS. textBytes p) = 159"
  by (simp add: BUILT_IN_IGNORE_PATTERNS_def js_def textBytes_def utf8_ascii)

text \<open>Patterns that end in a slash give rules for directories only.\<close>

lemma makeRule_directoryOnly:
  assumes "makeRule (n @ [SLASH]) src base sq limits = Inr (Some r)"
  shows "directoryOnly (ruleOf r)"
proof -
  have strip: "stripTrailingSpaces (n @ [SLASH]) = n @ [SLASH]" by (simp add: stripTrailingSpaces.simps)
  have "normalizeEscapedSeparators (v @ [SLASH]) \<noteq> [] \<and> last (normalizeEscapedSeparators (v @ [SLASH])) = SLASH" for v
  proof (induction v rule: normalizeEscapedSeparators.induct)
    case (2 u us)
    then show ?case by (cases us) auto
  qed simp
  then have norm: "endsWith (normalizeEscapedSeparators (v @ [SLASH])) [SLASH]" for v
    unfolding endsWith_def by (metis append_butlast_last_id append_eq_conv_conj diff_add_inverse2 le_add2 length_append)
  have "dropFirst BANG (n @ [SLASH]) = n @ [SLASH] \<or> dropFirst BANG (n @ [SLASH]) = tl n @ [SLASH]"
    by (cases n) (auto simp: dropFirst_def)
  with assms norm show ?thesis by (auto simp: makeRule_def Let_def strip split: if_splits)
qed

lemma addPatterns_directoryOnly:
  "addPatterns limits kind line ps t = Inr t' \<Longrightarrow> list_all (\<lambda>p. p = butlast p @ [SLASH]) ps \<Longrightarrow>
   \<forall>r\<in>set (rt_rules t). directoryOnly (ruleOf r) \<Longrightarrow>
   (\<forall>r\<in>set (rt_rules t'). directoryOnly (ruleOf r)) \<and> length (rt_rules t') \<le> length (rt_rules t) + length ps"
proof (induction ps arbitrary: line t)
  case (Cons p ps)
  then obtain t1 where t1: "addRule limits p (plainSource kind (Some line)) REPOSITORY_ROOT True t = Inr t1"
    "addPatterns limits kind (line + 1) ps t1 = Inr t'" by (auto simp: bindR_Inr_iff)
  from t1(1) obtain sq made where made: "makeRule p (plainSource kind (Some line)) REPOSITORY_ROOT sq limits = Inr made"
    "rt_rules t1 = rt_rules t @ (case made of None \<Rightarrow> [] | Some r \<Rightarrow> [r])" by (rule addRule_Inr)
  have "p = butlast p @ [SLASH]" using Cons.prems(2) by (simp only: list.pred_inject)
  with made(1) have "\<forall>r. made = Some r \<longrightarrow> directoryOnly (ruleOf r)" using makeRule_directoryOnly by metis
  with made(2) Cons.prems(3) have "\<forall>r\<in>set (rt_rules t1). directoryOnly (ruleOf r)" by (auto split: option.splits)
  moreover have "length (rt_rules t1) \<le> Suc (length (rt_rules t))" using made(2) by (auto split: option.splits)
  moreover have "list_all (\<lambda>p. p = butlast p @ [SLASH]) ps" using Cons.prems(2) by (simp only: list.pred_inject)
  ultimately show ?case using Cons.IH [OF t1(2)] by auto
qed simp

lemma sample_rules:
  obtains table where "suppliedRules sampleSnapshot sampleInput = Inr table"
    "\<forall>r\<in>set (rt_rules table). directoryOnly (ruleOf r)" "length (rt_rules table) \<le> 21"
proof -
  let ?t = "initialTable IGNORE_ENGINE_DEFAULT_LIMITS sampleInput"
  have t: "rt_patternBytes ?t = 0" "rt_rules ?t = []" by (simp_all add: initialTable_def)
  have n: "length BUILT_IN_IGNORE_PATTERNS = 21" by (simp add: BUILT_IN_IGNORE_PATTERNS_def)
  have "\<exists>t. addPatterns IGNORE_ENGINE_DEFAULT_LIMITS BuiltInSource 1 BUILT_IN_IGNORE_PATTERNS ?t = Inr t"
    by (rule addPatterns_returns [OF builtIn_safe])
      (simp_all only: builtIn_bytes t n, simp_all add: IGNORE_ENGINE_DEFAULT_LIMITS_def)
  then obtain table where run: "addPatterns IGNORE_ENGINE_DEFAULT_LIMITS BuiltInSource 1 BUILT_IN_IGNORE_PATTERNS ?t = Inr table"
    by blast
  have "list_all (\<lambda>p. p = butlast p @ [SLASH]) BUILT_IN_IGNORE_PATTERNS"
    using builtIn_plain unfolding list_all_iff by blast
  from addPatterns_directoryOnly [OF run this] t n run show thesis
    by (intro that [of table]) (simp_all add: suppliedRules_def sampleSnapshot_def)
qed

lemma excludingRule_directoryOnly:
  assumes "\<forall>r\<in>set rules. directoryOnly (ruleOf r)"
  shows "excludingRule (js ''a'') True rules = None"
proof -
  have "selectRule (js ''a'') False rules = None"
    using assms selectRule_spec by (auto simp: ruleApplies_def split: option.splits)
  then show ?thesis by (simp add: excludingRule_def js_def positive_def)
qed

lemma sample_work:
  assumes "\<forall>r\<in>set rules. directoryOnly (ruleOf r)"
  shows "pathsWork rules [js ''a''] = 1 + length rules"
proof -
  have "rulesWork rules (js ''a'') False = length rules"
    using assms unfolding rulesWork_def by (induction rules) (simp_all add: ruleWork_def)
  then show ?thesis by (simp add: pathsWork_def pathWork_def js_def)
qed

lemma sample_run:
  obtains table res where "suppliedRules sampleSnapshot sampleInput = Inr table"
    "pathsWork (rt_rules table) (es_paths sampleInput) \<le> maximumMatchWork (os_limits sampleSnapshot)"
    "applyIgnoreRulesWithClock parseUrl collate inspect readFile sampleEnumeration None (\<lambda>_. Some False) (\<lambda>_. Some 0) = Inr res"
    "ir_paths res = [js ''a'']"
proof -
  obtain table where t: "suppliedRules sampleSnapshot sampleInput = Inr table"
    "\<forall>r\<in>set (rt_rules table). directoryOnly (ruleOf r)" "length (rt_rules table) \<le> 21" by (rule sample_rules)
  have fits: "pathsWork (rt_rules table) (es_paths sampleInput) \<le> maximumMatchWork (os_limits sampleSnapshot)"
    using t(3) sample_work [OF t(2)] by (simp add: sampleInput_def sampleSnapshot_def IGNORE_ENGINE_DEFAULT_LIMITS_def)
  have "\<not> es_fallback sampleInput" by (simp add: sampleInput_def)
  from indexed_run [OF sample_options sample_enumeration this t(1) fits, of "\<lambda>_. Some False" "\<lambda>_. Some 0"
      parseUrl collate inspect readFile]
  obtain res where "applyIgnoreRulesWithClock parseUrl collate inspect readFile sampleEnumeration None (\<lambda>_. Some False) (\<lambda>_. Some 0) = Inr res"
    "ir_paths res = filter (\<lambda>p. excludingRule p True (rt_rules table) = None) (es_paths sampleInput)" by auto
  with t fits excludingRule_directoryOnly [OF t(2)] show thesis by (intro that [of table res]) (simp_all add: sampleInput_def)
qed

subsection \<open>Properties\<close>

text \<open>
  C37. The engine answers: when options and enumeration are accepted, the files come from the index, the
  supplied rules are compiled, the run is never cancelled, no clock reading is past the deadline and the
  work of matching all paths against all rules fits the limit, \<open>applyIgnoreRulesWithClock\<close> returns a
  result, and its paths are those that no rule excludes.
\<close>
theorem applyIgnoreRules_returns:
  assumes "snapshotOptions parseUrl options = Inr snapshot"
    and "snapshotEnumeration enumeration (os_limits snapshot) = Inr input" "\<not> es_fallback input"
    and "suppliedRules snapshot input = Inr table"
    and "pathsWork (rt_rules table) (es_paths input) \<le> maximumMatchWork (os_limits snapshot)"
    and "\<forall>k. signal k = Some False"
    and "\<forall>k. \<exists>now. clock k = Some now \<and> now - the (clock 0) \<le> int (maximumDurationMs (os_limits snapshot))"
  shows "\<exists>res. applyIgnoreRulesWithClock parseUrl collate inspect readFile enumeration options signal clock = Inr res \<and>
    ir_paths res = filter (\<lambda>p. excludingRule p True (rt_rules table) = None) (es_paths input)"
  using assms by (rule indexed_run)

text \<open>
  Every pattern accepted from the caller becomes a rule that can match: after accepted options, all
  built-in, configuration and profile rules are compiled, and adding them reports no problem.
\<close>
theorem supplied_rules_compiled:
  assumes "snapshotOptions parseUrl options = Inr snapshot" "suppliedRules snapshot input = Inr table"
  shows "(\<forall>r\<in>set (rt_rules table). ruleValid (ruleOf r) \<and> compiledOf r \<noteq> None) \<and>
    rt_problems table = take (maximumProblems (os_limits snapshot)) (es_problems input)"
proof -
  let ?l = "os_limits snapshot"
  from assms(2) obtain t1 t2 where
    t: "addPatterns ?l BuiltInSource 1 BUILT_IN_IGNORE_PATTERNS (initialTable ?l input) = Inr t1"
    "addPatterns ?l ConfigurationSource 1 (os_configurationPatterns snapshot) t1 = Inr t2"
    "addFacts ?l (os_profileFacts snapshot) t2 = Inr table"
    by (auto simp: suppliedRules_def bindR_Inr_iff)
  have "allCompiled (initialTable ?l input)" by (simp add: allCompiled_def initialTable_def)
  from addPatterns_supplied [OF t(1) builtIn_supplied this]
  have 1: "allCompiled t1" "rt_problems t1 = rt_problems (initialTable ?l input)" by auto
  have "list_all (\<lambda>p. safePatternText p ?l \<longrightarrow> validSuppliedPattern p ?l) (os_configurationPatterns snapshot)"
    using snapshotOptions_patterns(1) [OF assms(1)] by (simp add: list_all_iff)
  from addPatterns_supplied [OF t(2) this 1(1)] 1 have 2: "allCompiled t2" "rt_problems t2 = rt_problems (initialTable ?l input)"
    by auto
  from addFacts_supplied [OF t(3) snapshotOptions_patterns(2) [OF assms(1)] 2(1)] 2 show ?thesis
    by (simp add: allCompiled_def initialTable_def)
qed

text \<open>
  C36. Nothing the user, a profile or a \<open>.gitignore\<close> file says can re-include the built-in exclusions:
  whenever the engine returns, no included path lies in a directory named like a built-in pattern
  (\<open>node_modules\<close>, \<open>.git\<close>, \<open>dist\<close> and so on), at any depth.
\<close>
theorem builtIn_never_included:
  assumes "applyIgnoreRulesWithClock parseUrl collate inspect readFile enumeration options signal clock = Inr res"
    "path \<in> set (ir_paths res)" "n \<in> set builtInNames"
  shows "n \<notin> set (butlast (split_on SLASH path))"
  using assms(1)
proof (rule applyIgnoreRules_Inr)
  fix snapshot input t1 t2
  assume "suppliedRules snapshot input = Inr t1" "appends (\<lambda>k. k < 4) t1 t2"
    and paths: "ir_paths res = filter (\<lambda>p. excludingRule p True (rt_rules t2) = None) (es_paths input)"
  then have "protects (rt_rules t2)" using suppliedRules_protects protects_appends by blast
  with paths assms(2,3) protected_excluded show ?thesis by fastforce
qed

text \<open>
  C40. The engine partitions its input: the included paths and the paths of the ignored decisions are
  the enumerated paths, split by one predicate and each in the given order.
\<close>
theorem applyIgnoreRules_partition:
  assumes "applyIgnoreRulesWithClock parseUrl collate inspect readFile enumeration options signal clock = Inr res"
  shows "\<exists>excluded. ir_paths res = filter (\<lambda>p. \<not> excluded p) (en_paths enumeration) \<and>
    map ig_path (ir_ignored res) = filter excluded (en_paths enumeration)"
  using assms
proof (rule applyIgnoreRules_Inr)
  fix snapshot input t1 t2
  assume input: "snapshotEnumeration enumeration (os_limits snapshot) = Inr input"
    and res: "ir_paths res = filter (\<lambda>p. excludingRule p True (rt_rules t2) = None) (es_paths input)"
    "ir_ignored res = map (decisionOf (es_fallback input) (rt_rules t2))
       (filter (\<lambda>p. excludingRule p True (rt_rules t2) \<noteq> None) (es_paths input))"
  have "es_paths input = en_paths enumeration"
    using input by (auto simp: snapshotEnumeration_def split: if_splits)
  moreover have "map ig_path (map (decisionOf f rules) ps) = ps" for f rules ps
    by (simp add: decisionOf_def Let_def comp_def)
  ultimately show ?thesis
    using res by (intro exI [of _ "\<lambda>p. excludingRule p True (rt_rules t2) \<noteq> None"]) simp
qed

text \<open>What the engine says of one slash pattern and one path, with the default limits.\<close>

definition globMatches :: "jstring \<Rightarrow> jstring \<Rightarrow> bool option" where
  "globMatches pattern path =
     (case compilePattern pattern True of
        None \<Rightarrow> None
      | Some cpat \<Rightarrow> (case compiledMatches cpat path budget0 of Inl _ \<Rightarrow> None | Inr (matched, _) \<Rightarrow> Some matched))"

text \<open>
  Reading an ignore file gives back the text that was written: the UTF-8 bytes of a well-formed text
  without byte order mark and unsafe characters decode to that text, and any other such text is refused.
\<close>
theorem decodeIgnoreFile_utf8:
  assumes "hasWellFormedUnicode s" "is_jstring s"
  shows "decodeIgnoreFile (utf8 s) =
    (if startsWith s [0xFEFF] \<or> unsafeText (withoutLineBreaks s) then Inl (EngineError malformedInput) else Inr s)"
  using decodeUtf8_utf8 [OF assms] by (simp add: decodeIgnoreFile_def)

text \<open>
  A pattern that ends in \<open>/**\<close> asks for as many path components as the pattern has, counting a
  \<open>**\<close> that stands for no directory: \<open>a/**/b/**\<close> and \<open>**/foo/**\<close> do not match \<open>a/b/x\<close> and \<open>foo/x\<close>,
  files below the named directory, while \<open>**/foo/**\<close> does match the entry \<open>x/y/foo\<close> itself, which has
  nothing below it.
\<close>
theorem trailing_globstar_counts_components:
  "globMatches (js ''a/**/b/**'') (js ''a/b/x'') = Some False \<and> globMatches (js ''**/foo/**'') (js ''foo/x'') = Some False \<and>
   globMatches (js ''**/foo/**'') (js ''x/y/foo'') = Some True"
  by (simp add: globMatches_def compilePattern_def patternComponents_def compileComponent_def run_simps)

theorem applyIgnoreRules_returns_witness:
  "\<exists>res. applyIgnoreRulesWithClock (\<lambda>_. None) (\<le>) (\<lambda>_. FacadeError False []) (\<lambda>_. FacadeError False [])
     sampleEnumeration None (\<lambda>_. Some False) (\<lambda>_. Some 0) = Inr res"
proof -
  obtain table where t: "suppliedRules sampleSnapshot sampleInput = Inr table"
    "pathsWork (rt_rules table) (es_paths sampleInput) \<le> maximumMatchWork (os_limits sampleSnapshot)" by (rule sample_run)
  have "\<not> es_fallback sampleInput" by (simp add: sampleInput_def)
  from applyIgnoreRules_returns [OF sample_options sample_enumeration this t, of "\<lambda>_. Some False" "\<lambda>_. Some 0"
      "\<lambda>_. None" "(\<le>)" "\<lambda>_. FacadeError False []" "\<lambda>_. FacadeError False []"]
  show ?thesis by auto
qed

theorem supplied_rules_compiled_witness:
  "\<exists>table. suppliedRules sampleSnapshot sampleInput = Inr table \<and> rt_problems table = []"
proof -
  obtain table where t: "suppliedRules sampleSnapshot sampleInput = Inr table" by (rule sample_run)
  from supplied_rules_compiled [OF sample_options t] t show ?thesis by (simp add: sampleInput_def)
qed

theorem builtIn_never_included_witness:
  "\<exists>res. applyIgnoreRulesWithClock (\<lambda>_. None) (\<le>) (\<lambda>_. FacadeError False []) (\<lambda>_. FacadeError False [])
     sampleEnumeration None (\<lambda>_. Some False) (\<lambda>_. Some 0) = Inr res \<and>
     js ''a'' \<in> set (ir_paths res) \<and> js ''.git'' \<notin> set (butlast (split_on SLASH (js ''a'')))"
proof -
  obtain res where r: "applyIgnoreRulesWithClock (\<lambda>_. None) (\<le>) (\<lambda>_. FacadeError False []) (\<lambda>_. FacadeError False [])
     sampleEnumeration None (\<lambda>_. Some False) (\<lambda>_. Some 0) = Inr res" "ir_paths res = [js ''a'']" by (rule sample_run)
  have "js ''.git'' \<in> set builtInNames" by (simp add: builtInNames_def BUILT_IN_IGNORE_PATTERNS_def js_def)
  with builtIn_never_included [OF r(1), of "js ''a''" "js ''.git''"] r show ?thesis by simp
qed

theorem applyIgnoreRules_partition_witness:
  "\<exists>res excluded. applyIgnoreRulesWithClock (\<lambda>_. None) (\<le>) (\<lambda>_. FacadeError False []) (\<lambda>_. FacadeError False [])
     sampleEnumeration None (\<lambda>_. Some False) (\<lambda>_. Some 0) = Inr res \<and>
     [js ''a''] = filter (\<lambda>p. \<not> excluded p) [js ''a'']"
proof -
  obtain res where r: "applyIgnoreRulesWithClock (\<lambda>_. None) (\<le>) (\<lambda>_. FacadeError False []) (\<lambda>_. FacadeError False [])
     sampleEnumeration None (\<lambda>_. Some False) (\<lambda>_. Some 0) = Inr res" "ir_paths res = [js ''a'']" by (rule sample_run)
  from applyIgnoreRules_partition [OF r(1)] r show ?thesis by (auto simp: sampleEnumeration_def)
qed

theorem decodeIgnoreFile_utf8_witness: "decodeIgnoreFile (utf8 (js ''*.log'')) = Inr (js ''*.log'')"
proof -
  have "hasWellFormedUnicode (js ''*.log'')" "is_jstring (js ''*.log'')" by (simp_all add: js_def is_jstring_def unit_class)
  from decodeIgnoreFile_utf8 [OF this] show ?thesis
    by (simp add: js_def unsafeText_def unsafeUnit_def withoutLineBreaks_def)
qed

end
