(* ===== verification/Command_Lexer.thy ===== *)
theory Command_Lexer
  imports Repository_Path
begin

text \<open>
  The command lexer (\<open>packages/evidence/src/command-lexer.ts\<close>): the validation of input and limits, the
  scanner for the three shell dialects, the inference of the dialect and the grouping of tokens into
  invocations.

  Text is a list of UTF-16 code units and positions are indices into it, as in the source. The checks on
  untyped values (plain objects, own data properties, no proxies) have no counterpart, because the input
  is a typed record; numbers are integers. \<open>toLowerCase\<close> is a parameter.
\<close>

subsection \<open>Text access\<close>

text \<open>\<open>text.startsWith(pattern, index)\<close>.\<close>

definition startsAt :: "jstring \<Rightarrow> jstring \<Rightarrow> nat \<Rightarrow> bool" where
  "startsAt s pattern index \<longleftrightarrow> startsWith (drop index s) pattern"

subsection \<open>Data\<close>

datatype ResolvedCommandDialect = PosixShell | WindowsCmd | WindowsPowershell

datatype CommandDialect = AutoDialect | Resolved ResolvedCommandDialect

datatype CommandPartKind =
    BacktickSubstitution
  | CommandSubstitution
  | DoubleQuoted
  | EscapePart
  | LiteralPart
  | SingleQuoted
  | VariableExpansion

datatype CommandTokenKind = EnvironmentAssignment | OperatorToken | RedirectionToken | WordToken

record CommandPosition =
  pos_byteOffset :: int
  pos_line :: int
  pos_utf16Column :: int
  pos_utf16Offset :: int

record ConfigurationSourceLocation =
  loc_path :: jstring
  loc_start :: CommandPosition
  loc_end :: CommandPosition

datatype CommandSourceKind = CallerKind | ConfigurationKind | EvidenceFactKind

record CommandEvidenceProvenance =
  pv_collectorId :: jstring
  pv_factId :: "jstring option"
  pv_source :: ConfigurationSourceLocation
  pv_sourceKind :: CommandSourceKind

record CommandLexerInput =
  in_dialect :: CommandDialect
  in_provenance :: CommandEvidenceProvenance
  in_text :: jstring

datatype CommandLimitName =
    maximumInputLength
  | maximumInvocations
  | maximumIssues
  | maximumNesting
  | maximumParts
  | maximumTokens

type_synonym CommandLexerLimits = "CommandLimitName \<Rightarrow> nat"

fun COMMAND_LEXER_DEFAULT_LIMITS :: CommandLexerLimits where
  "COMMAND_LEXER_DEFAULT_LIMITS maximumInputLength = 65536"
| "COMMAND_LEXER_DEFAULT_LIMITS maximumInvocations = 4096"
| "COMMAND_LEXER_DEFAULT_LIMITS maximumIssues = 1024"
| "COMMAND_LEXER_DEFAULT_LIMITS maximumNesting = 64"
| "COMMAND_LEXER_DEFAULT_LIMITS maximumParts = 32768"
| "COMMAND_LEXER_DEFAULT_LIMITS maximumTokens = 16384"

fun COMMAND_LEXER_HARD_LIMITS :: CommandLexerLimits where
  "COMMAND_LEXER_HARD_LIMITS maximumInputLength = 1048576"
| "COMMAND_LEXER_HARD_LIMITS maximumInvocations = 65536"
| "COMMAND_LEXER_HARD_LIMITS maximumIssues = 16384"
| "COMMAND_LEXER_HARD_LIMITS maximumNesting = 256"
| "COMMAND_LEXER_HARD_LIMITS maximumParts = 524288"
| "COMMAND_LEXER_HARD_LIMITS maximumTokens = 262144"

record CommandWordPart =
  part_end :: nat
  part_kind :: CommandPartKind
  part_raw :: jstring
  part_start :: nat
  part_value :: "jstring option"

record CommandToken =
  tok_end :: nat
  tok_kind :: CommandTokenKind
  tok_parts :: "CommandWordPart list"
  tok_raw :: jstring
  tok_start :: nat
  tok_value :: "jstring option"

record CommandRedirectionEvidence =
  red_end :: nat
  red_operator :: jstring
  red_raw :: jstring
  red_start :: nat
  red_target :: "jstring option"

datatype InvocationState = DynamicInvocation | EmptyInvocation | LiteralInvocation | MalformedInvocation

record CommandInvocationEvidence =
  inv_arguments :: "jstring option list"
  inv_end :: nat
  inv_environment :: "(jstring \<times> jstring option) list"
  inv_executable :: "jstring option"
  inv_redirections :: "CommandRedirectionEvidence list"
  inv_start :: nat
  inv_state :: InvocationState

datatype CommandIssueCode = AmbiguousDialect | MalformedSyntax

record CommandLexerIssue =
  iss_code :: CommandIssueCode
  iss_end :: nat
  iss_message :: jstring
  iss_start :: nat

datatype CommandLexerErrorCode =
    LexInvalidInput
  | LexInvalidOptions CommandLimitName
  | LexLimitExceeded CommandLimitName

record ScanState =
  st_issues :: "CommandLexerIssue list"
  st_limits :: CommandLexerLimits
  st_text :: jstring
  st_tokens :: "CommandToken list"
  st_partCount :: nat

subsection \<open>Validation\<close>

definition is_alnum :: "nat \<Rightarrow> bool" where
  "is_alnum u \<longleftrightarrow> is_ascii_letter u \<or> is_ascii_digit u"

definition is_identifier_separator :: "nat \<Rightarrow> bool" where
  "is_identifier_separator u \<longleftrightarrow> u = DOT \<or> u = 95 \<or> u = COLON \<or> u = SLASH \<or> u = 45"

text \<open>\<open>IDENTIFIER\<close>: runs of letters and digits with single separators between them.\<close>

fun identifierRest :: "jstring \<Rightarrow> bool" where
  "identifierRest [] = True"
| "identifierRest (u # us) =
     (if is_alnum u then identifierRest us
      else is_identifier_separator u \<and> us \<noteq> [] \<and> is_alnum (hd us) \<and> identifierRest us)"

definition boundedIdentifier :: "jstring \<Rightarrow> CommandLexerErrorCode + jstring" where
  "boundedIdentifier value =
     (if value = [] \<or> 512 < length value \<or> \<not> (is_alnum (hd value) \<and> identifierRest value) then Inl LexInvalidInput
      else Inr value)"

definition natural :: "int \<Rightarrow> bool" where
  "natural value \<longleftrightarrow> 0 \<le> value \<and> value \<le> 9007199254740991"

definition validatePosition :: "CommandPosition \<Rightarrow> bool" where
  "validatePosition p \<longleftrightarrow>
     natural (pos_byteOffset p) \<and> natural (pos_line p) \<and> natural (pos_utf16Column p) \<and> natural (pos_utf16Offset p)"

definition validateLocation :: "ConfigurationSourceLocation \<Rightarrow> CommandLexerErrorCode + ConfigurationSourceLocation" where
  "validateLocation item =
     (case canonicalizeRepositoryRelativePath (loc_path item) Posix of
        Inl _ \<Rightarrow> Inl LexInvalidInput
      | Inr path \<Rightarrow>
          if \<not> validatePosition (loc_start item) \<or> \<not> validatePosition (loc_end item) then Inl LexInvalidInput
          else if pos_byteOffset (loc_end item) < pos_byteOffset (loc_start item) \<or>
                  pos_utf16Offset (loc_end item) < pos_utf16Offset (loc_start item) then Inl LexInvalidInput
          else Inr (item\<lparr>loc_path := path\<rparr>))"

definition validateInput :: "CommandLexerInput \<Rightarrow> CommandLexerErrorCode + CommandLexerInput" where
  "validateInput input =
     (let provenance = in_provenance input in
      bindR (boundedIdentifier (pv_collectorId provenance)) (\<lambda>collectorId.
      bindR (case pv_factId provenance of
               None \<Rightarrow> Inr None
             | Some value \<Rightarrow> bindR (boundedIdentifier value) (\<lambda>v. Inr (Some v))) (\<lambda>factId.
      bindR (validateLocation (pv_source provenance)) (\<lambda>source.
        Inr (input\<lparr>in_provenance := provenance\<lparr>pv_collectorId := collectorId, pv_factId := factId,
                                                pv_source := source\<rparr>\<rparr>)))))"

definition LIMIT_KEYS :: "CommandLimitName list" where
  "LIMIT_KEYS = [maximumInputLength, maximumInvocations, maximumIssues, maximumNesting, maximumParts, maximumTokens]"

definition limitCandidate :: "(CommandLimitName \<Rightarrow> int option) \<Rightarrow> CommandLimitName \<Rightarrow> int" where
  "limitCandidate options key =
     (case options key of None \<Rightarrow> int (COMMAND_LEXER_DEFAULT_LIMITS key) | Some candidate \<Rightarrow> candidate)"

fun validateLimits :: "(CommandLimitName \<Rightarrow> int option) \<Rightarrow> CommandLimitName list \<Rightarrow> CommandLexerErrorCode option" where
  "validateLimits options [] = None"
| "validateLimits options (key # keys) =
     (if limitCandidate options key < 1 \<or> int (COMMAND_LEXER_HARD_LIMITS key) < limitCandidate options key
      then Some (LexInvalidOptions key)
      else validateLimits options keys)"

definition validateOptions :: "(CommandLimitName \<Rightarrow> int option) option \<Rightarrow> CommandLexerErrorCode + CommandLexerLimits" where
  "validateOptions value =
     (case value of
        None \<Rightarrow> Inr COMMAND_LEXER_DEFAULT_LIMITS
      | Some options \<Rightarrow>
          (case validateLimits options LIMIT_KEYS of
             Some e \<Rightarrow> Inl e
           | None \<Rightarrow> Inr (\<lambda>key. nat (limitCandidate options key))))"

subsection \<open>The scanner state\<close>

definition addIssue :: "nat \<Rightarrow> nat \<Rightarrow> jstring \<Rightarrow> CommandIssueCode \<Rightarrow> ScanState \<Rightarrow> CommandLexerErrorCode + ScanState" where
  "addIssue start end message code state =
     (if st_limits state maximumIssues \<le> length (st_issues state) then Inl (LexLimitExceeded maximumIssues)
      else Inr (state\<lparr>st_issues := st_issues state @
                       [\<lparr>iss_code = code, iss_end = end, iss_message = message, iss_start = start\<rparr>]\<rparr>))"

definition addPart ::
  "CommandWordPart list \<Rightarrow> CommandPartKind \<Rightarrow> nat \<Rightarrow> nat \<Rightarrow> jstring option \<Rightarrow> ScanState \<Rightarrow>
   CommandLexerErrorCode + ScanState \<times> CommandWordPart list" where
  "addPart parts kind start end value state =
     (if st_limits state maximumParts \<le> st_partCount state then Inl (LexLimitExceeded maximumParts)
      else Inr (state\<lparr>st_partCount := st_partCount state + 1\<rparr>,
                parts @ [\<lparr>part_end = end, part_kind = kind, part_raw = slice (st_text state) start end,
                          part_start = start, part_value = value\<rparr>]))"

definition pushToken :: "CommandToken \<Rightarrow> ScanState \<Rightarrow> CommandLexerErrorCode + ScanState" where
  "pushToken token state =
     (if st_limits state maximumTokens \<le> length (st_tokens state) then Inl (LexLimitExceeded maximumTokens)
      else Inr (state\<lparr>st_tokens := st_tokens state @ [token]\<rparr>))"

abbreviation DQUOTE :: nat where "DQUOTE \<equiv> 34"
abbreviation SQUOTE :: nat where "SQUOTE \<equiv> 39"
abbreviation DOLLAR :: nat where "DOLLAR \<equiv> 36"
abbreviation PERCENT :: nat where "PERCENT \<equiv> 37"
abbreviation EXCLAMATION :: nat where "EXCLAMATION \<equiv> 33"
abbreviation AMPERSAND :: nat where "AMPERSAND \<equiv> 38"
abbreviation OPEN_PAREN :: nat where "OPEN_PAREN \<equiv> 40"
abbreviation CLOSE_PAREN :: nat where "CLOSE_PAREN \<equiv> 41"
abbreviation OPEN_BRACE :: nat where "OPEN_BRACE \<equiv> 123"
abbreviation CLOSE_BRACE :: nat where "CLOSE_BRACE \<equiv> 125"
abbreviation LESS :: nat where "LESS \<equiv> 60"
abbreviation GREATER :: nat where "GREATER \<equiv> 62"
abbreviation BACKTICK :: nat where "BACKTICK \<equiv> 96"
abbreviation EQUALS :: nat where "EQUALS \<equiv> 61"

definition isSpace :: "nat \<Rightarrow> bool" where
  "isSpace character \<longleftrightarrow> character = 32 \<or> character = 9 \<or> character = 13 \<or> character = 10"

subsection \<open>Recognisers at a position\<close>

text \<open>
  The loop of \<open>readBalanced\<close>: the end of the expression, or \<open>None\<close> when the text ends first. The
  delimiters are never empty; the lower bound on their length only makes that visible.
\<close>

function readBalancedLoop ::
  "jstring \<Rightarrow> CommandLexerLimits \<Rightarrow> jstring \<Rightarrow> jstring \<Rightarrow> nat \<Rightarrow> nat option \<Rightarrow> nat \<Rightarrow>
   CommandLexerErrorCode + nat option" where
  "readBalancedLoop s limits open close depth quote index =
     (if length s \<le> index then Inr None
      else let character = s ! index
           in (case quote of
                 Some q \<Rightarrow>
                   let quote' = (if character = q then None else Some q);
                       index' = (if character = BACKSLASH \<and> quote' = Some DQUOTE then index + 1 else index)
                   in readBalancedLoop s limits open close depth quote' (index' + 1)
               | None \<Rightarrow>
                   if character = SQUOTE \<or> character = DQUOTE then
                     readBalancedLoop s limits open close depth (Some character) (index + 1)
                   else if startsAt s open index then
                     (if limits maximumNesting < depth + 1 then Inl (LexLimitExceeded maximumNesting)
                      else readBalancedLoop s limits open close (depth + 1) None (index + max 1 (length open)))
                   else if startsAt s close index then
                     (if depth - 1 = 0 then Inr (Some (index + length close))
                      else readBalancedLoop s limits open close (depth - 1) None (index + max 1 (length close)))
                   else readBalancedLoop s limits open close depth None (index + 1)))"
  by pat_completeness auto
termination
  by (relation "measure (\<lambda>(s, limits, open, close, depth, quote, index). length s - index)") auto

declare readBalancedLoop.simps [simp del]

definition readBalanced :: "nat \<Rightarrow> jstring \<Rightarrow> jstring \<Rightarrow> ScanState \<Rightarrow> CommandLexerErrorCode + ScanState \<times> nat" where
  "readBalanced start open close state =
     bindR (readBalancedLoop (st_text state) (st_limits state) open close 1 None (start + length open)) (\<lambda>found.
       case found of
         Some end \<Rightarrow> Inr (state, end)
       | None \<Rightarrow>
           bindR (addIssue start (length (st_text state)) (js ''unclosed '' @ open @ close @ js '' expression'')
                    MalformedSyntax state) (\<lambda>state'.
             Inr (state', length (st_text state))))"

definition OPERATORS :: "jstring list" where
  "OPERATORS = [[38, 38], [124, 124], [124], [59], [38], [40], [41]]"

definition operatorAt :: "jstring \<Rightarrow> nat \<Rightarrow> jstring option" where
  "operatorAt s index = find (\<lambda>candidate. startsAt s candidate index) OPERATORS"

text \<open>\<open>REDIRECTION\<close>: a file descriptor, one or two arrows, and a duplicated descriptor.\<close>

definition redirectionOf :: "jstring \<Rightarrow> jstring option" where
  "redirectionOf us =
     (let prefix = (if us \<noteq> [] \<and> hd us = STAR then [STAR] else takeWhile is_ascii_digit us);
          rest = drop (length prefix) us
      in if rest \<noteq> [] \<and> (hd rest = GREATER \<or> hd rest = LESS) then
           let arrows = (if tl rest \<noteq> [] \<and> hd (tl rest) = hd rest then [hd rest, hd rest] else [hd rest]);
               after = drop (length arrows) rest;
               digits = takeWhile is_ascii_digit (tl after);
               suffix = (if after \<noteq> [] \<and> hd after = AMPERSAND \<and> digits \<noteq> [] then AMPERSAND # digits else [])
           in Some (prefix @ arrows @ suffix)
         else None)"

definition redirectionAt :: "jstring \<Rightarrow> nat \<Rightarrow> jstring option" where
  "redirectionAt s index = redirectionOf (drop index s)"

text \<open>
  Case-insensitive Unicode expressions: the long s and the Kelvin sign fold to \<open>s\<close> and \<open>k\<close>, and so belong
  to the letters and to \<open>\w\<close>.
\<close>

definition foldCase :: "nat \<Rightarrow> nat" where
  "foldCase u = (if 65 \<le> u \<and> u \<le> 90 then u + 32 else if u = 0x17F then 115 else if u = 0x212A then 107 else u)"

definition nameStart :: "nat \<Rightarrow> bool" where
  "nameStart u \<longleftrightarrow> is_ascii_letter u \<or> u = 95"

definition foldedStart :: "nat \<Rightarrow> bool" where
  "foldedStart u \<longleftrightarrow> nameStart (foldCase u)"

definition foldedWord :: "nat \<Rightarrow> bool" where
  "foldedWord u \<longleftrightarrow> foldedStart u \<or> is_ascii_digit u"

definition wordUnit :: "nat \<Rightarrow> bool" where
  "wordUnit u \<longleftrightarrow> nameStart u \<or> is_ascii_digit u"

text \<open>An opening unit, a non-empty run of allowed units and a closing unit.\<close>

definition delimited :: "nat \<Rightarrow> nat \<Rightarrow> (nat \<Rightarrow> bool) \<Rightarrow> jstring \<Rightarrow> jstring option" where
  "delimited open close allowed us =
     (if us \<noteq> [] \<and> hd us = open then
        let body = takeWhile allowed (tl us); rest = drop (length body) (tl us)
        in if body \<noteq> [] \<and> rest \<noteq> [] \<and> hd rest = close then Some (open # body @ [close]) else None
      else None)"

definition inLine :: "nat \<Rightarrow> nat \<Rightarrow> bool" where
  "inLine stop u \<longleftrightarrow> u \<noteq> stop \<and> u \<noteq> 13 \<and> u \<noteq> 10"

definition cmdExpansionOf :: "jstring \<Rightarrow> jstring option" where
  "cmdExpansionOf us =
     (case delimited PERCENT PERCENT (inLine PERCENT) us of
        Some m \<Rightarrow> Some m
      | None \<Rightarrow> delimited EXCLAMATION EXCLAMATION (inLine EXCLAMATION) us)"

definition posixExpansionOf :: "jstring \<Rightarrow> jstring option" where
  "posixExpansionOf us =
     (if us = [] \<or> hd us \<noteq> DOLLAR then None
      else let r = tl us; name = drop 4 r
           in if map foldCase (take 4 r) = [101, 110, 118, COLON] \<and> name \<noteq> [] \<and> foldedStart (hd name) then
                Some (DOLLAR # take 4 r @ takeWhile foldedWord name)
              else if r \<noteq> [] \<and> foldedStart (hd r) then Some (DOLLAR # takeWhile foldedWord r)
              else map_option (\<lambda>m. DOLLAR # m) (delimited OPEN_BRACE CLOSE_BRACE (inLine CLOSE_BRACE) r))"

definition expansionAt :: "jstring \<Rightarrow> nat \<Rightarrow> ResolvedCommandDialect \<Rightarrow> jstring option" where
  "expansionAt s index dialect =
     (if dialect = WindowsCmd then cmdExpansionOf (drop index s) else posixExpansionOf (drop index s))"

definition literalPartValue :: "CommandWordPart list \<Rightarrow> jstring option" where
  "literalPartValue parts =
     foldl (\<lambda>acc p. case acc of
                      None \<Rightarrow> None
                    | Some result \<Rightarrow> map_option (\<lambda>v. result @ v) (part_value p)) (Some []) parts"

subsection \<open>Words\<close>

definition flushLiteral ::
  "nat \<Rightarrow> nat \<Rightarrow> CommandWordPart list \<Rightarrow> ScanState \<Rightarrow> CommandLexerErrorCode + ScanState \<times> CommandWordPart list" where
  "flushLiteral literalStart end parts state =
     (if literalStart < end
      then addPart parts LiteralPart literalStart end (Some (slice (st_text state) literalStart end)) state
      else Inr (state, parts))"

text \<open>The loop inside a quoted part: the position of the closing quote, or one at or after the end of the text.\<close>

definition quoteNext :: "jstring \<Rightarrow> ResolvedCommandDialect \<Rightarrow> nat \<Rightarrow> nat \<Rightarrow> nat" where
  "quoteNext s dialect quote index =
     (let index1 = (if dialect \<noteq> WindowsCmd \<and> quote = DQUOTE \<and> charAt s index = Some BACKSLASH
                    then index + 1 else index);
          index2 = (if dialect = WindowsPowershell \<and> quote = DQUOTE \<and> charAt s index1 = Some BACKTICK
                    then index1 + 1 else index1)
      in index2 + 1)"

lemma quoteNext_gt: "index < quoteNext s dialect quote index"
  by (simp add: quoteNext_def Let_def)

function quoteEnd :: "jstring \<Rightarrow> ResolvedCommandDialect \<Rightarrow> nat \<Rightarrow> nat \<Rightarrow> nat" where
  "quoteEnd s dialect quote index =
     (if length s \<le> index \<or> s ! index = quote then index
      else quoteEnd s dialect quote (quoteNext s dialect quote index))"
  by pat_completeness auto
termination
proof (relation "measure (\<lambda>(s, dialect, quote, index). length s - index)")
  fix s :: jstring and dialect quote index
  assume "\<not> (length s \<le> index \<or> s ! index = quote)"
  then show "((s, dialect, quote, quoteNext s dialect quote index), s, dialect, quote, index)
    \<in> measure (\<lambda>(s, dialect, quote, index). length s - index)"
    using quoteNext_gt [of index s dialect quote] by (simp add: diff_less_mono2)
qed simp

declare quoteEnd.simps [simp del]

text \<open>The expressions that decide whether a double-quoted part is dynamic, tested at every position.\<close>

fun anySuffix :: "(jstring \<Rightarrow> bool) \<Rightarrow> jstring \<Rightarrow> bool" where
  "anySuffix test [] = test []"
| "anySuffix test (u # us) = (test (u # us) \<or> anySuffix test us)"

definition posixDynamic :: "jstring \<Rightarrow> bool" where
  "posixDynamic =
     anySuffix (\<lambda>us. us \<noteq> [] \<and> hd us = DOLLAR \<and> tl us \<noteq> [] \<and>
       (hd (tl us) = OPEN_PAREN \<or> hd (tl us) = OPEN_BRACE \<or> nameStart (hd (tl us))))"

definition cmdDynamic :: "jstring \<Rightarrow> bool" where
  "cmdDynamic =
     anySuffix (\<lambda>us. delimited PERCENT PERCENT (\<lambda>u. u \<noteq> PERCENT) us \<noteq> None \<or>
       delimited EXCLAMATION EXCLAMATION (\<lambda>u. u \<noteq> EXCLAMATION) us \<noteq> None)"

definition scanQuoted ::
  "ResolvedCommandDialect \<Rightarrow> nat \<Rightarrow> nat \<Rightarrow> CommandWordPart list \<Rightarrow> ScanState \<Rightarrow>
   CommandLexerErrorCode + ScanState \<times> CommandWordPart list \<times> nat" where
  "scanQuoted dialect quote quoteStart parts state =
     (let s = st_text state; contentStart = quoteStart + 1; reached = quoteEnd s dialect quote contentStart in
      bindR (if length s \<le> reached
             then bindR (addIssue quoteStart reached (js ''unclosed '' @ [quote] @ js '' quote'') MalformedSyntax state)
                    (\<lambda>state1. Inr (state1, reached))
             else Inr (state, reached + 1)) (\<lambda>(state1, index).
      let rawContent = slice s contentStart
                         (max contentStart (index - (if charAt s (index - 1) = Some quote then 1 else 0)));
          dynamic = (quote = DQUOTE \<and>
                     ((dialect \<noteq> WindowsCmd \<and> posixDynamic rawContent) \<or>
                      (dialect = WindowsCmd \<and> cmdDynamic rawContent)))
      in bindR (addPart parts (if quote = SQUOTE then SingleQuoted else DoubleQuoted) quoteStart index
                  (if dynamic then None else Some rawContent) state1) (\<lambda>(state2, parts2).
           Inr (state2, parts2, index))))"

definition escapeOf :: "ResolvedCommandDialect \<Rightarrow> nat" where
  "escapeOf dialect = (case dialect of WindowsCmd \<Rightarrow> 94 | WindowsPowershell \<Rightarrow> BACKTICK | PosixShell \<Rightarrow> BACKSLASH)"

definition scanEscape ::
  "nat \<Rightarrow> CommandWordPart list \<Rightarrow> ScanState \<Rightarrow> CommandLexerErrorCode + ScanState \<times> CommandWordPart list \<times> nat" where
  "scanEscape escapeStart parts state =
     (let s = st_text state in
      bindR (if length s \<le> escapeStart + 1
             then bindR (addIssue escapeStart (escapeStart + 1) (js ''dangling escape'') MalformedSyntax state)
                    (\<lambda>state1. Inr (state1, escapeStart + 1))
             else Inr (state, escapeStart + 2)) (\<lambda>(state1, index).
      bindR (addPart parts EscapePart escapeStart index
               (Some (if index - escapeStart = 2 then slice s (index - 1) index else [])) state1) (\<lambda>(state2, parts2).
        Inr (state2, parts2, index))))"

definition scanSubstitution ::
  "nat \<Rightarrow> CommandWordPart list \<Rightarrow> ScanState \<Rightarrow> CommandLexerErrorCode + ScanState \<times> CommandWordPart list \<times> nat" where
  "scanSubstitution index parts state =
     bindR (readBalanced index [DOLLAR, OPEN_PAREN] [CLOSE_PAREN] state) (\<lambda>(state1, end).
     bindR (addPart parts CommandSubstitution index end None state1) (\<lambda>(state2, parts2).
       Inr (state2, parts2, end)))"

function backtickEnd :: "jstring \<Rightarrow> nat \<Rightarrow> nat" where
  "backtickEnd s index =
     (if length s \<le> index \<or> s ! index = BACKTICK then index
      else backtickEnd s (index + (if s ! index = BACKSLASH then 2 else 1)))"
  by pat_completeness auto
termination
  by (relation "measure (\<lambda>(s, index). length s - index)") auto

declare backtickEnd.simps [simp del]

definition scanBacktick ::
  "nat \<Rightarrow> CommandWordPart list \<Rightarrow> ScanState \<Rightarrow> CommandLexerErrorCode + ScanState \<times> CommandWordPart list \<times> nat" where
  "scanBacktick substitutionStart parts state =
     (let s = st_text state; reached = backtickEnd s (substitutionStart + 1) in
      bindR (if length s \<le> reached
             then bindR (addIssue substitutionStart reached (js ''unclosed backtick substitution'') MalformedSyntax state)
                    (\<lambda>state1. Inr (state1, reached))
             else Inr (state, reached + 1)) (\<lambda>(state1, index).
      bindR (addPart parts BacktickSubstitution substitutionStart index None state1) (\<lambda>(state2, parts2).
        Inr (state2, parts2, index))))"

text \<open>The condition that ends a word.\<close>

definition endsWord :: "jstring \<Rightarrow> nat \<Rightarrow> bool" where
  "endsWord s index \<longleftrightarrow> isSpace (s ! index) \<or> operatorAt s index \<noteq> None \<or> redirectionAt s index \<noteq> None"

definition scanExpansion ::
  "jstring \<Rightarrow> nat \<Rightarrow> CommandWordPart list \<Rightarrow> ScanState \<Rightarrow> CommandLexerErrorCode + ScanState \<times> CommandWordPart list \<times> nat" where
  "scanExpansion expansion index parts state =
     bindR (addPart parts VariableExpansion index (index + length expansion) None state)
       (\<lambda>(state2, parts2). Inr (state2, parts2, index + length expansion))"

text \<open>A part other than a literal: the pending literal is flushed, the part is read and the literal restarts after it.\<close>

definition specialPart ::
  "(CommandWordPart list \<Rightarrow> ScanState \<Rightarrow> CommandLexerErrorCode + ScanState \<times> CommandWordPart list \<times> nat) \<Rightarrow>
   ScanState \<Rightarrow> CommandWordPart list \<Rightarrow> nat \<Rightarrow> nat \<Rightarrow>
   CommandLexerErrorCode + ScanState \<times> CommandWordPart list \<times> nat \<times> nat" where
  "specialPart scanPart state parts index literalStart =
     bindR (flushLiteral literalStart index parts state) (\<lambda>(state1, parts1).
     bindR (scanPart parts1 state1) (\<lambda>(state2, parts2, next). Inr (state2, parts2, next, next)))"

text \<open>
  One round of the loop of \<open>scanWord\<close> at a position inside the text: the new state, the parts, the next
  position and the start of the pending literal.
\<close>

definition wordStep ::
  "ResolvedCommandDialect \<Rightarrow> ScanState \<Rightarrow> CommandWordPart list \<Rightarrow> nat \<Rightarrow> nat \<Rightarrow>
   CommandLexerErrorCode + ScanState \<times> CommandWordPart list \<times> nat \<times> nat" where
  "wordStep dialect state parts index literalStart =
     (let s = st_text state; character = s ! index
      in if character = SQUOTE \<or> character = DQUOTE then
           specialPart (scanQuoted dialect character index) state parts index literalStart
         else if character = escapeOf dialect then specialPart (scanEscape index) state parts index literalStart
         else if dialect \<noteq> WindowsCmd \<and> startsAt s [DOLLAR, OPEN_PAREN] index then
           specialPart (scanSubstitution index) state parts index literalStart
         else if dialect = PosixShell \<and> character = BACKTICK then
           specialPart (scanBacktick index) state parts index literalStart
         else (case expansionAt s index dialect of
                 Some expansion \<Rightarrow> specialPart (scanExpansion expansion index) state parts index literalStart
               | None \<Rightarrow> Inr (state, parts, index + 1, literalStart)))"

text \<open>What a round keeps of the state, and that it moves on.\<close>

definition sameSource :: "ScanState \<Rightarrow> ScanState \<Rightarrow> bool" where
  "sameSource a b \<longleftrightarrow> st_text b = st_text a \<and> st_limits b = st_limits a \<and> st_tokens b = st_tokens a"

lemma sameSource_refl [simp]: "sameSource a a"
  by (simp add: sameSource_def)

lemma sameSource_trans: "sameSource a b \<Longrightarrow> sameSource b c \<Longrightarrow> sameSource a c"
  by (simp add: sameSource_def)

lemma addIssue_Inr: "addIssue start end message code a = Inr b \<Longrightarrow> sameSource a b"
  by (auto simp: addIssue_def sameSource_def split: if_splits)

lemma addPart_Inr: "addPart parts kind start end value a = Inr (b, parts') \<Longrightarrow> sameSource a b"
  by (auto simp: addPart_def sameSource_def split: if_splits)

lemma flushLiteral_Inr: "flushLiteral literalStart end parts a = Inr (b, parts') \<Longrightarrow> sameSource a b"
  by (auto simp: flushLiteral_def dest: addPart_Inr split: if_splits)

lemma quoteEnd_ge: "index \<le> quoteEnd s dialect quote index"
proof (induction s dialect quote index rule: quoteEnd.induct)
  case (1 s dialect quote index)
  show ?case
  proof (cases "length s \<le> index \<or> s ! index = quote")
    case False
    from 1 [OF False] quoteNext_gt [of index s dialect quote] show ?thesis
      by (subst quoteEnd.simps) (simp add: False)
  qed (subst quoteEnd.simps, simp)
qed

lemma backtickEnd_ge: "index \<le> backtickEnd s index"
proof (induction s index rule: backtickEnd.induct)
  case (1 s index)
  show ?case
  proof (cases "length s \<le> index \<or> s ! index = BACKTICK")
    case False
    from 1 [OF False] show ?thesis by (subst backtickEnd.simps) (simp add: False split: if_splits)
  qed (subst backtickEnd.simps, simp)
qed

lemma startsAt_length: "startsAt s p index \<Longrightarrow> p \<noteq> [] \<Longrightarrow> index + length p \<le> length s"
  by (cases p) (auto simp: startsAt_def startsWith_def min_def dest!: arg_cong [where f = length] split: if_splits)

lemma readBalancedLoop_gt:
  "readBalancedLoop s limits op cl depth quote index = Inr (Some end) \<Longrightarrow> cl \<noteq> [] \<Longrightarrow>
   index < end \<and> end \<le> length s"
proof (induction s limits op cl depth quote index rule: readBalancedLoop.induct)
  case (1 s limits op cl depth quote index)
  have "\<not> length s \<le> index" using 1(6) by (subst (asm) readBalancedLoop.simps) (auto split: if_splits)
  note IH = 1(1-5) [OF this refl] and run = 1(6) [unfolded readBalancedLoop.simps [of s limits op cl depth quote index] Let_def]
  show ?case
  proof (cases quote)
    case (Some q)
    with run \<open>\<not> length s \<le> index\<close> IH(5) [OF Some refl refl _ \<open>cl \<noteq> []\<close>] show ?thesis
      by (auto split: if_splits)
  next
    case None
    note run = run [unfolded None, simplified \<open>\<not> length s \<le> index\<close> if_False option.case]
    consider (quote) "s ! index = SQUOTE \<or> s ! index = DQUOTE"
      | (deeper) "\<not> (s ! index = SQUOTE \<or> s ! index = DQUOTE)" "startsAt s op index"
      | (up) "\<not> (s ! index = SQUOTE \<or> s ! index = DQUOTE)" "\<not> startsAt s op index" "startsAt s cl index"
      | (other) "\<not> (s ! index = SQUOTE \<or> s ! index = DQUOTE)" "\<not> startsAt s op index" "\<not> startsAt s cl index"
      by blast
    then show ?thesis
    proof cases
      case quote
      with run IH(1) [OF None quote _ \<open>cl \<noteq> []\<close>] show ?thesis by (simp split: if_splits)
    next
      case deeper
      with run IH(2) [OF None deeper _ _ \<open>cl \<noteq> []\<close>] show ?thesis by (auto split: if_splits)
    next
      case up
      with run IH(3) [OF None up _ _ \<open>cl \<noteq> []\<close>] \<open>cl \<noteq> []\<close> startsAt_length [OF up(3)] show ?thesis by (auto split: if_splits)
    next
      case other
      with run IH(4) [OF None other _ \<open>cl \<noteq> []\<close>] show ?thesis by (simp split: if_splits)
    qed
  qed
qed

lemma quoteEnd_le: "index \<le> length s + 2 \<Longrightarrow> quoteEnd s dialect quote index \<le> length s + 2"
proof (induction s dialect quote index rule: quoteEnd.induct)
  case (1 s dialect quote index)
  show ?case
  proof (cases "length s \<le> index \<or> s ! index = quote")
    case False
    then have "quoteNext s dialect quote index \<le> length s + 2"
      by (auto simp: quoteNext_def Let_def)
    from 1(1) [OF False this] show ?thesis by (subst quoteEnd.simps) (simp add: False)
  next
    case True
    with 1(2) show ?thesis by (subst quoteEnd.simps) auto
  qed
qed

lemma backtickEnd_le: "index \<le> length s + 2 \<Longrightarrow> backtickEnd s index \<le> length s + 2"
proof (induction s index rule: backtickEnd.induct)
  case (1 s index)
  show ?case
  proof (cases "length s \<le> index \<or> s ! index = BACKTICK")
    case False
    then have "index + (if s ! index = BACKSLASH then 2 else 1) \<le> length s + 2" by auto
    from 1(1) [OF False this] show ?thesis by (subst backtickEnd.simps) (simp add: False)
  next
    case True
    with 1(2) show ?thesis by (subst backtickEnd.simps) auto
  qed
qed

lemma delimited_prefix: "delimited op cl allowed us = Some m \<Longrightarrow> m \<noteq> [] \<and> length m \<le> length us"
proof -
  assume run: "delimited op cl allowed us = Some m"
  let ?body = "takeWhile allowed (tl us)"
  from run have "us \<noteq> []" "m = op # ?body @ [cl]" "drop (length ?body) (tl us) \<noteq> []"
    by (auto simp: delimited_def Let_def split: if_splits)
  then have "length ?body < length (tl us)" by simp
  with \<open>us \<noteq> []\<close> \<open>m = _\<close> show ?thesis by simp
qed

lemma posixExpansionOf_prefix:
  assumes "posixExpansionOf us = Some m"
  shows "m \<noteq> [] \<and> length m \<le> length us"
proof -
  from assms obtain u r where us: "us = u # r" by (cases us) (auto simp: posixExpansionOf_def)
  have "length (takeWhile foldedWord (drop 4 r)) \<le> length (drop 4 r)" "length (takeWhile foldedWord r) \<le> length r"
    by (rule length_takeWhile_le)+
  with assms us show ?thesis
    by (auto simp: posixExpansionOf_def Let_def min_def dest!: delimited_prefix split: if_splits)
qed

lemma expansionAt_prefix: "expansionAt s index dialect = Some m \<Longrightarrow> m \<noteq> [] \<and> length m \<le> length s - index"
  by (auto simp: expansionAt_def cmdExpansionOf_def dest!: delimited_prefix posixExpansionOf_prefix
      split: if_splits option.splits)

text \<open>
  What reading a part amounts to: one part from the position to a later one is added, after an issue or
  within the text.
\<close>

definition partAdded ::
  "nat \<Rightarrow> CommandWordPart list \<Rightarrow> ScanState \<Rightarrow> ScanState \<Rightarrow> CommandWordPart list \<Rightarrow> nat \<Rightarrow> bool" where
  "partAdded index parts a b parts' n \<longleftrightarrow>
     index < n \<and> n \<le> length (st_text a) + 2 \<and>
     (\<exists>c kind value. addPart parts kind index n value c = Inr (b, parts') \<and>
        (c = a \<and> n \<le> length (st_text a) \<or> (\<exists>end message. addIssue index end message MalformedSyntax a = Inr c)))"

lemma partAddedI:
  assumes "addPart parts kind index n v c = Inr (b, parts')"
    "(if length (st_text a) \<le> r then bindR (addIssue index r message MalformedSyntax a) (\<lambda>c. Inr (c, r))
      else Inr (a, r + 1)) = Inr (c, n)" "index < r" "r \<le> length (st_text a) + 2"
  shows "partAdded index parts a b parts' n"
proof -
  from assms(2-4) have "index < n \<and> n \<le> length (st_text a) + 2 \<and>
      (c = a \<and> n \<le> length (st_text a) \<or> (\<exists>end message. addIssue index end message MalformedSyntax a = Inr c))"
    by (auto simp: bindR_Inr_iff split: if_splits)
  with assms(1) show ?thesis unfolding partAdded_def by blast
qed

lemma scanQuoted_partAdded:
  assumes "scanQuoted dialect quote index parts a = Inr (b, parts', n)" "index < length (st_text a)"
  shows "partAdded index parts a b parts' n"
proof -
  let ?r = "quoteEnd (st_text a) dialect quote (index + 1)"
  have "index < ?r" "?r \<le> length (st_text a) + 2"
    using quoteEnd_ge [of "index + 1"] quoteEnd_le [of "index + 1"] assms(2) by (simp_all add: Suc_le_eq)
  moreover from assms(1) obtain c kind v where add: "addPart parts kind index n v c = Inr (b, parts')"
    and pre: "(if length (st_text a) \<le> ?r
             then bindR (addIssue index (?r) (js ''unclosed '' @ [quote] @ js '' quote'') MalformedSyntax a) (\<lambda>state1. Inr (state1, ?r))
             else Inr (a, ?r + 1)) = Inr (c, n)"
    unfolding scanQuoted_def Let_def bindR_Inr_iff by (auto simp only: split_paired_Ex prod.case bindR_Inr_iff sum.inject prod.inject)
  ultimately show ?thesis by (intro partAddedI [OF add pre])
qed

lemma scanEscape_partAdded:
  assumes "scanEscape index parts a = Inr (b, parts', n)" "index < length (st_text a)"
  shows "partAdded index parts a b parts' n"
proof -
  have "index < index + 1" "index + 1 \<le> length (st_text a) + 2" using assms(2) by simp_all
  moreover have two: "index + 2 = index + 1 + 1" by simp
  from assms(1) obtain c kind v where add: "addPart parts kind index n v c = Inr (b, parts')"
    and pre: "(if length (st_text a) \<le> index + 1
             then bindR (addIssue index (index + 1) (js ''dangling escape'') MalformedSyntax a) (\<lambda>state1. Inr (state1, index + 1))
             else Inr (a, index + 1 + 1)) = Inr (c, n)"
    unfolding scanEscape_def Let_def bindR_Inr_iff two by (auto simp only: split_paired_Ex prod.case bindR_Inr_iff sum.inject prod.inject)
  ultimately show ?thesis by (intro partAddedI [OF add pre])
qed

lemma scanBacktick_partAdded:
  assumes "scanBacktick index parts a = Inr (b, parts', n)" "index < length (st_text a)"
  shows "partAdded index parts a b parts' n"
proof -
  let ?r = "backtickEnd (st_text a) (index + 1)"
  have "index < ?r" "?r \<le> length (st_text a) + 2"
    using backtickEnd_ge [of "index + 1"] backtickEnd_le [of "index + 1"] assms(2) by (simp_all add: Suc_le_eq)
  moreover from assms(1) obtain c kind v where add: "addPart parts kind index n v c = Inr (b, parts')"
    and pre: "(if length (st_text a) \<le> ?r
             then bindR (addIssue index (?r) (js ''unclosed backtick substitution'') MalformedSyntax a) (\<lambda>state1. Inr (state1, ?r))
             else Inr (a, ?r + 1)) = Inr (c, n)"
    unfolding scanBacktick_def Let_def bindR_Inr_iff by (auto simp only: split_paired_Ex prod.case bindR_Inr_iff sum.inject prod.inject)
  ultimately show ?thesis by (intro partAddedI [OF add pre])
qed

lemma scanSubstitution_partAdded:
  assumes "scanSubstitution index parts a = Inr (b, parts', n)" "index < length (st_text a)"
  shows "partAdded index parts a b parts' n"
proof -
  from assms(1) obtain c kind v where add: "addPart parts kind index n v c = Inr (b, parts')"
    and pre: "readBalanced index [DOLLAR, OPEN_PAREN] [CLOSE_PAREN] a = Inr (c, n)"
    unfolding scanSubstitution_def bindR_Inr_iff
    by (auto simp only: split_paired_Ex prod.case bindR_Inr_iff sum.inject prod.inject)
  let ?run = "readBalancedLoop (st_text a) (st_limits a) [DOLLAR, OPEN_PAREN] [CLOSE_PAREN] 1 None
      (index + length [DOLLAR, OPEN_PAREN])"
  from pre obtain found where found: "?run = Inr found"
    unfolding readBalanced_def bindR_Inr_iff by blast
  have "index < n \<and> n \<le> length (st_text a) + 2 \<and>
      (c = a \<and> n \<le> length (st_text a) \<or> (\<exists>end message. addIssue index end message MalformedSyntax a = Inr c))"
  proof (cases found)
    case None
    with pre found assms(2) show ?thesis by (auto simp: readBalanced_def bindR_Inr_iff simp del: One_nat_def)
  next
    case (Some e)
    with pre found have "c = a" "n = e" by (auto simp: readBalanced_def simp del: One_nat_def)
    with readBalancedLoop_gt [OF found [unfolded Some]] show ?thesis by simp
  qed
  with add show ?thesis unfolding partAdded_def by blast
qed

lemma scanExpansion_partAdded:
  assumes "scanExpansion m index parts a = Inr (b, parts', n)" "expansionAt (st_text a) index dialect = Some m"
    "index < length (st_text a)"
  shows "partAdded index parts a b parts' n"
proof -
  from assms(1) have "addPart parts VariableExpansion index n None a = Inr (b, parts')" "n = index + length m"
    by (auto simp: scanExpansion_def bindR_Inr_iff)
  with assms(3) expansionAt_prefix [OF assms(2)] show ?thesis unfolding partAdded_def by fastforce
qed

lemma sameSource_fields: "sameSource a b \<Longrightarrow> st_text b = st_text a"
  by (simp add: sameSource_def)

lemma wordStep_cases:
  assumes "wordStep dialect a parts index literalStart = Inr (b, parts', n, l)" "index < length (st_text a)"
  obtains (plain) "b = a" "parts' = parts" "n = index + 1" "l = literalStart"
  | (special) c p where "flushLiteral literalStart index parts a = Inr (c, p)" "partAdded index p c b parts' n" "l = n"
proof -
  have special_case: thesis
    if "specialPart scanPart a parts index literalStart = Inr (b, parts', n, l)"
      and scan: "\<And>p c. scanPart p c = Inr (b, parts', n) \<Longrightarrow> st_text c = st_text a \<Longrightarrow> partAdded index p c b parts' n"
    for scanPart
  proof -
    from that(1) obtain c p where "flushLiteral literalStart index parts a = Inr (c, p)" "scanPart p c = Inr (b, parts', n)" "l = n"
      by (auto simp: specialPart_def bindR_Inr_iff)
    with special scan show thesis using flushLiteral_Inr sameSource_fields by blast
  qed
  note run = assms(1) [unfolded wordStep_def Let_def]
  show thesis
  proof (cases "st_text a ! index = SQUOTE \<or> st_text a ! index = DQUOTE")
    case True
    with run show thesis by (intro special_case) (use assms(2) in \<open>auto intro: scanQuoted_partAdded\<close>)
  next
    case q: False
    consider (e) "st_text a ! index = escapeOf dialect"
      | (s) "st_text a ! index \<noteq> escapeOf dialect" "dialect \<noteq> WindowsCmd \<and> startsAt (st_text a) [DOLLAR, OPEN_PAREN] index"
      | (t) "st_text a ! index \<noteq> escapeOf dialect" "\<not> (dialect \<noteq> WindowsCmd \<and> startsAt (st_text a) [DOLLAR, OPEN_PAREN] index)"
        "dialect = PosixShell \<and> st_text a ! index = BACKTICK"
      | (x) "st_text a ! index \<noteq> escapeOf dialect" "\<not> (dialect \<noteq> WindowsCmd \<and> startsAt (st_text a) [DOLLAR, OPEN_PAREN] index)"
        "\<not> (dialect = PosixShell \<and> st_text a ! index = BACKTICK)" by blast
    then show thesis
    proof cases
      case e
      with q run have "specialPart (scanEscape index) a parts index literalStart = Inr (b, parts', n, l)" by simp
      then show thesis by (rule special_case) (use assms(2) in \<open>auto intro: scanEscape_partAdded\<close>)
    next
      case s
      with q run have "specialPart (scanSubstitution index) a parts index literalStart = Inr (b, parts', n, l)" by simp
      then show thesis by (rule special_case) (use assms(2) in \<open>auto intro: scanSubstitution_partAdded\<close>)
    next
      case t
      with q run have "specialPart (scanBacktick index) a parts index literalStart = Inr (b, parts', n, l)" by simp
      then show thesis by (rule special_case) (use assms(2) in \<open>auto intro: scanBacktick_partAdded\<close>)
    next
      case x
      show thesis
      proof (cases "expansionAt (st_text a) index dialect")
        case None
        with x q run have "b = a \<and> parts' = parts \<and> n = index + 1 \<and> l = literalStart" by (simp add: x(2,3))
        then show thesis by (intro plain) auto
      next
        case (Some m)
        with x q run have "specialPart (scanExpansion m index) a parts index literalStart = Inr (b, parts', n, l)"
          by (simp add: x(2,3))
        then show thesis
          by (rule special_case) (use assms(2) Some in \<open>auto intro: scanExpansion_partAdded\<close>)
      qed
    qed
  qed
qed

lemma partAdded_source: "partAdded index p a b parts' n \<Longrightarrow> sameSource a b"
  unfolding partAdded_def using addPart_Inr addIssue_Inr sameSource_trans by blast

lemma wordStep_progress:
  assumes "wordStep dialect a parts index literalStart = Inr (b, parts', n, l)" "index < length (st_text a)"
  shows "sameSource a b \<and> index < n"
  using assms
proof (cases rule: wordStep_cases)
  case (special c p)
  have "sameSource a b" using sameSource_trans [OF flushLiteral_Inr [OF special(1)] partAdded_source [OF special(2)]] .
  moreover have "index < n" using special(2) by (simp add: partAdded_def)
  ultimately show ?thesis ..
qed auto

text \<open>The loop of \<open>scanWord\<close>, from a position: the state, the parts, the position after the word and the pending literal.\<close>

function scanWordLoop ::
  "ResolvedCommandDialect \<Rightarrow> ScanState \<Rightarrow> CommandWordPart list \<Rightarrow> nat \<Rightarrow> nat \<Rightarrow>
   CommandLexerErrorCode + ScanState \<times> CommandWordPart list \<times> nat \<times> nat" where
  "scanWordLoop dialect state parts index literalStart =
     (if length (st_text state) \<le> index \<or> endsWord (st_text state) index then Inr (state, parts, index, literalStart)
      else (case wordStep dialect state parts index literalStart of
              Inl e \<Rightarrow> Inl e
            | Inr (state', parts', index', literalStart') \<Rightarrow>
                scanWordLoop dialect state' parts' index' literalStart'))"
  by pat_completeness auto
termination
proof (relation "measure (\<lambda>(dialect, state, parts, index, literalStart). length (st_text state) - index)", goal_cases)
  case (2 dialect state parts index literalStart y b1 rest b2 r2 n l)
  then have "wordStep dialect state parts index literalStart = Inr (b1, b2, n, l)" "index < length (st_text state)" by auto
  from wordStep_progress [OF this] 2 show ?case by (auto simp: sameSource_def)
qed simp

declare scanWordLoop.simps [simp del]

text \<open>\<open>/^[A-Za-z_][A-Za-z0-9_]*=/\<close>.\<close>

definition isAssignment :: "jstring \<Rightarrow> bool" where
  "isAssignment value \<longleftrightarrow>
     value \<noteq> [] \<and> nameStart (hd value) \<and> startsWith (dropWhile wordUnit value) [EQUALS]"

definition wordKind :: "jstring option \<Rightarrow> CommandTokenKind" where
  "wordKind value =
     (case value of
        None \<Rightarrow> WordToken
      | Some v \<Rightarrow> if isAssignment v then EnvironmentAssignment else WordToken)"

definition scanWord ::
  "ResolvedCommandDialect \<Rightarrow> nat \<Rightarrow> ScanState \<Rightarrow> CommandLexerErrorCode + ScanState \<times> nat" where
  "scanWord dialect start state =
     bindR (scanWordLoop dialect state [] start start) (\<lambda>(state1, parts1, index, literalStart).
     bindR (flushLiteral literalStart index parts1 state1) (\<lambda>(state2, parts).
     let value = literalPartValue parts
     in bindR (pushToken \<lparr>tok_end = index, tok_kind = wordKind value, tok_parts = parts,
                          tok_raw = slice (st_text state2) start index, tok_start = start, tok_value = value\<rparr> state2)
          (\<lambda>state3. Inr (state3, index))))"

text \<open>A token without parts.\<close>

definition plainToken :: "CommandTokenKind \<Rightarrow> nat \<Rightarrow> jstring \<Rightarrow> CommandToken" where
  "plainToken kind index raw =
     \<lparr>tok_end = index + length raw, tok_kind = kind, tok_parts = [], tok_raw = raw, tok_start = index,
      tok_value = Some raw\<rparr>"

text \<open>One round of the loop of \<open>scan\<close> at a position inside the text.\<close>

definition scanStep ::
  "ResolvedCommandDialect \<Rightarrow> ScanState \<Rightarrow> nat \<Rightarrow> CommandLexerErrorCode + ScanState \<times> nat" where
  "scanStep dialect state index =
     (let s = st_text state
      in if isSpace (s ! index) then Inr (state, index + 1)
         else (case redirectionAt s index of
                 Some redirection \<Rightarrow>
                   bindR (pushToken (plainToken RedirectionToken index redirection) state)
                     (\<lambda>state'. Inr (state', index + length redirection))
               | None \<Rightarrow>
                   (case operatorAt s index of
                      Some operator \<Rightarrow>
                        bindR (pushToken (plainToken OperatorToken index operator) state)
                          (\<lambda>state'. Inr (state', index + length operator))
                    | None \<Rightarrow> scanWord dialect index state)))"

lemma scanWordLoop_ge:
  "scanWordLoop dialect a parts index literalStart = Inr (b, parts', n, l) \<Longrightarrow>
   sameSource a b \<and> index \<le> n \<and> (index < length (st_text a) \<longrightarrow> \<not> endsWord (st_text a) index \<longrightarrow> index < n)"
proof (induction dialect a parts index literalStart rule: scanWordLoop.induct)
  case (1 dialect a parts index literalStart)
  show ?case
  proof (cases "length (st_text a) \<le> index \<or> endsWord (st_text a) index")
    case True
    with 1(2) show ?thesis by (subst (asm) scanWordLoop.simps) auto
  next
    case False
    with 1(2) obtain c p m k where step: "wordStep dialect a parts index literalStart = Inr (c, p, m, k)"
      and rec: "scanWordLoop dialect c p m k = Inr (b, parts', n, l)"
      by (subst (asm) scanWordLoop.simps) (auto split: sum.splits)
    from 1(1) [OF False step refl refl refl rec] wordStep_progress [OF step] False show ?thesis
      by (auto simp: sameSource_def)
  qed
qed

lemma redirectionAt_length: "redirectionAt s index = Some m \<Longrightarrow> m \<noteq> []"
  by (auto simp: redirectionAt_def redirectionOf_def Let_def split: if_splits)

lemma operatorAt_length:
  assumes "operatorAt s index = Some m"
  shows "m \<in> set OPERATORS \<and> startsAt s m index \<and> m \<noteq> []"
proof -
  from assms have "m \<in> set OPERATORS" "startsAt s m index" unfolding operatorAt_def find_Some_iff by auto
  then show ?thesis by (auto simp: OPERATORS_def)
qed

lemma pushToken_Inr: "pushToken token a = Inr b \<Longrightarrow>
  st_text b = st_text a \<and> st_limits b = st_limits a \<and> st_tokens b = st_tokens a @ [token] \<and> st_issues b = st_issues a \<and>
  st_partCount b = st_partCount a"
  by (auto simp: pushToken_def split: if_splits)

lemma scanStep_progress:
  assumes "scanStep dialect a index = Inr (b, n)" "index < length (st_text a)"
  shows "st_text b = st_text a \<and> index < n"
proof (cases "isSpace (st_text a ! index)")
  case True
  with assms show ?thesis by (auto simp: scanStep_def)
next
  case space: False
  show ?thesis
  proof (cases "redirectionAt (st_text a) index = None \<and> operatorAt (st_text a) index = None")
    case True
    with space have "\<not> endsWord (st_text a) index" by (simp add: endsWord_def)
    moreover have "scanWord dialect index a = Inr (b, n)" using assms(1) True space by (simp add: scanStep_def)
    ultimately show ?thesis
      using assms(2) unfolding scanWord_def bindR_Inr_iff Let_def
      by (auto simp: bindR_Inr_iff sameSource_def dest!: scanWordLoop_ge flushLiteral_Inr pushToken_Inr)
  next
    case False
    then obtain kind m where "m \<noteq> []" "bindR (pushToken (plainToken kind index m) a) (\<lambda>c. Inr (c, index + length m)) = Inr (b, n)"
      using assms(1) space unfolding scanStep_def Let_def
      by (cases "redirectionAt (st_text a) index"; cases "operatorAt (st_text a) index")
        (auto dest: redirectionAt_length operatorAt_length)
    then show ?thesis by (auto simp: bindR_Inr_iff dest!: pushToken_Inr)
  qed
qed

function scanLoop :: "ResolvedCommandDialect \<Rightarrow> ScanState \<Rightarrow> nat \<Rightarrow> CommandLexerErrorCode + ScanState" where
  "scanLoop dialect state index =
     (if length (st_text state) \<le> index then Inr state
      else (case scanStep dialect state index of
              Inl e \<Rightarrow> Inl e
            | Inr (state', index') \<Rightarrow> scanLoop dialect state' index'))"
  by pat_completeness auto
termination
proof (relation "measure (\<lambda>(dialect, state, index). length (st_text state) - index)", goal_cases)
  case (2 dialect state index y b n)
  then have "scanStep dialect state index = Inr (b, n)" "index < length (st_text state)" by auto
  from scanStep_progress [OF this] 2 show ?case by auto
qed simp

declare scanLoop.simps [simp del]

definition scan :: "jstring \<Rightarrow> ResolvedCommandDialect \<Rightarrow> CommandLexerLimits \<Rightarrow> CommandLexerErrorCode + ScanState" where
  "scan s dialect limits =
     scanLoop dialect \<lparr>st_issues = [], st_limits = limits, st_text = s, st_tokens = [], st_partCount = 0\<rparr> 0"

subsection \<open>Dialect inference\<close>

datatype ConfidenceBasis = CallerSpecified | ExclusiveMarkers | InsufficientMarkers | MixedMarkers

datatype ConfidenceLevel = ExactConfidence | HighConfidence | LowConfidence

text \<open>The score is counted in tenths.\<close>

record CommandLexerConfidence =
  cf_basis :: ConfidenceBasis
  cf_level :: ConfidenceLevel
  cf_score :: nat

datatype CommandUncertainty =
    KnownUncertainty
  | UnknownUncertainty jstring
  | ConditionalUncertainty "jstring list"
  | ContradictionUncertainty jstring "ResolvedCommandDialect list"

record DialectInference =
  di_confidence :: CommandLexerConfidence
  di_dialect :: "ResolvedCommandDialect option"
  di_uncertainty :: CommandUncertainty
  di_issue :: "jstring option"

text \<open>An expression tested at every position, with the unit before the position.\<close>

fun anyPosition :: "(nat option \<Rightarrow> jstring \<Rightarrow> bool) \<Rightarrow> nat option \<Rightarrow> jstring \<Rightarrow> bool" where
  "anyPosition test before [] = test before []"
| "anyPosition test before (u # us) = (test before (u # us) \<or> anyPosition test (Some u) us)"

text \<open>\<open>\b(?:...)\b\<close> around one of the given names, for a class of word units.\<close>

definition nameAt :: "(nat \<Rightarrow> bool) \<Rightarrow> (nat \<Rightarrow> nat) \<Rightarrow> string list \<Rightarrow> nat option \<Rightarrow> jstring \<Rightarrow> bool" where
  "nameAt word folded names before us \<longleftrightarrow>
     \<not> (case before of None \<Rightarrow> False | Some u \<Rightarrow> word u) \<and>
     list_ex (\<lambda>name. startsWith (map folded us) (js name) \<and>
                     \<not> (drop (length name) us \<noteq> [] \<and> word (hd (drop (length name) us)))) names"

definition metaAfter :: "nat \<Rightarrow> jstring \<Rightarrow> bool" where
  "metaAfter marker us \<longleftrightarrow>
     us \<noteq> [] \<and> hd us = marker \<and> tl us \<noteq> [] \<and> hd (tl us) \<in> {AMPERSAND, 124, LESS, GREATER}"

definition cmdMarkers :: "jstring \<Rightarrow> bool" where
  "cmdMarkers = anySuffix (\<lambda>us. cmdExpansionOf us \<noteq> None \<or> metaAfter 94 us)"

definition powershellMarkers :: "jstring \<Rightarrow> bool" where
  "powershellMarkers =
     anyPosition (\<lambda>before us.
       startsWith (map foldCase us) (js ''$env:'') \<or>
       nameAt foldedWord foldCase [''write-host'', ''get-childitem'', ''set-location''] before us \<or>
       metaAfter BACKTICK us) None"

definition posixMarkers :: "jstring \<Rightarrow> bool" where
  "posixMarkers =
     anyPosition (\<lambda>before us.
       startsWith us [DOLLAR, OPEN_PAREN] \<or>
       (us \<noteq> [] \<and> hd us = BACKTICK \<and> BACKTICK \<in> set (tl us)) \<or>
       (us \<noteq> [] \<and> hd us = DOLLAR \<and> delimited OPEN_BRACE CLOSE_BRACE (\<lambda>u. u \<noteq> CLOSE_BRACE) (tl us) \<noteq> None) \<or>
       nameAt wordUnit id [''export'', ''printf'', ''chmod''] before us) None"

definition inferDialect :: "jstring \<Rightarrow> CommandDialect \<Rightarrow> DialectInference" where
  "inferDialect s requested =
     (case requested of
        Resolved dialect \<Rightarrow>
          \<lparr>di_confidence = \<lparr>cf_basis = CallerSpecified, cf_level = ExactConfidence, cf_score = 10\<rparr>,
           di_dialect = Some dialect, di_uncertainty = KnownUncertainty, di_issue = None\<rparr>
      | AutoDialect \<Rightarrow>
          let matches = map fst (filter snd [(WindowsCmd, cmdMarkers s), (WindowsPowershell, powershellMarkers s),
                                             (PosixShell, posixMarkers s)])
          in if length matches = 1 then
               \<lparr>di_confidence = \<lparr>cf_basis = ExclusiveMarkers, cf_level = HighConfidence, cf_score = 9\<rparr>,
                di_dialect = Some (hd matches), di_uncertainty = KnownUncertainty, di_issue = None\<rparr>
             else if 1 < length matches then
               \<lparr>di_confidence = \<lparr>cf_basis = MixedMarkers, cf_level = LowConfidence, cf_score = 5\<rparr>,
                di_dialect = None,
                di_uncertainty = ContradictionUncertainty (js ''multiple command dialects are plausible'') matches,
                di_issue = Some (js ''command contains markers from multiple dialects'')\<rparr>
             else
               \<lparr>di_confidence = \<lparr>cf_basis = InsufficientMarkers, cf_level = LowConfidence, cf_score = 5\<rparr>,
                di_dialect = None,
                di_uncertainty = UnknownUncertainty (js ''dialect cannot be inferred from static text''),
                di_issue = Some (js ''command has no dialect-exclusive markers'')\<rparr>)"

subsection \<open>Invocations\<close>

definition canonicalExecutable :: "(jstring \<Rightarrow> jstring) \<Rightarrow> jstring \<Rightarrow> ResolvedCommandDialect \<Rightarrow> jstring" where
  "canonicalExecutable toLowerCase value dialect =
     (if dialect = PosixShell then value
      else let lower = toLowerCase value; base = take (length lower - 4) lower
           in if list_ex (\<lambda>suffix. map foldCase (drop (length base) lower) = js suffix) [''.bat'', ''.cmd'', ''.exe'', ''.ps1'']
              then base else lower)"

definition groupTokens :: "CommandToken list \<Rightarrow> CommandToken list list" where
  "groupTokens tokens =
     foldl (\<lambda>groups token.
       if tok_kind token = OperatorToken then (if last groups \<noteq> [] then groups @ [[]] else groups)
       else butlast groups @ [last groups @ [token]]) [[]] tokens"

text \<open>A property assignment on an object without prototype: in place, or at the end.\<close>

fun setProperty :: "jstring \<Rightarrow> 'v \<Rightarrow> (jstring \<times> 'v) list \<Rightarrow> (jstring \<times> 'v) list" where
  "setProperty key v [] = [(key, v)]"
| "setProperty key v ((k, w) # rest) = (if k = key then (k, v) # rest else (k, w) # setProperty key v rest)"

text \<open>The loop over the tokens of a group: environment, redirections and words.\<close>

fun groupLoop ::
  "jstring \<Rightarrow> CommandToken list \<Rightarrow> (jstring \<times> jstring option) list \<Rightarrow> CommandRedirectionEvidence list \<Rightarrow>
   CommandToken list \<Rightarrow> (jstring \<times> jstring option) list \<times> CommandRedirectionEvidence list \<times> CommandToken list" where
  "groupLoop s [] environment redirections words = (environment, redirections, words)"
| "groupLoop s (token # rest) environment redirections words =
     (if tok_kind token = EnvironmentAssignment \<and> words = [] then
        (case tok_value token of
           None \<Rightarrow> groupLoop s rest environment redirections (words @ [token])
         | Some assignment \<Rightarrow>
             let (name, value) = (case indexOf EQUALS assignment of
                                    Some equal \<Rightarrow> (take equal assignment, drop (equal + 1) assignment)
                                  | None \<Rightarrow> (butlast assignment, assignment))
             in groupLoop s rest (setProperty name (Some value) environment) redirections words)
      else if tok_kind token = RedirectionToken then
        (case rest of
           next # rest' \<Rightarrow>
             if tok_kind next = WordToken then
               groupLoop s rest' environment
                 (redirections @ [\<lparr>red_end = tok_end next, red_operator = tok_raw token,
                                   red_raw = slice s (tok_start token) (tok_end next), red_start = tok_start token,
                                   red_target = tok_value next\<rparr>]) words
             else groupLoop s rest environment
                    (redirections @ [\<lparr>red_end = tok_end token, red_operator = tok_raw token,
                                      red_raw = slice s (tok_start token) (tok_end token), red_start = tok_start token,
                                      red_target = None\<rparr>]) words
         | [] \<Rightarrow> groupLoop s rest environment
                    (redirections @ [\<lparr>red_end = tok_end token, red_operator = tok_raw token,
                                      red_raw = slice s (tok_start token) (tok_end token), red_start = tok_start token,
                                      red_target = None\<rparr>]) words)
      else groupLoop s rest environment redirections (words @ [token]))"

definition buildInvocation ::
  "(jstring \<Rightarrow> jstring) \<Rightarrow> ScanState \<Rightarrow> ResolvedCommandDialect \<Rightarrow> CommandToken list \<Rightarrow> CommandInvocationEvidence" where
  "buildInvocation toLowerCase state dialect tokens =
     (let (environment, redirections, words) = groupLoop (st_text state) tokens [] [] [];
          start = tok_start (hd tokens); end = tok_end (last tokens);
          malformed = list_ex (\<lambda>i. start \<le> iss_start i \<and> iss_start i \<le> end) (st_issues state);
          dynamic = (list_ex (\<lambda>token. tok_value token = None) words \<or> list_ex (\<lambda>(_, v). v = None) environment)
      in \<lparr>inv_arguments = map tok_value (tl words), inv_end = end, inv_environment = environment,
          inv_executable = (if words = [] then None
                            else map_option (\<lambda>v. canonicalExecutable toLowerCase v dialect) (tok_value (hd words))),
          inv_redirections = redirections, inv_start = start,
          inv_state = (if malformed then MalformedInvocation
                       else if words = [] then EmptyInvocation
                       else if dynamic then DynamicInvocation
                       else LiteralInvocation)\<rparr>)"

definition buildInvocations ::
  "(jstring \<Rightarrow> jstring) \<Rightarrow> ScanState \<Rightarrow> ResolvedCommandDialect \<Rightarrow>
   CommandLexerErrorCode + CommandInvocationEvidence list" where
  "buildInvocations toLowerCase state dialect =
     (let groups = filter (\<lambda>g. g \<noteq> []) (groupTokens (st_tokens state))
      in if st_limits state maximumInvocations < length groups then Inl (LexLimitExceeded maximumInvocations)
         else Inr (map (buildInvocation toLowerCase state dialect) groups))"

subsection \<open>The lexer\<close>

record CommandLexerMetrics =
  me_invocationCount :: nat
  me_issueCount :: nat
  me_partCount :: nat
  me_tokenCount :: nat

record CommandLexerResult =
  lr_confidence :: CommandLexerConfidence
  lr_invocations :: "CommandInvocationEvidence list"
  lr_issues :: "CommandLexerIssue list"
  lr_limits :: CommandLexerLimits
  lr_metrics :: CommandLexerMetrics
  lr_provenance :: CommandEvidenceProvenance
  lr_requestedDialect :: CommandDialect
  lr_resolvedDialect :: "ResolvedCommandDialect option"
  lr_tokens :: "CommandToken list"
  lr_uncertainty :: CommandUncertainty

definition lexUncertainty :: "CommandUncertainty \<Rightarrow> ScanState \<Rightarrow> CommandUncertainty" where
  "lexUncertainty inferred state =
     (if inferred = KnownUncertainty \<and> st_issues state \<noteq> [] then
        UnknownUncertainty (js ''command text contains malformed static syntax'')
      else if inferred = KnownUncertainty \<and>
              list_ex (\<lambda>token. list_ex (\<lambda>p. part_value p = None) (tok_parts token)) (st_tokens state) then
        ConditionalUncertainty [js ''runtime expansion or substitution determines part of the command'']
      else inferred)"

text \<open>The dialect the scanner uses, and the issue of an ambiguous dialect.\<close>

definition dialectOf :: "DialectInference \<Rightarrow> ResolvedCommandDialect" where
  "dialectOf inference = (case di_dialect inference of Some d \<Rightarrow> d | None \<Rightarrow> PosixShell)"

definition inferenceIssue :: "DialectInference \<Rightarrow> ScanState \<Rightarrow> CommandLexerErrorCode + ScanState" where
  "inferenceIssue inference state =
     (case di_issue inference of
        None \<Rightarrow> Inr state
      | Some message \<Rightarrow> addIssue 0 (length (st_text state)) message AmbiguousDialect state)"

definition lexCommandEvidence ::
  "(jstring \<Rightarrow> jstring) \<Rightarrow> CommandLexerInput \<Rightarrow> (CommandLimitName \<Rightarrow> int option) option \<Rightarrow>
   CommandLexerErrorCode + CommandLexerResult" where
  "lexCommandEvidence toLowerCase rawInput rawOptions =
     bindR (validateInput rawInput) (\<lambda>input.
     bindR (validateOptions rawOptions) (\<lambda>limits.
     checkR (length (in_text input) \<le> limits maximumInputLength) (LexLimitExceeded maximumInputLength)
     (let inference = inferDialect (in_text input) (in_dialect input)
      in bindR (scan (in_text input) (dialectOf inference) limits) (\<lambda>scanned.
         bindR (inferenceIssue inference scanned) (\<lambda>state.
         bindR (buildInvocations toLowerCase state (dialectOf inference)) (\<lambda>invocations.
           Inr \<lparr>lr_confidence = di_confidence inference, lr_invocations = invocations, lr_issues = st_issues state,
                lr_limits = limits,
                lr_metrics = \<lparr>me_invocationCount = length invocations, me_issueCount = length (st_issues state),
                              me_partCount = st_partCount state, me_tokenCount = length (st_tokens state)\<rparr>,
                lr_provenance = in_provenance input, lr_requestedDialect = in_dialect input,
                lr_resolvedDialect = di_dialect inference, lr_tokens = st_tokens state,
                lr_uncertainty = lexUncertainty (di_uncertainty inference) state\<rparr>))))))"

end
