(* ===== verification/Command_Lexer_Props.thy ===== *)
theory Command_Lexer_Props
  imports Command_Lexer
begin

text \<open>
  The correctness of the command lexer: the tokens cover the text and their parts cover the words, ranges
  leave the text only after a reported issue, text within the limits is always lexed, and quoted words
  are read back.
\<close>

subsection \<open>Parts cover words\<close>

fun tiles :: "jstring \<Rightarrow> nat \<Rightarrow> CommandWordPart list \<Rightarrow> nat \<Rightarrow> bool" where
  "tiles s start [] end \<longleftrightarrow> start = end"
| "tiles s start (p # ps) end \<longleftrightarrow>
     part_start p = start \<and> start < part_end p \<and> part_raw p = slice s start (part_end p) \<and> tiles s (part_end p) ps end"

lemma tiles_snoc:
  "tiles s start (ps @ [p]) end \<longleftrightarrow>
     (\<exists>m. tiles s start ps m \<and> part_start p = m \<and> m < part_end p \<and> part_raw p = slice s m (part_end p) \<and> part_end p = end)"
  by (induction ps arbitrary: start) auto

lemma tiles_le: "tiles s start ps end \<Longrightarrow> start \<le> end"
  by (induction ps arbitrary: start) force+

lemma addPart_tiles:
  assumes "addPart parts kind i n v a = Inr (b, parts')" "tiles (st_text a) start parts i" "i < n"
  shows "tiles (st_text a) start parts' n"
  using assms by (auto simp: addPart_def tiles_snoc split: if_splits)

lemma addPart_state:
  assumes "addPart parts kind i n v a = Inr (b, parts')"
  shows "st_issues b = st_issues a" "st_partCount b = st_partCount a + 1" "st_partCount b \<le> st_limits a maximumParts"
    "st_text b = st_text a" "st_limits b = st_limits a" "st_tokens b = st_tokens a"
  using assms by (auto simp: addPart_def split: if_splits)

lemma addIssue_state:
  assumes "addIssue start end message code a = Inr b"
  shows "length (st_issues b) = length (st_issues a) + 1" "length (st_issues b) \<le> st_limits a maximumIssues"
    "st_partCount b = st_partCount a" "st_text b = st_text a" "st_limits b = st_limits a" "st_tokens b = st_tokens a"
  using assms by (auto simp: addIssue_def split: if_splits)

text \<open>What the scanner keeps: counters within the limits.\<close>

definition counted :: "ScanState \<Rightarrow> bool" where
  "counted a \<longleftrightarrow>
     length (st_issues a) \<le> st_limits a maximumIssues \<and> st_partCount a \<le> st_limits a maximumParts \<and>
     length (st_tokens a) \<le> st_limits a maximumTokens"

text \<open>The position after reading, which leaves the text by at most two units, and only after an issue.\<close>

definition reaches :: "ScanState \<Rightarrow> nat \<Rightarrow> bool" where
  "reaches a n \<longleftrightarrow> n \<le> length (st_text a) + 2 \<and> (st_issues a = [] \<longrightarrow> n \<le> length (st_text a))"

lemma flushLiteral_tiles:
  assumes "flushLiteral l i parts a = Inr (b, parts')" "tiles (st_text a) start parts l" "l \<le> i" "counted a"
  shows "tiles (st_text a) start parts' i \<and> counted b \<and> st_issues b = st_issues a \<and> sameSource a b"
proof (cases "l < i")
  case True
  with assms(1) have "addPart parts LiteralPart l i (Some (slice (st_text a) l i)) a = Inr (b, parts')"
    by (simp add: flushLiteral_def)
  with addPart_tiles [OF this assms(2) True] addPart_state [OF this] assms(4) show ?thesis
    by (simp add: counted_def sameSource_def)
next
  case False
  with assms show ?thesis by (auto simp: flushLiteral_def)
qed

lemma partAdded_tiles:
  assumes "partAdded i parts a b parts' n" "tiles (st_text a) start parts i" "counted a"
  shows "tiles (st_text a) start parts' n \<and> counted b \<and> (st_issues a \<noteq> [] \<longrightarrow> st_issues b \<noteq> []) \<and> reaches b n"
proof -
  from assms(1) obtain c kind v where in_order: "i < n" "n \<le> length (st_text a) + 2"
    and add: "addPart parts kind i n v c = Inr (b, parts')"
    and pre: "c = a \<and> n \<le> length (st_text a) \<or> (\<exists>end message. addIssue i end message MalformedSyntax a = Inr c)"
    unfolding partAdded_def by blast
  have c: "st_text c = st_text a \<and> counted c \<and> (st_issues a \<noteq> [] \<longrightarrow> st_issues c \<noteq> []) \<and>
      (st_issues c = [] \<longrightarrow> n \<le> length (st_text a))"
    using pre
  proof
    assume "\<exists>end message. addIssue i end message MalformedSyntax a = Inr c"
    then show ?thesis using assms(3) addIssue_state [of i _ _ MalformedSyntax a c] by (fastforce simp: counted_def)
  qed (use assms(3) in simp)
  with addPart_tiles [OF add] assms(2) in_order addPart_state [OF add] show ?thesis
    by (auto simp: counted_def reaches_def)
qed

lemma scanWordLoop_tiles:
  "scanWordLoop dialect a parts i l = Inr (b, parts', n, k) \<Longrightarrow> tiles (st_text a) start parts l \<Longrightarrow> l \<le> i \<Longrightarrow>
   counted a \<Longrightarrow> reaches a i \<Longrightarrow>
   sameSource a b \<and> tiles (st_text a) start parts' k \<and> k \<le> n \<and> counted b \<and>
     (st_issues a \<noteq> [] \<longrightarrow> st_issues b \<noteq> []) \<and> reaches b n \<and> (length (st_text a) \<le> n \<or> endsWord (st_text a) n)"
proof (induction dialect a parts i l rule: scanWordLoop.induct)
  case (1 dialect a parts i l)
  show ?case
  proof (cases "length (st_text a) \<le> i \<or> endsWord (st_text a) i")
    case True
    with 1 show ?thesis by (subst (asm) scanWordLoop.simps) auto
  next
    case False
    with 1(2) obtain c p m j where step: "wordStep dialect a parts i l = Inr (c, p, m, j)"
      and rec: "scanWordLoop dialect c p m j = Inr (b, parts', n, k)"
      by (subst (asm) scanWordLoop.simps) (auto split: sum.splits)
    have i: "i < length (st_text a)" using False by simp
    from step i have "sameSource a c \<and> tiles (st_text a) start p j \<and> j \<le> m \<and> counted c \<and>
        (st_issues a \<noteq> [] \<longrightarrow> st_issues c \<noteq> []) \<and> reaches c m"
    proof (cases rule: wordStep_cases)
      case plain
      with 1(3-6) i show ?thesis by (simp add: reaches_def)
    next
      case (special d q)
      from flushLiteral_tiles [OF special(1) 1(3-5)] have d: "tiles (st_text a) start q i" "counted d"
        "st_issues d = st_issues a" "sameSource a d" by auto
      then have "tiles (st_text d) start q i" by (simp add: sameSource_def)
      from partAdded_tiles [OF special(2) this d(2)] partAdded_source [OF special(2)] d special(3) show ?thesis
        by (auto simp: sameSource_def)
    qed
    then have c: "sameSource a c" "tiles (st_text c) start p j" "j \<le> m" "counted c" "reaches c m"
      "st_issues a \<noteq> [] \<longrightarrow> st_issues c \<noteq> []" by (auto simp: sameSource_def)
    from 1(1) [OF False step refl refl refl rec c(2-5)] c(1,6) show ?thesis
      by (auto simp: sameSource_def)
  qed
qed

subsection \<open>Tokens cover the text\<close>

definition tokenOk :: "jstring \<Rightarrow> CommandToken \<Rightarrow> bool" where
  "tokenOk s t \<longleftrightarrow>
     tok_start t < tok_end t \<and> tok_raw t = slice s (tok_start t) (tok_end t) \<and>
     (if tok_kind t = WordToken \<or> tok_kind t = EnvironmentAssignment
      then tiles s (tok_start t) (tok_parts t) (tok_end t) \<and> tok_value t = literalPartValue (tok_parts t)
      else tok_parts t = [] \<and> tok_value t = Some (tok_raw t))"

text \<open>Well-formed tokens in the order of the text, with white space only between them.\<close>

fun covers :: "jstring \<Rightarrow> nat \<Rightarrow> CommandToken list \<Rightarrow> nat \<Rightarrow> bool" where
  "covers s start [] end \<longleftrightarrow> start \<le> end \<and> list_all isSpace (slice s start end)"
| "covers s start (t # ts) end \<longleftrightarrow>
     start \<le> tok_start t \<and> list_all isSpace (slice s start (tok_start t)) \<and> tokenOk s t \<and> covers s (tok_end t) ts end"

lemma slice_Suc: "a \<le> i \<Longrightarrow> i < length s \<Longrightarrow> slice s a (i + 1) = slice s a i @ [s ! i]"
  by (simp add: slice_def Suc_diff_le take_Suc_conv_app_nth)

lemma covers_space: "covers s a ts i \<Longrightarrow> i < length s \<Longrightarrow> isSpace (s ! i) \<Longrightarrow> covers s a ts (i + 1)"
  by (induction ts arbitrary: a) (auto simp: slice_Suc [simplified])

lemma covers_snoc: "covers s a ts (tok_start t) \<Longrightarrow> tokenOk s t \<Longrightarrow> covers s a (ts @ [t]) (tok_end t)"
  by (induction ts arbitrary: a) (auto simp: slice_def)

lemma prefix_of_run: "startsWith us (if us \<noteq> [] \<and> hd us = c then [c] else takeWhile P us)"
  by (cases us) (auto simp: startsWith_iff, (metis takeWhile_dropWhile_id)+)

lemma prefix_of_pair: "r \<noteq> [] \<Longrightarrow> startsWith r (if tl r \<noteq> [] \<and> hd (tl r) = hd r then [hd r, hd r] else [hd r])"
  by (cases r; cases "tl r") (auto simp: startsWith_iff)

lemma prefix_of_suffix:
  "startsWith r (if r \<noteq> [] \<and> hd r = c \<and> takeWhile P (tl r) \<noteq> [] then c # takeWhile P (tl r) else [])"
  by (cases r) (auto simp: startsWith_iff, (metis takeWhile_dropWhile_id)+)

lemma startsWith_extended: "startsWith us p \<Longrightarrow> startsWith (drop (length p) us) q \<Longrightarrow> startsWith us (p @ q)"
  by (auto simp: startsWith_iff)

lemma redirectionOf_startsWith:
  assumes "redirectionOf us = Some m"
  shows "startsWith us m"
proof -
  define p where "p = (if us \<noteq> [] \<and> hd us = STAR then [STAR] else takeWhile is_ascii_digit us)"
  define r where "r = drop (length p) us"
  define arrows where "arrows = (if tl r \<noteq> [] \<and> hd (tl r) = hd r then [hd r, hd r] else [hd r])"
  define after where "after = drop (length arrows) r"
  define suffix where "suffix = (if after \<noteq> [] \<and> hd after = AMPERSAND \<and> takeWhile is_ascii_digit (tl after) \<noteq> []
    then AMPERSAND # takeWhile is_ascii_digit (tl after) else [])"
  from assms have m: "m = p @ arrows @ suffix" and r: "r \<noteq> []"
    unfolding redirectionOf_def Let_def
    by (simp_all only: p_def [symmetric] r_def [symmetric] arrows_def [symmetric] after_def [symmetric] suffix_def [symmetric]
        split: if_splits) auto
  have "startsWith r (arrows @ suffix)"
    using prefix_of_pair [OF r] prefix_of_suffix [of after AMPERSAND is_ascii_digit]
    by (intro startsWith_extended) (simp_all only: arrows_def [symmetric] after_def [symmetric] suffix_def [symmetric])
  moreover have "startsWith us p" unfolding p_def by (rule prefix_of_run)
  ultimately show ?thesis unfolding m by (simp add: r_def startsWith_extended)
qed

lemma slice_startsWith: "startsWith (drop i s) m \<Longrightarrow> slice s i (i + length m) = m"
  by (simp add: slice_def startsWith_def)

lemma plainToken_ok:
  assumes "startsWith (drop i s) m" "m \<noteq> []" "kind = OperatorToken \<or> kind = RedirectionToken"
  shows "tokenOk s (plainToken kind i m)"
  using assms slice_startsWith [OF assms(1)] by (auto simp: tokenOk_def plainToken_def)

lemma redirectionAt_startsWith: "redirectionAt s i = Some m \<Longrightarrow> startsWith (drop i s) m"
  by (simp add: redirectionAt_def redirectionOf_startsWith)

lemma pushToken_counted: "pushToken t a = Inr b \<Longrightarrow> counted a \<Longrightarrow> counted b"
  by (auto simp: pushToken_def counted_def split: if_splits)

text \<open>What one round of the scanner keeps, from a position the tokens cover.\<close>

definition scannedTo :: "ScanState \<Rightarrow> nat \<Rightarrow> bool" where
  "scannedTo a n \<longleftrightarrow> covers (st_text a) 0 (st_tokens a) n \<and> counted a \<and> reaches a n"

lemma scannedTo_push:
  assumes "pushToken t a = Inr b" "scannedTo a i" "tok_start t = i" "tokenOk (st_text a) t" "reaches a (tok_end t)"
  shows "scannedTo b (tok_end t)"
  using assms pushToken_Inr [OF assms(1)] pushToken_counted [OF assms(1)] covers_snoc [of "st_text a" 0 "st_tokens a" t]
  by (auto simp: scannedTo_def reaches_def)

lemma scanWord_scannedTo:
  assumes "scanWord dialect i a = Inr (b, n)" "scannedTo a i" "i < length (st_text a)" "\<not> endsWord (st_text a) i"
  shows "scannedTo b n \<and> st_text b = st_text a \<and> st_limits b = st_limits a"
proof -
  from assms(1) obtain c p l d q where loop: "scanWordLoop dialect a [] i i = Inr (c, p, n, l)"
    and flush: "flushLiteral l n p c = Inr (d, q)"
    and push: "pushToken \<lparr>tok_end = n, tok_kind = wordKind (literalPartValue q), tok_parts = q, tok_raw = slice (st_text d) i n, tok_start = i,
                 tok_value = literalPartValue q\<rparr> d = Inr b"
    unfolding scanWord_def bindR_Inr_iff Let_def
    by (auto simp: bindR_Inr_iff)
  from assms(2) have a: "counted a" "reaches a i" "covers (st_text a) 0 (st_tokens a) i" by (auto simp: scannedTo_def)
  from scanWordLoop_tiles [OF loop, of i] a have c: "sameSource a c" "tiles (st_text c) i p l" "l \<le> n" "counted c" "reaches c n"
    by (auto simp: sameSource_def)
  from flushLiteral_tiles [OF flush c(2-4)] have d: "tiles (st_text c) i q n" "counted d" "st_issues d = st_issues c" "sameSource c d"
    by auto
  have "i < n" using scanWordLoop_ge [OF loop] assms(3,4) by simp
  have kind: "wordKind v = WordToken \<or> wordKind v = EnvironmentAssignment" for v
    by (auto simp: wordKind_def split: option.splits)
  have "scannedTo d i" using a c d assms(3) by (auto simp: scannedTo_def sameSource_def reaches_def)
  from scannedTo_push [OF push this] \<open>i < n\<close> kind c d have "scannedTo b n"
    by (auto simp: tokenOk_def sameSource_def reaches_def)
  with pushToken_Inr [OF push] c(1) d(4) show ?thesis by (simp add: sameSource_def)
qed

lemma scanStep_scannedTo:
  assumes "scanStep dialect a i = Inr (b, n)" "scannedTo a i" "i < length (st_text a)"
  shows "scannedTo b n \<and> st_text b = st_text a \<and> st_limits b = st_limits a"
proof (cases "isSpace (st_text a ! i)")
  case True
  with assms have "b = a" "n = i + 1" by (auto simp: scanStep_def)
  with assms True covers_space show ?thesis by (auto simp: scannedTo_def reaches_def)
next
  case space: False
  have plain: "scannedTo b n \<and> st_text b = st_text a \<and> st_limits b = st_limits a"
    if "bindR (pushToken (plainToken kind i m) a) (\<lambda>c. Inr (c, i + length m)) = Inr (b, n)"
      "startsWith (drop i (st_text a)) m" "m \<noteq> []" "kind = OperatorToken \<or> kind = RedirectionToken" for kind m
  proof -
    from that(1) have push: "pushToken (plainToken kind i m) a = Inr b" and n: "n = i + length m"
      by (auto simp: bindR_Inr_iff)
    have "i + length m \<le> length (st_text a)"
      using startsAt_length [of "st_text a" m i] that(2,3) by (simp add: startsAt_def)
    then have "reaches a (tok_end (plainToken kind i m))" by (simp add: plainToken_def reaches_def)
    from scannedTo_push [OF push assms(2) _ plainToken_ok [OF that(2-4)] this] pushToken_Inr [OF push] n show ?thesis
      by (simp add: plainToken_def)
  qed
  show ?thesis
  proof (cases "redirectionAt (st_text a) i")
    case (Some m)
    with assms(1) space show ?thesis
      by (intro plain [of RedirectionToken m]) (auto simp: scanStep_def redirectionAt_startsWith redirectionAt_length)
  next
    case red: None
    show ?thesis
    proof (cases "operatorAt (st_text a) i")
      case (Some m)
      with assms(1) space red operatorAt_length [OF Some] show ?thesis
        by (intro plain [of OperatorToken m]) (auto simp: scanStep_def startsAt_def)
    next
      case None
      with red space have "\<not> endsWord (st_text a) i" by (simp add: endsWord_def)
      moreover have "scanWord dialect i a = Inr (b, n)" using assms(1) red None space by (simp add: scanStep_def)
      ultimately show ?thesis using scanWord_scannedTo assms(2,3) by blast
    qed
  qed
qed

lemma scanLoop_scannedTo:
  "scanLoop dialect a i = Inr b \<Longrightarrow> scannedTo a i \<Longrightarrow>
   \<exists>n. length (st_text a) \<le> n \<and> scannedTo b n \<and> st_text b = st_text a \<and> st_limits b = st_limits a"
proof (induction dialect a i rule: scanLoop.induct)
  case (1 dialect a i)
  show ?case
  proof (cases "length (st_text a) \<le> i")
    case True
    with 1 show ?thesis by (subst (asm) scanLoop.simps) auto
  next
    case False
    with 1(2) obtain c m where step: "scanStep dialect a i = Inr (c, m)" and rec: "scanLoop dialect c m = Inr b"
      by (subst (asm) scanLoop.simps) (auto split: sum.splits)
    from scanStep_scannedTo [OF step 1(3)] False have c: "scannedTo c m" "st_text c = st_text a" "st_limits c = st_limits a" by auto
    from 1(1) [OF False step refl rec c(1)] c show ?thesis by auto
  qed
qed

lemma scan_covers:
  assumes "scan s dialect limits = Inr b"
  shows "\<exists>n. length s \<le> n \<and> scannedTo b n \<and> st_text b = s \<and> st_limits b = limits"
  using scanLoop_scannedTo [OF assms [unfolded scan_def]] by (simp add: scannedTo_def slice_def counted_def reaches_def)

subsection \<open>Text within the limits is lexed\<close>

definition fits :: "jstring \<Rightarrow> CommandLexerLimits \<Rightarrow> bool" where
  "fits s limits \<longleftrightarrow>
     length s \<le> limits maximumTokens \<and> length s \<le> limits maximumParts \<and> length s \<le> limits maximumIssues \<and>
     length (filter (\<lambda>u. u = DOLLAR) s) \<le> limits maximumNesting"

text \<open>No more parts and issues than positions passed.\<close>

definition roomy :: "ScanState \<Rightarrow> nat \<Rightarrow> bool" where
  "roomy a i \<longleftrightarrow>
     fits (st_text a) (st_limits a) \<and> st_partCount a \<le> i \<and> length (st_issues a) \<le> i \<and>
     length (st_issues a) \<le> length (st_text a) \<and> length (st_tokens a) \<le> length (st_text a)"

lemma addPart_returns:
  assumes "roomy a i" "i < length (st_text a)" "i < n"
  shows "\<exists>b parts'. addPart parts kind j n v a = Inr (b, parts') \<and> roomy b n"
  using assms by (auto simp: addPart_def roomy_def fits_def)

lemma flushLiteral_returns:
  assumes "roomy a l" "l \<le> i" "i < length (st_text a) \<or> (l < i \<longrightarrow> l < length (st_text a))"
  shows "\<exists>b parts'. flushLiteral l i parts a = Inr (b, parts') \<and> roomy b i"
  using assms by (auto simp: flushLiteral_def addPart_def roomy_def fits_def)

lemma scanQuoted_returns:
  assumes "roomy a i" "i < length (st_text a)"
  shows "\<exists>b parts' n. scanQuoted dialect quote i parts a = Inr (b, parts', n) \<and> roomy b n"
proof -
  let ?r = "quoteEnd (st_text a) dialect quote (i + 1)"
  have "i < ?r" using quoteEnd_ge [of "i + 1"] by (simp add: Suc_le_eq)
  with assms show ?thesis
    by (auto simp: scanQuoted_def Let_def addIssue_def addPart_def roomy_def fits_def)
qed

lemma scanEscape_returns:
  assumes "roomy a i" "i < length (st_text a)"
  shows "\<exists>b parts' n. scanEscape i parts a = Inr (b, parts', n) \<and> roomy b n"
  using assms by (auto simp: scanEscape_def Let_def addIssue_def addPart_def roomy_def fits_def)

lemma scanBacktick_returns:
  assumes "roomy a i" "i < length (st_text a)"
  shows "\<exists>b parts' n. scanBacktick i parts a = Inr (b, parts', n) \<and> roomy b n"
proof -
  have "i < backtickEnd (st_text a) (i + 1)" using backtickEnd_ge [of "i + 1"] by (simp add: Suc_le_eq)
  with assms show ?thesis
    by (auto simp: scanBacktick_def Let_def addIssue_def addPart_def roomy_def fits_def)
qed

text \<open>The dollar signs still to come bound how much deeper a substitution can go.\<close>

definition dollars :: "jstring \<Rightarrow> nat \<Rightarrow> nat" where
  "dollars s i = length (filter (\<lambda>u. u = DOLLAR) (drop i s))"

lemma dollars_mono: "i \<le> j \<Longrightarrow> dollars s j \<le> dollars s i"
proof -
  assume "i \<le> j"
  then have "drop i s = take (j - i) (drop i s) @ drop j s" by (metis append_take_drop_id drop_drop le_add_diff_inverse2)
  then show ?thesis unfolding dollars_def by (metis filter_append length_append le_add2)
qed

lemma dollars_open: "startsAt s [DOLLAR, OPEN_PAREN] i \<Longrightarrow> dollars s (i + 2) + 1 = dollars s i"
proof -
  assume "startsAt s [DOLLAR, OPEN_PAREN] i"
  then obtain r where r: "drop i s = DOLLAR # OPEN_PAREN # r" by (auto simp: startsAt_def startsWith_iff)
  then have "drop (i + 2) s = r" by (metis drop_drop add.commute drop_Suc_Cons drop0 numeral_2_eq_2)
  with r show ?thesis by (simp add: dollars_def)
qed

lemma readBalancedLoop_returns:
  "depth + dollars s i \<le> limits maximumNesting \<Longrightarrow> op = [DOLLAR, OPEN_PAREN] \<Longrightarrow>
   \<exists>found. readBalancedLoop s limits op cl depth quote i = Inr found"
proof (induction s limits op cl depth quote i rule: readBalancedLoop.induct)
  case (1 s limits op cl depth quote i)
  show ?case
  proof (cases "length s \<le> i")
    case True
    then show ?thesis by (subst readBalancedLoop.simps) simp
  next
    case False
    note IH = 1(1-5) [OF False refl]
    have later: "d + dollars s j \<le> limits maximumNesting" if "i \<le> j" "d \<le> depth" for d j
      using dollars_mono [OF that(1), of s] that(2) 1(6) by linarith
    show ?thesis
    proof (cases quote)
      case (Some q)
      with False IH(5) [OF Some refl refl _ 1(7)] later show ?thesis
        by (subst readBalancedLoop.simps) (auto simp: Let_def)
    next
      case None
      consider (q) "s ! i = SQUOTE \<or> s ! i = DQUOTE"
        | (deeper) "\<not> (s ! i = SQUOTE \<or> s ! i = DQUOTE)" "startsAt s op i"
        | (up) "\<not> (s ! i = SQUOTE \<or> s ! i = DQUOTE)" "\<not> startsAt s op i" "startsAt s cl i"
        | (other) "\<not> (s ! i = SQUOTE \<or> s ! i = DQUOTE)" "\<not> startsAt s op i" "\<not> startsAt s cl i"
        by blast
      then show ?thesis
      proof cases
        case q
        from IH(1) [OF None q later 1(7)] False None q show ?thesis
          by (subst readBalancedLoop.simps) (simp add: Let_def)
      next
        case deeper
        have d: "depth + 1 + dollars s (i + max 1 (length op)) \<le> limits maximumNesting"
          using dollars_open [of s i] deeper(2) 1(6,7) by simp
        then have "\<not> limits maximumNesting < depth + 1" by linarith
        from IH(2) [OF None deeper this d 1(7)] this False None deeper show ?thesis
          by (subst readBalancedLoop.simps) (simp add: Let_def)
      next
        case up
        from IH(3) [OF None up _ later 1(7)] False None up show ?thesis
          by (subst readBalancedLoop.simps) (simp add: Let_def)
      next
        case other
        from IH(4) [OF None other later 1(7)] False None other show ?thesis
          by (subst readBalancedLoop.simps) (simp add: Let_def)
      qed
    qed
  qed
qed

lemma scanSubstitution_returns:
  assumes "roomy a i" "i < length (st_text a)" "startsAt (st_text a) [DOLLAR, OPEN_PAREN] i"
  shows "\<exists>b parts' n. scanSubstitution i parts a = Inr (b, parts', n) \<and> roomy b n"
proof -
  have "dollars (st_text a) 0 \<le> st_limits a maximumNesting" using assms(1) by (simp add: roomy_def fits_def dollars_def)
  then have "1 + dollars (st_text a) (i + length [DOLLAR, OPEN_PAREN]) \<le> st_limits a maximumNesting"
    using dollars_open [OF assms(3)] dollars_mono [of 0 i "st_text a"] by simp
  then obtain found where found: "readBalancedLoop (st_text a) (st_limits a) [DOLLAR, OPEN_PAREN] [CLOSE_PAREN] 1 None
      (i + length [DOLLAR, OPEN_PAREN]) = Inr found" using readBalancedLoop_returns by blast
  show ?thesis
  proof (cases found)
    case None
    with assms found show ?thesis
      by (auto simp: scanSubstitution_def readBalanced_def addIssue_def addPart_def roomy_def fits_def simp del: One_nat_def)
  next
    case (Some e)
    with readBalancedLoop_gt [OF found [unfolded Some]] assms found show ?thesis
      by (auto simp: scanSubstitution_def readBalanced_def addPart_def roomy_def fits_def simp del: One_nat_def)
  qed
qed

lemma scanExpansion_returns:
  assumes "roomy a i" "i < length (st_text a)" "m \<noteq> []"
  shows "\<exists>b parts' n. scanExpansion m i parts a = Inr (b, parts', n) \<and> roomy b n"
proof -
  have "i < i + length m" using assms(3) by simp
  from addPart_returns [OF assms(1,2) this, of parts VariableExpansion i None] show ?thesis
    by (auto simp: scanExpansion_def)
qed

lemma specialPart_returns:
  assumes "roomy a l" "l \<le> i" "i < length (st_text a)"
    and "\<And>c p. roomy c i \<Longrightarrow> st_text c = st_text a \<Longrightarrow> \<exists>b parts' n. scanPart p c = Inr (b, parts', n) \<and> roomy b n"
  shows "\<exists>b parts' n. specialPart scanPart a parts i l = Inr (b, parts', n, n) \<and> roomy b n"
proof -
  from flushLiteral_returns [OF assms(1,2)] assms(3) obtain c p where c: "flushLiteral l i parts a = Inr (c, p)" "roomy c i" by blast
  then have "st_text c = st_text a" using flushLiteral_Inr [OF c(1)] by (simp add: sameSource_def)
  from assms(4) [OF c(2) this] obtain b parts' n where "scanPart p c = Inr (b, parts', n)" "roomy b n" by blast
  with c show ?thesis by (simp add: specialPart_def)
qed

lemma wordStep_returns:
  assumes "roomy a l" "l \<le> i" "i < length (st_text a)"
  shows "\<exists>b parts' n k. wordStep dialect a parts i l = Inr (b, parts', n, k) \<and> roomy b k \<and> k \<le> n \<and>
    (k < n \<longrightarrow> n \<le> length (st_text a))"
proof -
  define R where "R x \<longleftrightarrow> (\<exists>b parts' n k. x = Inr (b, parts', n, k) \<and> roomy b k \<and> k \<le> n \<and> (k < n \<longrightarrow> n \<le> length (st_text a)))"
    for x :: "CommandLexerErrorCode + ScanState \<times> CommandWordPart list \<times> nat \<times> nat"
  have special: "R (specialPart scanPart a parts i l)"
    if "\<And>c p. roomy c i \<Longrightarrow> st_text c = st_text a \<Longrightarrow> \<exists>b parts' n. scanPart p c = Inr (b, parts', n) \<and> roomy b n"
    for scanPart
    unfolding R_def using specialPart_returns [OF assms(1-3), of scanPart parts, OF that] by blast
  have x: "R (case expansionAt (st_text a) i dialect of
      None \<Rightarrow> Inr (a, parts, i + 1, l) | Some m \<Rightarrow> specialPart (scanExpansion m i) a parts i l)"
  proof (cases "expansionAt (st_text a) i dialect")
    case None
    with assms show ?thesis by (simp add: R_def)
  next
    case (Some m)
    then have "m \<noteq> []" using expansionAt_prefix by blast
    with Some show ?thesis by (auto intro!: special scanExpansion_returns simp: assms(3))
  qed
  have q: "R (specialPart (scanQuoted dialect c i) a parts i l)" for c
    by (rule special) (simp add: scanQuoted_returns assms(3))
  have e: "R (specialPart (scanEscape i) a parts i l)" by (rule special) (simp add: scanEscape_returns assms(3))
  have t: "R (specialPart (scanBacktick i) a parts i l)" by (rule special) (simp add: scanBacktick_returns assms(3))
  have "R (specialPart (scanSubstitution i) a parts i l)" if "startsAt (st_text a) [DOLLAR, OPEN_PAREN] i"
    by (rule special) (simp add: scanSubstitution_returns assms(3) that)
  with q e t x have "R (wordStep dialect a parts i l)"
    unfolding wordStep_def Let_def by presburger
  then show ?thesis by (simp add: R_def)
qed

lemma scanWordLoop_returns:
  "roomy a l \<Longrightarrow> l \<le> i \<Longrightarrow> (l < i \<longrightarrow> i \<le> length (st_text a)) \<Longrightarrow>
   \<exists>b parts' n k. scanWordLoop dialect a parts i l = Inr (b, parts', n, k) \<and> roomy b k \<and> k \<le> n \<and>
     (k < n \<longrightarrow> n \<le> length (st_text a))"
proof (induction dialect a parts i l rule: scanWordLoop.induct)
  case (1 dialect a parts i l)
  show ?case
  proof (cases "length (st_text a) \<le> i \<or> endsWord (st_text a) i")
    case True
    with 1(2-4) show ?thesis by (subst scanWordLoop.simps) auto
  next
    case False
    then have i: "i < length (st_text a)" by simp
    from wordStep_returns [OF 1(2,3) i] obtain c p m j where
      step: "wordStep dialect a parts i l = Inr (c, p, m, j)" "roomy c j" "j \<le> m" "j < m \<longrightarrow> m \<le> length (st_text a)" by blast
    have "st_text c = st_text a" using wordStep_progress [OF step(1) i] by (simp add: sameSource_def)
    with 1(1) [OF False step(1) refl refl refl step(2,3)] step(1,4) False show ?thesis
      by (subst scanWordLoop.simps) simp
  qed
qed

lemma scanWord_returns:
  assumes "roomy a i" "length (st_tokens a) \<le> i" "i < length (st_text a)" "\<not> endsWord (st_text a) i"
  shows "\<exists>b n. scanWord dialect i a = Inr (b, n) \<and> roomy b n \<and> length (st_tokens b) \<le> n"
proof -
  from scanWordLoop_returns [OF assms(1) order_refl, of dialect "[]"] obtain c p n k where
    loop: "scanWordLoop dialect a [] i i = Inr (c, p, n, k)" "roomy c k" "k \<le> n" "k < n \<longrightarrow> n \<le> length (st_text a)" by auto
  have c: "sameSource a c" "i < n" using scanWordLoop_ge [OF loop(1)] assms(3,4) by auto
  from flushLiteral_returns [OF loop(2,3), of p] loop(4) c obtain d q where
    d: "flushLiteral k n p c = Inr (d, q)" "roomy d n" by (auto simp: sameSource_def)
  have "st_tokens d = st_tokens a" "st_limits d = st_limits a" "st_text d = st_text a" using c(1) flushLiteral_Inr [OF d(1)] by (simp_all add: sameSource_def)
  moreover have "length (st_tokens a) < st_limits a maximumTokens" using assms(1-3) by (simp add: roomy_def fits_def)
  ultimately show ?thesis
    using loop(1) d c(2) assms(2,3) by (auto simp: scanWord_def Let_def pushToken_def roomy_def)
qed

lemma scanStep_returns:
  assumes "roomy a i" "length (st_tokens a) \<le> i" "i < length (st_text a)"
  shows "\<exists>b n. scanStep dialect a i = Inr (b, n) \<and> roomy b n \<and> length (st_tokens b) \<le> n"
proof -
  have push: "\<exists>b n. bindR (pushToken (plainToken kind i m) a) (\<lambda>c. Inr (c, i + length m)) = Inr (b, n) \<and> roomy b n \<and>
      length (st_tokens b) \<le> n" if "m \<noteq> []" for kind m
  proof -
    have "length (st_tokens a) < st_limits a maximumTokens" using assms by (simp add: roomy_def fits_def)
    moreover have "Suc i \<le> i + length m" using that by (cases m) auto
    ultimately show ?thesis using assms by (auto simp: pushToken_def roomy_def)
  qed
  have word: "\<exists>b n. scanWord dialect i a = Inr (b, n) \<and> roomy b n \<and> length (st_tokens b) \<le> n"
    if "\<not> isSpace (st_text a ! i)" "redirectionAt (st_text a) i = None" "operatorAt (st_text a) i = None"
    using scanWord_returns [OF assms] that by (simp add: endsWord_def)
  have "roomy a (i + 1)" using assms(1) by (simp add: roomy_def)
  with assms(2) push word show ?thesis
    by (auto simp: scanStep_def Let_def redirectionAt_length dest: operatorAt_length split: option.splits)
qed

lemma scanLoop_returns:
  "roomy a i \<Longrightarrow> length (st_tokens a) \<le> i \<Longrightarrow> \<exists>b n. scanLoop dialect a i = Inr b \<and> roomy b n"
proof (induction dialect a i rule: scanLoop.induct)
  case (1 dialect a i)
  show ?case
  proof (cases "length (st_text a) \<le> i")
    case True
    with 1(2,3) show ?thesis by (subst scanLoop.simps) auto
  next
    case False
    then have i: "i < length (st_text a)" by simp
    from scanStep_returns [OF 1(2,3) i] obtain c m where
      c: "scanStep dialect a i = Inr (c, m)" "roomy c m" "length (st_tokens c) \<le> m" by blast
    from 1(1) [OF False c(1) refl c(2,3)] c(1) False show ?thesis by (subst scanLoop.simps) auto
  qed
qed

lemma scan_returns:
  assumes "fits s limits"
  shows "\<exists>b. scan s dialect limits = Inr b \<and> length (st_issues b) \<le> length s \<and> length (st_tokens b) \<le> length s"
proof -
  let ?a = "\<lparr>st_issues = [], st_limits = limits, st_text = s, st_tokens = [], st_partCount = 0\<rparr>"
  have "roomy ?a 0" using assms by (simp add: roomy_def)
  from scanLoop_returns [OF this, of dialect] obtain b n where b: "scan s dialect limits = Inr b" "roomy b n"
    by (auto simp: scan_def)
  from scan_covers [OF b(1)] b show ?thesis by (auto simp: roomy_def)
qed

subsection \<open>Groups\<close>

lemma groupTokens_concat: "concat (groupTokens ts) = filter (\<lambda>t. tok_kind t \<noteq> OperatorToken) ts"
proof -
  have "groupTokens ts \<noteq> [] \<and> concat (groupTokens ts) = filter (\<lambda>t. tok_kind t \<noteq> OperatorToken) ts"
  proof (induction ts rule: rev_induct)
    case Nil
    show ?case by (simp add: groupTokens_def)
  next
    case (snoc t ts)
    have step: "groupTokens (ts @ [t]) =
      (if tok_kind t = OperatorToken then (if last (groupTokens ts) \<noteq> [] then groupTokens ts @ [[]] else groupTokens ts)
       else butlast (groupTokens ts) @ [last (groupTokens ts) @ [t]])" by (simp add: groupTokens_def)
    from snoc have "concat (groupTokens ts) = concat (butlast (groupTokens ts)) @ last (groupTokens ts)"
      by (metis append_butlast_last_id concat_append concat.simps append_Nil2)
    with snoc show ?case unfolding step by auto
  qed
  then show ?thesis ..
qed

lemma nonempty_groups: "length (filter (\<lambda>g. g \<noteq> []) gs) \<le> length (concat gs)"
proof (induction gs)
  case (Cons g gs)
  then show ?case by (cases g) auto
qed simp

lemma buildInvocations_returns:
  assumes "length (st_tokens a) \<le> st_limits a maximumInvocations"
  shows "\<exists>invocations. buildInvocations toLowerCase a dialect = Inr invocations"
proof -
  have "length (filter (\<lambda>g. g \<noteq> []) (groupTokens (st_tokens a))) \<le> length (st_tokens a)"
    using nonempty_groups [of "groupTokens (st_tokens a)"] length_filter_le [of "\<lambda>t. tok_kind t \<noteq> OperatorToken" "st_tokens a"]
    unfolding groupTokens_concat by linarith
  with assms show ?thesis by (simp add: buildInvocations_def Let_def)
qed

text \<open>The parts of a successful run.\<close>

abbreviation inferenceFor :: "CommandLexerInput \<Rightarrow> DialectInference" where
  "inferenceFor input \<equiv> inferDialect (in_text input) (in_dialect input)"

lemma validateInput_text: "validateInput raw = Inr input \<Longrightarrow> in_text input = in_text raw \<and> in_dialect input = in_dialect raw"
  by (auto simp: validateInput_def Let_def bindR_Inr_iff)

lemma inferenceIssue_cases:
  assumes "inferenceIssue inference a = Inr b"
  shows "b = a \<or> (\<exists>message. addIssue 0 (length (st_text a)) message AmbiguousDialect a = Inr b)"
  using assms by (auto simp: inferenceIssue_def split: option.splits)

lemma lex_Inr:
  assumes "lexCommandEvidence toLowerCase raw options = Inr res"
  obtains input limits scanned state where "validateInput raw = Inr input" "validateOptions options = Inr limits"
    "scan (in_text raw) (dialectOf (inferenceFor raw)) limits = Inr scanned"
    "inferenceIssue (inferenceFor raw) scanned = Inr state"
    "lr_tokens res = st_tokens state" "lr_issues res = st_issues state" "lr_limits res = limits"
    "me_partCount (lr_metrics res) = st_partCount state"
proof -
  from assms obtain input limits where input: "validateInput raw = Inr input" and limits: "validateOptions options = Inr limits"
    unfolding lexCommandEvidence_def bindR_Inr_iff by blast
  have same: "in_text input = in_text raw" "in_dialect input = in_dialect raw" using validateInput_text [OF input] by auto
  show thesis
    using assms unfolding lexCommandEvidence_def input limits bindR.simps checkR_Inr_iff Let_def same
    by (auto simp: bindR_Inr_iff intro: that [OF input limits])
qed

subsection \<open>Quoted words\<close>

definition quoteWord :: "jstring \<Rightarrow> jstring" where
  "quoteWord w = SQUOTE # w @ [SQUOTE]"

definition quotedCommand :: "jstring list \<Rightarrow> jstring" where
  "quotedCommand ws = join_with 32 (map quoteWord ws)"

lemma nth_drop_Cons: "drop i s = c # r \<Longrightarrow> s ! i = c \<and> i < length s \<and> drop (i + 1) s = r"
  by (metis Suc_eq_plus1 drop_eq_Nil2 hd_drop_conv_nth list.sel(1) list.sel(3) list.simps(3) not_le tl_drop drop_Suc)

lemma quoteEnd_quoted:
  "drop i s = w @ SQUOTE # r \<Longrightarrow> SQUOTE \<notin> set w \<Longrightarrow> quoteEnd s dialect SQUOTE i = i + length w"
proof (induction w arbitrary: i)
  case Nil
  then show ?case by (subst quoteEnd.simps) (auto dest!: nth_drop_Cons)
next
  case (Cons c w)
  from Cons.prems have c: "s ! i = c" "i < length s" "drop (i + 1) s = w @ SQUOTE # r" by (auto dest!: nth_drop_Cons)
  have "quoteNext s dialect SQUOTE i = i + 1" by (simp add: quoteNext_def)
  with c Cons show ?case by (subst quoteEnd.simps) auto
qed

lemma endsWord_quote: "s ! i = SQUOTE \<Longrightarrow> i < length s \<Longrightarrow> \<not> endsWord s i"
proof -
  assume i: "s ! i = SQUOTE" "i < length s"
  then obtain r where r: "drop i s = SQUOTE # r" by (metis Cons_nth_drop_Suc)
  have "redirectionAt s i = None" by (simp add: redirectionAt_def redirectionOf_def r is_ascii_digit_def)
  moreover have "operatorAt s i = None"
    by (simp add: operatorAt_def OPERATORS_def startsAt_def r startsWith_def)
  ultimately show ?thesis using i by (simp add: endsWord_def isSpace_def)
qed

lemma scanWord_quoted:
  assumes src: "drop i (st_text a) = quoteWord w @ r" "SQUOTE \<notin> set w" "r = [] \<or> hd r = 32"
    and run: "scanWord PosixShell i a = Inr (b, n)"
  shows "n = i + length (quoteWord w) \<and> st_issues b = st_issues a \<and> st_text b = st_text a \<and>
    (\<exists>t. st_tokens b = st_tokens a @ [t] \<and> tok_value t = Some w \<and> tok_kind t = wordKind (Some w))"
proof -
  let ?s = "st_text a" and ?e = "i + length w + 1"
  have drop: "drop i ?s = SQUOTE # w @ SQUOTE # r" using src(1) by (simp add: quoteWord_def)
  then have i: "?s ! i = SQUOTE" "i < length ?s" "drop (i + 1) ?s = w @ SQUOTE # r" by (auto dest!: nth_drop_Cons)
  have rest: "drop ?e ?s = SQUOTE # r"
  proof -
    have "drop ?e ?s = drop (length w) (drop (i + 1) ?s)" by (simp add: add.commute add.left_commute)
    also have "\<dots> = SQUOTE # r" unfolding i(3) by simp
    finally show ?thesis .
  qed
  have e: "?s ! ?e = SQUOTE" "?e < length ?s" "drop (?e + 1) ?s = r" using nth_drop_Cons [OF rest] by auto
  have reached: "quoteEnd ?s PosixShell SQUOTE (i + 1) = ?e" using quoteEnd_quoted [OF i(3) src(2)] by simp
  have "slice ?s (i + 1) ?e = w" using i(3) by (simp add: slice_def)
  then have raw: "slice ?s (i + 1) (max (i + 1) (?e + 1 - (if charAt ?s (?e + 1 - 1) = Some SQUOTE then 1 else 0))) = w"
    using e by (simp add: charAt_def max_def)
  have ends: "length ?s \<le> ?e + 1 \<or> endsWord ?s (?e + 1)"
  proof (cases r)
    case (Cons u us)
    with src(3) have "drop (?e + 1) ?s = 32 # us" unfolding e(3) by simp
    from nth_drop_Cons [OF this] have "?s ! (?e + 1) = 32" by blast
    then show ?thesis by (simp add: endsWord_def isSpace_def)
  qed (use e(3) in simp)
  from run obtain c p k l d q where loop: "scanWordLoop PosixShell a [] i i = Inr (c, p, k, l)"
    and flush: "flushLiteral l k p c = Inr (d, q)" and n: "n = k"
    and push: "pushToken \<lparr>tok_end = k, tok_kind = wordKind (literalPartValue q), tok_parts = q,
        tok_raw = slice (st_text d) i k, tok_start = i, tok_value = literalPartValue q\<rparr> d = Inr b"
    unfolding scanWord_def bindR_Inr_iff Let_def by (auto simp: bindR_Inr_iff)
  from loop endsWord_quote [OF i(1,2)] i obtain c' p' m j where
    step: "wordStep PosixShell a [] i i = Inr (c', p', m, j)" and loop': "scanWordLoop PosixShell c' p' m j = Inr (c, p, k, l)"
    by (subst (asm) scanWordLoop.simps) (auto split: sum.splits)
  from step i have quoted: "scanQuoted PosixShell SQUOTE i [] a = Inr (c', p', m)" "j = m"
    by (auto simp: wordStep_def Let_def specialPart_def flushLiteral_def bindR_Inr_iff)
  have "\<not> length ?s \<le> ?e" using e(2) by simp
  note scanned = quoted(1) [unfolded scanQuoted_def Let_def reached if_not_P [OF this] bindR.simps prod.case raw]
  from scanned have c': "addPart [] SingleQuoted i (?e + 1) (Some w) a = Inr (c', p')" "m = ?e + 1"
    by (auto simp: bindR_Inr_iff)
  have "st_text c' = ?s" using addPart_state [OF c'(1)] by simp
  with loop' ends c'(2) quoted(2) have c: "c = c'" "p = p'" "k = ?e + 1" "l = ?e + 1"
    by (subst (asm) scanWordLoop.simps, simp)+
  with flush have d: "d = c'" "q = p'" by (auto simp: flushLiteral_def)
  have "literalPartValue p' = Some w" using c'(1) by (auto simp: addPart_def literalPartValue_def split: if_splits)
  with push pushToken_Inr [OF push] d c n addPart_state [OF c'(1)] show ?thesis by (simp add: quoteWord_def)
qed

lemma scanLoop_quoted:
  "drop i (st_text a) = quotedCommand ws \<Longrightarrow> \<forall>w\<in>set ws. SQUOTE \<notin> set w \<Longrightarrow> scanLoop PosixShell a i = Inr b \<Longrightarrow>
   st_issues b = st_issues a \<and> map tok_value (st_tokens b) = map tok_value (st_tokens a) @ map Some ws \<and>
   map tok_kind (st_tokens b) = map tok_kind (st_tokens a) @ map (\<lambda>w. wordKind (Some w)) ws"
proof (induction ws arbitrary: i a)
  case Nil
  then show ?case by (subst (asm) scanLoop.simps) (auto simp: quotedCommand_def)
next
  case (Cons w ws)
  define r where "r = (if ws = [] then [] else 32 # quotedCommand ws)"
  have src: "drop i (st_text a) = quoteWord w @ r"
    using Cons.prems(1) by (cases ws) (auto simp: quotedCommand_def r_def)
  then have i: "st_text a ! i = SQUOTE" "i < length (st_text a)" by (auto simp: quoteWord_def dest!: nth_drop_Cons)
  have nospecial: "\<not> isSpace (st_text a ! i)" "redirectionAt (st_text a) i = None" "operatorAt (st_text a) i = None"
    using endsWord_quote [OF i] by (auto simp: endsWord_def)
  from Cons.prems(3) i nospecial obtain c n where
    c: "scanWord PosixShell i a = Inr (c, n)" "scanLoop PosixShell c n = Inr b"
    by (subst (asm) scanLoop.simps) (auto simp: scanStep_def split: sum.splits)
  have "SQUOTE \<notin> set w" "r = [] \<or> hd r = 32" using Cons.prems(2) by (auto simp: r_def)
  from scanWord_quoted [OF src this c(1)] obtain t where n: "n = i + length (quoteWord w)" and t: "st_issues c = st_issues a"
    "st_text c = st_text a" "st_tokens c = st_tokens a @ [t]" "tok_value t = Some w" "tok_kind t = wordKind (Some w)" by blast
  have rest: "drop n (st_text c) = r"
  proof -
    have "drop n (st_text c) = drop (length (quoteWord w)) (drop i (st_text a))" using t(2) n by (simp add: add.commute)
    also have "\<dots> = r" unfolding src by simp
    finally show ?thesis .
  qed
  show ?case
  proof (cases "ws = []")
    case True
    with rest c(2) have "b = c" by (subst (asm) scanLoop.simps) (simp add: r_def)
    with True t show ?thesis by simp
  next
    case False
    with rest have space: "st_text c ! n = 32" "n < length (st_text c)" "drop (n + 1) (st_text c) = quotedCommand ws"
      by (auto simp: r_def dest!: nth_drop_Cons)
    then have "scanLoop PosixShell c (n + 1) = Inr b"
      using c(2) by (subst (asm) scanLoop.simps) (simp add: scanStep_def isSpace_def)
    from Cons.IH [OF space(3) _ this] Cons.prems(2) t show ?thesis by simp
  qed
qed

lemma groupTokens_plain:
  assumes "\<forall>t\<in>set ts. tok_kind t \<noteq> OperatorToken"
  shows "groupTokens ts = [ts]"
  using assms by (induction ts rule: rev_induct) (simp_all add: groupTokens_def)

lemma groupLoop_words:
  "\<forall>t\<in>set ts. tok_kind t \<noteq> RedirectionToken \<Longrightarrow> ws \<noteq> [] \<Longrightarrow>
   groupLoop s ts environment redirections ws = (environment, redirections, ws @ ts)"
  by (induction ts arbitrary: ws) auto

lemma buildInvocation_words:
  assumes "ts \<noteq> []" "tok_kind (hd ts) = WordToken" "\<forall>t\<in>set ts. tok_kind t \<noteq> RedirectionToken"
    "map tok_value ts = map Some ws" "st_issues a = []"
  shows "inv_executable (buildInvocation toLowerCase a PosixShell ts) = Some (hd ws) \<and>
    inv_arguments (buildInvocation toLowerCase a PosixShell ts) = map Some (tl ws) \<and>
    inv_environment (buildInvocation toLowerCase a PosixShell ts) = [] \<and>
    inv_state (buildInvocation toLowerCase a PosixShell ts) = LiteralInvocation"
proof -
  obtain t us where ts: "ts = t # us" using assms(1) by (cases ts) auto
  have loop: "groupLoop (st_text a) ts [] [] [] = ([], [], ts)"
    using assms(2,3) groupLoop_words [of us "[t]"] by (simp add: ts)
  have v: "tok_value t = Some (hd ws)" "map tok_value us = map Some (tl ws)" using assms(4) by (cases ws; simp add: ts)+
  have "\<forall>x\<in>set us. tok_value x \<noteq> None" using v(2) by (metis imageE imageI list.set_map option.distinct(1))
  with v assms(5) show ?thesis
    unfolding buildInvocation_def loop by (auto simp: ts canonicalExecutable_def Let_def list_ex_iff)
qed

lemma lex_within_limits:
  assumes "validateInput raw = Inr input" "validateOptions options = Inr limits"
    and "fits (in_text raw) limits" "length (in_text raw) < limits maximumIssues"
    and "length (in_text raw) \<le> limits maximumInputLength" "length (in_text raw) \<le> limits maximumInvocations"
  shows "\<exists>res. lexCommandEvidence toLowerCase raw options = Inr res"
proof -
  have same: "in_text input = in_text raw" "in_dialect input = in_dialect raw" using validateInput_text [OF assms(1)] by auto
  from scan_returns [OF assms(3), of "dialectOf (inferenceFor raw)"] obtain scanned where
    scanned: "scan (in_text raw) (dialectOf (inferenceFor raw)) limits = Inr scanned" "length (st_issues scanned) \<le> length (in_text raw)"
    "length (st_tokens scanned) \<le> length (in_text raw)" by blast
  have l: "st_limits scanned = limits" using scan_covers [OF scanned(1)] by blast
  have "\<exists>state. inferenceIssue (inferenceFor raw) scanned = Inr state \<and> st_tokens state = st_tokens scanned \<and>
      st_limits state = limits"
    using scanned(2) assms(4) l by (auto simp: inferenceIssue_def addIssue_def split: option.split)
  then obtain state where state: "inferenceIssue (inferenceFor raw) scanned = Inr state"
    "st_tokens state = st_tokens scanned" "st_limits state = limits" by blast
  with buildInvocations_returns [of state toLowerCase "dialectOf (inferenceFor raw)"] scanned(3) assms(6) obtain invocations where
    "buildInvocations toLowerCase state (dialectOf (inferenceFor raw)) = Inr invocations" by auto
  with assms(1,2,5) scanned(1) state(1) show ?thesis
    by (simp add: lexCommandEvidence_def same checkR_def Let_def)
qed

subsection \<open>Properties\<close>

text \<open>
  C31. Tokens cover the text: in order, each token is the slice of its range, the parts of a word tile it
  and make up its value, and between tokens there is only white space; the counters respect the limits.
  The end is the end of the text when no issue is reported, and at most two positions behind it otherwise.
\<close>
theorem lex_tokens_cover:
  assumes "lexCommandEvidence toLowerCase input options = Inr res"
  shows "\<exists>n. length (in_text input) \<le> n \<and> n \<le> length (in_text input) + 2 \<and> covers (in_text input) 0 (lr_tokens res) n \<and>
    (lr_issues res = [] \<longrightarrow> n = length (in_text input)) \<and>
    length (lr_tokens res) \<le> lr_limits res maximumTokens \<and> length (lr_issues res) \<le> lr_limits res maximumIssues \<and>
    me_partCount (lr_metrics res) \<le> lr_limits res maximumParts"
  using assms
proof (rule lex_Inr)
  fix limits scanned state
  assume scanned: "scan (in_text input) (dialectOf (inferenceFor input)) limits = Inr scanned"
    and state: "inferenceIssue (inferenceFor input) scanned = Inr state"
    and res: "lr_tokens res = st_tokens state" "lr_issues res = st_issues state" "lr_limits res = limits"
      "me_partCount (lr_metrics res) = st_partCount state"
  from scan_covers [OF scanned] obtain n where n: "length (in_text input) \<le> n" "scannedTo scanned n"
    "st_text scanned = in_text input" "st_limits scanned = limits" by blast
  have "st_tokens state = st_tokens scanned \<and> st_partCount state = st_partCount scanned \<and>
      length (st_issues state) \<le> limits maximumIssues \<and> (st_issues state = [] \<longrightarrow> st_issues scanned = [])"
    using inferenceIssue_cases [OF state] n(2,4) addIssue_state [of 0 _ _ AmbiguousDialect scanned state] by (fastforce simp: scannedTo_def counted_def)
  with n res show ?thesis by (intro exI [of _ n]) (auto simp: scannedTo_def counted_def reaches_def)
qed

text \<open>
  C32. The lexer returns on texts that are short enough for every limit: with accepted input and options, a text
  whose length is at most the limits on input, tokens, parts and invocations and below the limit on issues (1,024 by
  default, the smallest of them), and that has no more dollar signs than the nesting limit, is lexed to a result. For
  longer texts no claim is made.
\<close>
theorem lex_returns:
  assumes "validateInput raw = Inr input" "validateOptions options = Inr limits"
    and "fits (in_text raw) limits" "length (in_text raw) < limits maximumIssues"
    and "length (in_text raw) \<le> limits maximumInputLength" "length (in_text raw) \<le> limits maximumInvocations"
  shows "\<exists>res. lexCommandEvidence toLowerCase raw options = Inr res"
  using assms by (rule lex_within_limits)

text \<open>
  C33. Single-quoted words are read back: under the POSIX dialect and for a text short enough for the limits, the
  text of words in single quotes, separated by spaces, is lexed to one literal invocation with the first word as
  executable and the others as arguments, whatever the words contain apart from single quotes, provided that the
  first does not look like an assignment.
\<close>
theorem lex_quoted_roundtrip:
  assumes "validateInput raw = Inr input" "validateOptions options = Inr limits"
    and "in_text raw = quotedCommand ws" "in_dialect raw = Resolved PosixShell"
    and "ws \<noteq> []" "\<forall>w\<in>set ws. SQUOTE \<notin> set w" "\<not> isAssignment (hd ws)"
    and "fits (quotedCommand ws) limits" "length (quotedCommand ws) \<le> limits maximumInputLength" "1 \<le> limits maximumInvocations"
  shows "\<exists>res invocation. lexCommandEvidence toLowerCase raw options = Inr res \<and> lr_issues res = [] \<and>
    map tok_value (lr_tokens res) = map Some ws \<and> lr_invocations res = [invocation] \<and>
    inv_executable invocation = Some (hd ws) \<and> inv_arguments invocation = map Some (tl ws) \<and>
    inv_environment invocation = [] \<and> inv_state invocation = LiteralInvocation"
proof -
  have same: "in_text input = quotedCommand ws" "in_dialect input = Resolved PosixShell"
    using validateInput_text [OF assms(1)] assms(3,4) by auto
  from scan_returns [OF assms(8), of PosixShell] obtain b where b: "scan (quotedCommand ws) PosixShell limits = Inr b" by blast
  have l: "st_limits b = limits" using scan_covers [OF b] by blast
  from scanLoop_quoted [OF _ assms(6) b [unfolded scan_def]] have
    t: "st_issues b = []" "map tok_value (st_tokens b) = map Some ws"
    "map tok_kind (st_tokens b) = map (\<lambda>w. wordKind (Some w)) ws" by auto
  have kinds: "\<forall>t\<in>set (st_tokens b). tok_kind t \<noteq> OperatorToken \<and> tok_kind t \<noteq> RedirectionToken"
  proof
    fix t assume "t \<in> set (st_tokens b)"
    then have "tok_kind t \<in> set (map (\<lambda>w. wordKind (Some w)) ws)" unfolding t(3) [symmetric] by simp
    then show "tok_kind t \<noteq> OperatorToken \<and> tok_kind t \<noteq> RedirectionToken" by (auto simp: wordKind_def)
  qed
  have ne: "st_tokens b \<noteq> []" using t(2) assms(5) by auto
  have first: "tok_kind (hd (st_tokens b)) = WordToken"
    using t(3) assms(5,7) by (cases ws; cases "st_tokens b") (auto simp: wordKind_def)
  have groups: "filter (\<lambda>g. g \<noteq> []) (groupTokens (st_tokens b)) = [st_tokens b]"
    using groupTokens_plain [of "st_tokens b"] kinds ne by simp
  have "buildInvocations toLowerCase b PosixShell = Inr [buildInvocation toLowerCase b PosixShell (st_tokens b)]"
    using assms(10) l by (simp add: buildInvocations_def groups)
  moreover have "\<forall>t\<in>set (st_tokens b). tok_kind t \<noteq> RedirectionToken" using kinds by blast
  note buildInvocation_words [OF ne first this t(2,1), of toLowerCase]
  ultimately show ?thesis
    using b assms(1,2,9) t(1,2) unfolding lexCommandEvidence_def by (simp add: same checkR_def inferDialect_def dialectOf_def inferenceIssue_def)
qed

text \<open>A command with its provenance, for the runs below.\<close>

definition sampleCommand :: "CommandDialect \<Rightarrow> jstring \<Rightarrow> CommandLexerInput" where
  "sampleCommand dialect s =
     (let position = \<lparr>pos_byteOffset = 0, pos_line = 0, pos_utf16Column = 0, pos_utf16Offset = 0\<rparr>
      in \<lparr>in_dialect = dialect,
          in_provenance = \<lparr>pv_collectorId = js ''scripts'', pv_factId = None,
            pv_source = \<lparr>loc_path = js ''a'', loc_start = position, loc_end = position\<rparr>, pv_sourceKind = CallerKind\<rparr>,
          in_text = s\<rparr>)"

lemma lex_sample_valid: "validateInput (sampleCommand dialect s) = Inr (sampleCommand dialect s)"
  by (simp add: validateInput_def sampleCommand_def Let_def boundedIdentifier_def is_alnum_def validateLocation_def
      validatePosition_def natural_def path_eval js_def unit_class)

lemma lex_sample_options: "validateOptions None = Inr COMMAND_LEXER_DEFAULT_LIMITS"
  by (simp add: validateOptions_def)

lemma lex_returns_witness:
  "\<exists>res. lexCommandEvidence id (sampleCommand AutoDialect (js ''echo $(date)'')) None = Inr res"
proof -
  have "in_text (sampleCommand AutoDialect (js ''echo $(date)'')) = js ''echo $(date)''" by (simp add: sampleCommand_def Let_def)
  then show ?thesis
    by (intro lex_returns [OF lex_sample_valid lex_sample_options]) (simp_all add: fits_def js_def)
qed

lemma lex_tokens_cover_witness:
  "\<exists>res n. lexCommandEvidence id (sampleCommand (Resolved PosixShell) (js ''x'')) None = Inr res \<and> length (js ''x'') \<le> n \<and>
     covers (js ''x'') 0 (lr_tokens res) n"
proof -
  let ?raw = "sampleCommand (Resolved PosixShell) (js ''x'')"
  have "in_text ?raw = js ''x''" by (simp add: sampleCommand_def Let_def)
  moreover from this have "\<exists>res. lexCommandEvidence id ?raw None = Inr res"
    by (intro lex_within_limits [OF lex_sample_valid lex_sample_options]) (simp_all add: fits_def js_def)
  ultimately show ?thesis using lex_tokens_cover by metis
qed

lemma lex_quoted_roundtrip_witness:
  "\<exists>res invocation. lexCommandEvidence id (sampleCommand (Resolved PosixShell) (quotedCommand [js ''rm'', js ''a b;$x''])) None = Inr res \<and>
     lr_invocations res = [invocation] \<and> inv_arguments invocation = [Some (js ''a b;$x'')]"
proof -
  let ?ws = "[js ''rm'', js ''a b;$x'']"
  let ?raw = "sampleCommand (Resolved PosixShell) (quotedCommand ?ws)"
  have "in_text ?raw = quotedCommand ?ws" "in_dialect ?raw = Resolved PosixShell" by (simp_all add: sampleCommand_def Let_def)
  moreover have "\<forall>w\<in>set ?ws. SQUOTE \<notin> set w" "\<not> isAssignment (hd ?ws)"
    by (simp_all add: js_def isAssignment_def wordUnit_def nameStart_def unit_class)
  moreover have "fits (quotedCommand ?ws) COMMAND_LEXER_DEFAULT_LIMITS" "length (quotedCommand ?ws) \<le> COMMAND_LEXER_DEFAULT_LIMITS maximumInputLength"
    by (simp_all add: fits_def quotedCommand_def quoteWord_def js_def)
  ultimately show ?thesis
    using lex_quoted_roundtrip [OF lex_sample_valid lex_sample_options, of "Resolved PosixShell" "quotedCommand ?ws" ?ws id] by auto
qed

lemmas lex_eval = scan_def js_def scanLoop.simps scanStep_def isSpace_def redirectionAt_def redirectionOf_def operatorAt_def
  OPERATORS_def startsAt_def startsWith_def unit_class scanWord_def scanWordLoop.simps endsWord_def wordStep_def specialPart_def
  flushLiteral_def scanQuoted_def quoteEnd.simps quoteNext_def charAt_def addIssue_def addPart_def slice_def escapeOf_def
  expansionAt_def posixExpansionOf_def delimited_def foldedStart_def nameStart_def foldCase_def inLine_def
  literalPartValue_def pushToken_def plainToken_def posixDynamic_def wordKind_def isAssignment_def wordUnit_def Let_def
  buildInvocations_def groupTokens_def buildInvocation_def

text \<open>The ranges and values of the tokens, and the states of the invocations, under the POSIX dialect.\<close>

definition lexedEnds :: "jstring \<Rightarrow> nat list" where
  "lexedEnds s = (case scan s PosixShell COMMAND_LEXER_DEFAULT_LIMITS of Inl _ \<Rightarrow> [] | Inr state \<Rightarrow> map tok_end (st_tokens state))"

definition lexedStates :: "jstring \<Rightarrow> InvocationState list" where
  "lexedStates s =
     (case scan s PosixShell COMMAND_LEXER_DEFAULT_LIMITS of
        Inl _ \<Rightarrow> []
      | Inr state \<Rightarrow>
          (case buildInvocations id state PosixShell of Inl _ \<Rightarrow> [] | Inr invocations \<Rightarrow> map inv_state invocations))"

text \<open>
  Where ranges and values go wrong: a text of three units that ends in a backslash inside double quotes
  has a token whose range ends at 4, behind the text; a positional parameter, and a backtick
  substitution in double quotes, give literal invocations.
\<close>
theorem lex_known_deviations:
  "lexedEnds [DQUOTE, 97, BACKSLASH] = [4] \<and> lexedStates (js ''x $1'') = [LiteralInvocation] \<and>
   lexedStates [DQUOTE, BACKTICK, 97, BACKTICK, DQUOTE] = [LiteralInvocation]"
  by (simp add: lexedEnds_def lexedStates_def lex_eval)

end
