(* ===== verification/Source_Range.thy ===== *)
theory Source_Range
  imports Prelude
begin

text \<open>
  The instruction model's source data (\<open>packages/core/src/ir-contracts.ts\<close>): positions, ranges, abstract
  syntax nodes and import references; and the position index that the Markdown package and the import
  lexer both build (\<open>buildPositionIndex\<close>, \<open>positionAt\<close>, \<open>makeRange\<close> in each of them), with the proof that the
  positions it returns are the exact byte offset, line and column.
\<close>

subsection \<open>Positions and ranges\<close>

record SourcePosition =
  sp_byteOffset :: nat
  sp_utf16Offset :: nat
  sp_line :: nat
  sp_utf16Column :: nat

record SourceRange =
  sr_sourceId :: jstring
  sr_start :: SourcePosition
  sr_end :: SourcePosition

subsection \<open>Checks of positions\<close>

text \<open>
  The checks that every consumer of ranges repeats: safe integers, and an end that does not lie before the start
  (the duplication index and the document import DAG have them word for word).
\<close>

definition MAX_SAFE_INTEGER :: nat where
  "MAX_SAFE_INTEGER = 2 ^ 53 - 1"

definition safePosition :: "SourcePosition \<Rightarrow> bool" where
  "safePosition p \<longleftrightarrow>
     sp_byteOffset p \<le> MAX_SAFE_INTEGER \<and> sp_line p \<le> MAX_SAFE_INTEGER \<and> sp_utf16Column p \<le> MAX_SAFE_INTEGER \<and>
     sp_utf16Offset p \<le> MAX_SAFE_INTEGER"

definition forwardRange :: "SourcePosition \<Rightarrow> SourcePosition \<Rightarrow> bool" where
  "forwardRange start end' \<longleftrightarrow>
     \<not> (sp_byteOffset end' < sp_byteOffset start \<or> sp_utf16Offset end' < sp_utf16Offset start \<or>
        sp_line end' < sp_line start \<or> (sp_line end' = sp_line start \<and> sp_utf16Column end' < sp_utf16Column start))"

subsection \<open>Uncertainty\<close>

record ContradictionAlternative =
  ca_id :: jstring
  ca_description :: jstring

datatype Uncertainty =
    Known
  | Conditional "jstring list"
  | Unknown jstring
  | Contradiction jstring "ContradictionAlternative list"

subsection \<open>Abstract syntax\<close>

datatype FrontmatterFormat = FrontmatterYaml | FrontmatterMdc

datatype AstNodeKind =
    RootNode
  | HeadingNode nat
  | ParagraphNode
  | ListNode bool "int option"
  | ListItemNode
  | BlockQuoteNode
  | CodeBlockNode "jstring option" "jstring option"
  | InlineCodeNode
  | LinkNode jstring "jstring option"
  | HtmlCommentNode
  | FrontmatterNode FrontmatterFormat
  | TextNode
  | UnknownNode jstring jstring

record AstNode =
  an_id :: jstring
  an_sourceId :: jstring
  an_range :: SourceRange
  an_childIds :: "jstring list"
  an_kind :: AstNodeKind

subsection \<open>Import references\<close>

datatype ImportKind = VendorImport | MarkdownLink | ReferenceToken

datatype ImportTargetKind =
  RepositoryPathCandidate | AbsolutePathCandidate | UrlTarget | FragmentTarget | MalformedTarget | UnknownTarget

datatype ImportState = ImportRecognized | ImportMalformed | ImportAmbiguous

record ImportReference =
  ref_id :: jstring
  ref_documentId :: jstring
  ref_nodeId :: jstring
  ref_kind :: ImportKind
  ref_range :: SourceRange
  ref_specifierRange :: SourceRange
  ref_rawSpecifier :: jstring
  ref_targetKind :: ImportTargetKind
  ref_state :: ImportState
  ref_uncertainty :: Uncertainty

datatype ImportDialect = ClaudeCode | CopilotCli | CursorAgent | GeminiCli

fun dialectText :: "ImportDialect \<Rightarrow> jstring" where
  "dialectText ClaudeCode = js ''claude-code''"
| "dialectText CopilotCli = js ''copilot-cli''"
| "dialectText CursorAgent = js ''cursor-agent''"
| "dialectText GeminiCli = js ''gemini-cli''"

subsection \<open>Binary search\<close>

text \<open>
  The loop of \<open>positionAt\<close>, \<open>containingDisposition\<close> and \<open>deepestContainingNode\<close>: the least index in the range
  at which the test fails, when it holds on an initial part of the range.
\<close>

function bisect :: "(nat \<Rightarrow> bool) \<Rightarrow> nat \<Rightarrow> nat \<Rightarrow> nat" where
  "bisect holds low high =
     (if low < high then
        let middle = (low + high) div 2
        in if holds middle then bisect holds (middle + 1) high else bisect holds low middle
      else low)"
  by pat_completeness auto
termination
  by (relation "measure (\<lambda>(holds, low, high). high - low)") auto

declare bisect.simps [simp del]

lemma bisect_boundary:
  assumes "low \<le> k" "k \<le> high" "\<And>i. low \<le> i \<Longrightarrow> i < high \<Longrightarrow> holds i \<longleftrightarrow> i < k"
  shows "bisect holds low high = k"
  using assms
proof (induction holds low high rule: bisect.induct)
  case (1 holds low high)
  show ?case
  proof (cases "low < high")
    case True
    let ?m = "(low + high) div 2"
    have m: "low \<le> ?m" "?m < high"
      using True by auto
    show ?thesis
    proof (cases "holds ?m")
      case True
      then have "?m < k"
        using "1.prems"(3) m by blast
      with True show ?thesis
        using "1.IH"(1) [OF \<open>low < high\<close> refl True] "1.prems" m by (subst bisect.simps) (simp add: Let_def)
    next
      case False
      then have "k \<le> ?m"
        using "1.prems"(3) m by (meson leI)
      with False show ?thesis
        using "1.IH"(2) [OF \<open>low < high\<close> refl False] "1.prems" m by (subst bisect.simps) (simp add: Let_def)
    qed
  next
    case False
    with "1.prems" show ?thesis
      by (subst bisect.simps) simp
  qed
qed

text \<open>On a sorted list the search counts the elements that are not above a bound.\<close>

lemma sorted_nth_filter:
  "sorted xs \<Longrightarrow> i < length xs \<Longrightarrow> xs ! i \<le> b \<longleftrightarrow> i < length (filter (\<lambda>x. x \<le> (b :: nat)) xs)"
proof (induction xs arbitrary: i)
  case (Cons x xs)
  show ?case
  proof (cases "x \<le> b")
    case True
    with Cons show ?thesis
      by (cases i) simp_all
  next
    case False
    then have "\<forall>y\<in>set (x # xs). \<not> y \<le> b"
      using Cons.prems(1) by auto
    with Cons.prems(2) show ?thesis
      by (metis filter_False length_0_conv not_less_zero nth_mem)
  qed
qed simp

lemma bisect_sorted:
  assumes "sorted (xs :: nat list)"
  shows "bisect (\<lambda>i. i < length xs \<and> xs ! i \<le> b) 0 (length xs) = length (filter (\<lambda>x. x \<le> b) xs)"
  by (rule bisect_boundary) (use sorted_nth_filter [OF assms] in auto)

subsection \<open>The position index\<close>

record PositionIndex =
  px_byteOffsets :: "nat option list"
  px_lineStarts :: "nat list"

definition unitBytes :: "nat \<Rightarrow> nat" where
  "unitBytes u = (if u \<le> 0x7F then 1 else if u \<le> 0x7FF then 2 else 3)"

definition exceeds :: "nat option \<Rightarrow> nat \<Rightarrow> bool" where
  "exceeds limit n = (case limit of None \<Rightarrow> False | Some m \<Rightarrow> m < n)"

text \<open>
  The loop over the code units: the byte offsets after each unit, \<open>None\<close> inside a surrogate pair (the source
  stores -1), and the starts of lines. The Markdown package stops when the byte offset exceeds its limit.
\<close>

fun indexUnits :: "nat option \<Rightarrow> nat \<Rightarrow> nat \<Rightarrow> jstring \<Rightarrow> (nat option list \<times> nat list) option" where
  "indexUnits limit offset bytes [] = Some ([], [])"
| "indexUnits limit offset bytes (u # us) =
     (if is_high u then
        if exceeds limit (bytes + 4) then None
        else (case us of
                [] \<Rightarrow> Some ([None], [])
              | v # vs \<Rightarrow>
                  map_option (\<lambda>(entries, starts). (None # Some (bytes + 4) # entries, starts))
                    (indexUnits limit (offset + 2) (bytes + 4) vs))
      else if exceeds limit (bytes + unitBytes u) then None
      else map_option (\<lambda>(entries, starts). (Some (bytes + unitBytes u) # entries,
                         if u = 0x0A \<or> u = 0x0D \<and> charAt us 0 \<noteq> Some 0x0A then (offset + 1) # starts else starts))
             (indexUnits limit (offset + 1) (bytes + unitBytes u) us))"

definition positionIndex :: "nat option \<Rightarrow> jstring \<Rightarrow> PositionIndex option" where
  "positionIndex limit s =
     map_option (\<lambda>(entries, starts). \<lparr>px_byteOffsets = Some 0 # entries, px_lineStarts = 0 # starts\<rparr>) (indexUnits limit 0 0 s)"

text \<open>\<open>positionAt\<close>; \<open>None\<close> where it throws.\<close>

definition locate :: "PositionIndex \<Rightarrow> nat \<Rightarrow> SourcePosition option" where
  "locate index utf16Offset =
     (if utf16Offset < length (px_byteOffsets index) then
        (case px_byteOffsets index ! utf16Offset of
           None \<Rightarrow> None
         | Some byteOffset \<Rightarrow>
             let starts = px_lineStarts index;
                 low = bisect (\<lambda>middle. middle < length starts \<and> starts ! middle \<le> utf16Offset) 0 (length starts)
             in if low = 0 then None
                else Some \<lparr>sp_byteOffset = byteOffset, sp_utf16Offset = utf16Offset, sp_line = low - 1,
                          sp_utf16Column = utf16Offset - starts ! (low - 1)\<rparr>)
      else None)"

definition locateRange :: "jstring \<Rightarrow> PositionIndex \<Rightarrow> nat \<Rightarrow> nat \<Rightarrow> SourceRange option" where
  "locateRange sourceId index start end =
     (case locate index start of
        None \<Rightarrow> None
      | Some a \<Rightarrow> (case locate index end of
                     None \<Rightarrow> None
                   | Some b \<Rightarrow> Some \<lparr>sr_sourceId = sourceId, sr_start = a, sr_end = b\<rparr>))"

subsection \<open>Exactness of the positions\<close>

text \<open>An offset begins a line when a line feed, or a carriage return that no line feed follows, ends just before it.\<close>

definition lineStart :: "jstring \<Rightarrow> nat \<Rightarrow> bool" where
  "lineStart s i \<longleftrightarrow> 0 < i \<and> i \<le> length s \<and> (s ! (i - 1) = 0x0A \<or> s ! (i - 1) = 0x0D \<and> charAt s i \<noteq> Some 0x0A)"

lemma lineStart_Suc: "0 < i \<Longrightarrow> lineStart (u # us) (Suc i) = lineStart us i"
  by (auto simp: lineStart_def charAt_def)

lemma lineStart_1: "lineStart (u # us) (Suc 0) \<longleftrightarrow> u = 0x0A \<or> u = 0x0D \<and> charAt us 0 \<noteq> Some 0x0A"
  by (auto simp: lineStart_def charAt_def)

abbreviation lineStarts :: "jstring \<Rightarrow> nat list" where
  "lineStarts s \<equiv> filter (lineStart s) [1..<Suc (length s)]"

lemma lineStarts_Cons:
  "lineStarts (u # us) = (if lineStart (u # us) (Suc 0) then [Suc 0] else []) @ map Suc (lineStarts us)"
proof -
  have split: "[1..<Suc (length (u # us))] = Suc 0 # map Suc [1..<Suc (length us)]"
    by (simp add: map_Suc_upt upt_conv_Cons del: upt_Suc)
  have "filter (lineStart (u # us)) (map Suc [1..<Suc (length us)]) = map Suc (lineStarts us)"
    unfolding filter_map comp_def by (intro arg_cong [where f = "map Suc"] filter_cong) (simp_all add: lineStart_Suc Suc_le_eq del: upt_Suc)
  then show ?thesis
    unfolding split by (simp del: upt_Suc)
qed

lemma textBytes_unit:
  assumes "\<not> is_high u" "\<not> is_low u" "u < 0x10000"
  shows "textBytes (u # us) = unitBytes u + textBytes us"
  using assms by (auto simp: textBytes_def utf8_def utf8_scalar_def unitBytes_def)

lemma textBytes_pair:
  assumes "is_high u" "is_low v"
  shows "textBytes (u # v # us) = 4 + textBytes us"
  using assms by (auto simp: textBytes_def utf8_def utf8_scalar_def pair_code_point_def unit_class)

definition prefixBytes :: "jstring \<Rightarrow> nat \<Rightarrow> nat option" where
  "prefixBytes s i = (if hasWellFormedUnicode (take i s) then Some (textBytes (take i s)) else None)"

lemma prefixBytes_0 [simp]: "prefixBytes s 0 = Some 0"
  by (simp add: prefixBytes_def)

lemma prefixBytes_unit:
  assumes "\<not> is_high u" "\<not> is_low u" "u < 0x10000"
  shows "prefixBytes (u # us) (Suc i) = map_option ((+) (unitBytes u)) (prefixBytes us i)"
  using assms by (simp add: prefixBytes_def textBytes_unit)

lemma prefixBytes_pair:
  assumes "is_high u" "is_low v"
  shows "prefixBytes (u # v # us) (Suc 0) = None"
    "prefixBytes (u # v # us) (Suc (Suc i)) = map_option ((+) 4) (prefixBytes us i)"
  using assms by (simp_all add: prefixBytes_def textBytes_pair)

lemma map_option_add: "map_option ((+) (a :: nat)) (map_option ((+) b) x) = map_option ((+) (a + b)) x"
  by (cases x) simp_all

lemma upt_Suc_map: "[0..<Suc n] = 0 # map Suc [0..<n]"
  by (simp add: map_Suc_upt upt_conv_Cons del: upt_Suc)

lemma lineStart_surrogate: "is_high u \<or> is_low u \<Longrightarrow> \<not> lineStart (u # us) (Suc 0)"
  by (auto simp: lineStart_1 unit_class)

lemma indexUnits_exact:
  assumes "hasWellFormedUnicode us" "is_jstring us" "indexUnits limit offset bytes us = Some (entries, starts)"
  shows "entries = map (\<lambda>i. map_option ((+) bytes) (prefixBytes us (Suc i))) [0..<length us] \<and>
    starts = map ((+) offset) (lineStarts us)"
  using assms
proof (induction us arbitrary: offset bytes entries starts rule: hasWellFormedUnicode.induct)
  case (2 u us)
  show ?case
  proof (cases "is_high u")
    case True
    then obtain v vs where us: "us = v # vs" and v: "is_low v" "hasWellFormedUnicode vs" "is_jstring vs"
      using "2.prems"(1,2) by (cases us) (auto simp: is_jstring_def)
    obtain entries' where rest: "indexUnits limit (offset + 2) (bytes + 4) vs = Some (entries', starts)"
      and entries: "entries = None # Some (bytes + 4) # entries'"
      using "2.prems"(3) True us by (auto split: if_splits)
    have "entries' = map (\<lambda>i. map_option ((+) (bytes + 4)) (prefixBytes vs (Suc i))) [0..<length vs]"
      and starts: "starts = map ((+) (offset + 2)) (lineStarts vs)"
      using "2.IH"(1) [OF True us v(2,3) rest] by simp_all
    with entries True v(1) have "entries = map (\<lambda>i. map_option ((+) bytes) (prefixBytes (u # us) (Suc i))) [0..<length (u # us)]"
      unfolding us length_Cons upt_Suc_map by (simp add: prefixBytes_pair map_option_add)
    moreover have "starts = map ((+) offset) (lineStarts (u # us))"
      unfolding us lineStarts_Cons starts using True v(1) by (simp add: lineStart_surrogate comp_def del: upt_Suc)
    ultimately show ?thesis
      by simp
  next
    case False
    then have u: "\<not> is_low u" "u < 0x10000" "hasWellFormedUnicode us" "is_jstring us"
      using "2.prems"(1,2) by (auto simp: is_jstring_def)
    obtain entries' starts' where rest: "indexUnits limit (offset + 1) (bytes + unitBytes u) us = Some (entries', starts')"
      and new: "entries = Some (bytes + unitBytes u) # entries'"
        "starts = (if lineStart (u # us) (Suc 0) then (offset + 1) # starts' else starts')"
      using "2.prems"(3) False by (auto simp: lineStart_1 split: if_splits)
    have "entries' = map (\<lambda>i. map_option ((+) (bytes + unitBytes u)) (prefixBytes us (Suc i))) [0..<length us]"
      and starts: "starts' = map ((+) (offset + 1)) (lineStarts us)"
      using "2.IH"(2) [OF False u(3,4) rest] by simp_all
    with new False u(1,2) have "entries = map (\<lambda>i. map_option ((+) bytes) (prefixBytes (u # us) (Suc i))) [0..<length (u # us)]"
      unfolding length_Cons upt_Suc_map by (simp add: prefixBytes_unit map_option_add)
    moreover have "starts = map ((+) offset) (lineStarts (u # us))"
      unfolding lineStarts_Cons new starts by (simp add: comp_def del: upt_Suc)
    ultimately show ?thesis
      by simp
  qed
qed simp

lemma positionIndex_exact:
  assumes "hasWellFormedUnicode s" "is_jstring s" "positionIndex limit s = Some index"
  shows "px_byteOffsets index = map (prefixBytes s) [0..<Suc (length s)]" "px_lineStarts index = 0 # lineStarts s"
proof -
  obtain entries starts where units: "indexUnits limit 0 0 s = Some (entries, starts)"
    and index: "index = \<lparr>px_byteOffsets = Some 0 # entries, px_lineStarts = 0 # starts\<rparr>"
    using assms(3) by (auto simp: positionIndex_def)
  have "entries = map (\<lambda>i. map_option ((+) 0) (prefixBytes s (Suc i))) [0..<length s]" "starts = map ((+) 0) (lineStarts s)"
    using indexUnits_exact [OF assms(1,2) units] by simp_all
  moreover have "map_option ((+) 0) x = x" for x :: "nat option"
    by (cases x) simp_all
  ultimately show "px_byteOffsets index = map (prefixBytes s) [0..<Suc (length s)]" "px_lineStarts index = 0 # lineStarts s"
    unfolding index upt_Suc_map by (simp_all add: comp_def map_idI del: upt_Suc)
qed

text \<open>The line of an offset and the offset at which its line begins.\<close>

definition lineOf :: "jstring \<Rightarrow> nat \<Rightarrow> nat" where
  "lineOf s offset = length (filter (lineStart s) [1..<Suc offset])"

definition lineBegin :: "jstring \<Rightarrow> nat \<Rightarrow> nat" where
  "lineBegin s offset = last (0 # filter (lineStart s) [1..<Suc offset])"

lemma lineStarts_split:
  assumes "offset \<le> length s"
  shows "lineStarts s = filter (lineStart s) [1..<Suc offset] @ filter (lineStart s) [Suc offset..<Suc (length s)]"
proof -
  have "[1..<Suc (length s)] = [1..<Suc offset] @ [Suc offset..<Suc (length s)]"
    using upt_add_eq_append [of 1 "Suc offset" "length s - offset"] assms by simp
  then show ?thesis
    by (metis filter_append)
qed

lemma lineStarts_until:
  assumes "offset \<le> length s"
  shows "filter (\<lambda>i. i \<le> offset) (lineStarts s) = filter (lineStart s) [1..<Suc offset]"
proof -
  have "filter (\<lambda>i. i \<le> offset) (filter (lineStart s) [1..<Suc offset]) = filter (lineStart s) [1..<Suc offset]"
    by (intro filter_True) auto
  moreover have "filter (\<lambda>i. i \<le> offset) (filter (lineStart s) [Suc offset..<Suc (length s)]) = []"
    by (intro filter_False) auto
  ultimately show ?thesis
    unfolding lineStarts_split [OF assms] filter_append by (metis append_Nil2)
qed

lemma lineStarts_nth:
  assumes "offset \<le> length s"
  shows "(0 # lineStarts s) ! lineOf s offset = lineBegin s offset"
proof -
  let ?A = "0 # filter (lineStart s) [1..<Suc offset]"
  have "0 # lineStarts s = ?A @ filter (lineStart s) [Suc offset..<Suc (length s)]"
    using lineStarts_split [OF assms] by simp
  then have "(0 # lineStarts s) ! lineOf s offset = ?A ! lineOf s offset"
    by (metis lineOf_def length_Cons lessI nth_append)
  also have "\<dots> = last ?A"
    by (subst last_conv_nth) (simp_all add: lineOf_def del: upt_Suc)
  finally show ?thesis
    unfolding lineBegin_def .
qed

lemma locate_exact:
  assumes "hasWellFormedUnicode s" "is_jstring s" "positionIndex limit s = Some index"
  shows "locate index offset =
    (if offset \<le> length s \<and> hasWellFormedUnicode (take offset s)
     then Some \<lparr>sp_byteOffset = textBytes (take offset s), sp_utf16Offset = offset, sp_line = lineOf s offset,
               sp_utf16Column = offset - lineBegin s offset\<rparr>
     else None)"
proof (cases "offset \<le> length s")
  case True
  note index = positionIndex_exact [OF assms]
  let ?starts = "0 # lineStarts s"
  have "sorted (lineStarts s)"
    by (intro sorted_wrt_filter sorted_upt)
  then have "sorted ?starts"
    by simp
  then have "bisect (\<lambda>middle. middle < length ?starts \<and> ?starts ! middle \<le> offset) 0 (length ?starts) =
      length (filter (\<lambda>i. i \<le> offset) ?starts)"
    by (rule bisect_sorted)
  also have "\<dots> = Suc (lineOf s offset)"
    using lineStarts_until [OF True] by (simp add: lineOf_def)
  finally have search: "bisect (\<lambda>middle. middle < length ?starts \<and> ?starts ! middle \<le> offset) 0 (length ?starts) = Suc (lineOf s offset)" .
  have bytes: "offset < length (px_byteOffsets index)" "px_byteOffsets index ! offset = prefixBytes s offset"
    unfolding index using True by (simp_all add: nth_map del: upt_Suc map_upt_Suc)
  note found = search [folded index(2)] lineStarts_nth [OF True, folded index(2)]
  show ?thesis
    unfolding locate_def Let_def using True by (simp add: bytes found prefixBytes_def)
next
  case False
  then show ?thesis
    using positionIndex_exact(1) [OF assms] by (simp add: locate_def)
qed

end
