(* ===== verification/Markdown.thy ===== *)
theory Markdown
  imports Source_Range
begin

text \<open>
  The Markdown package (\<open>packages/markdown/src/index.ts\<close>): bounds on the input, the position index, the walk
  that numbers the nodes of the parser's tree, the mapping to the instruction model's nodes, recovery issues
  and the structural extraction.

  Parameters of the model: \<open>fromMarkdown\<close> is the third-party CommonMark parser, \<open>sha256\<close> the hexadecimal
  digest of bytes. The parser's tree is a store of nodes addressed by numbers, because the walk compares nodes
  by identity; fields of a wrong type are \<open>None\<close>. The parser reports the ends of code fences as events, which the
  package's extension observes. Checks on untyped values (plain objects, own data properties) have no counterpart.
\<close>

subsection \<open>Limits and errors\<close>

datatype MarkdownLimitName =
    MaxDepth | MaxDelimiterRun | MaxIssues | MaxNodes | MaxUtf16CodeUnits | MaxUtf8Bytes
  | MaxExtractedUtf16CodeUnits | MaxExtractedUtf8Bytes

fun DEFAULT_MARKDOWN_LIMITS :: "MarkdownLimitName \<Rightarrow> nat" where
  "DEFAULT_MARKDOWN_LIMITS MaxDepth = 128"
| "DEFAULT_MARKDOWN_LIMITS MaxDelimiterRun = 4096"
| "DEFAULT_MARKDOWN_LIMITS MaxIssues = 64"
| "DEFAULT_MARKDOWN_LIMITS MaxNodes = 50000"
| "DEFAULT_MARKDOWN_LIMITS MaxUtf16CodeUnits = 512 * 1024"
| "DEFAULT_MARKDOWN_LIMITS MaxUtf8Bytes = 512 * 1024"
| "DEFAULT_MARKDOWN_LIMITS MaxExtractedUtf16CodeUnits = 4 * 1024 * 1024"
| "DEFAULT_MARKDOWN_LIMITS MaxExtractedUtf8Bytes = 16 * 1024 * 1024"

definition ABSOLUTE_MARKDOWN_LIMITS :: "MarkdownLimitName \<Rightarrow> nat" where
  "ABSOLUTE_MARKDOWN_LIMITS = DEFAULT_MARKDOWN_LIMITS"

datatype MarkdownParserErrorCode =
    MdExtractionResourceLimit MarkdownLimitName
  | MdInvalidInput
  | MdInvalidLimit MarkdownLimitName
  | MdMalformedUnicode
  | MdParseFailed
  | MdResourceLimit MarkdownLimitName

text \<open>The values given for the limits; an absent one is \<open>None\<close>.\<close>

type_synonym MarkdownOptions = "MarkdownLimitName \<Rightarrow> int option"

definition validateLimit :: "MarkdownOptions \<Rightarrow> MarkdownLimitName \<Rightarrow> MarkdownParserErrorCode + nat" where
  "validateLimit given name =
     (let v = (case given name of None \<Rightarrow> int (DEFAULT_MARKDOWN_LIMITS name) | Some v \<Rightarrow> v)
      in checkR (1 \<le> v \<and> v \<le> int (ABSOLUTE_MARKDOWN_LIMITS name)) (MdInvalidLimit name) (Inr (nat v)))"

fun validateLimitsOf ::
  "MarkdownOptions \<Rightarrow> MarkdownLimitName list \<Rightarrow> (MarkdownLimitName \<Rightarrow> nat) \<Rightarrow>
   MarkdownParserErrorCode + (MarkdownLimitName \<Rightarrow> nat)" where
  "validateLimitsOf given [] limits = Inr limits"
| "validateLimitsOf given (name # names) limits =
     bindR (validateLimit given name) (\<lambda>n. validateLimitsOf given names (limits(name := n)))"

definition PARSER_LIMIT_NAMES :: "MarkdownLimitName list" where
  "PARSER_LIMIT_NAMES = [MaxDepth, MaxDelimiterRun, MaxIssues, MaxNodes, MaxUtf16CodeUnits, MaxUtf8Bytes]"

definition validateOptions :: "MarkdownOptions \<Rightarrow> MarkdownParserErrorCode + (MarkdownLimitName \<Rightarrow> nat)" where
  "validateOptions given = validateLimitsOf given PARSER_LIMIT_NAMES DEFAULT_MARKDOWN_LIMITS"

definition validateExtractionOptions :: "MarkdownOptions \<Rightarrow> MarkdownParserErrorCode + (MarkdownLimitName \<Rightarrow> nat)" where
  "validateExtractionOptions given =
     bindR (validateOptions given)
       (validateLimitsOf given [MaxExtractedUtf16CodeUnits, MaxExtractedUtf8Bytes])"

subsection \<open>Input\<close>

text \<open>\<open>/^[A-Za-z0-9]+(?:[._:/-][A-Za-z0-9]+)*$/\<close>; the flag says whether the previous unit was a letter or digit.\<close>

fun stableUnits :: "bool \<Rightarrow> jstring \<Rightarrow> bool" where
  "stableUnits prev [] = prev"
| "stableUnits prev (u # us) =
     (if is_ascii_letter u \<or> is_ascii_digit u then stableUnits True us
      else prev \<and> u \<in> {0x2E, 0x5F, 0x3A, 0x2F, 0x2D} \<and> stableUnits False us)"

definition isStableIdentifier :: "jstring \<Rightarrow> bool" where
  "isStableIdentifier s \<longleftrightarrow> s \<noteq> [] \<and> length s \<le> 512 \<and> stableUnits False s"

definition isAsciiPunctuation :: "nat \<Rightarrow> bool" where
  "isAsciiPunctuation u \<longleftrightarrow>
     (0x21 \<le> u \<and> u \<le> 0x2F) \<or> (0x3A \<le> u \<and> u \<le> 0x40) \<or> (0x5B \<le> u \<and> u \<le> 0x60) \<or> (0x7B \<le> u \<and> u \<le> 0x7E)"

text \<open>Whether a run of one punctuation unit exceeds the limit.\<close>

fun delimiterRunExceeds :: "nat \<Rightarrow> nat option \<Rightarrow> nat \<Rightarrow> jstring \<Rightarrow> bool" where
  "delimiterRunExceeds limit previous run [] = False"
| "delimiterRunExceeds limit previous run (u # us) =
     (let run' = (if Some u = previous \<and> isAsciiPunctuation u then run + 1 else if isAsciiPunctuation u then 1 else 0)
      in if limit < run' then True
         else delimiterRunExceeds limit (if Some u = previous \<and> isAsciiPunctuation u then previous else Some u) run' us)"

definition enforceDelimiterRunLimit :: "(MarkdownLimitName \<Rightarrow> nat) \<Rightarrow> jstring \<Rightarrow> MarkdownParserErrorCode + unit" where
  "enforceDelimiterRunLimit limits s =
     checkR (\<not> delimiterRunExceeds (limits MaxDelimiterRun) None 0 s) (MdResourceLimit MaxDelimiterRun) (Inr ())"

definition buildPositionIndex :: "(MarkdownLimitName \<Rightarrow> nat) \<Rightarrow> jstring \<Rightarrow> MarkdownParserErrorCode + PositionIndex" where
  "buildPositionIndex limits s =
     (case positionIndex (Some (limits MaxUtf8Bytes)) s of
        None \<Rightarrow> Inl (MdResourceLimit MaxUtf8Bytes)
      | Some index \<Rightarrow> Inr index)"

definition makeRange :: "jstring \<Rightarrow> PositionIndex \<Rightarrow> nat \<Rightarrow> nat \<Rightarrow> MarkdownParserErrorCode + SourceRange" where
  "makeRange sourceId positions start end =
     (case locateRange sourceId positions start end of None \<Rightarrow> Inl MdParseFailed | Some rng \<Rightarrow> Inr rng)"

subsection \<open>The parser's tree\<close>

datatype MdastChildren = NoChildren | InvalidChildren | ChildList "nat option list"

record MdastNode =
  md_type :: "jstring option"
  md_startOffset :: "int option"
  md_endOffset :: "int option"
  md_children :: MdastChildren
  md_depth :: "int option"
  md_ordered :: bool
  md_start :: "int option"
  md_lang :: "jstring option"
  md_meta :: "jstring option"
  md_url :: "jstring option"
  md_title :: "jstring option"
  md_identifier :: "jstring option"
  md_label :: "jstring option"
  md_referenceType :: "jstring option"

datatype FenceEvent = CodeFencedFence nat | CodeFenced

record MdastTree =
  mt_root :: nat
  mt_node :: "nat \<Rightarrow> MdastNode"
  mt_fences :: "FenceEvent list"

text \<open>
  \<open>fenceTrackingExtension\<close>: the state holds \<open>flowCodeInside\<close> of the parser, which it clears at the end of a
  fenced block, the active opening, and whether each opening was closed.
\<close>

record FenceTracker =
  ft_flowCodeInside :: bool
  ft_activeOpening :: "nat option"
  ft_openingStates :: "nat \<rightharpoonup> bool"

fun trackFence :: "FenceEvent \<Rightarrow> FenceTracker \<Rightarrow> FenceTracker" where
  "trackFence (CodeFencedFence offset) tracker =
     (if ft_flowCodeInside tracker then
        tracker\<lparr>ft_openingStates := (case ft_activeOpening tracker of
                   None \<Rightarrow> ft_openingStates tracker
                 | Some opening \<Rightarrow> (ft_openingStates tracker)(opening \<mapsto> True)),
                ft_activeOpening := None\<rparr>
      else tracker\<lparr>ft_activeOpening := Some offset, ft_openingStates := (ft_openingStates tracker)(offset \<mapsto> False),
                  ft_flowCodeInside := True\<rparr>)"
| "trackFence CodeFenced tracker = tracker\<lparr>ft_flowCodeInside := False\<rparr>"

definition openingStates :: "FenceEvent list \<Rightarrow> nat \<rightharpoonup> bool" where
  "openingStates events =
     ft_openingStates (fold trackFence events
       \<lparr>ft_flowCodeInside = False, ft_activeOpening = None, ft_openingStates = (\<lambda>_. None)\<rparr>)"

definition offsetOf :: "int option \<Rightarrow> nat \<Rightarrow> nat option" where
  "offsetOf v textLength =
     (case v of None \<Rightarrow> None | Some n \<Rightarrow> if 0 \<le> n \<and> n \<le> int textLength then Some (nat n) else None)"

definition childrenOf :: "MdastNode \<Rightarrow> MarkdownParserErrorCode + nat list" where
  "childrenOf node =
     (case md_children node of
        NoChildren \<Rightarrow> Inr []
      | InvalidChildren \<Rightarrow> Inl MdParseFailed
      | ChildList children \<Rightarrow> checkR (None \<notin> set children) MdParseFailed (Inr (map the children)))"

record IndexedNode =
  ix_node :: nat
  ix_depth :: nat
  ix_start :: nat
  ix_end :: nat

text \<open>The source range of a node; the root covers the whole text.\<close>

definition nodeOffsets :: "MdastTree \<Rightarrow> nat \<Rightarrow> nat \<Rightarrow> nat \<Rightarrow> (nat \<times> nat) option" where
  "nodeOffsets tree textLength adjustment node =
     (let raw = (\<lambda>v. map_option (\<lambda>n. n + adjustment) (offsetOf v (textLength - adjustment)));
          start = (if node = mt_root tree then Some 0 else raw (md_startOffset (mt_node tree node)));
          end' = (if node = mt_root tree then Some textLength else raw (md_endOffset (mt_node tree node)))
      in case (start, end') of (Some a, Some b) \<Rightarrow> if a > b then None else Some (a, b) | _ \<Rightarrow> None)"

text \<open>The loop of \<open>indexTree\<close>; the top of the stack is the head of the list.\<close>

function indexTree ::
  "MdastTree \<Rightarrow> nat \<Rightarrow> nat \<Rightarrow> (MarkdownLimitName \<Rightarrow> nat) \<Rightarrow> (nat \<times> nat) list \<Rightarrow> nat set \<Rightarrow> IndexedNode list \<Rightarrow>
   MarkdownParserErrorCode + IndexedNode list" where
  "indexTree tree textLength adjustment limits [] seen output = Inr output"
| "indexTree tree textLength adjustment limits ((node, depth) # stack) seen output =
     (if limits MaxDepth < depth then Inl (MdResourceLimit MaxDepth)
      else if node \<in> seen then Inl MdParseFailed
      else (case nodeOffsets tree textLength adjustment node of
              None \<Rightarrow> Inl MdParseFailed
            | Some (start, end') \<Rightarrow>
                if limits MaxNodes < length output + 1 then Inl (MdResourceLimit MaxNodes)
                else (case childrenOf (mt_node tree node) of
                        Inl e \<Rightarrow> Inl e
                      | Inr children \<Rightarrow>
                          indexTree tree textLength adjustment limits
                            (map (\<lambda>child. (child, depth + 1)) children @ stack) (insert node seen)
                            (output @ [\<lparr>ix_node = node, ix_depth = depth, ix_start = start, ix_end = end'\<rparr>]))))"
  by pat_completeness auto
termination
  by (relation "measure (\<lambda>(tree, n, a, limits, stack, seen, output). limits MaxNodes - length output +
        (if limits MaxNodes < length output then 0 else 1) + (if stack = [] then 0 else 1))") auto

declare indexTree.simps [simp del]

subsection \<open>The instruction model's nodes\<close>

fun digit36 :: "nat \<Rightarrow> nat" where
  "digit36 n = (if n < 10 then 48 + n else 87 + n)"

text \<open>\<open>n.toString(36)\<close>.\<close>

fun base36 :: "nat \<Rightarrow> jstring" where
  "base36 n = (if n < 36 then [digit36 n] else base36 (n div 36) @ [digit36 (n mod 36)])"

declare base36.simps [simp del]

definition astNodeId :: "jstring \<Rightarrow> nat \<Rightarrow> jstring" where
  "astNodeId sourceKey index = js ''ast:'' @ sourceKey @ COLON # base36 index"

fun nodePosition :: "nat \<Rightarrow> IndexedNode list \<Rightarrow> nat option" where
  "nodePosition node [] = None"
| "nodePosition node (x # xs) = (if ix_node x = node then Some 0 else map_option Suc (nodePosition node xs))"

text \<open>\<open>ids.get(node)\<close>.\<close>

definition assignedId :: "jstring \<Rightarrow> IndexedNode list \<Rightarrow> nat \<Rightarrow> jstring option" where
  "assignedId sourceKey indexed node = map_option (astNodeId sourceKey) (nodePosition node indexed)"

definition nullableNonEmpty :: "jstring option \<Rightarrow> jstring option" where
  "nullableNonEmpty v = (case v of Some s \<Rightarrow> if s = [] then None else Some s | None \<Rightarrow> None)"

definition nodeType :: "MdastNode \<Rightarrow> jstring" where
  "nodeType node =
     (case md_type node of Some s \<Rightarrow> if s = [] then js ''invalid-mdast-node'' else s | None \<Rightarrow> js ''invalid-mdast-node'')"

text \<open>\<open>String.prototype.trimStart\<close> and the white space of the language.\<close>

definition isWhitespace :: "nat \<Rightarrow> bool" where
  "isWhitespace u \<longleftrightarrow>
     (0x09 \<le> u \<and> u \<le> 0x0D) \<or> u = 0x20 \<or> u = 0xA0 \<or> u = 0x1680 \<or> (0x2000 \<le> u \<and> u \<le> 0x200A) \<or>
     u = 0x2028 \<or> u = 0x2029 \<or> u = 0x202F \<or> u = 0x205F \<or> u = 0x3000 \<or> u = 0xFEFF"

definition trimStart :: "jstring \<Rightarrow> jstring" where
  "trimStart s = dropWhile isWhitespace s"

definition noDedicatedKind :: "jstring \<Rightarrow> AstNodeKind" where
  "noDedicatedKind type = UnknownNode type (js ''CommonMark syntax has no dedicated B03 AST node kind'')"

definition nodeKind :: "MdastNode \<Rightarrow> jstring \<Rightarrow> nat \<Rightarrow> nat \<Rightarrow> AstNodeKind" where
  "nodeKind node source start end =
     (let type = nodeType node in
      if type = js ''root'' then RootNode
      else if type = js ''heading'' then
        (case md_depth node of
           Some depth \<Rightarrow> if 1 \<le> depth \<and> depth \<le> 6 then HeadingNode (nat depth) else noDedicatedKind type
         | None \<Rightarrow> noDedicatedKind type)
      else if type = js ''paragraph'' then ParagraphNode
      else if type = js ''list'' then
        (if md_ordered node \<and> (case md_start node of None \<Rightarrow> True | Some n \<Rightarrow> n < 1)
         then UnknownNode (js ''list'') (js ''Ordered list start cannot satisfy the positive B03 list-start invariant'')
         else ListNode (md_ordered node) (if md_ordered node then md_start node else None))
      else if type = js ''listItem'' then ListItemNode
      else if type = js ''blockquote'' then BlockQuoteNode
      else if type = js ''code'' then CodeBlockNode (nullableNonEmpty (md_lang node)) (nullableNonEmpty (md_meta node))
      else if type = js ''inlineCode'' then InlineCodeNode
      else if type = js ''link'' then
        LinkNode (case md_url node of Some url \<Rightarrow> url | None \<Rightarrow> []) (nullableNonEmpty (md_title node))
      else if type = js ''text'' then TextNode
      else if type = js ''html'' \<and> startsWith (trimStart (slice source start end)) (js ''<!--'') then HtmlCommentNode
      else noDedicatedKind type)"

definition mapNode ::
  "MdastTree \<Rightarrow> IndexedNode \<Rightarrow> jstring \<Rightarrow> jstring \<Rightarrow> SourceRange \<Rightarrow> jstring list \<Rightarrow> jstring \<Rightarrow> AstNode" where
  "mapNode tree indexed nodeId sourceId rng childIds source =
     \<lparr>an_id = nodeId, an_sourceId = sourceId, an_range = rng, an_childIds = childIds,
      an_kind = nodeKind (mt_node tree (ix_node indexed)) source (ix_start indexed) (ix_end indexed)\<rparr>"

text \<open>The first error of a list of results, or all results.\<close>

fun sequenceR :: "('e + 'a) list \<Rightarrow> 'e + 'a list" where
  "sequenceR [] = Inr []"
| "sequenceR (r # rs) = bindR r (\<lambda>x. bindR (sequenceR rs) (\<lambda>xs. Inr (x # xs)))"

lemma sequenceR_Inr [result_simps]: "sequenceR rs = Inr xs \<longleftrightarrow> rs = map Inr xs"
proof (induction rs arbitrary: xs)
  case (Cons r rs)
  show ?case
    by (cases r; cases xs) (auto simp: Cons.IH result_simps)
qed auto

lemma sequenceR_Inl: "sequenceR rs = Inl e \<Longrightarrow> Inl e \<in> set rs"
proof (induction rs)
  case (Cons r rs)
  then show ?case
    by (cases r) (auto simp: result_simps)
qed simp

definition requireId :: "jstring option \<Rightarrow> MarkdownParserErrorCode + jstring" where
  "requireId found = (case found of None \<Rightarrow> Inl MdParseFailed | Some i \<Rightarrow> Inr i)"

definition buildNode ::
  "MdastTree \<Rightarrow> jstring \<Rightarrow> jstring \<Rightarrow> jstring \<Rightarrow> PositionIndex \<Rightarrow> IndexedNode list \<Rightarrow> IndexedNode \<Rightarrow>
   MarkdownParserErrorCode + AstNode" where
  "buildNode tree sourceId source sourceKey positions indexedNodes indexed =
     bindR (requireId (assignedId sourceKey indexedNodes (ix_node indexed))) (\<lambda>nodeId.
     bindR (childrenOf (mt_node tree (ix_node indexed))) (\<lambda>children.
     bindR (sequenceR (map (\<lambda>child. requireId (assignedId sourceKey indexedNodes child)) children)) (\<lambda>childIds.
     bindR (makeRange sourceId positions (ix_start indexed) (ix_end indexed)) (\<lambda>rng.
       Inr (mapNode tree indexed nodeId sourceId rng childIds source)))))"

subsection \<open>Recovery issues\<close>

datatype MarkdownParseIssueCode = UnclosedFence | UnclosedHtmlComment

fun issueCodeText :: "MarkdownParseIssueCode \<Rightarrow> jstring" where
  "issueCodeText UnclosedFence = js ''unclosed-fence''"
| "issueCodeText UnclosedHtmlComment = js ''unclosed-html-comment''"

record MarkdownParseIssue =
  mi_code :: MarkdownParseIssueCode
  mi_message :: jstring
  mi_range :: SourceRange

definition fenceUnclosed :: "(nat \<rightharpoonup> bool) \<Rightarrow> nat \<Rightarrow> IndexedNode \<Rightarrow> bool" where
  "fenceUnclosed openings adjustment indexed \<longleftrightarrow>
     adjustment \<le> ix_start indexed \<and> openings (ix_start indexed - adjustment) = Some False"

definition commentUnclosed :: "jstring \<Rightarrow> IndexedNode \<Rightarrow> bool" where
  "commentUnclosed source indexed \<longleftrightarrow>
     (let original = trimStart (slice source (ix_start indexed) (ix_end indexed))
      in startsWith original (js ''<!--'') \<and> \<not> includesStr original (js ''-->''))"

text \<open>The issue of a node, if it has one.\<close>

definition nodeIssue ::
  "MdastTree \<Rightarrow> jstring \<Rightarrow> nat \<Rightarrow> (nat \<rightharpoonup> bool) \<Rightarrow> IndexedNode \<Rightarrow> (MarkdownParseIssueCode \<times> jstring) option" where
  "nodeIssue tree source adjustment openings indexed =
     (let type = nodeType (mt_node tree (ix_node indexed)) in
      if type = js ''code'' \<and> fenceUnclosed openings adjustment indexed then
        Some (UnclosedFence, js ''Fenced code block reaches the end of its container without a closing fence'')
      else if type = js ''html'' \<and> commentUnclosed source indexed then
        Some (UnclosedHtmlComment, js ''HTML comment reaches the end of its container without a closing delimiter'')
      else None)"

fun collectIssues ::
  "MdastTree \<Rightarrow> jstring \<Rightarrow> jstring \<Rightarrow> PositionIndex \<Rightarrow> (nat \<rightharpoonup> bool) \<Rightarrow> nat \<Rightarrow> nat \<Rightarrow> IndexedNode list \<Rightarrow>
   MarkdownParseIssue list \<Rightarrow> MarkdownParserErrorCode + MarkdownParseIssue list" where
  "collectIssues tree source sourceId positions openings adjustment limit [] issues = Inr issues"
| "collectIssues tree source sourceId positions openings adjustment limit (indexed # rest) issues =
     (case nodeIssue tree source adjustment openings indexed of
        None \<Rightarrow> collectIssues tree source sourceId positions openings adjustment limit rest issues
      | Some (code, message) \<Rightarrow>
          bindR (makeRange sourceId positions (ix_start indexed) (ix_end indexed)) (\<lambda>rng.
          checkR (length issues < limit) (MdResourceLimit MaxIssues)
            (collectIssues tree source sourceId positions openings adjustment limit rest
               (issues @ [\<lparr>mi_code = code, mi_message = message, mi_range = rng\<rparr>]))))"

datatype SourceParseState = ParseComplete | ParsePartial jstring | ParseMalformed jstring

definition uniqueCodes :: "MarkdownParseIssue list \<Rightarrow> MarkdownParseIssueCode list" where
  "uniqueCodes issues = rev (remdups (rev (map mi_code issues)))"

fun joinComma :: "jstring list \<Rightarrow> jstring" where
  "joinComma [] = []"
| "joinComma [s] = s"
| "joinComma (s # t # rest) = s @ js '', '' @ joinComma (t # rest)"

definition parseStateFor :: "MarkdownParseIssue list \<Rightarrow> SourceParseState" where
  "parseStateFor issues =
     (if issues = [] then ParseComplete
      else ParsePartial (js ''CommonMark recovery reported '' @ decimal (length issues) @ js '' issue(s): '' @
                         joinComma (map issueCodeText (uniqueCodes issues))))"

subsection \<open>Parsing\<close>

record MarkdownParseResult =
  mr_rootNodeId :: jstring
  mr_nodes :: "AstNode list"
  mr_issues :: "MarkdownParseIssue list"
  mr_parseState :: SourceParseState

type_synonym MarkdownParser = "jstring \<Rightarrow> MdastTree option"

definition offsetAdjustmentOf :: "jstring \<Rightarrow> nat" where
  "offsetAdjustmentOf s = (if startsWith s [0xFEFF] then 1 else 0)"

text \<open>The checks made before the parser runs, with the position index they yield.\<close>

definition preflightInput ::
  "(MarkdownLimitName \<Rightarrow> nat) \<Rightarrow> jstring \<Rightarrow> MarkdownParserErrorCode + PositionIndex" where
  "preflightInput limits s =
     checkR (length s \<le> limits MaxUtf16CodeUnits) (MdResourceLimit MaxUtf16CodeUnits)
     (checkR (hasWellFormedUnicode s) MdMalformedUnicode
     (bindR (buildPositionIndex limits s) (\<lambda>positions.
      bindR (enforceDelimiterRunLimit limits s) (\<lambda>_. Inr positions))))"

text \<open>\<open>parseMarkdownInternal\<close>; the tree and the indexed nodes are returned with the result.\<close>

definition parseMarkdownInternal ::
  "MarkdownParser \<Rightarrow> (nat list \<Rightarrow> jstring) \<Rightarrow> jstring \<Rightarrow> jstring \<Rightarrow> MarkdownOptions \<Rightarrow>
   MarkdownParserErrorCode + (MdastTree \<times> IndexedNode list \<times> MarkdownParseResult)" where
  "parseMarkdownInternal fromMarkdown sha256 sourceId source options =
     checkR (isStableIdentifier sourceId) MdInvalidInput
     (bindR (validateOptions options) (\<lambda>limits.
      bindR (preflightInput limits source) (\<lambda>positions.
      let adjustment = offsetAdjustmentOf source in
      case fromMarkdown (drop adjustment source) of
        None \<Rightarrow> Inl MdParseFailed
      | Some tree \<Rightarrow>
          bindR (indexTree tree (length source) adjustment limits [(mt_root tree, 0)] {} []) (\<lambda>indexedNodes.
          let sourceKey = sha256 (utf8 sourceId @ [0] @ utf8 source) in
          bindR (sequenceR (map (buildNode tree sourceId source sourceKey positions indexedNodes) indexedNodes)) (\<lambda>nodes.
          bindR (collectIssues tree source sourceId positions (openingStates (mt_fences tree)) adjustment
                   (limits MaxIssues) indexedNodes []) (\<lambda>issues.
          bindR (requireId (assignedId sourceKey indexedNodes (mt_root tree))) (\<lambda>rootNodeId.
            Inr (tree, indexedNodes,
                 \<lparr>mr_rootNodeId = rootNodeId, mr_nodes = nodes, mr_issues = issues,
                  mr_parseState = parseStateFor issues\<rparr>)))))))) "

definition parseMarkdown ::
  "MarkdownParser \<Rightarrow> (nat list \<Rightarrow> jstring) \<Rightarrow> jstring \<Rightarrow> jstring \<Rightarrow> MarkdownOptions \<Rightarrow>
   MarkdownParserErrorCode + MarkdownParseResult" where
  "parseMarkdown fromMarkdown sha256 sourceId source options =
     bindR (parseMarkdownInternal fromMarkdown sha256 sourceId source options) (\<lambda>(_, _, result). Inr result)"

subsection \<open>Extraction\<close>

record MarkdownExtractedSlice =
  es_nodeId :: jstring
  es_range :: SourceRange
  es_original :: jstring

record MarkdownHeadingExtraction = MarkdownExtractedSlice +
  he_depth :: nat

datatype StatementKind = ParagraphStatement | ListItemStatement

record MarkdownStatementExtraction = MarkdownExtractedSlice +
  st_kind :: StatementKind

record MarkdownCodeBlockExtraction = MarkdownExtractedSlice +
  cb_language :: "jstring option"
  cb_metadata :: "jstring option"

record MarkdownLinkExtraction = MarkdownExtractedSlice +
  le_destination :: jstring
  le_title :: "jstring option"

datatype ReferenceRole = ReferenceDefinition | ReferenceUse

datatype ReferenceType = CollapsedReference | FullReference | ShortcutReference

record MarkdownReferenceExtraction = MarkdownExtractedSlice +
  re_role :: ReferenceRole
  re_identifier :: jstring
  re_label :: "jstring option"
  re_referenceType :: "ReferenceType option"
  re_destination :: "jstring option"
  re_title :: "jstring option"

record MarkdownExtractions =
  ex_headings :: "MarkdownHeadingExtraction list"
  ex_statements :: "MarkdownStatementExtraction list"
  ex_codeBlocks :: "MarkdownCodeBlockExtraction list"
  ex_links :: "MarkdownLinkExtraction list"
  ex_references :: "MarkdownReferenceExtraction list"

type_synonym MarkdownExtractionResult = "MarkdownParseResult \<times> MarkdownExtractions"

definition referenceTypeOf :: "jstring option \<Rightarrow> ReferenceType option" where
  "referenceTypeOf v =
     (if v = Some (js ''collapsed'') then Some CollapsedReference
      else if v = Some (js ''full'') then Some FullReference
      else if v = Some (js ''shortcut'') then Some ShortcutReference
      else None)"

definition isReferenceType :: "jstring \<Rightarrow> bool" where
  "isReferenceType type \<longleftrightarrow> type = js ''definition'' \<or> type = js ''linkReference''"

definition isExtractedNode :: "MdastTree \<Rightarrow> AstNode \<Rightarrow> IndexedNode \<Rightarrow> bool" where
  "isExtractedNode tree node indexed \<longleftrightarrow>
     (case an_kind node of
        HeadingNode _ \<Rightarrow> True
      | ParagraphNode \<Rightarrow> True
      | ListItemNode \<Rightarrow> True
      | CodeBlockNode _ _ \<Rightarrow> True
      | LinkNode _ _ \<Rightarrow> True
      | _ \<Rightarrow> isReferenceType (nodeType (mt_node tree (ix_node indexed))))"

text \<open>The code units and bytes that a node adds to the extracted slices.\<close>

definition rangeUnits :: "AstNode \<Rightarrow> nat" where
  "rangeUnits node = sp_utf16Offset (sr_end (an_range node)) - sp_utf16Offset (sr_start (an_range node))"

definition rangeBytes :: "AstNode \<Rightarrow> nat" where
  "rangeBytes node = sp_byteOffset (sr_end (an_range node)) - sp_byteOffset (sr_start (an_range node))"

fun preflightExtractedSlices ::
  "MdastTree \<Rightarrow> (MarkdownLimitName \<Rightarrow> nat) \<Rightarrow> (AstNode \<times> IndexedNode) list \<Rightarrow> nat \<Rightarrow> nat \<Rightarrow>
   MarkdownParserErrorCode + unit" where
  "preflightExtractedSlices tree limits [] units bytes = Inr ()"
| "preflightExtractedSlices tree limits ((node, indexed) # rest) units bytes =
     (if \<not> isExtractedNode tree node indexed then preflightExtractedSlices tree limits rest units bytes
      else if limits MaxExtractedUtf16CodeUnits < units + rangeUnits node
      then Inl (MdExtractionResourceLimit MaxExtractedUtf16CodeUnits)
      else if limits MaxExtractedUtf8Bytes < bytes + rangeBytes node
      then Inl (MdExtractionResourceLimit MaxExtractedUtf8Bytes)
      else preflightExtractedSlices tree limits rest (units + rangeUnits node) (bytes + rangeBytes node))"

definition sourceSlice :: "jstring \<Rightarrow> SourceRange \<Rightarrow> jstring" where
  "sourceSlice source rng = slice source (sp_utf16Offset (sr_start rng)) (sp_utf16Offset (sr_end rng))"

text \<open>The part of the loop body that depends on the node's kind.\<close>

definition extractStructure :: "jstring \<Rightarrow> AstNode \<Rightarrow> MarkdownExtractions \<Rightarrow> MarkdownExtractions" where
  "extractStructure source node out =
     (let original = sourceSlice source (an_range node) in
      case an_kind node of
        HeadingNode depth \<Rightarrow>
          out\<lparr>ex_headings := ex_headings out @
            [\<lparr>es_nodeId = an_id node, es_range = an_range node, es_original = original, he_depth = depth\<rparr>]\<rparr>
      | ParagraphNode \<Rightarrow>
          out\<lparr>ex_statements := ex_statements out @
            [\<lparr>es_nodeId = an_id node, es_range = an_range node, es_original = original, st_kind = ParagraphStatement\<rparr>]\<rparr>
      | ListItemNode \<Rightarrow>
          out\<lparr>ex_statements := ex_statements out @
            [\<lparr>es_nodeId = an_id node, es_range = an_range node, es_original = original, st_kind = ListItemStatement\<rparr>]\<rparr>
      | CodeBlockNode language metadata \<Rightarrow>
          out\<lparr>ex_codeBlocks := ex_codeBlocks out @
            [\<lparr>es_nodeId = an_id node, es_range = an_range node, es_original = original,
              cb_language = language, cb_metadata = metadata\<rparr>]\<rparr>
      | LinkNode destination title \<Rightarrow>
          out\<lparr>ex_links := ex_links out @
            [\<lparr>es_nodeId = an_id node, es_range = an_range node, es_original = original,
              le_destination = destination, le_title = title\<rparr>]\<rparr>
      | _ \<Rightarrow> out)"

text \<open>The part that collects link references and definitions.\<close>

definition extractReference ::
  "jstring \<Rightarrow> MdastNode \<Rightarrow> AstNode \<Rightarrow> MarkdownExtractions \<Rightarrow> MarkdownParserErrorCode + MarkdownExtractions" where
  "extractReference source mdast node out =
     (let type = nodeType mdast; isDefinition = (type = js ''definition'') in
      if \<not> isReferenceType type then Inr out
      else (case nullableNonEmpty (md_identifier mdast) of
              None \<Rightarrow> Inl MdParseFailed
            | Some identifier \<Rightarrow>
                Inr (out\<lparr>ex_references := ex_references out @
                  [\<lparr>es_nodeId = an_id node, es_range = an_range node, es_original = sourceSlice source (an_range node),
                    re_role = (if isDefinition then ReferenceDefinition else ReferenceUse),
                    re_identifier = identifier, re_label = nullableNonEmpty (md_label mdast),
                    re_referenceType = (if isDefinition then None else referenceTypeOf (md_referenceType mdast)),
                    re_destination = (if isDefinition then md_url mdast else None),
                    re_title = (if isDefinition then nullableNonEmpty (md_title mdast) else None)\<rparr>]\<rparr>)))"

fun extractNodes ::
  "MdastTree \<Rightarrow> jstring \<Rightarrow> (AstNode \<times> IndexedNode) list \<Rightarrow> MarkdownExtractions \<Rightarrow>
   MarkdownParserErrorCode + MarkdownExtractions" where
  "extractNodes tree source [] out = Inr out"
| "extractNodes tree source ((node, indexed) # rest) out =
     (if \<not> isExtractedNode tree node indexed then extractNodes tree source rest out
      else bindR (extractReference source (mt_node tree (ix_node indexed)) node (extractStructure source node out))
             (extractNodes tree source rest))"

definition noExtractions :: MarkdownExtractions where
  "noExtractions = \<lparr>ex_headings = [], ex_statements = [], ex_codeBlocks = [], ex_links = [], ex_references = []\<rparr>"

definition extractMarkdownContent ::
  "MarkdownParser \<Rightarrow> (nat list \<Rightarrow> jstring) \<Rightarrow> jstring \<Rightarrow> jstring \<Rightarrow> MarkdownOptions \<Rightarrow>
   MarkdownParserErrorCode + MarkdownExtractionResult" where
  "extractMarkdownContent fromMarkdown sha256 sourceId source options =
     bindR (validateExtractionOptions options) (\<lambda>limits.
     bindR (parseMarkdownInternal fromMarkdown sha256 sourceId source options) (\<lambda>(tree, indexedNodes, result).
     bindR (preflightExtractedSlices tree limits (zip (mr_nodes result) indexedNodes) 0 0) (\<lambda>_.
     bindR (extractNodes tree source (zip (mr_nodes result) indexedNodes) noExtractions) (\<lambda>extractions.
       Inr (result, extractions)))))"

end
