(* ===== verification/Import_Lexer.thy ===== *)
theory Import_Lexer
  imports Markdown
begin

text \<open>
  The import lexer (\<open>packages/syntax/src/import-lexer.ts\<close>): it finds the \<open>@\<close> references of a Markdown document,
  classifies their targets for a dialect and attaches them to the deepest enclosing node.

  \<open>fromMarkdown\<close> and \<open>sha256\<close> are the parameters of the Markdown package. The descent to the deepest node is given
  as many steps as the document has nodes; \<open>LexDiverges\<close> stands for a descent that would not end, and
  \<open>Import_Lexer_Props\<close> proves that it never does.
\<close>

subsection \<open>Data\<close>

datatype ImportLexerLimitName = MaxImports | MaxSpecifierUtf16CodeUnits

fun DEFAULT_IMPORT_LEXER_LIMITS :: "ImportLexerLimitName \<Rightarrow> nat" where
  "DEFAULT_IMPORT_LEXER_LIMITS MaxImports = 4096"
| "DEFAULT_IMPORT_LEXER_LIMITS MaxSpecifierUtf16CodeUnits = 4096"

definition ABSOLUTE_IMPORT_LEXER_LIMITS :: "ImportLexerLimitName \<Rightarrow> nat" where
  "ABSOLUTE_IMPORT_LEXER_LIMITS = DEFAULT_IMPORT_LEXER_LIMITS"

datatype ImportLexerFailure =
    LexInvalidInput
  | LexInvalidLimit ImportLexerLimitName
  | LexResourceLimit ImportLexerLimitName
  | LexMarkdownError MarkdownParserErrorCode
  | LexDiverges

datatype Disposition = DispositionAmbiguous | DispositionContradiction | DispositionExclude

record DispositionRange =
  dr_start :: nat
  dr_end :: nat
  dr_disposition :: Disposition

record Classification =
  cl_state :: ImportState
  cl_targetKind :: ImportTargetKind
  cl_uncertainty :: Uncertainty

record Candidate =
  cd_start :: nat
  cd_specifierStart :: nat
  cd_end :: nat
  cd_classification :: Classification

record ImportLexerResult =
  ir_syntax :: ImportDialect
  ir_markdown :: MarkdownExtractionResult
  ir_imports :: "ImportReference list"

subsection \<open>Options and positions\<close>

type_synonym ImportLexerOptions = "ImportLexerLimitName \<Rightarrow> int option"

definition validateLexerLimit :: "ImportLexerOptions \<Rightarrow> ImportLexerLimitName \<Rightarrow> ImportLexerFailure + nat" where
  "validateLexerLimit given name =
     (let v = (case given name of None \<Rightarrow> int (DEFAULT_IMPORT_LEXER_LIMITS name) | Some v \<Rightarrow> v)
      in checkR (1 \<le> v \<and> v \<le> int (ABSOLUTE_IMPORT_LEXER_LIMITS name)) (LexInvalidLimit name) (Inr (nat v)))"

definition validateLexerOptions :: "ImportLexerOptions \<Rightarrow> ImportLexerFailure + (ImportLexerLimitName \<Rightarrow> nat)" where
  "validateLexerOptions given =
     bindR (validateLexerLimit given MaxImports) (\<lambda>imports.
     bindR (validateLexerLimit given MaxSpecifierUtf16CodeUnits) (\<lambda>units.
       Inr (\<lambda>name. case name of MaxImports \<Rightarrow> imports | MaxSpecifierUtf16CodeUnits \<Rightarrow> units)))"

text \<open>This index has no byte limit, so it is always built.\<close>

definition lexerPositionIndex :: "jstring \<Rightarrow> ImportLexerFailure + PositionIndex" where
  "lexerPositionIndex s = (case positionIndex None s of None \<Rightarrow> Inl LexInvalidInput | Some index \<Rightarrow> Inr index)"

definition lexerRange :: "jstring \<Rightarrow> PositionIndex \<Rightarrow> nat \<Rightarrow> nat \<Rightarrow> ImportLexerFailure + SourceRange" where
  "lexerRange sourceId positions start end =
     (case locateRange sourceId positions start end of None \<Rightarrow> Inl LexInvalidInput | Some rng \<Rightarrow> Inr rng)"

subsection \<open>Tokens\<close>

definition isEscaped :: "jstring \<Rightarrow> nat \<Rightarrow> bool" where
  "isEscaped s offset \<longleftrightarrow> length (takeWhile (\<lambda>u. u = BACKSLASH) (rev (take offset s))) mod 2 = 1"

definition hasTokenBoundary :: "jstring \<Rightarrow> nat \<Rightarrow> ImportDialect \<Rightarrow> bool" where
  "hasTokenBoundary s offset dialect \<longleftrightarrow>
     (if offset = 0 then True
      else let previous = s ! (offset - 1) in
        if isWhitespace previous then True
        else if dialect = CursorAgent \<and> previous = BACKSLASH then offset = 1 \<or> isWhitespace (s ! (offset - 2))
        else if dialect = GeminiCli then False
        else previous \<in> {0x28, 0x5B, 0x60, 0x7B, 0x3C})"

definition canStartSpecifier :: "nat option \<Rightarrow> ImportDialect \<Rightarrow> bool" where
  "canStartSpecifier first dialect \<longleftrightarrow>
     (case first of
        None \<Rightarrow> False
      | Some u \<Rightarrow>
          if dialect = GeminiCli then u = DOT \<or> u = SLASH \<or> is_ascii_letter u
          else u = DOT \<or> u = SLASH \<or> u = BACKSLASH \<or> u = 0x7E \<or> is_ascii_letter u \<or> is_ascii_digit u \<or>
               (dialect = CursorAgent \<and> (u = 0x22 \<or> u = 0x27)))"

fun schemeRest :: "jstring \<Rightarrow> bool" where
  "schemeRest [] = False"
| "schemeRest (u # us) =
     (if u = COLON then charAt us 0 = Some SLASH \<and> charAt us 1 = Some SLASH
      else (is_ascii_letter u \<or> is_ascii_digit u \<or> u = 0x2B \<or> u = 0x2D \<or> u = DOT) \<and> schemeRest us)"

definition hasUrlScheme :: "jstring \<Rightarrow> bool" where
  "hasUrlScheme raw \<longleftrightarrow> (case raw of [] \<Rightarrow> False | u # us \<Rightarrow> is_ascii_letter u \<and> schemeRest us)"

fun unusualUnit :: "jstring \<Rightarrow> ImportTargetKind option" where
  "unusualUnit [] = None"
| "unusualUnit (u # us) =
     (if u < 0x20 \<or> u = 0x7F then Some MalformedTarget else if 0x7E < u then Some UnknownTarget else unusualUnit us)"

definition classifyTarget :: "jstring \<Rightarrow> ImportTargetKind" where
  "classifyTarget raw =
     (case unusualUnit raw of
        Some kind \<Rightarrow> kind
      | None \<Rightarrow>
          if hasUrlScheme raw then UrlTarget
          else if startsWith raw [SLASH] \<or> startsWith raw [BACKSLASH, BACKSLASH] \<or> startsWith raw [0x7E, SLASH] \<or>
                  ((case charAt raw 0 of None \<Rightarrow> False | Some u \<Rightarrow> is_ascii_letter u) \<and> charAt raw 1 = Some COLON)
          then AbsolutePathCandidate
          else if 0x40 \<in> set raw \<or> startsWith raw [0x22] \<or> startsWith raw [0x27] then UnknownTarget
          else RepositoryPathCandidate)"

definition hasAmbiguousPunctuation :: "jstring \<Rightarrow> bool" where
  "hasAmbiguousPunctuation raw \<longleftrightarrow>
     raw \<noteq> [] \<and> last raw \<in> {0x21, 0x22, 0x27, 0x29, 0x2C, 0x3A, 0x3B, 0x3E, 0x3F, 0x5D, 0x7D}"

definition contradiction :: Uncertainty where
  "contradiction =
     Contradiction (js ''Gemini documentation and pinned source disagree about code-region recognition'')
       [\<lparr>ca_id = js ''documented-marked-regions'', ca_description = js ''Treat the region as code''\<rparr>,
        \<lparr>ca_id = js ''source-matched-backticks'', ca_description = js ''Scan the region for imports''\<rparr>]"

definition ambiguousAs :: "ImportTargetKind \<Rightarrow> Uncertainty \<Rightarrow> Classification" where
  "ambiguousAs kind uncertainty = \<lparr>cl_state = ImportAmbiguous, cl_targetKind = kind, cl_uncertainty = uncertainty\<rparr>"

definition classifyCandidate :: "jstring \<Rightarrow> ImportDialect \<Rightarrow> bool \<Rightarrow> bool \<Rightarrow> Classification" where
  "classifyCandidate raw dialect ambiguousRegion contradictoryRegion =
     (let kind = classifyTarget raw in
      if kind = MalformedTarget then \<lparr>cl_state = ImportMalformed, cl_targetKind = kind, cl_uncertainty = Known\<rparr>
      else if dialect = CursorAgent then
        ambiguousAs kind (Unknown (js ''Cursor does not document exact @ reference tokenization''))
      else if ambiguousRegion then
        ambiguousAs kind (Unknown (js ''The selected syntax does not document reference handling in this region''))
      else if contradictoryRegion then ambiguousAs kind contradiction
      else if kind = UnknownTarget \<or> hasAmbiguousPunctuation raw then
        ambiguousAs kind (Unknown (js ''The selected syntax does not define this @ token boundary precisely''))
      else if dialect \<noteq> GeminiCli \<and> SLASH \<notin> set raw \<and> BACKSLASH \<notin> set raw \<and> DOT \<notin> set raw then
        ambiguousAs kind (Unknown (js ''A bare @ name can be prose or a file reference''))
      else \<lparr>cl_state = ImportRecognized, cl_targetKind = kind, cl_uncertainty = Known\<rparr>)"

subsection \<open>Regions\<close>

text \<open>The first backtick or tilde after characters that may precede a fence.\<close>

fun fenceMarker :: "jstring \<Rightarrow> nat option" where
  "fenceMarker [] = None"
| "fenceMarker (u # us) =
     (if u = 0x60 \<or> u = 0x7E then Some u
      else if u = 0x20 \<or> u = 0x09 \<or> u = 0x3E \<or> u = 0x2D \<or> is_ascii_digit u then fenceMarker us
      else None)"

definition codeFenceMarker :: "jstring \<Rightarrow> AstNode \<Rightarrow> nat option" where
  "codeFenceMarker source node = fenceMarker (sourceSlice source (an_range node))"

definition isCodeBlock :: "AstNode \<Rightarrow> bool" where
  "isCodeBlock node = (case an_kind node of CodeBlockNode _ _ \<Rightarrow> True | _ \<Rightarrow> False)"

definition regionDisposition :: "jstring \<Rightarrow> AstNode \<Rightarrow> ImportDialect \<Rightarrow> Disposition option" where
  "regionDisposition source node dialect =
     (let inlineCode = (an_kind node = InlineCodeNode); codeBlock = isCodeBlock node;
          comment = (an_kind node = HtmlCommentNode)
      in if \<not> (inlineCode \<or> codeBlock) \<and> \<not> comment then None
         else if dialect = ClaudeCode then Some DispositionExclude
         else if dialect = GeminiCli then
           (if inlineCode then Some DispositionExclude
            else if codeBlock then
              (if codeFenceMarker source node = Some 0x60 then Some DispositionExclude else Some DispositionContradiction)
            else None)
         else Some DispositionAmbiguous)"

definition buildDispositionRanges :: "jstring \<Rightarrow> AstNode list \<Rightarrow> ImportDialect \<Rightarrow> DispositionRange list" where
  "buildDispositionRanges source nodes dialect =
     concat (map (\<lambda>node. case regionDisposition source node dialect of
         None \<Rightarrow> []
       | Some disposition \<Rightarrow>
           [\<lparr>dr_start = sp_utf16Offset (sr_start (an_range node)), dr_end = sp_utf16Offset (sr_end (an_range node)),
             dr_disposition = disposition\<rparr>]) nodes)"

definition containingDisposition :: "DispositionRange list \<Rightarrow> nat \<Rightarrow> Disposition option" where
  "containingDisposition ranges start =
     (let low = bisect (\<lambda>middle. middle < length ranges \<and> dr_start (ranges ! middle) \<le> start) 0 (length ranges)
      in if low = 0 then None
         else let r = ranges ! (low - 1)
              in if dr_start r \<le> start \<and> start < dr_end r then Some (dr_disposition r) else None)"

definition nodeMap :: "AstNode list \<Rightarrow> jstring \<rightharpoonup> AstNode" where
  "nodeMap nodes = map_of (rev (map (\<lambda>node. (an_id node, node)) nodes))"

text \<open>The child in which the descent continues.\<close>

definition containingChild :: "(jstring \<rightharpoonup> AstNode) \<Rightarrow> AstNode \<Rightarrow> nat \<Rightarrow> nat \<Rightarrow> AstNode option" where
  "containingChild nodes current start end =
     (let ids = an_childIds current;
          begins = (\<lambda>middle. middle < length ids \<and>
            (case nodes (ids ! middle) of
               None \<Rightarrow> False
             | Some child \<Rightarrow> sp_utf16Offset (sr_start (an_range child)) \<le> start));
          low = bisect begins 0 (length ids)
      in if low = 0 then None
         else (case nodes (ids ! (low - 1)) of
                 None \<Rightarrow> None
               | Some child \<Rightarrow>
                   if start < sp_utf16Offset (sr_start (an_range child)) \<or> sp_utf16Offset (sr_end (an_range child)) < end
                   then None else Some child))"

fun descend :: "nat \<Rightarrow> (jstring \<rightharpoonup> AstNode) \<Rightarrow> AstNode \<Rightarrow> nat \<Rightarrow> nat \<Rightarrow> AstNode option" where
  "descend 0 nodes current start end = None"
| "descend (Suc fuel) nodes current start end =
     (if an_childIds current = [] then Some current
      else (case containingChild nodes current start end of
              None \<Rightarrow> Some current
            | Some child \<Rightarrow> descend fuel nodes child start end))"

definition deepestContainingNode ::
  "jstring \<Rightarrow> AstNode list \<Rightarrow> nat \<Rightarrow> nat \<Rightarrow> ImportLexerFailure + AstNode" where
  "deepestContainingNode rootNodeId nodes start end =
     (case nodeMap nodes rootNodeId of
        None \<Rightarrow> Inl LexInvalidInput
      | Some root \<Rightarrow>
          (case descend (length nodes) (nodeMap nodes) root start end of
             None \<Rightarrow> Inl LexDiverges
           | Some node \<Rightarrow> Inr node))"

subsection \<open>Candidates\<close>

definition specifierAt :: "jstring \<Rightarrow> nat \<Rightarrow> jstring" where
  "specifierAt s start = takeWhile (\<lambda>u. \<not> isWhitespace u) (drop start s)"

text \<open>Whether an \<open>@\<close> that can begin a reference stands at an offset.\<close>

definition opensReference :: "jstring \<Rightarrow> ImportDialect \<Rightarrow> nat \<Rightarrow> bool" where
  "opensReference s dialect index \<longleftrightarrow>
     s ! index = 0x40 \<and> hasTokenBoundary s index dialect \<and> (dialect = CursorAgent \<or> \<not> isEscaped s index) \<and>
     canStartSpecifier (charAt s (index + 1)) dialect"

definition candidateAt :: "jstring \<Rightarrow> ImportDialect \<Rightarrow> Disposition option \<Rightarrow> nat \<Rightarrow> Candidate" where
  "candidateAt s dialect disposition index =
     (let raw = specifierAt s (index + 1)
      in \<lparr>cd_start = index, cd_specifierStart = index + 1, cd_end = index + 1 + length raw,
          cd_classification = classifyCandidate raw dialect
            (isEscaped s index \<or> disposition = Some DispositionAmbiguous) (disposition = Some DispositionContradiction)\<rparr>)"

function scanCandidates ::
  "jstring \<Rightarrow> ImportDialect \<Rightarrow> (ImportLexerLimitName \<Rightarrow> nat) \<Rightarrow> DispositionRange list \<Rightarrow> nat \<Rightarrow> Candidate list \<Rightarrow>
   ImportLexerFailure + Candidate list" where
  "scanCandidates s dialect limits ranges index candidates =
     (if index < length s then
        if \<not> opensReference s dialect index then scanCandidates s dialect limits ranges (index + 1) candidates
        else let raw = specifierAt s (index + 1); end' = index + 1 + length raw;
                 disposition = containingDisposition ranges index
             in if limits MaxSpecifierUtf16CodeUnits < length raw then Inl (LexResourceLimit MaxSpecifierUtf16CodeUnits)
                else if disposition = Some DispositionExclude then
                  scanCandidates s dialect limits ranges end' candidates
                else if limits MaxImports \<le> length candidates then Inl (LexResourceLimit MaxImports)
                else scanCandidates s dialect limits ranges end' (candidates @ [candidateAt s dialect disposition index])
      else Inr candidates)"
  by pat_completeness auto
termination
  by (relation "measure (\<lambda>(s, dialect, limits, ranges, index, candidates). length s - index)") auto

declare scanCandidates.simps [simp del]

subsection \<open>The lexer\<close>

text \<open>\<open>padStart(3, "0")\<close>.\<close>

definition padStart3 :: "jstring \<Rightarrow> jstring" where
  "padStart3 s = replicate (3 - length s) 0x30 @ s"

definition importIdentity :: "(nat list \<Rightarrow> jstring) \<Rightarrow> jstring \<Rightarrow> ImportDialect \<Rightarrow> jstring \<Rightarrow> jstring \<Rightarrow> jstring" where
  "importIdentity sha256 documentId dialect sourceId s =
     sha256 (utf8 documentId @ [0] @ utf8 (dialectText dialect) @ [0] @ utf8 sourceId @ [0] @ utf8 s)"

definition buildReference ::
  "jstring \<Rightarrow> jstring \<Rightarrow> ImportDialect \<Rightarrow> jstring \<Rightarrow> MarkdownParseResult \<Rightarrow> PositionIndex \<Rightarrow> jstring \<Rightarrow> nat \<Rightarrow> Candidate \<Rightarrow>
   ImportLexerFailure + ImportReference" where
  "buildReference documentId sourceId dialect s markdown positions identity index candidate =
     bindR (deepestContainingNode (mr_rootNodeId markdown) (mr_nodes markdown) (cd_start candidate) (cd_end candidate)) (\<lambda>owner.
     bindR (lexerRange sourceId positions (cd_start candidate) (cd_end candidate)) (\<lambda>rng.
     bindR (lexerRange sourceId positions (cd_specifierStart candidate) (cd_end candidate)) (\<lambda>specifierRange.
       Inr \<lparr>ref_id = js ''import:'' @ identity @ COLON # padStart3 (base36 index), ref_documentId = documentId,
            ref_nodeId = an_id owner, ref_kind = (if dialect = CursorAgent then ReferenceToken else VendorImport),
            ref_range = rng, ref_specifierRange = specifierRange,
            ref_rawSpecifier = slice s (cd_specifierStart candidate) (cd_end candidate),
            ref_targetKind = cl_targetKind (cd_classification candidate),
            ref_state = cl_state (cd_classification candidate),
            ref_uncertainty = cl_uncertainty (cd_classification candidate)\<rparr>)))"

definition mapMarkdownError :: "MarkdownParserErrorCode + 'a \<Rightarrow> ImportLexerFailure + 'a" where
  "mapMarkdownError r = (case r of Inl e \<Rightarrow> Inl (LexMarkdownError e) | Inr x \<Rightarrow> Inr x)"

definition lexImportReferences ::
  "MarkdownParser \<Rightarrow> (nat list \<Rightarrow> jstring) \<Rightarrow> jstring \<Rightarrow> jstring \<Rightarrow> ImportDialect \<Rightarrow> jstring \<Rightarrow> ImportLexerOptions \<Rightarrow>
   ImportLexerFailure + ImportLexerResult" where
  "lexImportReferences fromMarkdown sha256 documentId sourceId dialect s options =
     checkR (isStableIdentifier documentId) LexInvalidInput
     (checkR (isStableIdentifier sourceId) LexInvalidInput
     (bindR (validateLexerOptions options) (\<lambda>limits.
      bindR (mapMarkdownError (extractMarkdownContent fromMarkdown sha256 sourceId s (\<lambda>_. None))) (\<lambda>markdown.
      bindR (lexerPositionIndex s) (\<lambda>positions.
      bindR (scanCandidates s dialect limits (buildDispositionRanges s (mr_nodes (fst markdown)) dialect) 0 []) (\<lambda>candidates.
      bindR (sequenceR (map (\<lambda>(index, candidate).
               buildReference documentId sourceId dialect s (fst markdown) positions
                 (importIdentity sha256 documentId dialect sourceId s) index candidate)
               (enumerate 0 candidates))) (\<lambda>imports.
        Inr \<lparr>ir_syntax = dialect, ir_markdown = markdown, ir_imports = imports\<rparr>)))))))"

end
