(* ===== verification/Import_Graph.thy ===== *)
theory Import_Graph
  imports Ignore_Engine Import_Lexer
begin

text \<open>
  The import graph loader (\<open>packages/evidence/src/import-graph-loader.ts\<close>): a depth-first walk over the
  documents that import each other, with cycle detection by path and by file identity and limits on
  depth, fan-out, files, edges and bytes.

  Parameters of the model: \<open>readFile\<close> is what the repository facade answers to the n-th read, so that two
  reads of a path may differ; \<open>sha256\<close> is the hexadecimal digest of bytes; \<open>fromMarkdown\<close> is the CommonMark
  parser under the import lexer. The read-only fields of \<open>MutableState\<close> form a record of their own. Reads are
  sequential in the source, so the asynchronous functions are plain functions here; the checks for plain
  records and proxies have no counterpart.
\<close>

subsection \<open>Data\<close>

datatype ImportGraphLimitName = maxDepth | maxEdges | maxFanOut | maxFiles | maxFileBytes | maxTotalBytes | maxIssues

type_synonym ImportGraphLimits = "ImportGraphLimitName \<Rightarrow> nat"

fun DEFAULT_IMPORT_GRAPH_LIMITS :: ImportGraphLimits where
  "DEFAULT_IMPORT_GRAPH_LIMITS maxDepth = 32"
| "DEFAULT_IMPORT_GRAPH_LIMITS maxEdges = 65536"
| "DEFAULT_IMPORT_GRAPH_LIMITS maxFanOut = 256"
| "DEFAULT_IMPORT_GRAPH_LIMITS maxFiles = 4096"
| "DEFAULT_IMPORT_GRAPH_LIMITS maxFileBytes = 524288"
| "DEFAULT_IMPORT_GRAPH_LIMITS maxTotalBytes = 16777216"
| "DEFAULT_IMPORT_GRAPH_LIMITS maxIssues = 4096"

definition HARD_IMPORT_GRAPH_LIMITS :: ImportGraphLimits where
  "HARD_IMPORT_GRAPH_LIMITS = DEFAULT_IMPORT_GRAPH_LIMITS"

datatype ImportGraphIssueCode =
    AmbiguousReference
  | ImportCycle
  | DepthLimit
  | EdgeLimit
  | FanOutLimit
  | FileLimit
  | FileTooLarge
  | InvalidUtf8
  | LexFailed
  | ReadFailed
  | RootBoundary
  | TargetRejected
  | TotalBytesLimit

record ImportGraphIssue =
  gi_code :: ImportGraphIssueCode
  gi_importId :: "jstring option"
  gi_path :: jstring
  gi_range :: "SourceRange option"
  gi_targetPath :: "jstring option"

datatype ImportGraphEdgeState =
  EdgeLoaded | EdgeAlreadyLoaded | EdgeCycle | EdgeAmbiguous | EdgeRejected | EdgeUnavailable | EdgeLimitExceeded

record ImportGraphEdge =
  ge_depth :: nat
  ge_fromDocumentId :: jstring
  ge_import :: ImportReference
  ge_issueCode :: "ImportGraphIssueCode option"
  ge_state :: ImportGraphEdgeState
  ge_targetDocumentId :: "jstring option"
  ge_targetPath :: "jstring option"

datatype ImportGraphNodeState = NodeLoaded | NodeParseFailed

record ImportGraphNode =
  gn_byteLength :: nat
  gn_depth :: nat
  gn_documentId :: jstring
  gn_imports :: "ImportReference list"
  gn_path :: jstring
  gn_sha256 :: jstring
  gn_sourceId :: jstring
  gn_state :: ImportGraphNodeState

record ImportGraphResult =
  gr_edges :: "ImportGraphEdge list"
  gr_entryPath :: jstring
  gr_issues :: "ImportGraphIssue list"
  gr_nodes :: "ImportGraphNode list"
  gr_complete :: bool
  gr_syntax :: ImportDialect
  gr_usedEdges :: nat
  gr_usedFiles :: nat
  gr_usedIssues :: nat
  gr_totalBytes :: nat

record RepositoryFile =
  rf_device :: jstring
  rf_inode :: jstring
  rf_bytes :: "nat list"

text \<open>The read-only part of \<open>MutableState\<close>.\<close>

record LoaderContext =
  lc_limits :: ImportGraphLimits
  lc_readFile :: "nat \<Rightarrow> jstring \<Rightarrow> RepositoryFile option"
  lc_syntax :: ImportDialect
  lc_sha256 :: "nat list \<Rightarrow> jstring"
  lc_fromMarkdown :: MarkdownParser

text \<open>The mutable part; \<open>ms_reads\<close> counts the reads made so far.\<close>

record MutableState =
  ms_active :: "jstring \<rightharpoonup> jstring"
  ms_activeIdentities :: "jstring \<rightharpoonup> jstring"
  ms_completed :: "jstring \<rightharpoonup> jstring"
  ms_edges :: "ImportGraphEdge list"
  ms_issues :: "ImportGraphIssue list"
  ms_nodes :: "ImportGraphNode list"
  ms_edgeSlots :: nat
  ms_halted :: bool
  ms_totalBytes :: nat
  ms_reads :: nat

datatype ImportGraphLoaderErrorCode = GraphInvalidInput | GraphInvalidLimit ImportGraphLimitName

text \<open>\<open>documentId\<close> and \<open>failureCode\<close> of a visit.\<close>

type_synonym VisitResult = "jstring option \<times> ImportGraphIssueCode option"

subsection \<open>Validation\<close>

definition validateEntry :: "jstring \<Rightarrow> bool" where
  "validateEntry entryPath \<longleftrightarrow>
     (case canonicalizeRepositoryRelativePath entryPath Posix of
        Inl _ \<Rightarrow> False
      | Inr canonical \<Rightarrow> canonical = entryPath \<and> entryPath \<noteq> REPOSITORY_ROOT)"

definition GRAPH_LIMIT_KEYS :: "ImportGraphLimitName list" where
  "GRAPH_LIMIT_KEYS = [maxDepth, maxEdges, maxFanOut, maxFiles, maxFileBytes, maxTotalBytes, maxIssues]"

fun validateGraphLimits ::
  "(ImportGraphLimitName \<Rightarrow> int option) \<Rightarrow> ImportGraphLimitName list \<Rightarrow> ImportGraphLimits \<Rightarrow>
   ImportGraphLoaderErrorCode + ImportGraphLimits" where
  "validateGraphLimits given [] result = Inr result"
| "validateGraphLimits given (name # names) result =
     (case given name of
        None \<Rightarrow> validateGraphLimits given names result
      | Some candidate \<Rightarrow>
          if candidate < (if name = maxDepth then 0 else 1) \<or> int (HARD_IMPORT_GRAPH_LIMITS name) < candidate
          then Inl (GraphInvalidLimit name)
          else validateGraphLimits given names (result(name := nat candidate)))"

definition validateLimits ::
  "(ImportGraphLimitName \<Rightarrow> int option) option \<Rightarrow> ImportGraphLoaderErrorCode + ImportGraphLimits" where
  "validateLimits value =
     (case value of
        None \<Rightarrow> Inr DEFAULT_IMPORT_GRAPH_LIMITS
      | Some given \<Rightarrow> validateGraphLimits given GRAPH_LIMIT_KEYS DEFAULT_IMPORT_GRAPH_LIMITS)"

subsection \<open>Identities and targets\<close>

text \<open>\<open>stableIds\<close>: document identifier, digest and source identifier.\<close>

definition stableIds :: "LoaderContext \<Rightarrow> jstring \<Rightarrow> nat list \<Rightarrow> jstring \<times> jstring \<times> jstring" where
  "stableIds ctx pathValue bytes =
     (let sha = lc_sha256 ctx bytes;
          identity = lc_sha256 ctx (utf8 pathValue @ [0] @ utf8 (dialectText (lc_syntax ctx)) @ [0] @ sha)
      in (js ''document:'' @ identity, sha, js ''source:'' @ identity))"

fun resolveSegments :: "jstring list \<Rightarrow> jstring list \<Rightarrow> jstring list option" where
  "resolveSegments segments [] = Some segments"
| "resolveSegments segments (segment # rest) =
     (if segment = [] \<or> segment = [DOT] then resolveSegments segments rest
      else if segment = [DOT, DOT] then
        (if segments = [] then None else resolveSegments (butlast segments) rest)
      else resolveSegments (segments @ [segment]) rest)"

text \<open>\<open>path\<close> and \<open>escaped\<close> of a resolved specifier.\<close>

definition resolveTarget :: "jstring \<Rightarrow> jstring \<Rightarrow> jstring option \<times> bool" where
  "resolveTarget fromPath specifier =
     (if specifier = [] \<or> BACKSLASH \<in> set specifier \<or> startsWith specifier [SLASH] then (None, False)
      else let base = (case lastIndexOf SLASH fromPath of None \<Rightarrow> [] | Some i \<Rightarrow> take i fromPath);
               start = (if base = [] then [] else split_on SLASH base)
           in (case resolveSegments start (split_on SLASH specifier) of
                 None \<Rightarrow> (None, True)
               | Some segments \<Rightarrow>
                   if segments = [] then (None, False)
                   else (case canonicalizeRepositoryRelativePath (join_with SLASH segments) Posix of
                           Inl _ \<Rightarrow> (None, False)
                         | Inr p \<Rightarrow> (Some p, False))))"

definition identityKey :: "RepositoryFile \<Rightarrow> jstring" where
  "identityKey f = decimal (length (rf_device f)) @ COLON # rf_device f @ rf_inode f"

subsection \<open>Issues and edges\<close>

definition addGraphIssue ::
  "LoaderContext \<Rightarrow> ImportGraphIssueCode \<Rightarrow> jstring \<Rightarrow> ImportReference option \<Rightarrow> jstring option \<Rightarrow>
   MutableState \<Rightarrow> MutableState" where
  "addGraphIssue ctx code pathValue reference targetPath state =
     (if lc_limits ctx maxIssues \<le> length (ms_issues state) then state
      else state\<lparr>ms_issues := ms_issues state @
        [\<lparr>gi_code = code, gi_importId = map_option ref_id reference, gi_path = pathValue,
          gi_range = map_option ref_specifierRange reference, gi_targetPath = targetPath\<rparr>]\<rparr>)"

definition graphEdge ::
  "jstring \<Rightarrow> ImportReference \<Rightarrow> nat \<Rightarrow> ImportGraphEdgeState \<Rightarrow> jstring option \<Rightarrow> jstring option \<Rightarrow>
   ImportGraphIssueCode option \<Rightarrow> ImportGraphEdge" where
  "graphEdge fromDocumentId reference depth edgeState targetPath targetDocumentId issueCode =
     \<lparr>ge_depth = depth, ge_fromDocumentId = fromDocumentId, ge_import = reference, ge_issueCode = issueCode,
      ge_state = edgeState, ge_targetDocumentId = targetDocumentId, ge_targetPath = targetPath\<rparr>"

text \<open>\<open>addEdge\<close> without and with a position.\<close>

definition pushEdge :: "ImportGraphEdge \<Rightarrow> MutableState \<Rightarrow> MutableState" where
  "pushEdge edge state = state\<lparr>ms_edges := ms_edges state @ [edge]\<rparr>"

definition insertEdge :: "nat \<Rightarrow> ImportGraphEdge \<Rightarrow> MutableState \<Rightarrow> MutableState" where
  "insertEdge position edge state =
     state\<lparr>ms_edges := take position (ms_edges state) @ edge # drop position (ms_edges state)\<rparr>"

definition addNode :: "ImportGraphNode \<Rightarrow> MutableState \<Rightarrow> MutableState" where
  "addNode node state = state\<lparr>ms_nodes := ms_nodes state @ [node]\<rparr>"

subsection \<open>One document\<close>

text \<open>The reference that led to a document, with the path of the importing document.\<close>

type_synonym ImportParent = "(jstring \<times> ImportReference) option"

definition parentIssue ::
  "LoaderContext \<Rightarrow> ImportGraphIssueCode \<Rightarrow> jstring \<Rightarrow> ImportParent \<Rightarrow> MutableState \<Rightarrow> MutableState" where
  "parentIssue ctx code pathValue parent =
     (case parent of
        None \<Rightarrow> addGraphIssue ctx code pathValue None (Some pathValue)
      | Some (parentPath, reference) \<Rightarrow> addGraphIssue ctx code parentPath (Some reference) (Some pathValue))"

text \<open>A file whose contents could not be decoded or lexed is a node without imports.\<close>

definition parseFailed ::
  "LoaderContext \<Rightarrow> ImportGraphIssueCode \<Rightarrow> ImportGraphNode \<Rightarrow> ImportParent \<Rightarrow> MutableState \<Rightarrow> MutableState \<times> VisitResult" where
  "parseFailed ctx code node parent state =
     (let state1 = parentIssue ctx code (gn_path node) parent (addNode node state)
      in (state1\<lparr>ms_completed := (ms_completed state1)(gn_path node \<mapsto> gn_documentId node)\<rparr>,
          (Some (gn_documentId node), None)))"

definition activateDocument :: "LoaderContext \<Rightarrow> ImportGraphNode \<Rightarrow> jstring \<Rightarrow> MutableState \<Rightarrow> MutableState" where
  "activateDocument ctx node key state =
     (let state1 = addNode node state;
          state2 = state1\<lparr>ms_active := (ms_active state1)(gn_path node \<mapsto> gn_documentId node),
            ms_activeIdentities := (ms_activeIdentities state1)(key \<mapsto> gn_documentId node)\<rparr>
      in if lc_limits ctx maxFanOut < length (gn_imports node)
         then addGraphIssue ctx FanOutLimit (gn_path node) (Some (gn_imports node ! lc_limits ctx maxFanOut)) None state2
         else state2)"

text \<open>Decoding and lexing the bytes of a file that was admitted.\<close>

definition parseDocument ::
  "LoaderContext \<Rightarrow> jstring \<Rightarrow> nat \<Rightarrow> ImportParent \<Rightarrow> RepositoryFile \<Rightarrow> MutableState \<Rightarrow>
   MutableState \<times> (VisitResult + jstring \<times> jstring \<times> ImportReference list)" where
  "parseDocument ctx pathValue depth parent file state =
     (let (documentId, sha, sourceId) = stableIds ctx pathValue (rf_bytes file);
          node = \<lparr>gn_byteLength = length (rf_bytes file), gn_depth = depth, gn_documentId = documentId, gn_imports = [],
                  gn_path = pathValue, gn_sha256 = sha, gn_sourceId = sourceId, gn_state = NodeParseFailed\<rparr>
      in (case decodeUtf8 (rf_bytes file) of
            None \<Rightarrow> map_prod id Inl (parseFailed ctx InvalidUtf8 node parent state)
          | Some decoded \<Rightarrow>
              (case lexImportReferences (lc_fromMarkdown ctx) (lc_sha256 ctx) documentId sourceId (lc_syntax ctx) decoded
                      (\<lambda>_. None) of
                 Inl _ \<Rightarrow> map_prod id Inl (parseFailed ctx LexFailed node parent state)
               | Inr lexed \<Rightarrow>
                   (activateDocument ctx (node\<lparr>gn_imports := ir_imports lexed, gn_state := NodeLoaded\<rparr>)
                      (identityKey file) state,
                    Inr (documentId, identityKey file, ir_imports lexed)))))"

text \<open>
  The part of \<open>visit\<close> before the loop over the imports: the result of a visit that ends early, or the
  identifier, the identity key and the imports of a document that is now active.
\<close>

definition openDocument ::
  "LoaderContext \<Rightarrow> jstring \<Rightarrow> nat \<Rightarrow> ImportParent \<Rightarrow> MutableState \<Rightarrow>
   MutableState \<times> (VisitResult + jstring \<times> jstring \<times> ImportReference list)" where
  "openDocument ctx pathValue depth parent state0 =
     (let state = state0\<lparr>ms_reads := ms_reads state0 + 1\<rparr> in
      case lc_readFile ctx (ms_reads state0) pathValue of
        None \<Rightarrow> (parentIssue ctx ReadFailed pathValue parent state, Inl (None, Some ReadFailed))
      | Some file \<Rightarrow>
          (case ms_activeIdentities state (identityKey file) of
             Some activeIdentity \<Rightarrow>
               (parentIssue ctx ImportCycle pathValue parent state, Inl (Some activeIdentity, Some ImportCycle))
           | None \<Rightarrow>
               let size = length (rf_bytes file) in
               if lc_limits ctx maxFileBytes < size then
                 (parentIssue ctx FileTooLarge pathValue parent state, Inl (None, Some FileTooLarge))
               else if lc_limits ctx maxTotalBytes < ms_totalBytes state + size then
                 (parentIssue ctx TotalBytesLimit pathValue parent state, Inl (None, Some TotalBytesLimit))
               else parseDocument ctx pathValue depth parent file (state\<lparr>ms_totalBytes := ms_totalBytes state + size\<rparr>)))"

text \<open>The issue and the edge of an import that is not followed.\<close>

definition refuseImport ::
  "LoaderContext \<Rightarrow> jstring \<Rightarrow> nat \<Rightarrow> jstring \<Rightarrow> ImportReference \<Rightarrow> ImportGraphIssueCode \<Rightarrow> ImportGraphEdgeState \<Rightarrow>
   jstring option \<Rightarrow> jstring option \<Rightarrow> MutableState \<Rightarrow> MutableState" where
  "refuseImport ctx pathValue depth documentId reference code edgeState targetPath targetDocumentId state =
     pushEdge (graphEdge documentId reference (depth + 1) edgeState targetPath targetDocumentId (Some code))
       (addGraphIssue ctx code pathValue (Some reference) targetPath state)"

text \<open>The part of the loop body that deals with a resolved target.\<close>

definition targetStep ::
  "LoaderContext \<Rightarrow> jstring \<Rightarrow> nat \<Rightarrow> jstring \<Rightarrow> ImportReference \<Rightarrow> jstring \<Rightarrow> MutableState \<Rightarrow> MutableState + jstring" where
  "targetStep ctx pathValue depth documentId reference targetPath state =
     (let refuse = refuseImport ctx pathValue depth documentId reference in
      case ms_active state targetPath of
        Some activeDocument \<Rightarrow> Inl (refuse ImportCycle EdgeCycle (Some targetPath) (Some activeDocument) state)
      | None \<Rightarrow>
          (case ms_completed state targetPath of
             Some completedDocument \<Rightarrow>
               Inl (pushEdge (graphEdge documentId reference (depth + 1) EdgeAlreadyLoaded (Some targetPath)
                                (Some completedDocument) None) state)
           | None \<Rightarrow>
               if lc_limits ctx maxDepth \<le> depth then
                 Inl (refuse DepthLimit EdgeLimitExceeded (Some targetPath) None state)
               else if lc_limits ctx maxFiles \<le> length (ms_nodes state) then
                 Inl (refuse FileLimit EdgeLimitExceeded (Some targetPath) None state)
               else Inr targetPath))"

text \<open>
  The body of the loop over the imports up to the recursive visit: the state with the edge of an import
  that is not followed, or the path to visit.
\<close>

definition referenceStep ::
  "LoaderContext \<Rightarrow> jstring \<Rightarrow> nat \<Rightarrow> jstring \<Rightarrow> nat \<Rightarrow> ImportReference \<Rightarrow> MutableState \<Rightarrow> MutableState + jstring" where
  "referenceStep ctx pathValue depth documentId referenceIndex reference state =
     (let refuse = (\<lambda>code edgeState.
            Inl (refuseImport ctx pathValue depth documentId reference code edgeState None None state))
      in if lc_limits ctx maxFanOut \<le> referenceIndex then
           Inl (pushEdge (graphEdge documentId reference (depth + 1) EdgeLimitExceeded None None (Some FanOutLimit)) state)
         else if ref_state reference \<noteq> ImportRecognized then refuse AmbiguousReference EdgeAmbiguous
         else if ref_targetKind reference \<noteq> RepositoryPathCandidate then refuse TargetRejected EdgeRejected
         else (case resolveTarget pathValue (ref_rawSpecifier reference) of
                 (None, escaped) \<Rightarrow> refuse (if escaped then RootBoundary else TargetRejected) EdgeRejected
               | (Some targetPath, _) \<Rightarrow> targetStep ctx pathValue depth documentId reference targetPath state))"

definition failureState :: "ImportGraphIssueCode \<Rightarrow> ImportGraphEdgeState" where
  "failureState code =
     (if code \<in> {DepthLimit, EdgeLimit, FanOutLimit, FileLimit, TotalBytesLimit} \<or> code = FileTooLarge
      then EdgeLimitExceeded else EdgeUnavailable)"

text \<open>The edge of an import that was visited, inserted at the position noted before the visit.\<close>

definition visitedEdge ::
  "jstring \<Rightarrow> ImportReference \<Rightarrow> nat \<Rightarrow> jstring \<Rightarrow> nat \<Rightarrow> VisitResult \<Rightarrow> MutableState \<Rightarrow> MutableState" where
  "visitedEdge documentId reference depth targetPath position child state =
     (case snd child of
        None \<Rightarrow> insertEdge position (graphEdge documentId reference (depth + 1) EdgeLoaded (Some targetPath) (fst child) None) state
      | Some code \<Rightarrow>
          if code = ImportCycle then
            insertEdge position (graphEdge documentId reference (depth + 1) EdgeCycle (Some targetPath) (fst child) (Some code)) state
          else
            insertEdge position
              (graphEdge documentId reference (depth + 1) (failureState code) (Some targetPath) None (Some code)) state)"

definition closeDocument :: "jstring \<Rightarrow> jstring \<Rightarrow> jstring \<Rightarrow> MutableState \<Rightarrow> MutableState" where
  "closeDocument pathValue key documentId state =
     state\<lparr>ms_active := (ms_active state)(pathValue := None),
           ms_activeIdentities := (ms_activeIdentities state)(key := None),
           ms_completed := (ms_completed state)(pathValue \<mapsto> documentId)\<rparr>"

lemma referenceStep_depth:
  "referenceStep ctx pathValue depth documentId i reference state = Inr targetPath \<Longrightarrow> depth < lc_limits ctx maxDepth"
  by (auto simp: referenceStep_def targetStep_def Let_def split: if_splits option.splits prod.splits)

function visit ::
  "LoaderContext \<Rightarrow> jstring \<Rightarrow> nat \<Rightarrow> ImportParent \<Rightarrow> MutableState \<Rightarrow> MutableState \<times> VisitResult"
  and visitImports ::
  "LoaderContext \<Rightarrow> jstring \<Rightarrow> nat \<Rightarrow> jstring \<Rightarrow> nat \<Rightarrow> ImportReference list \<Rightarrow> MutableState \<Rightarrow> MutableState" where
  "visit ctx pathValue depth parent state =
     (case openDocument ctx pathValue depth parent state of
        (state1, Inl result) \<Rightarrow> (state1, result)
      | (state1, Inr (documentId, key, imports)) \<Rightarrow>
          (closeDocument pathValue key documentId (visitImports ctx pathValue depth documentId 0 imports state1),
           (Some documentId, None)))"
| "visitImports ctx pathValue depth documentId i [] state = state"
| "visitImports ctx pathValue depth documentId i (reference # rest) state =
     (if ms_halted state then state
      else if lc_limits ctx maxEdges \<le> ms_edgeSlots state then
        (addGraphIssue ctx EdgeLimit pathValue (Some reference) None state)\<lparr>ms_halted := True\<rparr>
      else let state1 = state\<lparr>ms_edgeSlots := ms_edgeSlots state + 1\<rparr>
           in case referenceStep ctx pathValue depth documentId i reference state1 of
                Inl state2 \<Rightarrow> visitImports ctx pathValue depth documentId (i + 1) rest state2
              | Inr targetPath \<Rightarrow>
                  (case visit ctx targetPath (depth + 1) (Some (pathValue, reference)) state1 of
                     (state2, child) \<Rightarrow>
                       visitImports ctx pathValue depth documentId (i + 1) rest
                         (visitedEdge documentId reference depth targetPath (length (ms_edges state1)) child state2)))"
  by pat_completeness auto
termination
  by (relation "measures
       [\<lambda>x. case x of Inl (ctx, p, depth, r) \<Rightarrow> lc_limits ctx maxDepth - depth
                    | Inr (ctx, p, depth, r) \<Rightarrow> lc_limits ctx maxDepth - depth,
        \<lambda>x. case x of Inl _ \<Rightarrow> 1 | Inr _ \<Rightarrow> 0,
        \<lambda>x. case x of Inl _ \<Rightarrow> 0 | Inr (ctx, p, depth, d, i, rest, st) \<Rightarrow> length rest]")
    (auto dest: referenceStep_depth)

definition initialState :: MutableState where
  "initialState =
     \<lparr>ms_active = (\<lambda>_. None), ms_activeIdentities = (\<lambda>_. None), ms_completed = (\<lambda>_. None), ms_edges = [],
      ms_issues = [], ms_nodes = [], ms_edgeSlots = 0, ms_halted = False, ms_totalBytes = 0, ms_reads = 0\<rparr>"

definition graphResult :: "ImportDialect \<Rightarrow> jstring \<Rightarrow> MutableState \<Rightarrow> ImportGraphResult" where
  "graphResult dialect entryPath state =
     \<lparr>gr_edges = ms_edges state, gr_entryPath = entryPath, gr_issues = ms_issues state,
      gr_nodes = ms_nodes state, gr_complete = (ms_issues state = []), gr_syntax = dialect,
      gr_usedEdges = length (ms_edges state), gr_usedFiles = length (ms_nodes state),
      gr_usedIssues = length (ms_issues state), gr_totalBytes = ms_totalBytes state\<rparr>"

definition loadImportGraph ::
  "LoaderContext \<Rightarrow> jstring \<Rightarrow> (ImportGraphLimitName \<Rightarrow> int option) option \<Rightarrow>
   ImportGraphLoaderErrorCode + ImportGraphResult" where
  "loadImportGraph ctx entryPath limitsValue =
     checkR (validateEntry entryPath) GraphInvalidInput
     (bindR (validateLimits limitsValue) (\<lambda>limits.
        Inr (graphResult (lc_syntax ctx) entryPath
               (fst (visit (ctx\<lparr>lc_limits := limits\<rparr>) entryPath 0 None initialState)))))"

end
