(* ===== verification/Import_Graph_Walk.thy ===== *)
theory Import_Graph_Walk
  imports Import_Graph
begin

text \<open>
  Reasoning about the import graph loader. The effect of each operation on the state is stated once, as a
  case rule. The walk is recursive over a mutable state; \<open>graph_walk\<close> says what an invariant of it has to
  satisfy, with the documents being visited as a ghost stack, and is interpreted here for the limits and
  for the repository paths, and in \<open>Import_Graph_Props\<close> for the shape of the graph.
\<close>

declare visit.simps [simp del] visitImports.simps [simp del]

subsection \<open>Effects of the operations\<close>

text \<open>The fields that reporting an issue and adding an edge leave alone.\<close>

definition sameCore :: "MutableState \<Rightarrow> MutableState \<Rightarrow> bool" where
  "sameCore st st' \<longleftrightarrow>
     ms_active st' = ms_active st \<and> ms_activeIdentities st' = ms_activeIdentities st \<and>
     ms_completed st' = ms_completed st \<and> ms_nodes st' = ms_nodes st \<and> ms_edgeSlots st' = ms_edgeSlots st \<and>
     ms_halted st' = ms_halted st \<and> ms_totalBytes st' = ms_totalBytes st"

text \<open>An issue was reported, as far as there was room for it.\<close>

definition reported :: "LoaderContext \<Rightarrow> MutableState \<Rightarrow> MutableState \<Rightarrow> bool" where
  "reported ctx st st' \<longleftrightarrow>
     (if lc_limits ctx maxIssues \<le> length (ms_issues st) then ms_issues st' = ms_issues st
      else \<exists>issue. ms_issues st' = ms_issues st @ [issue])"

lemma effect_reads [simp]:
  "sameCore (st\<lparr>ms_reads := n\<rparr>) st' = sameCore st st'" "reported ctx (st\<lparr>ms_reads := n\<rparr>) st' = reported ctx st st'"
  by (simp_all add: sameCore_def reported_def)

lemma reported_bound:
  "\<lbrakk>reported ctx st st'; length (ms_issues st) \<le> lc_limits ctx maxIssues\<rbrakk> \<Longrightarrow>
   length (ms_issues st') \<le> lc_limits ctx maxIssues"
  by (auto simp: reported_def split: if_splits)

lemma reported_nonempty: "\<lbrakk>reported ctx st st'; 0 < lc_limits ctx maxIssues\<rbrakk> \<Longrightarrow> ms_issues st' \<noteq> []"
  by (auto simp: reported_def split: if_splits)

lemma addGraphIssue_effect:
  "reported ctx st (addGraphIssue ctx code p reference t st)" "sameCore st (addGraphIssue ctx code p reference t st)"
  "ms_edges (addGraphIssue ctx code p reference t st) = ms_edges st"
  by (simp_all add: addGraphIssue_def reported_def sameCore_def)

lemma parentIssue_effect:
  "reported ctx st (parentIssue ctx code p parent st)" "sameCore st (parentIssue ctx code p parent st)"
  "ms_edges (parentIssue ctx code p parent st) = ms_edges st"
  by (simp_all add: parentIssue_def addGraphIssue_effect split: option.split)

lemma parseFailed_effect:
  assumes "parseFailed ctx code node parent st = (st', r)"
  shows "r = (Some (gn_documentId node), None)" "reported ctx st st'" "ms_edges st' = ms_edges st"
    "sameCore (st\<lparr>ms_nodes := ms_nodes st @ [node], ms_completed := (ms_completed st)(gn_path node \<mapsto> gn_documentId node)\<rparr>) st'"
  using assms parentIssue_effect [where ctx = ctx and st = "addNode node st" and code = code and p = "gn_path node" and parent = parent]
  by (auto simp: parseFailed_def Let_def addNode_def sameCore_def reported_def)

lemma activateDocument_effect:
  fixes st node key ctx
  defines "st' \<equiv> activateDocument ctx node key st"
  shows "sameCore (st\<lparr>ms_nodes := ms_nodes st @ [node], ms_active := (ms_active st)(gn_path node \<mapsto> gn_documentId node),
           ms_activeIdentities := (ms_activeIdentities st)(key \<mapsto> gn_documentId node)\<rparr>) st'"
    "ms_edges st' = ms_edges st"
    "if lc_limits ctx maxFanOut < length (gn_imports node) then reported ctx st st' else ms_issues st' = ms_issues st"
  unfolding st'_def
  by (simp_all add: activateDocument_def Let_def addNode_def sameCore_def reported_def addGraphIssue_def)

text \<open>What the identifiers and the imports of a node come from.\<close>

definition parsedFrom :: "LoaderContext \<Rightarrow> nat list \<Rightarrow> ImportGraphNode \<Rightarrow> bool" where
  "parsedFrom ctx bytes node \<longleftrightarrow>
     stableIds ctx (gn_path node) bytes = (gn_documentId node, gn_sha256 node, gn_sourceId node) \<and>
     gn_byteLength node = length bytes \<and>
     (gn_imports node = [] \<or>
      (\<exists>decoded lexed. decodeUtf8 bytes = Some decoded \<and> gn_imports node = ir_imports lexed \<and>
         lexImportReferences (lc_fromMarkdown ctx) (lc_sha256 ctx) (gn_documentId node) (gn_sourceId node) (lc_syntax ctx)
           decoded (\<lambda>_. None) = Inr lexed))"

text \<open>The node of a file that was admitted.\<close>

definition admitted :: "LoaderContext \<Rightarrow> jstring \<Rightarrow> nat \<Rightarrow> MutableState \<Rightarrow> ImportGraphNode \<Rightarrow> bool" where
  "admitted ctx p depth st node \<longleftrightarrow>
     gn_path node = p \<and> gn_depth node = depth \<and> gn_byteLength node \<le> lc_limits ctx maxFileBytes \<and>
     ms_totalBytes st + gn_byteLength node \<le> lc_limits ctx maxTotalBytes \<and> (\<exists>bytes. parsedFrom ctx bytes node)"

lemma parseDocument_cases:
  assumes "parseDocument ctx p depth parent f st = (st', res)"
  obtains (bad) code node r where "parseFailed ctx code node parent st = (st', r)" "res = Inl r" "gn_path node = p"
      "gn_depth node = depth" "gn_byteLength node = length (rf_bytes f)" "gn_state node = NodeParseFailed"
      "parsedFrom ctx (rf_bytes f) node"
  | (good) node where "st' = activateDocument ctx node (identityKey f) st"
      "res = Inr (gn_documentId node, identityKey f, gn_imports node)" "gn_path node = p" "gn_depth node = depth"
      "gn_byteLength node = length (rf_bytes f)" "gn_state node = NodeLoaded" "parsedFrom ctx (rf_bytes f) node"
proof -
  obtain d sha src where ids: "stableIds ctx p (rf_bytes f) = (d, sha, src)"
    by (rule prod_cases3)
  define node where "node = \<lparr>gn_byteLength = length (rf_bytes f), gn_depth = depth, gn_documentId = d, gn_imports = [],
    gn_path = p, gn_sha256 = sha, gn_sourceId = src, gn_state = NodeParseFailed\<rparr>"
  note def = parseDocument_def [of ctx p depth parent f st, unfolded ids, simplified, folded node_def]
  have issue: thesis if "map_prod id Inl (parseFailed ctx code node parent st) = (st', res)" for code
  proof -
    obtain st1 r where "parseFailed ctx code node parent st = (st1, r)"
      by (rule prod.exhaust)
    with that show thesis
      by (intro bad [of code node r]) (simp_all add: node_def parsedFrom_def ids)
  qed
  show thesis
  proof (cases "decodeUtf8 (rf_bytes f)")
    case None
    with assms def issue show thesis
      by simp
  next
    case (Some decoded)
    show thesis
    proof (cases "lexImportReferences (lc_fromMarkdown ctx) (lc_sha256 ctx) d src (lc_syntax ctx) decoded (\<lambda>_. None)")
      case (Inl e)
      with assms def issue Some show thesis
        by simp
    next
      case (Inr lexed)
      with assms def Some show thesis
        by (intro good [of "node\<lparr>gn_imports := ir_imports lexed, gn_state := NodeLoaded\<rparr>"]) (auto simp: node_def parsedFrom_def ids)
    qed
  qed
qed

lemma openDocument_cases:
  assumes "openDocument ctx p depth parent st = (st', res)"
  obtains (failed) r code where "res = Inl r" "snd r = Some code" "sameCore st st'" "ms_edges st' = ms_edges st"
      "reported ctx st st'"
      "code = ImportCycle \<longrightarrow> (\<exists>k activeIdentity. ms_activeIdentities st k = Some activeIdentity \<and> fst r = Some activeIdentity)"
  | (unparsed) node where "res = Inl (Some (gn_documentId node), None)" "admitted ctx p depth st node"
      "gn_state node = NodeParseFailed"
      "sameCore (st\<lparr>ms_nodes := ms_nodes st @ [node], ms_totalBytes := ms_totalBytes st + gn_byteLength node,
                   ms_completed := (ms_completed st)(p \<mapsto> gn_documentId node)\<rparr>) st'"
      "ms_edges st' = ms_edges st" "reported ctx st st'"
  | (loaded) node key where "res = Inr (gn_documentId node, key, gn_imports node)" "admitted ctx p depth st node"
      "gn_state node = NodeLoaded" "ms_activeIdentities st key = None"
      "sameCore (st\<lparr>ms_nodes := ms_nodes st @ [node], ms_totalBytes := ms_totalBytes st + gn_byteLength node,
                   ms_active := (ms_active st)(p \<mapsto> gn_documentId node),
                   ms_activeIdentities := (ms_activeIdentities st)(key \<mapsto> gn_documentId node)\<rparr>) st'"
      "ms_edges st' = ms_edges st"
      "if lc_limits ctx maxFanOut < length (gn_imports node) then reported ctx st st' else ms_issues st' = ms_issues st"
proof -
  let ?st = "st\<lparr>ms_reads := ms_reads st + 1\<rparr>"
  have issue: thesis if "(parentIssue ctx code p parent ?st, Inl (x, Some code)) = (st', res)"
      "code = ImportCycle \<longrightarrow> (\<exists>k activeIdentity. ms_activeIdentities st k = Some activeIdentity \<and> x = Some activeIdentity)" for code x
    by (rule failed [of "(x, Some code)" code])
      (use that parentIssue_effect [where ctx = ctx and st = ?st and code = code and p = p and parent = parent] in auto)
  have parse: thesis
    if fits: "ms_activeIdentities st (identityKey f) = None" "length (rf_bytes f) \<le> lc_limits ctx maxFileBytes"
      "ms_totalBytes st + length (rf_bytes f) \<le> lc_limits ctx maxTotalBytes"
      and parsed: "parseDocument ctx p depth parent f (?st\<lparr>ms_totalBytes := ms_totalBytes st + length (rf_bytes f)\<rparr>)
                   = (st', res)" for f
  proof -
    from parsed show thesis
    proof (cases rule: parseDocument_cases)
      case (bad code node r)
      note effect = parseFailed_effect [OF bad(1)]
      show thesis
        by (rule unparsed [of node]) (use bad effect fits in \<open>auto simp: admitted_def sameCore_def reported_def\<close>)
    next
      case (good node)
      note effect = activateDocument_effect [where ctx = ctx and node = node and key = "identityKey f"
          and st = "?st\<lparr>ms_totalBytes := ms_totalBytes st + length (rf_bytes f)\<rparr>", folded good(1)]
      show thesis
        by (rule loaded [of node "identityKey f"])
          (use good effect fits in \<open>auto simp: admitted_def sameCore_def reported_def split: if_splits\<close>)
    qed
  qed
  have cycle: thesis
    if "(parentIssue ctx ImportCycle p parent ?st, Inl (Some a, Some ImportCycle)) = (st', res)"
      "ms_activeIdentities st k = Some a" for a k
    by (rule issue [OF that(1)]) (use that(2) in auto)
  show thesis
    using assms issue parse cycle
    by (simp add: openDocument_def Let_def split: option.splits if_splits) blast
qed

text \<open>One edge was added for an import.\<close>

definition edgeFor :: "jstring \<Rightarrow> ImportReference \<Rightarrow> nat \<Rightarrow> ImportGraphEdge \<Rightarrow> bool" where
  "edgeFor d reference depth edge \<longleftrightarrow>
     ge_fromDocumentId edge = d \<and> ge_import edge = reference \<and> ge_depth edge = Suc depth"

abbreviation followed :: "ImportGraphEdge \<Rightarrow> bool" where
  "followed edge \<equiv> ge_state edge = EdgeLoaded \<or> ge_state edge = EdgeAlreadyLoaded"

lemma refuseImport_effect:
  assumes "st' = refuseImport ctx p depth d reference code edgeState t td st"
  shows "sameCore st st'" "reported ctx st st'"
    "ms_edges st' = ms_edges st @ [graphEdge d reference (depth + 1) edgeState t td (Some code)]"
  using addGraphIssue_effect [where ctx = ctx and code = code and p = p and reference = "Some reference" and t = t and st = st]
  using assms by (auto simp: refuseImport_def pushEdge_def sameCore_def reported_def)

lemma targetStep_cases:
  assumes "targetStep ctx p depth d reference t st = res"
  obtains (refused) edge st' where "res = Inl st'" "sameCore st st'" "reported ctx st st'" "ms_edges st' = ms_edges st @ [edge]"
      "edgeFor d reference depth edge" "\<not> followed edge" "ge_targetPath edge = Some t"
  | (already) edge st' td where "res = Inl st'" "sameCore st st'" "ms_issues st' = ms_issues st"
      "ms_edges st' = ms_edges st @ [edge]" "edgeFor d reference depth edge" "ge_state edge = EdgeAlreadyLoaded"
      "ge_targetPath edge = Some t" "ge_targetDocumentId edge = Some td" "ms_completed st t = Some td"
  | (visit) "res = Inr t" "ms_active st t = None" "ms_completed st t = None" "depth < lc_limits ctx maxDepth"
      "length (ms_nodes st) < lc_limits ctx maxFiles"
proof -
  have refuse: thesis
    if "res = Inl (refuseImport ctx p depth d reference code edgeState (Some t) td st)"
      "edgeState \<noteq> EdgeLoaded" "edgeState \<noteq> EdgeAlreadyLoaded" for code edgeState td
    by (rule refused [OF that(1) refuseImport_effect [OF refl]]) (use that in \<open>simp_all add: edgeFor_def graphEdge_def\<close>)
  have push: thesis if "res = Inl (pushEdge (graphEdge d reference (depth + 1) EdgeAlreadyLoaded (Some t) (Some td) None) st)"
      "ms_completed st t = Some td" for td
    by (rule already [OF that(1), of "graphEdge d reference (depth + 1) EdgeAlreadyLoaded (Some t) (Some td) None" td])
      (use that in \<open>simp_all add: edgeFor_def graphEdge_def pushEdge_def sameCore_def\<close>)
  consider (active) a where "ms_active st t = Some a" | (completed) c where "ms_active st t = None" "ms_completed st t = Some c"
    | (fresh) "ms_active st t = None" "ms_completed st t = None"
    by (cases "ms_active st t"; cases "ms_completed st t") auto
  then show thesis
  proof cases
    case (active a)
    with assms have "res = Inl (refuseImport ctx p depth d reference ImportCycle EdgeCycle (Some t) (Some a) st)"
      by (simp add: targetStep_def)
    then show thesis
      by (rule refuse) simp_all
  next
    case (completed c)
    with assms show thesis
      by (intro push [of c]) (simp_all add: targetStep_def)
  next
    case fresh
    then consider (deep) "lc_limits ctx maxDepth \<le> depth"
        "res = Inl (refuseImport ctx p depth d reference DepthLimit EdgeLimitExceeded (Some t) None st)"
      | (many) "res = Inl (refuseImport ctx p depth d reference FileLimit EdgeLimitExceeded (Some t) None st)"
      | (free) "res = Inr t" "depth < lc_limits ctx maxDepth" "length (ms_nodes st) < lc_limits ctx maxFiles"
      using assms by (auto simp: targetStep_def Let_def split: if_splits)
    then show thesis
    proof cases
      case deep
      then show thesis
        by (intro refuse [of DepthLimit EdgeLimitExceeded None]) simp_all
    next
      case many
      then show thesis
        by (rule refuse) simp_all
    next
      case free
      with fresh show thesis
        by (intro visit) simp_all
    qed
  qed
qed

lemma referenceStep_cases:
  assumes "referenceStep ctx p depth d i reference st = res"
  obtains (refused) edge st' where "res = Inl st'" "sameCore st st'"
      "reported ctx st st' \<or> lc_limits ctx maxFanOut \<le> i \<and> ms_issues st' = ms_issues st"
      "ms_edges st' = ms_edges st @ [edge]" "edgeFor d reference depth edge" "\<not> followed edge"
      "\<And>t. ge_targetPath edge = Some t \<Longrightarrow> \<exists>esc. resolveTarget p (ref_rawSpecifier reference) = (Some t, esc)"
  | (already) edge st' t td esc where "res = Inl st'" "sameCore st st'" "ms_issues st' = ms_issues st"
      "ms_edges st' = ms_edges st @ [edge]" "edgeFor d reference depth edge" "ge_state edge = EdgeAlreadyLoaded"
      "ge_targetPath edge = Some t" "ge_targetDocumentId edge = Some td" "ms_completed st t = Some td"
      "resolveTarget p (ref_rawSpecifier reference) = (Some t, esc)"
  | (visit) t esc where "res = Inr t" "ms_active st t = None" "ms_completed st t = None" "depth < lc_limits ctx maxDepth"
      "length (ms_nodes st) < lc_limits ctx maxFiles" "resolveTarget p (ref_rawSpecifier reference) = (Some t, esc)"
proof -
  have refuse: thesis
    if "res = Inl (refuseImport ctx p depth d reference code edgeState None None st)"
      "edgeState \<noteq> EdgeLoaded" "edgeState \<noteq> EdgeAlreadyLoaded" for code edgeState
    by (rule refused [OF that(1) refuseImport_effect(1) [OF refl] _ refuseImport_effect(3) [OF refl]])
      (use that refuseImport_effect(2) [OF refl] in \<open>auto simp: edgeFor_def graphEdge_def\<close>)
  obtain target esc where rt: "resolveTarget p (ref_rawSpecifier reference) = (target, esc)"
    by (rule prod.exhaust)
  consider (fan) "lc_limits ctx maxFanOut \<le> i" | (early) code edgeState where
      "res = Inl (refuseImport ctx p depth d reference code edgeState None None st)"
      "edgeState \<noteq> EdgeLoaded" "edgeState \<noteq> EdgeAlreadyLoaded"
    | (target) t where "target = Some t" "targetStep ctx p depth d reference t st = res"
    using assms rt by (auto simp: referenceStep_def Let_def split: if_splits option.splits)
  then show thesis
  proof cases
    case fan
    with assms show thesis
      by (intro refused [of "pushEdge (graphEdge d reference (depth + 1) EdgeLimitExceeded None None (Some FanOutLimit)) st"
            "graphEdge d reference (depth + 1) EdgeLimitExceeded None None (Some FanOutLimit)"])
        (simp_all add: referenceStep_def edgeFor_def graphEdge_def pushEdge_def sameCore_def)
  next
    case early
    then show thesis
      by (rule refuse)
  next
    case (target t)
    from target(2) show thesis
    proof (cases rule: targetStep_cases)
      case (refused edge st')
      with target rt show thesis
        by (intro that(1) [of st' edge]) auto
    next
      case (already edge st' td)
      with target rt show thesis
        by (intro that(2) [of st' edge t td]) auto
    next
      case visit
      with target rt show thesis
        by (intro that(3) [of t]) auto
    qed
  qed
qed

lemma insertEdge_effect:
  assumes "st' = insertEdge position edge st"
  shows "sameCore st st'" "ms_issues st' = ms_issues st" "set (ms_edges st') = insert edge (set (ms_edges st))"
    "length (ms_edges st') = Suc (length (ms_edges st))"
proof -
  have "set (ms_edges st) = set (take position (ms_edges st)) \<union> set (drop position (ms_edges st))"
    by (metis append_take_drop_id set_append)
  then show "set (ms_edges st') = insert edge (set (ms_edges st))"
    by (simp add: assms insertEdge_def)
qed (simp_all add: assms insertEdge_def sameCore_def)

lemma visitedEdge_effect:
  assumes "st' = visitedEdge d reference depth t position r st"
  obtains edge where "sameCore st st'" "ms_issues st' = ms_issues st" "set (ms_edges st') = insert edge (set (ms_edges st))"
    "length (ms_edges st') = Suc (length (ms_edges st))" "edgeFor d reference depth edge" "ge_targetPath edge = Some t"
    "if snd r = None then ge_state edge = EdgeLoaded \<and> ge_targetDocumentId edge = fst r else \<not> followed edge"
proof -
  obtain edge where edge: "st' = insertEdge position edge st" "edgeFor d reference depth edge" "ge_targetPath edge = Some t"
    "if snd r = None then ge_state edge = EdgeLoaded \<and> ge_targetDocumentId edge = fst r else \<not> followed edge"
    using assms
    by (cases "snd r")
      (auto simp: visitedEdge_def edgeFor_def graphEdge_def failureState_def split: if_splits)
  show thesis
    by (rule that [OF insertEdge_effect [OF edge(1)] edge(2-4)])
qed

subsection \<open>Invariants of the walk\<close>

text \<open>A document on the stack: path, identifier, identity key, imports and the number of imports done.\<close>

type_synonym WalkFrame = "jstring \<times> jstring \<times> jstring \<times> ImportReference list \<times> nat"

text \<open>The parent of a visit is the import that the innermost document on the stack is following.\<close>

fun parentOf :: "WalkFrame list \<Rightarrow> ImportParent" where
  "parentOf [] = None"
| "parentOf ((p, d, k, refs, i) # S) = Some (p, refs ! i)"

definition takeSlot :: "MutableState \<Rightarrow> MutableState" where
  "takeSlot state = state\<lparr>ms_edgeSlots := ms_edgeSlots state + 1\<rparr>"

definition haltAt :: "LoaderContext \<Rightarrow> jstring \<Rightarrow> ImportReference \<Rightarrow> MutableState \<Rightarrow> MutableState" where
  "haltAt ctx p reference state = (addGraphIssue ctx EdgeLimit p (Some reference) None state)\<lparr>ms_halted := True\<rparr>"

lemma takeSlot_eq: "state\<lparr>ms_edgeSlots := ms_edgeSlots state + 1\<rparr> = takeSlot state"
  by (simp add: takeSlot_def)

lemma visit_end: "openDocument ctx p depth parent st = (st1, Inl r) \<Longrightarrow> visit ctx p depth parent st = (st1, r)"
  by (simp add: visit.simps)

lemma visit_go:
  "openDocument ctx p depth parent st = (st1, Inr (d, k, refs)) \<Longrightarrow>
   visit ctx p depth parent st = (closeDocument p k d (visitImports ctx p depth d 0 refs st1), (Some d, None))"
  by (simp add: visit.simps)

lemma visitImports_halted: "ms_halted st \<Longrightarrow> visitImports ctx p depth d i refs st = st"
  by (cases refs) (simp_all add: visitImports.simps)

lemma visitImports_full:
  "\<lbrakk>\<not> ms_halted st; lc_limits ctx maxEdges \<le> ms_edgeSlots st\<rbrakk> \<Longrightarrow>
   visitImports ctx p depth d i (reference # rest) st = haltAt ctx p reference st"
  by (simp add: visitImports.simps haltAt_def)

lemma visitImports_refused:
  "\<lbrakk>\<not> ms_halted st; \<not> lc_limits ctx maxEdges \<le> ms_edgeSlots st;
    referenceStep ctx p depth d i reference (takeSlot st) = Inl st2\<rbrakk> \<Longrightarrow>
   visitImports ctx p depth d i (reference # rest) st = visitImports ctx p depth d (Suc i) rest st2"
  by (simp add: visitImports.simps takeSlot_def)

lemma visitImports_followed:
  "\<lbrakk>\<not> ms_halted st; \<not> lc_limits ctx maxEdges \<le> ms_edgeSlots st;
    referenceStep ctx p depth d i reference (takeSlot st) = Inr t;
    visit ctx t (Suc depth) (Some (p, reference)) (takeSlot st) = (st2, r)\<rbrakk> \<Longrightarrow>
   visitImports ctx p depth d i (reference # rest) st =
   visitImports ctx p depth d (Suc i) rest (visitedEdge d reference depth t (length (ms_edges st)) r st2)"
  by (simp add: visitImports.simps takeSlot_def)

locale graph_walk =
  fixes ctx :: LoaderContext
    and inv :: "WalkFrame list \<Rightarrow> MutableState \<Rightarrow> bool"
    and ready :: "WalkFrame list \<Rightarrow> jstring \<Rightarrow> MutableState \<Rightarrow> bool"
    and after :: "WalkFrame list \<Rightarrow> jstring \<Rightarrow> VisitResult \<Rightarrow> MutableState \<Rightarrow> bool"
  assumes open_end:
      "\<lbrakk>ready S p st; openDocument ctx p (length S) parent st = (st', Inl r); parent = parentOf S\<rbrakk> \<Longrightarrow> after S p r st'"
    and open_go:
      "\<lbrakk>ready S p st; openDocument ctx p (length S) parent st = (st', Inr (d, k, refs)); parent = parentOf S\<rbrakk>
       \<Longrightarrow> inv ((p, d, k, refs, 0) # S) st'"
    and halting:
      "\<lbrakk>inv ((p, d, k, refs, i) # S) st; \<not> ms_halted st; lc_limits ctx maxEdges \<le> ms_edgeSlots st; i < length refs\<rbrakk>
       \<Longrightarrow> inv ((p, d, k, refs, i) # S) (haltAt ctx p (refs ! i) st)"
    and step_refused:
      "\<lbrakk>inv ((p, d, k, refs, i) # S) st; \<not> ms_halted st; ms_edgeSlots st < lc_limits ctx maxEdges; i < length refs;
        referenceStep ctx p (length S) d i (refs ! i) (takeSlot st) = Inl st'\<rbrakk>
       \<Longrightarrow> inv ((p, d, k, refs, Suc i) # S) st'"
    and step_visit:
      "\<lbrakk>inv ((p, d, k, refs, i) # S) st; \<not> ms_halted st; ms_edgeSlots st < lc_limits ctx maxEdges; i < length refs;
        referenceStep ctx p (length S) d i (refs ! i) (takeSlot st) = Inr t\<rbrakk>
       \<Longrightarrow> ready ((p, d, k, refs, i) # S) t (takeSlot st)"
    and visited:
      "\<lbrakk>after ((p, d, k, refs, i) # S) t r st; i < length refs; st' = visitedEdge d (refs ! i) (length S) t position r st\<rbrakk>
       \<Longrightarrow> inv ((p, d, k, refs, Suc i) # S) st'"
    and closing:
      "\<lbrakk>inv ((p, d, k, refs, i) # S) st; i = length refs \<or> ms_halted st\<rbrakk>
       \<Longrightarrow> after S p (Some d, None) (closeDocument p k d st)"
begin

lemma walk:
  "\<lbrakk>c = ctx; ready S p st; depth = length S; parent = parentOf S\<rbrakk> \<Longrightarrow>
   after S p (snd (visit c p depth parent st)) (fst (visit c p depth parent st))"
  "\<lbrakk>c = ctx; inv ((p, d, k, refs, i) # S) st; depth = length S; rest = drop i refs; i \<le> length refs\<rbrakk> \<Longrightarrow>
   \<exists>i'. inv ((p, d, k, refs, i') # S) (visitImports c p depth d i rest st) \<and>
        (i' = length refs \<or> ms_halted (visitImports c p depth d i rest st))"
proof (induction c p depth parent st and c p depth d i rest st
    arbitrary: S and S k refs rule: visit_visitImports.induct)
  case (1 c p depth parent st)
  obtain st1 o1 where op: "openDocument c p depth parent st = (st1, o1)"
    by fastforce
  show ?case
  proof (cases o1)
    case (Inl r)
    with op 1 show ?thesis
      using open_end [of S p st parent st1 r] by (simp add: visit_end)
  next
    case (Inr x)
    obtain d k refs where x: "x = (d, k, refs)"
      by (cases x)
    let ?st2 = "visitImports c p depth d 0 refs st1"
    have "inv ((p, d, k, refs, 0) # S) st1"
      using open_go [of S p st parent st1 d k refs] 1 op Inr x by simp
    then obtain i' where "inv ((p, d, k, refs, i') # S) ?st2" "i' = length refs \<or> ms_halted ?st2"
      using "1.IH" [OF op [symmetric] Inr x [symmetric] refl, of k refs S] "1.prems" by auto
    then show ?thesis
      using closing [of p d k refs i' S ?st2] op Inr x by (simp add: visit_go)
  qed
next
  case (2 c p depth d i st)
  then show ?case
    by (auto simp: visitImports.simps)
next
  case (3 c p depth d i reference rest st)
  have c: "c = ctx" and now: "inv ((p, d, k, refs, i) # S) st" and depth: "depth = length S"
    and "reference # rest = drop i refs"
    using "3.prems" by simp_all
  moreover from this have i: "i < length refs"
    by (metis drop_eq_Nil2 leI list.distinct(1))
  ultimately have r: "reference = refs ! i" and rest: "rest = drop (Suc i) refs"
    by (metis Cons_nth_drop_Suc list.inject)+
  note more = c depth rest
  consider (halted) "ms_halted st"
    | (full) "\<not> ms_halted st" "lc_limits c maxEdges \<le> ms_edgeSlots st"
    | (refused) st2 where "\<not> ms_halted st" "\<not> lc_limits c maxEdges \<le> ms_edgeSlots st"
        "referenceStep c p depth d i reference (takeSlot st) = Inl st2"
    | (followed) t where "\<not> ms_halted st" "\<not> lc_limits c maxEdges \<le> ms_edgeSlots st"
        "referenceStep c p depth d i reference (takeSlot st) = Inr t"
    by (meson sum.exhaust)
  then show ?case
  proof cases
    case halted
    with now show ?thesis
      by (auto simp: visitImports_halted)
  next
    case full
    then show ?thesis
      using halting [OF now] c i r by (auto simp: visitImports_full haltAt_def)
  next
    case (refused st2)
    then have "inv ((p, d, k, refs, Suc i) # S) st2"
      using step_refused [OF now, of st2] c i r depth by simp
    then show ?thesis
      using "3.IH"(1) [OF refused(1,2) takeSlot_eq [symmetric], of st2 k refs S] refused more i
      by (simp add: visitImports_refused)
  next
    case (followed t)
    obtain st2 child where v: "visit c t (Suc depth) (Some (p, reference)) (takeSlot st) = (st2, child)"
      by (rule prod.exhaust)
    have "ready ((p, d, k, refs, i) # S) t (takeSlot st)"
      using step_visit [OF now, of t] followed c i r depth by simp
    then have "after ((p, d, k, refs, i) # S) t child st2"
      using "3.IH"(2) [OF followed(1,2) takeSlot_eq [symmetric] followed(3), of "(p, d, k, refs, i) # S"] v more r
      by simp
    then have "inv ((p, d, k, refs, Suc i) # S) (visitedEdge d reference depth t (length (ms_edges st)) child st2)"
      using visited [OF _ _ refl, of p d k refs i S t child st2 "length (ms_edges st)"] i r depth by simp
    then show ?thesis
      using "3.IH"(3) [OF followed(1,2) takeSlot_eq [symmetric] followed(3), of st2 child k refs S] v followed more i
      by (simp add: visitImports_followed takeSlot_def)
  qed
qed

text \<open>The walk from an entry document.\<close>

lemma walk_entry: "ready [] p st \<Longrightarrow> after [] p (snd (visit ctx p 0 None st)) (fst (visit ctx p 0 None st))"
  using walk(1) [OF refl, of "[]"] by simp

end

subsection \<open>Bounds\<close>

definition withinLimits :: "LoaderContext \<Rightarrow> MutableState \<Rightarrow> bool" where
  "withinLimits ctx st \<longleftrightarrow>
     length (ms_issues st) \<le> lc_limits ctx maxIssues \<and> length (ms_nodes st) \<le> lc_limits ctx maxFiles \<and>
     ms_edgeSlots st \<le> lc_limits ctx maxEdges \<and> ms_totalBytes st = sum_list (map gn_byteLength (ms_nodes st)) \<and>
     ms_totalBytes st \<le> lc_limits ctx maxTotalBytes \<and>
     (\<forall>node\<in>set (ms_nodes st). gn_byteLength node \<le> lc_limits ctx maxFileBytes \<and> gn_depth node \<le> lc_limits ctx maxDepth) \<and>
     (\<forall>edge\<in>set (ms_edges st). ge_depth edge \<le> Suc (lc_limits ctx maxDepth))"

text \<open>Every document on the stack but the innermost has a slot for an edge that is not yet inserted.\<close>

definition boundsInv :: "LoaderContext \<Rightarrow> WalkFrame list \<Rightarrow> MutableState \<Rightarrow> bool" where
  "boundsInv ctx S st \<longleftrightarrow>
     withinLimits ctx st \<and> length (ms_edges st) + length S = Suc (ms_edgeSlots st) \<and> length S \<le> Suc (lc_limits ctx maxDepth)"

definition boundsAfter :: "LoaderContext \<Rightarrow> WalkFrame list \<Rightarrow> jstring \<Rightarrow> VisitResult \<Rightarrow> MutableState \<Rightarrow> bool" where
  "boundsAfter ctx S p r st \<longleftrightarrow>
     withinLimits ctx st \<and> length (ms_edges st) + length S = ms_edgeSlots st \<and> length S \<le> lc_limits ctx maxDepth"

definition boundsReady :: "LoaderContext \<Rightarrow> WalkFrame list \<Rightarrow> jstring \<Rightarrow> MutableState \<Rightarrow> bool" where
  "boundsReady ctx S p st \<longleftrightarrow> boundsAfter ctx S p (None, None) st \<and> length (ms_nodes st) < lc_limits ctx maxFiles"

lemmas bounds_defs = boundsInv_def boundsAfter_def boundsReady_def withinLimits_def

interpretation bounds: graph_walk ctx "boundsInv ctx" "boundsReady ctx" "boundsAfter ctx" for ctx
proof
  fix S p st parent st' r
  assume ready: "boundsReady ctx S p st" and op: "openDocument ctx p (length S) parent st = (st', Inl r)"
  from op show "boundsAfter ctx S p r st'"
    by (cases rule: openDocument_cases)
      (use ready in \<open>auto simp: bounds_defs sameCore_def admitted_def dest!: reported_bound\<close>)
next
  fix S p st parent st' d k refs
  assume ready: "boundsReady ctx S p st" and op: "openDocument ctx p (length S) parent st = (st', Inr (d, k, refs))"
  from op show "boundsInv ctx ((p, d, k, refs, 0) # S) st'"
    by (cases rule: openDocument_cases)
      (use ready in \<open>auto simp: bounds_defs sameCore_def admitted_def dest!: reported_bound split: if_splits\<close>)
next
  fix p d k refs i S st
  assume "boundsInv ctx ((p, d, k, refs, i) # S) st"
  then show "boundsInv ctx ((p, d, k, refs, i) # S) (haltAt ctx p (refs ! i) st)"
    using addGraphIssue_effect [where ctx = ctx and code = EdgeLimit and p = p and reference = "Some (refs ! i)"
        and t = None and st = st]
    by (auto simp: bounds_defs haltAt_def sameCore_def dest!: reported_bound)
next
  fix p d k refs i S st st'
  assume now: "boundsInv ctx ((p, d, k, refs, i) # S) st" "ms_edgeSlots st < lc_limits ctx maxEdges"
    and step: "referenceStep ctx p (length S) d i (refs ! i) (takeSlot st) = Inl st'"
  from step show "boundsInv ctx ((p, d, k, refs, Suc i) # S) st'"
    by (cases rule: referenceStep_cases)
      (use now in \<open>auto simp: bounds_defs sameCore_def takeSlot_def edgeFor_def dest!: reported_bound\<close>)
next
  fix p d k refs i S st t
  assume now: "boundsInv ctx ((p, d, k, refs, i) # S) st" "ms_edgeSlots st < lc_limits ctx maxEdges"
    and step: "referenceStep ctx p (length S) d i (refs ! i) (takeSlot st) = Inr t"
  from step show "boundsReady ctx ((p, d, k, refs, i) # S) t (takeSlot st)"
    by (cases rule: referenceStep_cases) (use now in \<open>auto simp: bounds_defs takeSlot_def\<close>)
next
  fix p d k refs i S t r st st' position
  assume after: "boundsAfter ctx ((p, d, k, refs, i) # S) t r st"
    and edge: "st' = visitedEdge d (refs ! i) (length S) t position r st"
  from edge show "boundsInv ctx ((p, d, k, refs, Suc i) # S) st'"
    by (cases rule: visitedEdge_effect) (use after in \<open>auto simp: bounds_defs sameCore_def edgeFor_def\<close>)
next
  fix p d k refs i S st
  assume "boundsInv ctx ((p, d, k, refs, i) # S) st"
  then show "boundsAfter ctx S p (Some d, None) (closeDocument p k d st)"
    by (auto simp: bounds_defs closeDocument_def)
qed

subsection \<open>Repository paths\<close>

text \<open>A canonical path of the repository that is not its root.\<close>

definition insidePath :: "jstring \<Rightarrow> bool" where
  "insidePath p \<longleftrightarrow> clean_path p \<and> \<not> drive_prefix p"

lemma insidePath_iff: "insidePath p \<longleftrightarrow> isRepositoryRelativePath p \<and> p \<noteq> REPOSITORY_ROOT"
proof -
  have "\<not> clean_path REPOSITORY_ROOT"
    by (simp add: clean_path_def REPOSITORY_ROOT_def proper_segment_def)
  then show ?thesis
    unfolding insidePath_def isRepositoryRelativePath_cases by blast
qed

lemma resolveSegments_proper:
  assumes "resolveSegments segments rest = Some result"
    and "\<forall>q\<in>set segments. proper_segment q \<and> SLASH \<notin> set q" "\<forall>q\<in>set rest. SLASH \<notin> set q"
  shows "\<forall>q\<in>set result. proper_segment q \<and> SLASH \<notin> set q"
  using assms
proof (induction segments rest rule: resolveSegments.induct)
  case (2 segments segment rest)
  note parts = "2.prems"
  consider (skip) "segment = [] \<or> segment = [DOT]" | (up) "segment = [DOT, DOT]" | (name) "proper_segment segment"
    unfolding proper_segment_def by blast
  then show ?case
  proof cases
    case skip
    then show ?thesis
      by (intro "2.IH"(1)) (use parts in simp_all)
  next
    case up
    then show ?thesis
      by (intro "2.IH"(2)) (use parts in \<open>auto split: if_splits dest: in_set_butlastD\<close>)
  next
    case name
    then show ?thesis
      by (intro "2.IH"(3)) (use parts in \<open>auto simp: proper_segment_def\<close>)
  qed
qed simp

lemma split_on_take_last: "lastIndexOf c s = Some i \<Longrightarrow> set (split_on c (take i s)) \<subseteq> set (split_on c s)"
proof -
  assume i: "lastIndexOf c s = Some i"
  have "i < length s \<and> s ! i = c"
    using i by (induction s arbitrary: i) (auto split: option.splits if_splits)
  then have "s = take i s @ c # drop (Suc i) s"
    using id_take_nth_drop [of i s] by auto
  then have "split_on c s = split_on c (take i s) @ split_on c (drop (Suc i) s)"
    by (metis split_on_append)
  then show ?thesis
    by simp
qed

definition baseSegments :: "jstring \<Rightarrow> jstring list" where
  "baseSegments fromPath =
     (let base = (case lastIndexOf SLASH fromPath of None \<Rightarrow> [] | Some i \<Rightarrow> take i fromPath)
      in if base = [] then [] else split_on SLASH base)"

lemma baseSegments_proper:
  assumes "clean_path fromPath" "q \<in> set (baseSegments fromPath)"
  shows "proper_segment q" "SLASH \<notin> set q"
proof -
  obtain i where "lastIndexOf SLASH fromPath = Some i" "q \<in> set (split_on SLASH (take i fromPath))"
    using assms by (auto simp: baseSegments_def Let_def split: option.splits if_splits)
  then have "q \<in> set (split_on SLASH fromPath)"
    using split_on_take_last by blast
  with assms(1) show "proper_segment q" "SLASH \<notin> set q"
    by (auto simp: clean_path_def dest: split_on_parts)
qed

lemma resolveTarget_inside:
  assumes "clean_path fromPath" "resolveTarget fromPath specifier = (Some t, escaped)"
  shows "insidePath t"
proof -
  obtain segments where segs: "resolveSegments (baseSegments fromPath) (split_on SLASH specifier) = Some segments" "segments \<noteq> []"
    and canonical: "canonicalizeRepositoryRelativePath (join_with SLASH segments) Posix = Inr t"
    using assms(2)
    by (auto simp: resolveTarget_def baseSegments_def Let_def split: if_splits option.splits sum.splits)
  have proper: "\<forall>q\<in>set segments. proper_segment q \<and> SLASH \<notin> set q"
    using resolveSegments_proper [OF segs(1)] baseSegments_proper [OF assms(1)] split_on_parts by blast
  then have "split_on SLASH (join_with SLASH segments) = segments"
    using segs(2) by (intro split_join_with) auto
  moreover have "safe_text (join_with SLASH segments)" "BACKSLASH \<notin> set (join_with SLASH segments)"
    using canonical
    by (auto simp: canonicalizeRepositoryRelativePath_def result_simps validateText_None_iff split: option.splits)
  ultimately have "clean_path (join_with SLASH segments)"
    using proper by (simp add: clean_path_def)
  with canonical show ?thesis
    by (auto simp: canonicalize_clean insidePath_def drive_prefix_iff split: if_splits)
qed

definition pathsInv :: "WalkFrame list \<Rightarrow> MutableState \<Rightarrow> bool" where
  "pathsInv S st \<longleftrightarrow>
     (\<forall>(p, _)\<in>set S. insidePath p) \<and> (\<forall>node\<in>set (ms_nodes st). insidePath (gn_path node)) \<and>
     (\<forall>edge\<in>set (ms_edges st). \<forall>t. ge_targetPath edge = Some t \<longrightarrow> insidePath t)"

definition pathsReady :: "WalkFrame list \<Rightarrow> jstring \<Rightarrow> MutableState \<Rightarrow> bool" where
  "pathsReady S p st \<longleftrightarrow> pathsInv S st \<and> insidePath p"

definition pathsAfter :: "WalkFrame list \<Rightarrow> jstring \<Rightarrow> VisitResult \<Rightarrow> MutableState \<Rightarrow> bool" where
  "pathsAfter S p r st \<longleftrightarrow> pathsInv S st \<and> insidePath p"

lemmas paths_defs = pathsInv_def pathsReady_def pathsAfter_def

interpretation paths: graph_walk ctx pathsInv pathsReady pathsAfter for ctx
proof
  fix S p st parent st' r
  assume ready: "pathsReady S p st" and op: "openDocument ctx p (length S) parent st = (st', Inl r)"
  from op show "pathsAfter S p r st'"
    by (cases rule: openDocument_cases) (use ready in \<open>auto simp: paths_defs sameCore_def admitted_def\<close>)
next
  fix S p st parent st' d k refs
  assume ready: "pathsReady S p st" and op: "openDocument ctx p (length S) parent st = (st', Inr (d, k, refs))"
  from op show "pathsInv ((p, d, k, refs, 0) # S) st'"
    by (cases rule: openDocument_cases) (use ready in \<open>auto simp: paths_defs sameCore_def admitted_def\<close>)
next
  fix p d k refs i S st
  assume "pathsInv ((p, d, k, refs, i) # S) st"
  then show "pathsInv ((p, d, k, refs, i) # S) (haltAt ctx p (refs ! i) st)"
    using addGraphIssue_effect [where ctx = ctx and code = EdgeLimit and p = p and reference = "Some (refs ! i)"
        and t = None and st = st]
    by (auto simp: paths_defs haltAt_def sameCore_def)
next
  fix p d k refs i S st st'
  assume now: "pathsInv ((p, d, k, refs, i) # S) st"
    and step: "referenceStep ctx p (length S) d i (refs ! i) (takeSlot st) = Inl st'"
  have "clean_path p"
    using now by (simp add: paths_defs insidePath_def)
  from step show "pathsInv ((p, d, k, refs, Suc i) # S) st'"
    by (cases rule: referenceStep_cases)
      (use now resolveTarget_inside [OF \<open>clean_path p\<close>] in \<open>auto simp: paths_defs sameCore_def takeSlot_def\<close>)
next
  fix p d k refs i S st t
  assume now: "pathsInv ((p, d, k, refs, i) # S) st"
    and step: "referenceStep ctx p (length S) d i (refs ! i) (takeSlot st) = Inr t"
  have "clean_path p"
    using now by (simp add: paths_defs insidePath_def)
  from step show "pathsReady ((p, d, k, refs, i) # S) t (takeSlot st)"
    by (cases rule: referenceStep_cases)
      (use now resolveTarget_inside [OF \<open>clean_path p\<close>] in \<open>auto simp: paths_defs takeSlot_def\<close>)
next
  fix p d k refs i S t r st st' position
  assume after: "pathsAfter ((p, d, k, refs, i) # S) t r st"
    and edge: "st' = visitedEdge d (refs ! i) (length S) t position r st"
  from edge show "pathsInv ((p, d, k, refs, Suc i) # S) st'"
    by (cases rule: visitedEdge_effect) (use after in \<open>auto simp: paths_defs sameCore_def\<close>)
next
  fix p d k refs i S st
  assume "pathsInv ((p, d, k, refs, i) # S) st"
  then show "pathsAfter S p (Some d, None) (closeDocument p k d st)"
    by (auto simp: paths_defs closeDocument_def)
qed

end
