(* ===== verification/Markdown_Props.thy ===== *)
theory Markdown_Props
  imports Markdown "HOL-Library.Multiset"
begin

text \<open>
  Correctness of the Markdown package: the node table is a tree in pre-order whatever the parser returns, the
  ranges are exact, and the extractions are the source text of their nodes.
\<close>

subsection \<open>Results\<close>

lemma requireId_Inr [result_simps]: "requireId found = Inr i \<longleftrightarrow> found = Some i"
  by (simp add: requireId_def split: option.split)

lemma map_eq_Inr: "map f xs = map Inr ys \<longleftrightarrow> length xs = length ys \<and> (\<forall>i<length xs. f (xs ! i) = Inr (ys ! i))"
  by (auto simp: list_eq_iff_nth_eq)

subsection \<open>Node identifiers\<close>

fun value36 :: "jstring \<Rightarrow> nat" where
  "value36 s = foldl (\<lambda>a d. 36 * a + (if d < 58 then d - 48 else d - 87)) 0 s"

lemma value36_base36: "value36 (base36 n) = n"
proof (induction n rule: base36.induct)
  case (1 n)
  show ?case
  proof (cases "n < 36")
    case False
    then have "base36 n = base36 (n div 36) @ [digit36 (n mod 36)]"
      by (simp add: base36.simps [of n])
    with 1 [OF False] show ?thesis
      by simp
  qed (simp add: base36.simps [of n])
qed

lemma astNodeId_inj [simp]: "astNodeId key m = astNodeId key n \<longleftrightarrow> m = n"
proof -
  have "base36 m = base36 n \<longleftrightarrow> m = n"
    by (metis value36_base36)
  then show ?thesis
    by (simp add: astNodeId_def)
qed

lemma nodePosition_nth:
  "distinct (map ix_node xs) \<Longrightarrow> i < length xs \<Longrightarrow> nodePosition (ix_node (xs ! i)) xs = Some i"
proof (induction xs arbitrary: i)
  case (Cons x xs)
  then show ?case
    by (cases i) (auto simp: image_iff dest: nth_mem)
qed simp

lemma nodePosition_Some: "nodePosition node xs = Some i \<Longrightarrow> i < length xs \<and> ix_node (xs ! i) = node"
  by (induction xs arbitrary: i) (auto split: if_splits)

subsection \<open>The walk over the parser's tree\<close>

definition kids :: "MdastTree \<Rightarrow> IndexedNode \<Rightarrow> nat list" where
  "kids tree x = (case childrenOf (mt_node tree (ix_node x)) of Inl _ \<Rightarrow> [] | Inr children \<Rightarrow> children)"

text \<open>What the walk adds to its output: each node's offsets and children were accepted.\<close>

definition accepted :: "MdastTree \<Rightarrow> nat \<Rightarrow> nat \<Rightarrow> IndexedNode \<Rightarrow> bool" where
  "accepted tree textLength adjustment x \<longleftrightarrow>
     nodeOffsets tree textLength adjustment (ix_node x) = Some (ix_start x, ix_end x) \<and>
     childrenOf (mt_node tree (ix_node x)) = Inr (kids tree x)"

definition walked :: "MdastTree \<Rightarrow> nat \<Rightarrow> nat \<Rightarrow> nat list \<Rightarrow> IndexedNode list \<Rightarrow> bool" where
  "walked tree textLength adjustment pending new \<longleftrightarrow>
     (\<forall>x\<in>set new. accepted tree textLength adjustment x) \<and>
     (pending \<noteq> [] \<longrightarrow> new \<noteq> [] \<and> ix_node (hd new) = hd pending) \<and>
     mset (map ix_node new) = mset pending + mset (concat (map (kids tree) new)) \<and>
     (\<forall>i<length new. \<forall>c\<in>set (kids tree (new ! i)). \<exists>j. i < j \<and> j < length new \<and> ix_node (new ! j) = c)"

lemma walked_step:
  assumes "accepted tree textLength adjustment x" "walked tree textLength adjustment (kids tree x @ pending) new"
  shows "walked tree textLength adjustment (ix_node x # pending) (x # new)"
proof -
  have "set (kids tree x) \<subseteq> ix_node ` set new"
    using assms(2) unfolding walked_def by (metis (no_types) Un_iff list.set_map mset_append set_append set_mset_mset subsetI)
  then have first: "\<exists>j. 0 < j \<and> j < Suc (length new) \<and> ix_node ((x # new) ! j) = c" if "c \<in> set (kids tree x)" for c
    using that by (metis (no_types, lifting) Suc_less_eq imageE in_set_conv_nth nth_Cons_Suc subsetD zero_less_Suc)
  have later: "\<exists>j. i < j \<and> j < Suc (length new) \<and> ix_node ((x # new) ! j) = c"
    if at: "i < Suc (length new)" "c \<in> set (kids tree ((x # new) ! i))" for i c
  proof (cases i)
    case 0
    with at first show ?thesis
      by simp
  next
    case (Suc k)
    then have "k < length new" "c \<in> set (kids tree (new ! k))"
      using at by simp_all
    then obtain j where "k < j" "j < length new" "ix_node (new ! j) = c"
      using assms(2) unfolding walked_def by blast
    then show ?thesis
      using Suc by (intro exI [of _ "Suc j"]) simp
  qed
  show ?thesis
    using assms later unfolding walked_def by (auto simp: ac_simps)
qed

lemma indexTree_walked:
  assumes "indexTree tree textLength adjustment limits stack seen out = Inr res"
    and "seen = ix_node ` set out" "distinct (map ix_node out)"
  shows "\<exists>new. res = out @ new \<and> distinct (map ix_node res) \<and> walked tree textLength adjustment (map fst stack) new"
  using assms
proof (induction tree textLength adjustment limits stack seen out rule: indexTree.induct)
  case (1 tree textLength adjustment limits seen out)
  then show ?case
    by (auto simp: indexTree.simps walked_def)
next
  case (2 tree textLength adjustment limits node depth stack seen out)
  obtain start end' children where go: "\<not> limits MaxDepth < depth" "node \<notin> seen"
    "nodeOffsets tree textLength adjustment node = Some (start, end')" "\<not> limits MaxNodes < length out + 1"
    "childrenOf (mt_node tree node) = Inr children"
    using "2.prems"(1) by (auto simp: indexTree.simps split: if_splits option.splits sum.splits)
  let ?x = "\<lparr>ix_node = node, ix_depth = depth, ix_start = start, ix_end = end'\<rparr>"
  have rest: "indexTree tree textLength adjustment limits (map (\<lambda>child. (child, depth + 1)) children @ stack)
      (insert node seen) (out @ [?x]) = Inr res"
    using "2.prems"(1) go by (simp add: indexTree.simps)
  have "insert node seen = ix_node ` set (out @ [?x])" "distinct (map ix_node (out @ [?x]))"
    using "2.prems"(2,3) go(2) by auto
  then obtain new where new: "res = (out @ [?x]) @ new" "distinct (map ix_node res)"
    "walked tree textLength adjustment (map fst (map (\<lambda>child. (child, depth + 1)) children @ stack)) new"
    using "2.IH" [OF go(1,2,3) refl go(4,5) rest] by blast
  have kids: "kids tree ?x = children"
    using go(5) by (simp add: kids_def)
  have "walked tree textLength adjustment (map fst ((node, depth) # stack)) (?x # new)"
    using walked_step [of tree textLength adjustment ?x "map fst stack" new] new(3) go(3,5) kids
    by (simp add: accepted_def comp_def)
  with new show ?case
    by (intro exI [of _ "?x # new"]) simp
qed

lemma indexTree_root:
  assumes "indexTree tree textLength adjustment limits [(mt_root tree, 0)] {} [] = Inr res"
  shows "distinct (map ix_node res)" "walked tree textLength adjustment [mt_root tree] res"
    "res \<noteq> []" "ix_node (hd res) = mt_root tree"
proof -
  show walk: "distinct (map ix_node res)" "walked tree textLength adjustment [mt_root tree] res"
    using indexTree_walked [OF assms] by auto
  then show "res \<noteq> []" "ix_node (hd res) = mt_root tree"
    by (simp_all add: walked_def)
qed

subsection \<open>The tree that the walk visits\<close>

text \<open>An ordered tree, its nodes in pre-order, and the children of each node in the same order.\<close>

datatype 'a rose = Rose (rootOf: 'a) (subtrees: "'a rose list")

fun preorder :: "'a rose \<Rightarrow> 'a list" where
  "preorder (Rose a ts) = a # concat (map preorder ts)"

fun childLists :: "'a rose \<Rightarrow> 'a list list" where
  "childLists (Rose a ts) = map rootOf ts # concat (map childLists ts)"

text \<open>The tree is the one that the parser's nodes unfold to: the children of every node, in the parser's order.\<close>

definition parserChildren :: "MdastNode \<Rightarrow> nat option list" where
  "parserChildren node = (case md_children node of ChildList children \<Rightarrow> children | _ \<Rightarrow> [])"

fun unfoldsFrom :: "MdastTree \<Rightarrow> nat rose \<Rightarrow> bool" where
  "unfoldsFrom tree (Rose n ts) \<longleftrightarrow>
     parserChildren (mt_node tree n) = map (\<lambda>t. Some (rootOf t)) ts \<and> (\<forall>t\<in>set ts. unfoldsFrom tree t)"

lemma accepted_children:
  assumes "childrenOf node = Inr children"
  shows "parserChildren node = map Some children"
proof (cases "md_children node")
  case (ChildList cs)
  then have "None \<notin> set cs" "children = map the cs"
    using assms by (auto simp: childrenOf_def checkR_Inr_iff)
  moreover from this(1) have "map (\<lambda>c. Some (the c)) cs = cs"
    by (intro map_idI) (metis option.collapse)
  ultimately show ?thesis
    using ChildList by (simp add: parserChildren_def comp_def)
qed (use assms in \<open>simp_all add: childrenOf_def parserChildren_def\<close>)

lemma indexTree_preorder:
  assumes "indexTree tree textLength adjustment limits stack seen out = Inr res"
  shows "\<exists>ts. map rootOf ts = map fst stack \<and> (\<forall>t\<in>set ts. unfoldsFrom tree t) \<and>
    map ix_node res = map ix_node out @ concat (map preorder ts)"
  using assms
proof (induction tree textLength adjustment limits stack seen out rule: indexTree.induct)
  case (1 tree textLength adjustment limits seen out)
  then show ?case
    by (simp add: indexTree.simps)
next
  case (2 tree textLength adjustment limits node depth stack seen out)
  obtain start end' children where go: "\<not> limits MaxDepth < depth" "node \<notin> seen"
    "nodeOffsets tree textLength adjustment node = Some (start, end')" "\<not> limits MaxNodes < length out + 1"
    "childrenOf (mt_node tree node) = Inr children"
    using "2.prems" by (auto simp: indexTree.simps split: if_splits option.splits sum.splits)
  let ?x = "\<lparr>ix_node = node, ix_depth = depth, ix_start = start, ix_end = end'\<rparr>"
  have rest: "indexTree tree textLength adjustment limits (map (\<lambda>child. (child, depth + 1)) children @ stack)
      (insert node seen) (out @ [?x]) = Inr res"
    using "2.prems" go by (simp add: indexTree.simps)
  obtain ts where ts: "map rootOf ts = children @ map fst stack" "\<forall>t\<in>set ts. unfoldsFrom tree t"
    "map ix_node res = map ix_node out @ node # concat (map preorder ts)"
    using "2.IH" [OF go(1,2,3) refl go(4,5) rest] by (auto simp: comp_def)
  obtain us vs where split: "ts = us @ vs" "map rootOf us = children" "map rootOf vs = map fst stack"
    using ts(1) by (metis map_eq_append_conv)
  have "parserChildren (mt_node tree node) = map (\<lambda>t. Some (rootOf t)) us"
    using accepted_children [OF go(5)] split(2) by auto
  then show ?case
    using ts split by (intro exI [of _ "Rose node us # vs"]) simp
qed

lemma indexTree_root_preorder:
  assumes "indexTree tree textLength adjustment limits [(mt_root tree, 0)] {} [] = Inr res"
  shows "\<exists>t. rootOf t = mt_root tree \<and> unfoldsFrom tree t \<and> preorder t = map ix_node res"
proof -
  obtain ts where "map rootOf ts = [mt_root tree]" "\<forall>t\<in>set ts. unfoldsFrom tree t"
    "map ix_node res = concat (map preorder ts)"
    using indexTree_preorder [OF assms] unfolding list.map append_Nil prod.sel by metis
  then show ?thesis
    by (auto simp: map_eq_Cons_conv)
qed

lemma childLists_kids:
  "unfoldsFrom tree t \<Longrightarrow> map (map Some) (childLists t) = map (\<lambda>n. parserChildren (mt_node tree n)) (preorder t)"
proof (induction t)
  case (Rose n ts)
  have "map (map Some) (concat (map childLists ts)) =
      map (\<lambda>n. parserChildren (mt_node tree n)) (concat (map preorder ts))"
    using Rose by (simp add: map_concat comp_def cong: map_cong)
  with Rose.prems show ?case
    by (simp add: comp_def)
qed

subsection \<open>The node table\<close>

lemma offsets_order:
  assumes "nodeOffsets tree textLength adjustment node = Some (a, b)" "adjustment \<le> textLength"
  shows "a \<le> b" "b \<le> textLength"
  using assms
  by (auto simp: nodeOffsets_def Let_def offsetOf_def split: if_splits option.splits)

lemma adjustment_le: "offsetAdjustmentOf source \<le> length source"
  by (cases source) (simp_all add: offsetAdjustmentOf_def)

lemma buildNode_Inr:
  assumes "buildNode tree sourceId source key positions indexedNodes x = Inr node"
  shows "assignedId key indexedNodes (ix_node x) = Some (an_id node)"
    "map (assignedId key indexedNodes) (kids tree x) = map Some (an_childIds node)"
    "locateRange sourceId positions (ix_start x) (ix_end x) = Some (an_range node)"
proof -
  obtain nodeId children childIds rng where parts:
    "assignedId key indexedNodes (ix_node x) = Some nodeId" "childrenOf (mt_node tree (ix_node x)) = Inr children"
    "map (\<lambda>c. requireId (assignedId key indexedNodes c)) children = map Inr childIds"
    "makeRange sourceId positions (ix_start x) (ix_end x) = Inr rng"
    "node = mapNode tree x nodeId sourceId rng childIds source"
    using assms unfolding buildNode_def by (auto simp: result_simps)
  have "map (assignedId key indexedNodes) children = map Some childIds"
    using parts(3) by (auto simp: map_eq_Inr result_simps list_eq_iff_nth_eq)
  with parts show "assignedId key indexedNodes (ix_node x) = Some (an_id node)"
    "map (assignedId key indexedNodes) (kids tree x) = map Some (an_childIds node)"
    "locateRange sourceId positions (ix_start x) (ix_end x) = Some (an_range node)"
    by (auto simp: mapNode_def kids_def makeRange_def split: option.splits)
qed

text \<open>The indexed nodes of a walk and the node table built from them.\<close>

definition nodeTable ::
  "MdastTree \<Rightarrow> jstring \<Rightarrow> jstring \<Rightarrow> jstring \<Rightarrow> PositionIndex \<Rightarrow> IndexedNode list \<Rightarrow> AstNode list \<Rightarrow> bool" where
  "nodeTable tree sourceId source key positions xs nodes \<longleftrightarrow>
     map (buildNode tree sourceId source key positions xs) xs = map Inr nodes \<and> distinct (map ix_node xs) \<and>
     walked tree (length source) (offsetAdjustmentOf source) [mt_root tree] xs \<and>
     (\<exists>t. rootOf t = mt_root tree \<and> unfoldsFrom tree t \<and> preorder t = map ix_node xs)"

lemma nodeTable_nth:
  assumes "nodeTable tree sourceId source key positions xs nodes"
  shows "length nodes = length xs"
    "i < length nodes \<Longrightarrow> buildNode tree sourceId source key positions xs (xs ! i) = Inr (nodes ! i)"
    "i < length nodes \<Longrightarrow> an_id (nodes ! i) = astNodeId key i"
proof -
  show len: "length nodes = length xs"
    and built: "i < length nodes \<Longrightarrow> buildNode tree sourceId source key positions xs (xs ! i) = Inr (nodes ! i)"
    using assms by (simp_all add: nodeTable_def map_eq_Inr)
  show "an_id (nodes ! i) = astNodeId key i" if "i < length nodes"
    using buildNode_Inr(1) [OF built [OF that]] nodePosition_nth [of xs i] assms len that
    by (auto simp: assignedId_def nodeTable_def)
qed

lemma nodeTable_distinct: "nodeTable tree sourceId source key positions xs nodes \<Longrightarrow> distinct (map an_id nodes)"
  by (simp add: distinct_conv_nth nodeTable_nth(3))

lemma nodeTable_child:
  assumes table: "nodeTable tree sourceId source key positions xs nodes"
    and i: "i < length nodes" and c: "c \<in> set (an_childIds (nodes ! i))"
  shows "\<exists>j. i < j \<and> j < length nodes \<and> an_id (nodes ! j) = c"
proof -
  have "Some c \<in> set (map (assignedId key xs) (kids tree (xs ! i)))"
    using buildNode_Inr(2) [OF nodeTable_nth(2) [OF table i]] c by simp
  then obtain child where child: "child \<in> set (kids tree (xs ! i))" "assignedId key xs child = Some c"
    by auto
  then obtain j where j: "i < j" "j < length xs" "ix_node (xs ! j) = child"
    using table i unfolding nodeTable_def walked_def nodeTable_nth(1) [OF table] by blast
  then have "c = astNodeId key j"
    using child(2) nodePosition_nth [of xs j] table by (simp add: assignedId_def nodeTable_def)
  with j show ?thesis
    using nodeTable_nth(3) [OF table, of j] nodeTable_nth(1) [OF table] by auto
qed

lemma nodeTable_ids:
  assumes table: "nodeTable tree sourceId source key positions xs nodes"
    and root: "assignedId key xs (mt_root tree) = Some rootId"
  shows "mset (map an_id nodes) = add_mset rootId (mset (concat (map an_childIds nodes)))"
    "nodes \<noteq> []" "an_id (hd nodes) = rootId"
proof -
  note len = nodeTable_nth(1) [OF table] and built = nodeTable_nth(2) [OF table]
  let ?id = "\<lambda>n. the (assignedId key xs n)"
  have ids: "map an_id nodes = map ?id (map ix_node xs)"
    using buildNode_Inr(1) [OF built] len by (intro nth_equalityI) auto
  have "map ?id (kids tree (xs ! i)) = an_childIds (nodes ! i)" if "i < length nodes" for i
    using arg_cong [OF buildNode_Inr(2) [OF built [OF that]], of "map the"] by (simp add: comp_def)
  then have "map (map ?id) (map (kids tree) xs) = map an_childIds nodes"
    using len by (intro nth_equalityI) auto
  then have kids: "concat (map an_childIds nodes) = map ?id (concat (map (kids tree) xs))"
    by (metis map_concat)
  have "mset (map ix_node xs) = add_mset (mt_root tree) (mset (concat (map (kids tree) xs)))"
    using table by (simp add: walked_def nodeTable_def)
  then have "image_mset ?id (mset (map ix_node xs)) =
      add_mset (?id (mt_root tree)) (image_mset ?id (mset (concat (map (kids tree) xs))))"
    by (metis image_mset_add_mset)
  then show "mset (map an_id nodes) = add_mset rootId (mset (concat (map an_childIds nodes)))"
    using root unfolding ids kids by (simp only: mset_map option.sel)
  have walk: "xs \<noteq> []" "ix_node (hd xs) = mt_root tree"
    using table by (auto simp: nodeTable_def walked_def)
  then show "nodes \<noteq> []"
    using len by auto
  then show "an_id (hd nodes) = rootId"
    using root buildNode_Inr(1) [OF built, of 0] walk len by (auto simp: hd_conv_nth)
qed

text \<open>The table lists the tree: identifiers in pre-order, and with each node the identifiers of its children in order.\<close>

definition listsTree :: "MdastTree \<Rightarrow> nat rose \<Rightarrow> AstNode list \<Rightarrow> bool" where
  "listsTree tree t nodes \<longleftrightarrow>
     rootOf t = mt_root tree \<and> unfoldsFrom tree t \<and> distinct (preorder t) \<and>
     (\<exists>ident. map an_id nodes = map ident (preorder t) \<and> map an_childIds nodes = map (map ident) (childLists t))"

lemma nodeTable_lists:
  assumes table: "nodeTable tree sourceId source key positions xs nodes"
  shows "\<exists>t. listsTree tree t nodes"
proof -
  note len = nodeTable_nth(1) [OF table] and built = nodeTable_nth(2) [OF table]
  obtain t where t: "rootOf t = mt_root tree" "unfoldsFrom tree t" "preorder t = map ix_node xs"
    using table by (auto simp: nodeTable_def)
  let ?id = "\<lambda>n. the (assignedId key xs n)"
  have ids: "map an_id nodes = map ?id (preorder t)"
    unfolding t(3) using buildNode_Inr(1) [OF built] len by (intro nth_equalityI) auto
  have "map (map Some) (childLists t) = map (\<lambda>x. parserChildren (mt_node tree (ix_node x))) xs"
    using childLists_kids [OF t(2)] t(3) by (simp add: comp_def)
  also have "\<dots> = map (\<lambda>x. map Some (kids tree x)) xs"
    using table accepted_children by (auto simp: nodeTable_def walked_def accepted_def)
  finally have "map (map the) (map (map Some) (childLists t)) = map (map the) (map (\<lambda>x. map Some (kids tree x)) xs)"
    by (rule arg_cong)
  then have children: "childLists t = map (kids tree) xs"
    by (simp add: comp_def)
  have "map ?id (kids tree (xs ! i)) = an_childIds (nodes ! i)" if "i < length nodes" for i
    using arg_cong [OF buildNode_Inr(2) [OF built [OF that]], of "map the"] by (simp add: comp_def)
  then have "map an_childIds nodes = map (map ?id) (childLists t)"
    unfolding children using len by (intro nth_equalityI) auto
  moreover have "distinct (preorder t)"
    using table t(3) by (simp add: nodeTable_def)
  ultimately show ?thesis
    unfolding listsTree_def using t ids by blast
qed

lemma nodeTable_range:
  assumes table: "nodeTable tree sourceId source key positions xs nodes" and i: "i < length nodes"
  obtains a b where "a \<le> b" "b \<le> length source" "locateRange sourceId positions a b = Some (an_range (nodes ! i))"
proof -
  have "xs ! i \<in> set xs"
    using i nodeTable_nth(1) [OF table] by simp
  then have "nodeOffsets tree (length source) (offsetAdjustmentOf source) (ix_node (xs ! i)) = Some (ix_start (xs ! i), ix_end (xs ! i))"
    using table by (simp add: nodeTable_def walked_def accepted_def)
  then show thesis
    using offsets_order [OF _ adjustment_le] buildNode_Inr(3) [OF nodeTable_nth(2) [OF table i]] that by blast
qed

lemma parseMarkdownInternal_Inr:
  assumes "parseMarkdownInternal fromMarkdown sha256 sourceId source options = Inr (tree, xs, result)"
  obtains limits positions key where "validateOptions options = Inr limits" "preflightInput limits source = Inr positions"
    "nodeTable tree sourceId source key positions xs (mr_nodes result)"
    "assignedId key xs (mt_root tree) = Some (mr_rootNodeId result)" "isStableIdentifier sourceId"
    "fromMarkdown (drop (offsetAdjustmentOf source) source) = Some tree"
proof -
  let ?key = "sha256 (utf8 sourceId @ [0] @ utf8 source)"
  obtain limits positions where start: "isStableIdentifier sourceId" "validateOptions options = Inr limits"
    "preflightInput limits source = Inr positions"
    and rest: "(case fromMarkdown (drop (offsetAdjustmentOf source) source) of
        None \<Rightarrow> Inl MdParseFailed
      | Some tree \<Rightarrow>
          bindR (indexTree tree (length source) (offsetAdjustmentOf source) limits [(mt_root tree, 0)] {} []) (\<lambda>indexedNodes.
          bindR (sequenceR (map (buildNode tree sourceId source ?key positions indexedNodes) indexedNodes)) (\<lambda>nodes.
          bindR (collectIssues tree source sourceId positions (openingStates (mt_fences tree)) (offsetAdjustmentOf source)
                   (limits MaxIssues) indexedNodes []) (\<lambda>issues.
          bindR (requireId (assignedId ?key indexedNodes (mt_root tree))) (\<lambda>rootNodeId.
            Inr (tree, indexedNodes,
                 \<lparr>mr_rootNodeId = rootNodeId, mr_nodes = nodes, mr_issues = issues,
                  mr_parseState = parseStateFor issues\<rparr>)))))) = Inr (tree, xs, result)"
    using assms unfolding parseMarkdownInternal_def checkR_Inr_iff bindR_Inr_iff Let_def by blast
  obtain tree' where tree': "fromMarkdown (drop (offsetAdjustmentOf source) source) = Some tree'"
    using rest by (cases "fromMarkdown (drop (offsetAdjustmentOf source) source)") simp_all
  with rest have tree: "fromMarkdown (drop (offsetAdjustmentOf source) source) = Some tree"
    by (auto simp: bindR_Inr_iff)
  obtain nodes where parts: "indexTree tree (length source) (offsetAdjustmentOf source) limits [(mt_root tree, 0)] {} [] = Inr xs"
    "map (buildNode tree sourceId source ?key positions xs) xs = map Inr nodes"
    "assignedId ?key xs (mt_root tree) = Some (mr_rootNodeId result)" "mr_nodes result = nodes"
    using rest unfolding tree option.case bindR_Inr_iff sequenceR_Inr requireId_Inr by auto
  have "nodeTable tree sourceId source ?key positions xs (mr_nodes result)"
    using parts indexTree_root [OF parts(1)] indexTree_root_preorder [OF parts(1)] by (simp add: nodeTable_def)
  with start parts tree show thesis
    by (intro that) simp_all
qed

subsection \<open>Exact ranges\<close>

text \<open>The position of an offset: the bytes, line breaks and code units before it.\<close>

definition exactPosition :: "jstring \<Rightarrow> nat \<Rightarrow> SourcePosition" where
  "exactPosition s offset =
     \<lparr>sp_byteOffset = textBytes (take offset s), sp_utf16Offset = offset, sp_line = lineOf s offset,
      sp_utf16Column = offset - lineBegin s offset\<rparr>"

definition exactRange :: "jstring \<Rightarrow> jstring \<Rightarrow> nat \<Rightarrow> nat \<Rightarrow> SourceRange" where
  "exactRange sourceId s a b = \<lparr>sr_sourceId = sourceId, sr_start = exactPosition s a, sr_end = exactPosition s b\<rparr>"

lemma locateRange_exact:
  assumes "hasWellFormedUnicode s" "is_jstring s" "positionIndex limit s = Some index"
    "locateRange sourceId index a b = Some rng"
  shows "rng = exactRange sourceId s a b" "a \<le> length s" "b \<le> length s"
    "hasWellFormedUnicode (take a s)" "hasWellFormedUnicode (take b s)"
  using assms(4)
  by (auto simp: locateRange_def exactRange_def exactPosition_def locate_exact [OF assms(1-3)] split: option.splits if_splits)

lemma preflightInput_Inr:
  assumes "preflightInput limits source = Inr positions"
  shows "hasWellFormedUnicode source" "positionIndex (Some (limits MaxUtf8Bytes)) source = Some positions"
  using assms by (auto simp: preflightInput_def result_simps buildPositionIndex_def split: option.splits)

lemma parse_ranges_exact:
  assumes "parseMarkdownInternal fromMarkdown sha256 sourceId source options = Inr (tree, xs, result)" "is_jstring source"
    and "node \<in> set (mr_nodes result)"
  obtains a b where "a \<le> b" "b \<le> length source" "an_range node = exactRange sourceId source a b"
    "hasWellFormedUnicode (take a source)" "hasWellFormedUnicode (take b source)"
  using assms(1)
proof (cases rule: parseMarkdownInternal_Inr)
  case (1 limits positions key)
  obtain i where i: "i < length (mr_nodes result)" "node = mr_nodes result ! i"
    using assms(3) by (auto simp: in_set_conv_nth)
  obtain a b where "a \<le> b" "b \<le> length source" "locateRange sourceId positions a b = Some (an_range node)"
    using nodeTable_range [OF 1(3) i(1)] i(2) by metis
  note here = this
  show thesis
    by (rule that [OF here(1,2)])
      (rule locateRange_exact [OF preflightInput_Inr(1) [OF 1(2)] assms(2) preflightInput_Inr(2) [OF 1(2)] here(3)])+
qed

subsection \<open>Extractions\<close>

text \<open>An extraction of a node: its identifier, its range and the source text of the range.\<close>

definition sliceOf :: "jstring \<Rightarrow> AstNode list \<Rightarrow> 'a MarkdownExtractedSlice_scheme \<Rightarrow> bool" where
  "sliceOf source nodes x \<longleftrightarrow>
     (\<exists>node\<in>set nodes. es_nodeId x = an_id node \<and> es_range x = an_range node \<and> es_original x = sourceSlice source (an_range node))"

definition allSlices :: "jstring \<Rightarrow> AstNode list \<Rightarrow> MarkdownExtractions \<Rightarrow> bool" where
  "allSlices source nodes out \<longleftrightarrow>
     (\<forall>x\<in>set (ex_headings out). sliceOf source nodes x) \<and> (\<forall>x\<in>set (ex_statements out). sliceOf source nodes x) \<and>
     (\<forall>x\<in>set (ex_codeBlocks out). sliceOf source nodes x) \<and> (\<forall>x\<in>set (ex_links out). sliceOf source nodes x) \<and>
     (\<forall>x\<in>set (ex_references out). sliceOf source nodes x)"

lemma sliceOf_node:
  "node \<in> set nodes \<Longrightarrow> sliceOf source nodes
     \<lparr>es_nodeId = an_id node, es_range = an_range node, es_original = sourceSlice source (an_range node), \<dots> = z\<rparr>"
  by (auto simp: sliceOf_def)

lemma extractStructure_slices:
  assumes "allSlices source nodes out" "node \<in> set nodes"
  shows "allSlices source nodes (extractStructure source node out)"
  using assms by (auto simp: extractStructure_def allSlices_def Let_def intro: sliceOf_node split: AstNodeKind.split)

lemma extractReference_slices:
  assumes "allSlices source nodes out" "node \<in> set nodes" "extractReference source mdast node out = Inr out'"
  shows "allSlices source nodes out'"
  using assms
  by (auto simp: extractReference_def allSlices_def Let_def intro: sliceOf_node split: if_splits option.splits)

lemma extractNodes_slices:
  assumes "extractNodes tree source pairs out = Inr out'" "allSlices source nodes out" "fst ` set pairs \<subseteq> set nodes"
  shows "allSlices source nodes out'"
  using assms
proof (induction tree source pairs out rule: extractNodes.induct)
  case (2 tree source node indexed rest out)
  then have node: "node \<in> set nodes" and rest: "fst ` set rest \<subseteq> set nodes"
    by auto
  show ?case
  proof (cases "isExtractedNode tree node indexed")
    case False
    with 2 rest show ?thesis
      by simp
  next
    case True
    with "2.prems"(1) obtain mid where mid:
      "extractReference source (mt_node tree (ix_node indexed)) node (extractStructure source node out) = Inr mid"
      "extractNodes tree source rest mid = Inr out'"
      by (auto simp: result_simps)
    have "allSlices source nodes mid"
      using extractReference_slices [OF extractStructure_slices [OF "2.prems"(2) node] node mid(1)] .
    with True mid rest show ?thesis
      using "2.IH"(2) by simp
  qed
qed simp

subsection \<open>Properties\<close>

text \<open>
  C7. A parse that succeeds yields the pre-order listing of a tree, whatever the parser returns, shared or
  cyclic: the parser's nodes unfold from its root to an ordered tree without repetition, and the node table
  lists that tree in pre-order, each node with the identifiers of its children in the parser's order. The
  identifiers are distinct, the table begins with the root, every other node is the child of exactly one node,
  and the children of a node come after it.
\<close>

theorem parseMarkdown_tree:
  assumes "parseMarkdown fromMarkdown sha256 sourceId source options = Inr r"
  shows "(\<exists>tree t. fromMarkdown (drop (offsetAdjustmentOf source) source) = Some tree \<and> listsTree tree t (mr_nodes r)) \<and>
    distinct (map an_id (mr_nodes r)) \<and>
    mr_nodes r \<noteq> [] \<and> an_id (hd (mr_nodes r)) = mr_rootNodeId r \<and>
    mset (map an_id (mr_nodes r)) = add_mset (mr_rootNodeId r) (mset (concat (map an_childIds (mr_nodes r)))) \<and>
    (\<forall>i<length (mr_nodes r). \<forall>c\<in>set (an_childIds (mr_nodes r ! i)). \<exists>j. i < j \<and> j < length (mr_nodes r) \<and> an_id (mr_nodes r ! j) = c)"
proof -
  obtain tree xs where "parseMarkdownInternal fromMarkdown sha256 sourceId source options = Inr (tree, xs, r)"
    using assms unfolding parseMarkdown_def bindR_Inr_iff by auto
  then show ?thesis
  proof (cases rule: parseMarkdownInternal_Inr)
    case (1 limits positions key)
    show ?thesis
      using nodeTable_lists [OF 1(3)] nodeTable_distinct [OF 1(3)] nodeTable_ids [OF 1(3,4)] nodeTable_child [OF 1(3)] 1(6)
      by blast
  qed
qed

text \<open>
  C12. Extraction is exact: the range of every node lies in the text and gives the bytes, line breaks and
  code units before its ends, and every extracted heading, statement, code block, link and reference carries
  the identifier and the range of a node and the source text of that range.
\<close>

theorem extractMarkdownContent_exact:
  assumes "extractMarkdownContent fromMarkdown sha256 sourceId source options = Inr (r, extractions)" "is_jstring source"
  shows "(\<forall>node\<in>set (mr_nodes r). \<exists>a b. a \<le> b \<and> b \<le> length source \<and>
      an_range node = \<lparr>sr_sourceId = sourceId, sr_start = exactPosition source a, sr_end = exactPosition source b\<rparr> \<and>
      sourceSlice source (an_range node) = slice source a b) \<and>
    allSlices source (mr_nodes r) extractions"
proof -
  obtain tree xs where parse: "parseMarkdownInternal fromMarkdown sha256 sourceId source options = Inr (tree, xs, r)"
    and run: "extractNodes tree source (zip (mr_nodes r) xs) noExtractions = Inr extractions"
    using assms(1) by (auto simp: extractMarkdownContent_def result_simps)
  have "allSlices source (mr_nodes r) extractions"
    by (rule extractNodes_slices [OF run]) (auto simp: allSlices_def noExtractions_def dest: set_zip_leftD)
  moreover have "\<exists>a b. a \<le> b \<and> b \<le> length source \<and>
      an_range node = \<lparr>sr_sourceId = sourceId, sr_start = exactPosition source a, sr_end = exactPosition source b\<rparr> \<and>
      sourceSlice source (an_range node) = slice source a b" if node: "node \<in> set (mr_nodes r)" for node
  proof -
    obtain a b where "a \<le> b" "b \<le> length source" "an_range node = exactRange sourceId source a b"
      by (rule parse_ranges_exact [OF parse assms(2) node])
    then show ?thesis
      by (intro exI [of _ a] exI [of _ b]) (simp add: exactRange_def sourceSlice_def exactPosition_def)
  qed
  ultimately show ?thesis
    by blast
qed

subsection \<open>Witnesses\<close>

text \<open>A heading \<open># a\<close>, as the parser returns it.\<close>

definition plainNode :: MdastNode where
  "plainNode =
     \<lparr>md_type = None, md_startOffset = None, md_endOffset = None, md_children = NoChildren, md_depth = None, md_ordered = False,
      md_start = None, md_lang = None, md_meta = None, md_url = None, md_title = None, md_identifier = None, md_label = None,
      md_referenceType = None\<rparr>"

definition headingTree :: MdastTree where
  "headingTree =
     \<lparr>mt_root = 0,
      mt_node = (\<lambda>n.
        if n = 0 then plainNode\<lparr>md_type := Some (js ''root''), md_children := ChildList [Some 1]\<rparr>
        else if n = 1 then
          plainNode\<lparr>md_type := Some (js ''heading''), md_depth := Some 1, md_children := ChildList [Some 2],
                    md_startOffset := Some 0, md_endOffset := Some 3\<rparr>
        else plainNode\<lparr>md_type := Some (js ''text''), md_startOffset := Some 2, md_endOffset := Some 3\<rparr>),
      mt_fences = []\<rparr>"

lemmas markdown_eval = parseMarkdownInternal_def validateOptions_def validateLimit_def PARSER_LIMIT_NAMES_def
  ABSOLUTE_MARKDOWN_LIMITS_def preflightInput_def buildPositionIndex_def positionIndex_def enforceDelimiterRunLimit_def
  isAsciiPunctuation_def isStableIdentifier_def offsetAdjustmentOf_def indexTree.simps nodeOffsets_def offsetOf_def
  childrenOf_def buildNode_def assignedId_def requireId_def makeRange_def locateRange_def locate_def bisect.simps
  mapNode_def nodeKind_def nodeType_def nullableNonEmpty_def nodeIssue_def parseStateFor_def unitBytes_def exceeds_def
  charAt_def startsWith_def js_def Let_def

theorem parseMarkdown_tree_witness:
  "\<exists>r. parseMarkdown (\<lambda>_. Some headingTree) (\<lambda>_. js ''k'') (js ''s'') (js ''# a'') (\<lambda>_. None) = Inr r \<and>
     distinct (map an_id (mr_nodes r)) \<and> length (mr_nodes r) = 3 \<and> (\<exists>t. listsTree headingTree t (mr_nodes r))"
proof -
  obtain r where r: "parseMarkdown (\<lambda>_. Some headingTree) (\<lambda>_. js ''k'') (js ''s'') (js ''# a'') (\<lambda>_. None) = Inr r"
    "length (mr_nodes r) = 3"
    by (simp add: parseMarkdown_def markdown_eval headingTree_def plainNode_def unit_class)
  then show ?thesis
    using parseMarkdown_tree [OF r(1)] by blast
qed

theorem extractMarkdownContent_exact_witness:
  "\<exists>r extractions. extractMarkdownContent (\<lambda>_. Some headingTree) (\<lambda>_. js ''k'') (js ''s'') (js ''# a'') (\<lambda>_. None) =
       Inr (r, extractions) \<and>
     allSlices (js ''# a'') (mr_nodes r) extractions \<and> map es_original (ex_headings extractions) = [js ''# a'']"
proof -
  obtain r extractions where run:
    "extractMarkdownContent (\<lambda>_. Some headingTree) (\<lambda>_. js ''k'') (js ''s'') (js ''# a'') (\<lambda>_. None) = Inr (r, extractions)"
    "map es_original (ex_headings extractions) = [js ''# a'']"
    by (simp add: extractMarkdownContent_def validateExtractionOptions_def isExtractedNode_def rangeUnits_def rangeBytes_def
        extractReference_def isReferenceType_def extractStructure_def noExtractions_def sourceSlice_def slice_def
        markdown_eval headingTree_def plainNode_def unit_class)
  have units: "is_jstring (js ''# a'')"
    by (simp add: is_jstring_def js_def)
  have "allSlices (js ''# a'') (mr_nodes r) extractions"
    by (rule extractMarkdownContent_exact [OF run(1) units, THEN conjunct2])
  with run show ?thesis
    by (intro exI conjI)
qed

end
