(* ===== verification/Import_Lexer_Props.thy ===== *)
theory Import_Lexer_Props
  imports Import_Lexer Markdown_Props
begin

text \<open>
  Correctness of the import lexer: the references are exact, ordered and disjoint, none is missed, each is
  attached to a node that encloses it, and the descent to that node always ends.
\<close>

subsection \<open>Scanning\<close>

text \<open>The end of the token that an \<open>@\<close> begins.\<close>

definition tokenEnd :: "jstring \<Rightarrow> nat \<Rightarrow> nat" where
  "tokenEnd s i = i + 1 + length (specifierAt s (i + 1))"

lemma candidateAt_simps [simp]:
  "cd_start (candidateAt s dialect disposition i) = i" "cd_specifierStart (candidateAt s dialect disposition i) = i + 1"
  "cd_end (candidateAt s dialect disposition i) = tokenEnd s i"
  by (simp_all add: candidateAt_def tokenEnd_def Let_def)

lemma tokenEnd_le: "i < length s \<Longrightarrow> tokenEnd s i \<le> length s"
  using length_takeWhile_le [of "\<lambda>u. \<not> isWhitespace u" "drop (i + 1) s"] by (simp add: tokenEnd_def specifierAt_def)

definition goodCandidate :: "jstring \<Rightarrow> ImportDialect \<Rightarrow> DispositionRange list \<Rightarrow> Candidate \<Rightarrow> bool" where
  "goodCandidate s dialect ranges c \<longleftrightarrow>
     cd_start c < length s \<and> opensReference s dialect (cd_start c) \<and>
     containingDisposition ranges (cd_start c) \<noteq> Some DispositionExclude \<and>
     c = candidateAt s dialect (containingDisposition ranges (cd_start c)) (cd_start c)"

text \<open>Every opening from an offset on lies in the token of a candidate or of an excluded opening.\<close>

definition coveredFrom :: "jstring \<Rightarrow> ImportDialect \<Rightarrow> DispositionRange list \<Rightarrow> nat \<Rightarrow> Candidate list \<Rightarrow> bool" where
  "coveredFrom s dialect ranges index candidates \<longleftrightarrow>
     (\<forall>i. index \<le> i \<and> i < length s \<and> opensReference s dialect i \<longrightarrow>
        (\<exists>j. j \<le> i \<and> i < tokenEnd s j \<and> opensReference s dialect j \<and>
           (containingDisposition ranges j = Some DispositionExclude \<or> (\<exists>c\<in>set candidates. cd_start c = j))))"

lemma scanCandidates_cases:
  assumes "scanCandidates s dialect limits ranges index candidates = Inr found" "index < length s"
  obtains (none) "\<not> opensReference s dialect index"
      "scanCandidates s dialect limits ranges (index + 1) candidates = Inr found"
  | (excluded) "opensReference s dialect index" "containingDisposition ranges index = Some DispositionExclude"
      "scanCandidates s dialect limits ranges (tokenEnd s index) candidates = Inr found"
      "length (specifierAt s (index + 1)) \<le> limits MaxSpecifierUtf16CodeUnits"
  | (taken) "opensReference s dialect index" "containingDisposition ranges index \<noteq> Some DispositionExclude"
      "scanCandidates s dialect limits ranges (tokenEnd s index)
         (candidates @ [candidateAt s dialect (containingDisposition ranges index) index]) = Inr found"
      "length (specifierAt s (index + 1)) \<le> limits MaxSpecifierUtf16CodeUnits" "length candidates < limits MaxImports"
  using assms by (subst (asm) scanCandidates.simps) (auto simp: Let_def tokenEnd_def split: if_splits)

lemma coveredFrom_skip:
  assumes "coveredFrom s dialect ranges (tokenEnd s index) found" "opensReference s dialect index"
    "containingDisposition ranges index = Some DispositionExclude \<or> (\<exists>c\<in>set found. cd_start c = index)"
  shows "coveredFrom s dialect ranges index found"
  using assms unfolding coveredFrom_def by (metis linorder_not_less)

lemma scanCandidates_spec:
  assumes "scanCandidates s dialect limits ranges index candidates = Inr found"
    and "\<forall>c\<in>set candidates. goodCandidate s dialect ranges c \<and> cd_end c \<le> index"
    and "sorted_wrt (\<lambda>c d. cd_end c \<le> cd_start d) candidates"
  shows "(\<forall>c\<in>set found. goodCandidate s dialect ranges c) \<and> sorted_wrt (\<lambda>c d. cd_end c \<le> cd_start d) found \<and>
    set candidates \<subseteq> set found \<and> coveredFrom s dialect ranges index found"
  using assms
proof (induction "length s - index" arbitrary: index candidates rule: less_induct)
  case less
  note good = less.prems(2) and order = less.prems(3)
  show ?case
  proof (cases "index < length s")
    case False
    with less.prems show ?thesis
      by (auto simp: scanCandidates.simps coveredFrom_def)
  next
    case True
    have ends: "index < tokenEnd s index"
      by (simp add: tokenEnd_def)
    have shorter: "length s - (index + 1) < length s - index" "length s - tokenEnd s index < length s - index"
      using True ends by simp_all
    have later: "\<forall>c\<in>set candidates. goodCandidate s dialect ranges c \<and> cd_end c \<le> k" if "index \<le> k" for k
      using good that by fastforce
    from less.prems(1) True show ?thesis
    proof (cases rule: scanCandidates_cases)
      case none
      have "coveredFrom s dialect ranges index found" if "coveredFrom s dialect ranges (index + 1) found"
        using that none(1) unfolding coveredFrom_def by (metis Suc_eq_plus1 le_antisym not_less_eq_eq)
      with less.hyps [OF shorter(1) none(2) later order] show ?thesis
        by simp
    next
      case excluded
      then show ?thesis
        using less.hyps [OF shorter(2) excluded(3) later order] ends coveredFrom_skip [OF _ excluded(1)] by simp
    next
      case taken
      let ?new = "candidateAt s dialect (containingDisposition ranges index) index"
      have "\<forall>c\<in>set (candidates @ [?new]). goodCandidate s dialect ranges c \<and> cd_end c \<le> tokenEnd s index"
        using later [of "tokenEnd s index"] ends taken True by (simp add: goodCandidate_def)
      moreover have "sorted_wrt (\<lambda>c d. cd_end c \<le> cd_start d) (candidates @ [?new])"
        using order good by (simp add: sorted_wrt_append)
      ultimately have rest: "(\<forall>c\<in>set found. goodCandidate s dialect ranges c) \<and> sorted_wrt (\<lambda>c d. cd_end c \<le> cd_start d) found \<and>
          set (candidates @ [?new]) \<subseteq> set found \<and> coveredFrom s dialect ranges (tokenEnd s index) found"
        by (rule less.hyps [OF shorter(2) taken(3)])
      then have "\<exists>c\<in>set found. cd_start c = index"
        by (intro bexI [of _ ?new]) auto
      with rest show ?thesis
        using coveredFrom_skip [OF _ taken(1)] by simp
    qed
  qed
qed

subsection \<open>The enclosing node\<close>

definition encloses :: "AstNode \<Rightarrow> nat \<Rightarrow> nat \<Rightarrow> bool" where
  "encloses node a b \<longleftrightarrow> sp_utf16Offset (sr_start (an_range node)) \<le> a \<and> b \<le> sp_utf16Offset (sr_end (an_range node))"

lemma containingChild_Some:
  assumes "containingChild nodes current a b = Some child"
  shows "encloses child a b" "\<exists>c\<in>set (an_childIds current). nodes c = Some child"
proof -
  let ?ids = "an_childIds current"
  define begins where "begins = (\<lambda>middle. middle < length ?ids \<and> (case nodes (?ids ! middle) of
      None \<Rightarrow> False | Some child \<Rightarrow> sp_utf16Offset (sr_start (an_range child)) \<le> a))"
  define low where "low = bisect begins 0 (length ?ids)"
  have low: "low \<noteq> 0" "nodes (?ids ! (low - 1)) = Some child" "encloses child a b"
    using assms unfolding containingChild_def Let_def begins_def [symmetric] low_def [symmetric]
    by (auto simp: encloses_def split: if_splits option.splits)
  then show "encloses child a b"
    by simp
  have "bisect begins l h \<le> max l h" for l h
    by (induction begins l h rule: bisect.induct) (subst bisect.simps, auto simp: Let_def)
  then have "low \<le> length ?ids"
    unfolding low_def by (metis max_0L)
  with low show "\<exists>c\<in>set ?ids. nodes c = Some child"
    by (intro bexI [of _ "?ids ! (low - 1)"]) auto
qed

text \<open>A node table in which children come after their parents.\<close>

definition orderedTable :: "AstNode list \<Rightarrow> bool" where
  "orderedTable nodes \<longleftrightarrow>
     distinct (map an_id nodes) \<and>
     (\<forall>i<length nodes. \<forall>c\<in>set (an_childIds (nodes ! i)). \<exists>j. i < j \<and> j < length nodes \<and> an_id (nodes ! j) = c)"

lemma nodeMap_nth:
  assumes "distinct (map an_id nodes)" "i < length nodes"
  shows "nodeMap nodes (an_id (nodes ! i)) = Some (nodes ! i)"
proof -
  have "distinct (map fst (rev (map (\<lambda>node. (an_id node, node)) nodes)))"
    using assms(1) by (simp add: rev_map [symmetric] comp_def)
  then show ?thesis
    unfolding nodeMap_def using assms(2) by (intro map_of_is_SomeI) auto
qed

lemma descend_ends:
  assumes "orderedTable nodes" "i < length nodes" "length nodes - i \<le> fuel" "encloses (nodes ! i) a b"
  shows "\<exists>node\<in>set nodes. descend fuel (nodeMap nodes) (nodes ! i) a b = Some node \<and> encloses node a b"
  using assms(2-4)
proof (induction fuel arbitrary: i)
  case (Suc fuel)
  show ?case
  proof (cases "containingChild (nodeMap nodes) (nodes ! i) a b")
    case None
    with Suc.prems show ?thesis
      by (intro bexI [of _ "nodes ! i"]) auto
  next
    case (Some child)
    obtain c where c: "c \<in> set (an_childIds (nodes ! i))" "nodeMap nodes c = Some child"
      using containingChild_Some(2) [OF Some] by blast
    obtain j where j: "i < j" "j < length nodes" "an_id (nodes ! j) = c"
      using assms(1) Suc.prems(1) c(1) unfolding orderedTable_def by blast
    have "child = nodes ! j"
      using nodeMap_nth [of nodes j] assms(1) j c(2) by (simp add: orderedTable_def)
    then have "\<exists>node\<in>set nodes. descend fuel (nodeMap nodes) child a b = Some node \<and> encloses node a b"
      using Suc.IH [of j] j Suc.prems containingChild_Some(1) [OF Some] by simp
    moreover have "an_childIds (nodes ! i) \<noteq> []"
      using c(1) by auto
    ultimately show ?thesis
      using Some by simp
  qed
qed simp

lemma deepestContainingNode_ends:
  assumes "orderedTable nodes" "nodes \<noteq> []" "an_id (hd nodes) = rootNodeId" "encloses (hd nodes) a b"
  shows "\<exists>node\<in>set nodes. deepestContainingNode rootNodeId nodes a b = Inr node \<and> encloses node a b"
proof -
  have root: "nodeMap nodes rootNodeId = Some (nodes ! 0)"
    using nodeMap_nth [of nodes 0] assms by (simp add: orderedTable_def hd_conv_nth)
  obtain node where "node \<in> set nodes" "descend (length nodes) (nodeMap nodes) (nodes ! 0) a b = Some node" "encloses node a b"
    using descend_ends [OF assms(1), of 0 "length nodes" a b] assms(2,4) by (auto simp: hd_conv_nth)
  then show ?thesis
    using root by (intro bexI [of _ node]) (simp_all add: deepestContainingNode_def)
qed

lemma locateRange_offsets:
  "locateRange sourceId index a b = Some rng \<Longrightarrow> sp_utf16Offset (sr_start rng) = a \<and> sp_utf16Offset (sr_end rng) = b"
  by (auto simp: locateRange_def locate_def Let_def split: option.splits if_splits)

lemma extraction_table:
  assumes "extractMarkdownContent fromMarkdown sha256 sourceId source options = Inr markdown"
  shows "orderedTable (mr_nodes (fst markdown))" "mr_nodes (fst markdown) \<noteq> []"
    "an_id (hd (mr_nodes (fst markdown))) = mr_rootNodeId (fst markdown)"
    "b \<le> length source \<Longrightarrow> encloses (hd (mr_nodes (fst markdown))) a b"
    "hasWellFormedUnicode source"
proof -
  obtain tree xs where "parseMarkdownInternal fromMarkdown sha256 sourceId source options = Inr (tree, xs, fst markdown)"
    using assms by (auto simp: extractMarkdownContent_def result_simps)
  then have "orderedTable (mr_nodes (fst markdown)) \<and> mr_nodes (fst markdown) \<noteq> [] \<and>
      an_id (hd (mr_nodes (fst markdown))) = mr_rootNodeId (fst markdown) \<and>
      (b \<le> length source \<longrightarrow> encloses (hd (mr_nodes (fst markdown))) a b) \<and> hasWellFormedUnicode source"
  proof (cases rule: parseMarkdownInternal_Inr)
    case (1 limits positions key)
    note table = 1(3)
    have ids: "mr_nodes (fst markdown) \<noteq> []" "an_id (hd (mr_nodes (fst markdown))) = mr_rootNodeId (fst markdown)"
      using nodeTable_ids [OF table 1(4)] by simp_all
    have "xs \<noteq> []" "ix_node (hd xs) = mt_root tree" "accepted tree (length source) (offsetAdjustmentOf source) (hd xs)"
      using table by (auto simp: nodeTable_def walked_def)
    then have "ix_start (xs ! 0) = 0" "ix_end (xs ! 0) = length source"
      by (auto simp: accepted_def nodeOffsets_def hd_conv_nth)
    then have "locateRange sourceId positions 0 (length source) = Some (an_range (hd (mr_nodes (fst markdown))))"
      using buildNode_Inr(3) [OF nodeTable_nth(2) [OF table, of 0]] ids(1) by (simp add: hd_conv_nth)
    then have "encloses (hd (mr_nodes (fst markdown))) a b" if "b \<le> length source"
      using locateRange_offsets that by (fastforce simp: encloses_def)
    moreover have "orderedTable (mr_nodes (fst markdown))"
      using nodeTable_distinct [OF table] nodeTable_child [OF table] unfolding orderedTable_def by blast
    ultimately show ?thesis
      using ids preflightInput_Inr(1) [OF 1(2)] by blast
  qed
  then show "orderedTable (mr_nodes (fst markdown))" "mr_nodes (fst markdown) \<noteq> []"
    "an_id (hd (mr_nodes (fst markdown))) = mr_rootNodeId (fst markdown)"
    "b \<le> length source \<Longrightarrow> encloses (hd (mr_nodes (fst markdown))) a b" "hasWellFormedUnicode source"
    by simp_all
qed

subsection \<open>Token boundaries\<close>

lemma take_wellFormed:
  "\<lbrakk>hasWellFormedUnicode s; i \<le> length s; i = length s \<or> \<not> is_low (s ! i)\<rbrakk> \<Longrightarrow> hasWellFormedUnicode (take i s)"
proof (induction s arbitrary: i rule: hasWellFormedUnicode.induct)
  case (2 u us)
  show ?case
  proof (cases "is_high u")
    case False
    with 2 show ?thesis
      by (cases i) auto
  next
    case True
    then obtain v vs where us: "us = v # vs" "is_low v" "hasWellFormedUnicode vs"
      using "2.prems"(1) by (cases us) auto
    consider "i = 0" | "i = 1" | k where "i = Suc (Suc k)"
      by (metis One_nat_def not0_implies_Suc)
    then show ?thesis
    proof cases
      case 2
      with "2.prems"(3) us show ?thesis
        by simp
    next
      case (3 k)
      with True us "2.IH"(1) [OF True us(1), of k] "2.prems"(2,3) show ?thesis
        by simp
    qed simp
  qed
qed simp

lemma canStartSpecifier_unit:
  assumes "canStartSpecifier first dialect"
  obtains u where "first = Some u" "\<not> isWhitespace u" "\<not> is_low u"
  using assms by (auto simp: canStartSpecifier_def isWhitespace_def unit_class split: option.splits if_splits)

lemma opening_token:
  assumes "i < length s" "opensReference s dialect i"
  shows "s ! i = 0x40" "i + 1 < tokenEnd s i" "tokenEnd s i \<le> length s"
    "tokenEnd s i = length s \<or> isWhitespace (s ! tokenEnd s i)"
    "slice s (i + 1) (tokenEnd s i) = specifierAt s (i + 1)" "\<not> is_low (s ! (i + 1))"
proof -
  obtain u where u: "charAt s (i + 1) = Some u" "\<not> isWhitespace u" "\<not> is_low u"
    using assms(2) by (auto simp: opensReference_def elim: canStartSpecifier_unit)
  then have next_unit: "i + 1 < length s" "s ! (i + 1) = u"
    by (simp_all add: charAt_def split: if_splits)
  then show "\<not> is_low (s ! (i + 1))"
    using u by simp
  have "drop (i + 1) s = u # drop (i + 2) s"
    using next_unit by (metis Cons_nth_drop_Suc Suc_eq_plus1 add_2_eq_Suc')
  then show "i + 1 < tokenEnd s i"
    using u by (simp add: tokenEnd_def specifierAt_def)
  show "s ! i = 0x40"
    using assms(2) by (simp add: opensReference_def)
  show le: "tokenEnd s i \<le> length s"
    by (rule tokenEnd_le [OF assms(1)])
  show "slice s (i + 1) (tokenEnd s i) = specifierAt s (i + 1)"
    by (simp add: slice_def tokenEnd_def specifierAt_def takeWhile_eq_take [symmetric])
  show "tokenEnd s i = length s \<or> isWhitespace (s ! tokenEnd s i)"
    using nth_length_takeWhile [of "\<lambda>u. \<not> isWhitespace u" "drop (i + 1) s"] next_unit(1) le
    by (fastforce simp: tokenEnd_def specifierAt_def)
qed

lemma whitespace_not_low: "isWhitespace u \<Longrightarrow> \<not> is_low u"
  by (auto simp: isWhitespace_def unit_class)

lemma token_ranges:
  assumes "hasWellFormedUnicode s" "is_jstring s" "positionIndex limit s = Some index" "i < length s" "opensReference s dialect i"
  shows "locateRange sourceId index i (tokenEnd s i) = Some (exactRange sourceId s i (tokenEnd s i))"
    "locateRange sourceId index (i + 1) (tokenEnd s i) = Some (exactRange sourceId s (i + 1) (tokenEnd s i))"
proof -
  note token = opening_token [OF assms(4,5)]
  have "\<not> is_low (s ! i)"
    using token(1) by (simp add: unit_class)
  then have "hasWellFormedUnicode (take i s)" "hasWellFormedUnicode (take (i + 1) s)" "hasWellFormedUnicode (take (tokenEnd s i) s)"
    using assms(1,4) token whitespace_not_low by (auto intro!: take_wellFormed)
  then show "locateRange sourceId index i (tokenEnd s i) = Some (exactRange sourceId s i (tokenEnd s i))"
    "locateRange sourceId index (i + 1) (tokenEnd s i) = Some (exactRange sourceId s (i + 1) (tokenEnd s i))"
    using assms(4) token(2,3)
    by (simp_all add: locateRange_def locate_exact [OF assms(1-3)] exactRange_def exactPosition_def)
qed

subsection \<open>References\<close>

lemma positionIndex_unlimited: "\<exists>index. positionIndex None s = Some index"
proof -
  have "\<exists>r. indexUnits None offset bytes s = Some r" for offset bytes
  proof (induction s arbitrary: offset bytes rule: hasWellFormedUnicode.induct)
    case (2 u us)
    show ?case
    proof (cases "is_high u")
      case True
      with "2.IH"(1) show ?thesis
        by (cases us) (fastforce simp: exceeds_def)+
    next
      case False
      with "2.IH"(2) [of "offset + 1" "bytes + unitBytes u"] show ?thesis
        by (auto simp: exceeds_def)
    qed
  qed simp
  then show ?thesis
    unfolding positionIndex_def by fastforce
qed

lemma buildReference_returns:
  assumes "orderedTable (mr_nodes markdown)" "mr_nodes markdown \<noteq> []" "an_id (hd (mr_nodes markdown)) = mr_rootNodeId markdown"
    "\<And>a b. b \<le> length s \<Longrightarrow> encloses (hd (mr_nodes markdown)) a b"
    and text_ok: "hasWellFormedUnicode s" "is_jstring s" "positionIndex None s = Some positions"
    and good: "goodCandidate s dialect ranges c"
  shows "\<exists>reference. buildReference documentId sourceId dialect s markdown positions identity index c = Inr reference \<and>
    ref_range reference = exactRange sourceId s (cd_start c) (cd_end c) \<and>
    ref_specifierRange reference = exactRange sourceId s (cd_start c + 1) (cd_end c) \<and>
    ref_rawSpecifier reference = specifierAt s (cd_start c + 1) \<and>
    (\<exists>node\<in>set (mr_nodes markdown). ref_nodeId reference = an_id node \<and> encloses node (cd_start c) (cd_end c))"
proof -
  let ?i = "cd_start c"
  have c: "?i < length s" "opensReference s dialect ?i" "cd_end c = tokenEnd s ?i" "cd_specifierStart c = ?i + 1"
    using good by (auto simp: goodCandidate_def dest: arg_cong [where f = cd_end] arg_cong [where f = cd_specifierStart])
  note ranges = token_ranges [OF text_ok c(1,2), of sourceId]
  obtain node where node: "node \<in> set (mr_nodes markdown)" "encloses node ?i (cd_end c)"
    "deepestContainingNode (mr_rootNodeId markdown) (mr_nodes markdown) ?i (cd_end c) = Inr node"
    using deepestContainingNode_ends [OF assms(1-3), of ?i "cd_end c"] assms(4) opening_token(3) [OF c(1,2)] c(3) by auto
  then show ?thesis
    using ranges opening_token(5) [OF c(1,2)] c by (auto simp: buildReference_def lexerRange_def)
qed

lemma lexImportReferences_Inr:
  assumes "lexImportReferences fromMarkdown sha256 documentId sourceId dialect s options = Inr r"
  obtains limits positions candidates identity where
    "extractMarkdownContent fromMarkdown sha256 sourceId s (\<lambda>_. None) = Inr (ir_markdown r)" "positionIndex None s = Some positions"
    "scanCandidates s dialect limits (buildDispositionRanges s (mr_nodes (fst (ir_markdown r))) dialect) 0 [] = Inr candidates"
    "length (ir_imports r) = length candidates"
    "\<And>i. i < length candidates \<Longrightarrow>
       buildReference documentId sourceId dialect s (fst (ir_markdown r)) positions identity i (candidates ! i) = Inr (ir_imports r ! i)"
proof -
  obtain limits markdown positions candidates imps where parts: "validateLexerOptions options = Inr limits"
    "mapMarkdownError (extractMarkdownContent fromMarkdown sha256 sourceId s (\<lambda>_. None)) = Inr markdown"
    "lexerPositionIndex s = Inr positions"
    "scanCandidates s dialect limits (buildDispositionRanges s (mr_nodes (fst markdown)) dialect) 0 [] = Inr candidates"
    "map (\<lambda>(index, candidate). buildReference documentId sourceId dialect s (fst markdown) positions
        (importIdentity sha256 documentId dialect sourceId s) index candidate) (enumerate 0 candidates) = map Inr imps"
    "r = \<lparr>ir_syntax = dialect, ir_markdown = markdown, ir_imports = imps\<rparr>"
    using assms unfolding lexImportReferences_def checkR_Inr_iff bindR_Inr_iff sequenceR_Inr by blast
  show thesis
  proof (rule that)
    show "extractMarkdownContent fromMarkdown sha256 sourceId s (\<lambda>_. None) = Inr (ir_markdown r)"
      using parts(2,6) by (simp add: mapMarkdownError_def split: sum.splits)
    show "positionIndex None s = Some positions"
      using parts(3) by (simp add: lexerPositionIndex_def split: option.splits)
    show "scanCandidates s dialect limits (buildDispositionRanges s (mr_nodes (fst (ir_markdown r))) dialect) 0 [] = Inr candidates"
      using parts(4,6) by simp
    show "length (ir_imports r) = length candidates"
      using parts(5,6) by (simp add: map_eq_Inr)
    show "buildReference documentId sourceId dialect s (fst (ir_markdown r)) positions
        (importIdentity sha256 documentId dialect sourceId s) i (candidates ! i) = Inr (ir_imports r ! i)"
      if "i < length candidates" for i
      using parts(5,6) that by (simp add: map_eq_Inr nth_enumerate_eq)
  qed
qed

text \<open>The references correspond to the candidates that the scan found.\<close>

lemma lexImportReferences_references:
  assumes "lexImportReferences fromMarkdown sha256 documentId sourceId dialect s options = Inr r" "is_jstring s"
  defines "ranges \<equiv> buildDispositionRanges s (mr_nodes (fst (ir_markdown r))) dialect"
  obtains candidates where "length (ir_imports r) = length candidates"
    "\<And>c. c \<in> set candidates \<Longrightarrow> goodCandidate s dialect ranges c"
    "sorted_wrt (\<lambda>c d. cd_end c \<le> cd_start d) candidates" "coveredFrom s dialect ranges 0 candidates"
    "\<And>i. i < length candidates \<Longrightarrow>
       ref_range (ir_imports r ! i) = exactRange sourceId s (cd_start (candidates ! i)) (cd_end (candidates ! i)) \<and>
       ref_specifierRange (ir_imports r ! i) = exactRange sourceId s (cd_start (candidates ! i) + 1) (cd_end (candidates ! i)) \<and>
       ref_rawSpecifier (ir_imports r ! i) = specifierAt s (cd_start (candidates ! i) + 1) \<and>
       (\<exists>node\<in>set (mr_nodes (fst (ir_markdown r))). ref_nodeId (ir_imports r ! i) = an_id node \<and>
          encloses node (cd_start (candidates ! i)) (cd_end (candidates ! i)))"
  using assms(1)
proof (cases rule: lexImportReferences_Inr)
  case (1 limits positions candidates identity)
  note table = extraction_table [OF 1(1)]
  have scan: "(\<forall>c\<in>set candidates. goodCandidate s dialect ranges c) \<and> sorted_wrt (\<lambda>c d. cd_end c \<le> cd_start d) candidates \<and>
      coveredFrom s dialect ranges 0 candidates"
    using scanCandidates_spec [OF 1(3) [folded ranges_def]] by simp
  show thesis
  proof (rule that [OF 1(4)])
    fix i assume i: "i < length candidates"
    have "goodCandidate s dialect ranges (candidates ! i)"
      using scan i by simp
    then show "ref_range (ir_imports r ! i) = exactRange sourceId s (cd_start (candidates ! i)) (cd_end (candidates ! i)) \<and>
       ref_specifierRange (ir_imports r ! i) = exactRange sourceId s (cd_start (candidates ! i) + 1) (cd_end (candidates ! i)) \<and>
       ref_rawSpecifier (ir_imports r ! i) = specifierAt s (cd_start (candidates ! i) + 1) \<and>
       (\<exists>node\<in>set (mr_nodes (fst (ir_markdown r))). ref_nodeId (ir_imports r ! i) = an_id node \<and>
          encloses node (cd_start (candidates ! i)) (cd_end (candidates ! i)))"
      using buildReference_returns [OF table(1-4) table(5) assms(2) 1(2), of dialect ranges "candidates ! i" documentId sourceId identity i] 1(5) [OF i]
      by auto
  qed (use scan in auto)
qed

subsection \<open>Failures\<close>

lemma scanCandidates_Inl:
  "scanCandidates s dialect limits ranges index candidates = Inl e \<Longrightarrow> \<exists>name. e = LexResourceLimit name"
proof (induction s dialect limits ranges index candidates rule: scanCandidates.induct)
  case (1 s dialect limits ranges index candidates)
  then show ?case
    by (subst (asm) (4) scanCandidates.simps) (auto simp: Let_def split: if_splits)
qed

lemma validateLexerOptions_Inl: "validateLexerOptions options = Inl e \<Longrightarrow> \<exists>name. e = LexInvalidLimit name"
  by (auto simp: validateLexerOptions_def validateLexerLimit_def Let_def result_simps)

lemma lexImportReferences_Inl:
  assumes "lexImportReferences fromMarkdown sha256 documentId sourceId dialect s options = Inl e" "is_jstring s"
    and ids: "isStableIdentifier documentId" "isStableIdentifier sourceId"
  shows "(\<exists>name. e = LexInvalidLimit name) \<or> (\<exists>name. e = LexResourceLimit name) \<or> (\<exists>d. e = LexMarkdownError d)"
proof -
  obtain positions where positions: "positionIndex None s = Some positions"
    using positionIndex_unlimited by blast
  have never: "Inl e \<notin> set (map (\<lambda>(index, candidate). buildReference documentId sourceId dialect s (fst markdown) positions
        identity index candidate) (enumerate 0 candidates))"
    if markdown: "extractMarkdownContent fromMarkdown sha256 sourceId s (\<lambda>_. None) = Inr markdown"
      and scan: "scanCandidates s dialect limits (buildDispositionRanges s (mr_nodes (fst markdown)) dialect) 0 [] = Inr candidates"
    for markdown identity candidates limits
  proof -
    note table = extraction_table [OF markdown]
    have "\<forall>c\<in>set candidates. goodCandidate s dialect (buildDispositionRanges s (mr_nodes (fst markdown)) dialect) c"
      using scanCandidates_spec [OF scan] by simp
    then have "\<exists>x. buildReference documentId sourceId dialect s (fst markdown) positions identity i c = Inr x"
      if "c \<in> set candidates" for i c
      using buildReference_returns [OF table(1-4) table(5) assms(2) positions] that by blast
    moreover have "c \<in> set candidates" if "(i, c) \<in> set (enumerate 0 candidates)" for i c
      using that unfolding enumerate_eq_zip by (rule set_zip_rightD)
    ultimately show ?thesis
      by (auto, metis Inl_Inr_False)
  qed
  let ?md = "extractMarkdownContent fromMarkdown sha256 sourceId s (\<lambda>_. None)"
  let ?scan = "\<lambda>limits markdown. scanCandidates s dialect limits (buildDispositionRanges s (mr_nodes (fst markdown)) dialect) 0 []"
  have run: "bindR (validateLexerOptions options) (\<lambda>limits. bindR (mapMarkdownError ?md) (\<lambda>markdown.
      bindR (?scan limits markdown) (\<lambda>candidates.
      bindR (sequenceR (map (\<lambda>(index, candidate). buildReference documentId sourceId dialect s (fst markdown) positions
          (importIdentity sha256 documentId dialect sourceId s) index candidate) (enumerate 0 candidates))) (\<lambda>refs.
        Inr \<lparr>ir_syntax = dialect, ir_markdown = markdown, ir_imports = refs\<rparr>)))) = Inl e"
    using assms(1) ids positions by (simp add: lexImportReferences_def lexerPositionIndex_def)
  show ?thesis
  proof (cases "validateLexerOptions options")
    case (Inl e')
    then show ?thesis
      using run validateLexerOptions_Inl [OF Inl] by simp
  next
    case (Inr limits)
    show ?thesis
    proof (cases ?md)
      case (Inl d)
      with run Inr show ?thesis
        by (auto simp: mapMarkdownError_def)
    next
      case md: (Inr markdown)
      show ?thesis
      proof (cases "?scan limits markdown")
        case (Inl e')
        with run \<open>validateLexerOptions options = Inr limits\<close> md show ?thesis
          using scanCandidates_Inl [OF Inl] by (simp add: mapMarkdownError_def)
      next
        case scan: (Inr candidates)
        have built: "sequenceR (map (\<lambda>(index, candidate). buildReference documentId sourceId dialect s (fst markdown) positions
            (importIdentity sha256 documentId dialect sourceId s) index candidate) (enumerate 0 candidates)) = Inl e"
          using run \<open>validateLexerOptions options = Inr limits\<close> by (simp add: mapMarkdownError_def md scan bindR_Inl_iff)
        show ?thesis
          by (rule notE [OF never [OF md scan] sequenceR_Inl [OF built]])
      qed
    qed
  qed
qed

subsection \<open>Openings and excluded nodes, independently of the lexer\<close>

text \<open>
  Where a reference may begin: an \<open>@\<close> at the start of the text, after white space or, for the dialects that do not
  require it, after an opening bracket or a backtick; Cursor also takes one after a backslash. The unit after it must
  be able to begin a path.
\<close>

definition mayOpen :: "jstring \<Rightarrow> ImportDialect \<Rightarrow> nat \<Rightarrow> bool" where
  "mayOpen s dialect i \<longleftrightarrow>
     i + 1 < length s \<and> s ! i = 0x40 \<and>
     (i = 0 \<or> isWhitespace (s ! (i - 1)) \<or>
      dialect \<noteq> GeminiCli \<and> s ! (i - 1) \<in> {0x28, 0x5B, 0x60, 0x7B, 0x3C} \<or>
      dialect = CursorAgent \<and> s ! (i - 1) = BACKSLASH \<and> (i = 1 \<or> isWhitespace (s ! (i - 2)))) \<and>
     (let first = s ! (i + 1) in
        first = DOT \<or> first = SLASH \<or> is_ascii_letter first \<or>
        dialect \<noteq> GeminiCli \<and> (first = BACKSLASH \<or> first = 0x7E \<or> is_ascii_digit first) \<or>
        dialect = CursorAgent \<and> (first = 0x22 \<or> first = 0x27))"

text \<open>
  The nodes from which a dialect excludes references: for Claude Code inline code, code blocks and comments, for
  Gemini CLI inline code and the blocks fenced with backticks, for the others none.
\<close>

definition backtickFence :: "jstring \<Rightarrow> bool" where
  "backtickFence text_of_node \<longleftrightarrow>
     (\<exists>before after. text_of_node = before @ 0x60 # after \<and>
        (\<forall>u\<in>set before. u = 0x20 \<or> u = 0x09 \<or> u = 0x3E \<or> u = 0x2D \<or> is_ascii_digit u))"

definition excludesReferences :: "jstring \<Rightarrow> ImportDialect \<Rightarrow> AstNode \<Rightarrow> bool" where
  "excludesReferences s dialect node \<longleftrightarrow>
     (let isBlock = (\<exists>language metadata. an_kind node = CodeBlockNode language metadata) in
      dialect = ClaudeCode \<and> (an_kind node = InlineCodeNode \<or> isBlock \<or> an_kind node = HtmlCommentNode) \<or>
      dialect = GeminiCli \<and> (an_kind node = InlineCodeNode \<or> isBlock \<and> backtickFence (sourceSlice s (an_range node))))"

lemma not_escaped: "i = 0 \<or> s ! (i - 1) \<noteq> BACKSLASH \<Longrightarrow> i < length s \<Longrightarrow> \<not> isEscaped s i"
proof (cases i)
  case (Suc k)
  moreover assume "i = 0 \<or> s ! (i - 1) \<noteq> BACKSLASH" "i < length s"
  ultimately show ?thesis
    by (simp add: isEscaped_def take_Suc_conv_app_nth)
qed (simp add: isEscaped_def)

lemma mayOpen_iff:
  assumes "i < length s"
  shows "mayOpen s dialect i \<longleftrightarrow> opensReference s dialect i"
proof (cases "i + 1 < length s")
  case True
  have "\<not> isEscaped s i" if "i = 0 \<or> isWhitespace (s ! (i - 1)) \<or> s ! (i - 1) \<in> {0x28, 0x5B, 0x60, 0x7B, 0x3C}"
    using not_escaped [OF _ assms] that by (auto simp: isWhitespace_def)
  with True show ?thesis
    by (cases dialect)
      (auto simp: mayOpen_def opensReference_def hasTokenBoundary_def canStartSpecifier_def charAt_def Let_def split: if_splits)
qed (simp add: mayOpen_def opensReference_def canStartSpecifier_def charAt_def)

lemma token_run:
  assumes "i < tokenEnd s j" "i < length s" "j < k" "k \<le> i"
  shows "\<not> isWhitespace (s ! k)"
proof -
  have "k - (j + 1) < length (takeWhile (\<lambda>u. \<not> isWhitespace u) (drop (j + 1) s))"
    using assms by (simp add: tokenEnd_def specifierAt_def)
  from takeWhile_nth [OF this] nth_mem [OF this] show ?thesis
    using assms by (auto dest: set_takeWhileD)
qed

lemma fenceMarker_backtick: "fenceMarker s = Some 0x60 \<Longrightarrow> backtickFence s"
proof (induction s rule: fenceMarker.induct)
  case (2 u us)
  show ?case
  proof (cases "u = 0x60")
    case True
    then show ?thesis
      unfolding backtickFence_def by (intro exI [of _ "[]"] exI [of _ us]) simp
  next
    case False
    with 2 obtain before after where "us = before @ 0x60 # after"
      "\<forall>u\<in>set (u # before). u = 0x20 \<or> u = 0x09 \<or> u = 0x3E \<or> u = 0x2D \<or> is_ascii_digit u"
      by (auto simp: backtickFence_def split: if_splits)
    then show ?thesis
      unfolding backtickFence_def by (intro exI [of _ "u # before"] exI [of _ after]) simp
  qed
qed simp

lemma excluded_disposition:
  assumes "regionDisposition s node dialect = Some DispositionExclude"
  shows "excludesReferences s dialect node"
  using assms fenceMarker_backtick
  by (cases dialect; cases "an_kind node")
    (auto simp: regionDisposition_def isCodeBlock_def codeFenceMarker_def excludesReferences_def Let_def split: if_splits)

lemma bisect_le: "low \<le> high \<Longrightarrow> bisect holds low high \<le> high"
proof (induction holds low high rule: bisect.induct)
  case (1 holds low high)
  show ?case
  proof (cases "low < high")
    case True
    let ?m = "(low + high) div 2"
    have m: "?m + 1 \<le> high" "low \<le> ?m"
      using True by auto
    have "bisect holds low high = (if holds ?m then bisect holds (?m + 1) high else bisect holds low ?m)"
      using True by (subst bisect.simps) (simp add: Let_def)
    then show ?thesis
      using "1.IH"(1) [OF True refl] "1.IH"(2) [OF True refl] m by (cases "holds ?m") auto
  qed (use 1 in \<open>simp add: bisect.simps\<close>)
qed

lemma excluded_node:
  assumes "containingDisposition (buildDispositionRanges s nodes dialect) j = Some DispositionExclude"
  shows "\<exists>node\<in>set nodes. excludesReferences s dialect node \<and>
    sp_utf16Offset (sr_start (an_range node)) \<le> j \<and> j < sp_utf16Offset (sr_end (an_range node))"
proof -
  let ?ranges = "buildDispositionRanges s nodes dialect"
  let ?low = "bisect (\<lambda>middle. middle < length ?ranges \<and> dr_start (?ranges ! middle) \<le> j) 0 (length ?ranges)"
  have found: "?low \<noteq> 0" "dr_start (?ranges ! (?low - 1)) \<le> j" "j < dr_end (?ranges ! (?low - 1))"
    "dr_disposition (?ranges ! (?low - 1)) = DispositionExclude"
    using assms unfolding containingDisposition_def Let_def by (simp_all split: if_splits)
  have "?low \<le> length ?ranges"
    by (rule bisect_le) simp
  then have "?ranges ! (?low - 1) \<in> set ?ranges"
    using found(1) by (intro nth_mem) linarith
  then obtain node where node: "node \<in> set nodes" "regionDisposition s node dialect = Some (dr_disposition (?ranges ! (?low - 1)))"
    "dr_start (?ranges ! (?low - 1)) = sp_utf16Offset (sr_start (an_range node))"
    "dr_end (?ranges ! (?low - 1)) = sp_utf16Offset (sr_end (an_range node))"
    unfolding buildDispositionRanges_def by (auto split: option.splits)
  with found excluded_disposition show ?thesis
    by (intro bexI [of _ node]) simp_all
qed

subsection \<open>Properties\<close>

text \<open>
  C8. Every reference the lexer returns is a token of the source: an \<open>@\<close> and the units that follow it up to
  white space or the end of the text, at least one of them. Its raw specifier is that text without the \<open>@\<close>, its two
  ranges give the exact bytes, lines and columns, and it is attached to a node of the document that encloses it. The
  references are in the order of the text and do not overlap.
\<close>

theorem lexImportReferences_exact:
  assumes "lexImportReferences fromMarkdown sha256 documentId sourceId dialect s options = Inr r" "is_jstring s"
  shows "(\<forall>x\<in>set (ir_imports r). \<exists>a b. a + 1 < b \<and> b \<le> length s \<and> s ! a = 0x40 \<and>
      (b = length s \<or> isWhitespace (s ! b)) \<and> ref_rawSpecifier x = slice s (a + 1) b \<and>
      (\<forall>u\<in>set (ref_rawSpecifier x). \<not> isWhitespace u) \<and>
      ref_range x = \<lparr>sr_sourceId = sourceId, sr_start = exactPosition s a, sr_end = exactPosition s b\<rparr> \<and>
      ref_specifierRange x = \<lparr>sr_sourceId = sourceId, sr_start = exactPosition s (a + 1), sr_end = exactPosition s b\<rparr> \<and>
      (\<exists>node\<in>set (mr_nodes (fst (ir_markdown r))). ref_nodeId x = an_id node \<and> encloses node a b)) \<and>
    sorted_wrt (\<lambda>x y. sp_utf16Offset (sr_end (ref_range x)) \<le> sp_utf16Offset (sr_start (ref_range y))) (ir_imports r)"
  using assms
proof (cases rule: lexImportReferences_references)
  case (1 candidates)
  have "\<exists>a b. a + 1 < b \<and> b \<le> length s \<and> s ! a = 0x40 \<and> (b = length s \<or> isWhitespace (s ! b)) \<and>
      ref_rawSpecifier x = slice s (a + 1) b \<and> (\<forall>u\<in>set (ref_rawSpecifier x). \<not> isWhitespace u) \<and>
      ref_range x = \<lparr>sr_sourceId = sourceId, sr_start = exactPosition s a, sr_end = exactPosition s b\<rparr> \<and>
      ref_specifierRange x = \<lparr>sr_sourceId = sourceId, sr_start = exactPosition s (a + 1), sr_end = exactPosition s b\<rparr> \<and>
      (\<exists>node\<in>set (mr_nodes (fst (ir_markdown r))). ref_nodeId x = an_id node \<and> encloses node a b)"
    if "x \<in> set (ir_imports r)" for x
  proof -
    obtain i where i: "i < length candidates" "x = ir_imports r ! i"
      using \<open>x \<in> set (ir_imports r)\<close> 1(1) by (auto simp: in_set_conv_nth)
    let ?c = "candidates ! i"
    have "goodCandidate s dialect (buildDispositionRanges s (mr_nodes (fst (ir_markdown r))) dialect) ?c"
      using 1(2) i(1) by simp
    then have c: "cd_start ?c < length s" "opensReference s dialect (cd_start ?c)" "cd_end ?c = tokenEnd s (cd_start ?c)"
      by (auto simp: goodCandidate_def dest: arg_cong [where f = cd_end])
    show ?thesis
      using opening_token [OF c(1,2)] 1(5) [OF i(1)] c(3) i(2)
      by (intro exI [of _ "cd_start ?c"] exI [of _ "cd_end ?c"])
        (auto simp: exactRange_def specifierAt_def dest: set_takeWhileD)
  qed
  moreover have "sorted_wrt (\<lambda>x y. sp_utf16Offset (sr_end (ref_range x)) \<le> sp_utf16Offset (sr_start (ref_range y))) (ir_imports r)"
    using 1(1,3,5) by (auto simp: sorted_wrt_iff_nth_less exactRange_def exactPosition_def)
  ultimately show ?thesis
    by blast
qed

text \<open>
  C19. No reference is missed: every \<open>@\<close> that may begin a reference in the dialect lies in the range of a
  returned reference, or in a run without white space that begins with such an \<open>@\<close> inside a code or comment node
  of the document from which the dialect excludes references.
\<close>

theorem lexImportReferences_none_missed:
  assumes "lexImportReferences fromMarkdown sha256 documentId sourceId dialect s options = Inr r" "is_jstring s"
    and "mayOpen s dialect i"
  shows "(\<exists>x\<in>set (ir_imports r). sp_utf16Offset (sr_start (ref_range x)) \<le> i \<and> i < sp_utf16Offset (sr_end (ref_range x))) \<or>
    (\<exists>j\<le>i. mayOpen s dialect j \<and> (\<forall>k. j < k \<and> k \<le> i \<longrightarrow> \<not> isWhitespace (s ! k)) \<and>
       (\<exists>node\<in>set (mr_nodes (fst (ir_markdown r))). excludesReferences s dialect node \<and>
          sp_utf16Offset (sr_start (an_range node)) \<le> j \<and> j < sp_utf16Offset (sr_end (an_range node))))"
  using assms(1,2)
proof (cases rule: lexImportReferences_references)
  case (1 candidates)
  let ?ranges = "buildDispositionRanges s (mr_nodes (fst (ir_markdown r))) dialect"
  have i: "i < length s"
    using assms(3) by (simp add: mayOpen_def)
  then have "opensReference s dialect i"
    using assms(3) mayOpen_iff by blast
  with i obtain j where j: "j \<le> i" "i < tokenEnd s j" "opensReference s dialect j"
    "containingDisposition ?ranges j = Some DispositionExclude \<or> (\<exists>c\<in>set candidates. cd_start c = j)"
    using 1(4) unfolding coveredFrom_def by blast
  show ?thesis
  proof (cases "containingDisposition ?ranges j = Some DispositionExclude")
    case False
    then obtain k where k: "k < length candidates" "cd_start (candidates ! k) = j"
      using j(4) by (auto simp: in_set_conv_nth)
    have "cd_end (candidates ! k) = tokenEnd s j"
      using 1(2) [of "candidates ! k"] k by (auto simp: goodCandidate_def dest: arg_cong [where f = cd_end])
    then show ?thesis
      using j 1(1) 1(5) [OF k(1)] k by (intro disjI1 bexI [of _ "ir_imports r ! k"]) (auto simp: exactRange_def exactPosition_def)
  next
    case True
    have "mayOpen s dialect j"
      using j(1,3) i mayOpen_iff [of j s dialect] by simp
    then show ?thesis
      using excluded_node [OF True] token_run [OF j(2) i] j(1) by blast
  qed
qed

text \<open>
  C20. The lexer always ends, and for stable identifiers it fails only for an option out of range, an exceeded
  limit or an error of the Markdown package: a boundary never splits a surrogate pair, a position is never outside the
  text and the root node is never missing.
\<close>

theorem lexImportReferences_failures:
  assumes "is_jstring s" "isStableIdentifier documentId" "isStableIdentifier sourceId"
  shows "(\<exists>r. lexImportReferences fromMarkdown sha256 documentId sourceId dialect s options = Inr r) \<or>
    (\<exists>e. lexImportReferences fromMarkdown sha256 documentId sourceId dialect s options = Inl e \<and>
       e \<noteq> LexDiverges \<and> e \<noteq> LexInvalidInput)"
proof (cases "lexImportReferences fromMarkdown sha256 documentId sourceId dialect s options")
  case (Inl e)
  then show ?thesis
    using lexImportReferences_Inl [OF Inl assms] by auto
qed simp

subsection \<open>Witnesses\<close>

text \<open>The document \<open>@b.md x\<close>, which the parser returns as a bare root.\<close>

definition rootTree :: MdastTree where
  "rootTree = \<lparr>mt_root = 0, mt_node = (\<lambda>_. plainNode\<lparr>md_type := Some (js ''root'')\<rparr>), mt_fences = []\<rparr>"

abbreviation lexSample :: "jstring \<Rightarrow> ImportLexerFailure + ImportLexerResult" where
  "lexSample s \<equiv> lexImportReferences (\<lambda>_. Some rootTree) (\<lambda>_. js ''k'') (js ''d'') (js ''s'') ClaudeCode s (\<lambda>_. None)"

lemmas lexer_eval = lexImportReferences_def validateLexerOptions_def validateLexerLimit_def ABSOLUTE_IMPORT_LEXER_LIMITS_def
  mapMarkdownError_def lexerPositionIndex_def buildDispositionRanges_def regionDisposition_def isCodeBlock_def
  scanCandidates.simps opensReference_def hasTokenBoundary_def isEscaped_def canStartSpecifier_def specifierAt_def
  containingDisposition_def candidateAt_def classifyCandidate_def classifyTarget_def hasUrlScheme_def
  hasAmbiguousPunctuation_def buildReference_def deepestContainingNode_def nodeMap_def containingChild_def lexerRange_def
  extractMarkdownContent_def validateExtractionOptions_def isExtractedNode_def isReferenceType_def noExtractions_def
  isWhitespace_def slice_def rootTree_def plainNode_def markdown_eval unit_class

lemma lexSample_run: "\<exists>r. lexSample (js ''@b.md x'') = Inr r \<and> map ref_rawSpecifier (ir_imports r) = [js ''b.md'']"
  by (simp add: lexer_eval)

lemma sample_units: "is_jstring (js ''@b.md x'')"
  by (simp add: is_jstring_def js_def)

theorem lexImportReferences_exact_witness:
  "\<exists>r. lexSample (js ''@b.md x'') = Inr r \<and> map ref_rawSpecifier (ir_imports r) = [js ''b.md''] \<and>
     (\<forall>x\<in>set (ir_imports r). \<exists>a. ref_specifierRange x =
        \<lparr>sr_sourceId = js ''s'', sr_start = exactPosition (js ''@b.md x'') (a + 1), sr_end = sr_end (ref_range x)\<rparr>)"
proof -
  obtain r where r: "lexSample (js ''@b.md x'') = Inr r" "map ref_rawSpecifier (ir_imports r) = [js ''b.md'']"
    using lexSample_run by (elim exE conjE)
  have "\<forall>x\<in>set (ir_imports r). \<exists>a. ref_specifierRange x =
        \<lparr>sr_sourceId = js ''s'', sr_start = exactPosition (js ''@b.md x'') (a + 1), sr_end = sr_end (ref_range x)\<rparr>"
    using lexImportReferences_exact [OF r(1) sample_units, THEN conjunct1] by fastforce
  with r show ?thesis
    by (intro exI conjI)
qed

theorem lexImportReferences_none_missed_witness:
  "\<exists>r. lexSample (js ''@b.md x'') = Inr r \<and> mayOpen (js ''@b.md x'') ClaudeCode 0 \<and>
     ((\<exists>x\<in>set (ir_imports r). sp_utf16Offset (sr_start (ref_range x)) \<le> 0 \<and> 0 < sp_utf16Offset (sr_end (ref_range x))) \<or>
      (\<exists>j\<le>0. mayOpen (js ''@b.md x'') ClaudeCode j \<and>
         (\<exists>node\<in>set (mr_nodes (fst (ir_markdown r))). excludesReferences (js ''@b.md x'') ClaudeCode node)))"
proof -
  obtain r where r: "lexSample (js ''@b.md x'') = Inr r"
    using lexSample_run by (elim exE conjE)
  have may: "mayOpen (js ''@b.md x'') ClaudeCode 0"
    by (simp add: mayOpen_def js_def unit_class)
  then show ?thesis
    using lexImportReferences_none_missed [OF r sample_units may] r by blast
qed

theorem lexImportReferences_failures_witness:
  "(\<exists>r. lexSample (js ''@b.md x'') = Inr r) \<or>
   (\<exists>e. lexSample (js ''@b.md x'') = Inl e \<and> e \<noteq> LexDiverges \<and> e \<noteq> LexInvalidInput)"
  by (rule lexImportReferences_failures [OF sample_units]) (simp_all add: isStableIdentifier_def js_def unit_class)

end
