(* ===== verification/Import_Graph_Props.thy ===== *)
theory Import_Graph_Props
  imports Import_Graph_Walk Import_Lexer_Props
begin

text \<open>
  Correctness of the import graph loader: every document is visited once, the loaded edges have no cycle,
  a graph without issues is closed under the imports of its documents, the limits hold and no path leaves
  the repository.
\<close>

subsection \<open>Shape of the state\<close>

text \<open>The active documents are those on the stack; each visited path has one node and is active or completed.\<close>

definition nodeIds :: "ImportGraphNode list \<Rightarrow> jstring \<rightharpoonup> jstring" where
  "nodeIds nodes = map_of (map (\<lambda>node. (gn_path node, gn_documentId node)) nodes)"

definition stackIds :: "WalkFrame list \<Rightarrow> jstring \<rightharpoonup> jstring" where
  "stackIds S = map_of (map (\<lambda>(p, d, _). (p, d)) S)"

definition shapeInv :: "WalkFrame list \<Rightarrow> MutableState \<Rightarrow> bool" where
  "shapeInv S st \<longleftrightarrow>
     distinct (map fst S) \<and> ms_active st = stackIds S \<and> (\<forall>p. ms_active st p = None \<or> ms_completed st p = None) \<and>
     distinct (map gn_path (ms_nodes st)) \<and> nodeIds (ms_nodes st) = ms_completed st ++ ms_active st"

definition shapeReady :: "WalkFrame list \<Rightarrow> jstring \<Rightarrow> MutableState \<Rightarrow> bool" where
  "shapeReady S p st \<longleftrightarrow> shapeInv S st \<and> ms_active st p = None \<and> ms_completed st p = None"

definition shapeAfter :: "WalkFrame list \<Rightarrow> jstring \<Rightarrow> VisitResult \<Rightarrow> MutableState \<Rightarrow> bool" where
  "shapeAfter S p r st \<longleftrightarrow> shapeInv S st \<and> (snd r = None \<longrightarrow> (\<exists>d. fst r = Some d \<and> ms_completed st p = Some d))"

lemma shapeInv_same: "sameCore st st' \<Longrightarrow> shapeInv S st' = shapeInv S st"
  by (simp add: shapeInv_def sameCore_def)

lemma shapeInv_slot [simp]: "shapeInv S (takeSlot st) = shapeInv S st"
  by (simp add: shapeInv_def takeSlot_def)

lemma shapeInv_done: "shapeInv ((p, d, k, refs, i) # S) st = shapeInv ((p, d, k, refs, j) # S) st"
  by (simp add: shapeInv_def stackIds_def)

lemma sameCore_haltAt:
  "ms_halted (haltAt ctx p reference st)" "ms_active (haltAt ctx p reference st) = ms_active st"
  "ms_completed (haltAt ctx p reference st) = ms_completed st" "ms_nodes (haltAt ctx p reference st) = ms_nodes st"
  "ms_edges (haltAt ctx p reference st) = ms_edges st" "reported ctx st (haltAt ctx p reference st)"
  using addGraphIssue_effect [where ctx = ctx and code = EdgeLimit and p = p and reference = "Some reference"
      and t = None and st = st]
  by (auto simp: haltAt_def sameCore_def reported_def)

lemma stackIds_Cons: "stackIds ((p, d, x) # S) = (stackIds S)(p \<mapsto> d)"
  by (simp add: stackIds_def)

lemma stackIds_None: "stackIds S p = None \<longleftrightarrow> p \<notin> fst ` set S"
  by (force simp: stackIds_def map_of_eq_None_iff)

lemma nodeIds_None: "nodeIds nodes p = None \<longleftrightarrow> p \<notin> gn_path ` set nodes"
  by (force simp: nodeIds_def map_of_eq_None_iff)

lemma nodeIds_Some: "nodeIds nodes p = Some d \<Longrightarrow> \<exists>node\<in>set nodes. gn_path node = p \<and> gn_documentId node = d"
  by (auto simp: nodeIds_def dest!: map_of_SomeD)

lemma nodeIds_append:
  assumes "gn_path node \<notin> gn_path ` set nodes"
  shows "nodeIds (nodes @ [node]) = (nodeIds nodes)(gn_path node \<mapsto> gn_documentId node)"
proof
  fix q
  show "nodeIds (nodes @ [node]) q = ((nodeIds nodes)(gn_path node \<mapsto> gn_documentId node)) q"
    using assms nodeIds_None [of nodes "gn_path node"]
    by (auto simp: nodeIds_def map_add_def split: option.split)
qed

lemma shape_fresh:
  assumes "shapeReady S p st"
  shows "p \<notin> gn_path ` set (ms_nodes st)" "p \<notin> fst ` set S"
proof -
  have "nodeIds (ms_nodes st) p = None" "stackIds S p = None"
    using assms by (auto simp: shapeReady_def shapeInv_def)
  then show "p \<notin> gn_path ` set (ms_nodes st)" "p \<notin> fst ` set S"
    by (simp_all add: nodeIds_None stackIds_None)
qed

lemma shape_unparsed:
  assumes "shapeReady S p st" "gn_path node = p"
    "sameCore (st\<lparr>ms_nodes := ms_nodes st @ [node], ms_totalBytes := n,
                 ms_completed := (ms_completed st)(p \<mapsto> gn_documentId node)\<rparr>) st'"
  shows "shapeInv S st'"
  using assms shape_fresh [OF assms(1)]
  by (auto simp: shapeInv_def shapeReady_def sameCore_def nodeIds_append map_add_upd_left domIff)

lemma shape_loaded:
  assumes "shapeReady S p st" "gn_path node = p"
    "sameCore (st\<lparr>ms_nodes := ms_nodes st @ [node], ms_totalBytes := n,
                 ms_active := (ms_active st)(p \<mapsto> gn_documentId node), ms_activeIdentities := ids\<rparr>) st'"
  shows "shapeInv ((p, gn_documentId node, x) # S) st'"
  using assms shape_fresh [OF assms(1)]
  by (auto simp: shapeInv_def shapeReady_def sameCore_def nodeIds_append stackIds_Cons)

lemma shape_close:
  assumes "shapeInv ((p, d, x) # S) st"
  shows "shapeInv S (closeDocument p k d st)"
proof -
  have fresh: "stackIds S p = None" and active: "ms_active st = (stackIds S)(p \<mapsto> d)"
    using assms by (auto simp: shapeInv_def stackIds_None stackIds_Cons)
  then have "(ms_active st)(p := None) = stackIds S"
    by auto
  moreover have "(ms_completed st)(p \<mapsto> d) ++ stackIds S = ms_completed st ++ ms_active st"
    using fresh active by (simp add: map_add_upd_left domIff)
  moreover have "stackIds S q = None \<or> ((ms_completed st)(p \<mapsto> d)) q = None" for q
    using assms fresh active unfolding shapeInv_def by (metis fun_upd_apply)
  ultimately show ?thesis
    using assms unfolding shapeInv_def closeDocument_def by simp
qed

interpretation shape: graph_walk ctx shapeInv shapeReady shapeAfter for ctx
proof
  fix S p st parent st' r
  assume ready: "shapeReady S p st" and op: "openDocument ctx p (length S) parent st = (st', Inl r)"
  from op show "shapeAfter S p r st'"
  proof (cases rule: openDocument_cases)
    case (failed r' code)
    with ready show ?thesis
      by (simp add: shapeAfter_def shapeReady_def shapeInv_same)
  next
    case (unparsed node)
    with shape_unparsed [OF ready _ unparsed(4)] show ?thesis
      by (auto simp: shapeAfter_def admitted_def sameCore_def)
  qed simp
next
  fix S p st parent st' d k refs
  assume ready: "shapeReady S p st" and op: "openDocument ctx p (length S) parent st = (st', Inr (d, k, refs))"
  from op show "shapeInv ((p, d, k, refs, 0) # S) st'"
  proof (cases rule: openDocument_cases)
    case (loaded node key)
    with shape_loaded [OF ready _ loaded(5)] show ?thesis
      by (auto simp: admitted_def)
  qed simp_all
next
  fix p d k refs i S st
  assume "shapeInv ((p, d, k, refs, i) # S) st"
  then show "shapeInv ((p, d, k, refs, i) # S) (haltAt ctx p (refs ! i) st)"
    unfolding shapeInv_def sameCore_haltAt by blast
next
  fix p d k refs i S st st'
  assume now: "shapeInv ((p, d, k, refs, i) # S) st"
    and step: "referenceStep ctx p (length S) d i (refs ! i) (takeSlot st) = Inl st'"
  then have "shapeInv ((p, d, k, refs, Suc i) # S) (takeSlot st)"
    using shapeInv_done [of p d k refs i S st "Suc i"] by simp
  with step show "shapeInv ((p, d, k, refs, Suc i) # S) st'"
    by (cases rule: referenceStep_cases) (simp_all add: shapeInv_same)
next
  fix p d k refs i S st t
  assume now: "shapeInv ((p, d, k, refs, i) # S) st"
    and step: "referenceStep ctx p (length S) d i (refs ! i) (takeSlot st) = Inr t"
  from step show "shapeReady ((p, d, k, refs, i) # S) t (takeSlot st)"
    by (cases rule: referenceStep_cases) (use now in \<open>simp_all add: shapeReady_def\<close>)
next
  fix p d k refs i S t r st st' position
  assume after: "shapeAfter ((p, d, k, refs, i) # S) t r st"
    and edge: "st' = visitedEdge d (refs ! i) (length S) t position r st"
  have "shapeInv ((p, d, k, refs, Suc i) # S) st"
    using after shapeInv_done unfolding shapeAfter_def by blast
  with edge show "shapeInv ((p, d, k, refs, Suc i) # S) st'"
    by (cases rule: visitedEdge_effect) (simp add: shapeInv_same)
next
  fix p d k refs i S st
  assume "shapeInv ((p, d, k, refs, i) # S) st"
  then show "shapeAfter S p (Some d, None) (closeDocument p k d st)"
    using shape_close by (auto simp: shapeAfter_def closeDocument_def)
qed

subsection \<open>Acyclicity\<close>

text \<open>The imports that were followed, as a relation between document identifiers.\<close>

definition followedEdges :: "ImportGraphEdge list \<Rightarrow> (jstring \<times> jstring) set" where
  "followedEdges edges =
     {(ge_fromDocumentId edge, td) | edge td. edge \<in> set edges \<and> followed edge \<and> ge_targetDocumentId edge = Some td}"

definition loadedAcyclic :: "MutableState \<Rightarrow> bool" where
  "loadedAcyclic st \<longleftrightarrow>
     (distinct (map gn_documentId (ms_nodes st)) \<longrightarrow>
        acyclic (followedEdges (ms_edges st)) \<and> Range (followedEdges (ms_edges st)) \<subseteq> ran (ms_completed st))"

lemma followedEdges_insert:
  assumes "set edges' = insert edge (set edges)"
  shows "followedEdges edges' = followedEdges edges \<union>
    (if followed edge then {(ge_fromDocumentId edge, td) | td. ge_targetDocumentId edge = Some td} else {})"
  using assms by (auto simp: followedEdges_def)

lemma shape_top: "shapeInv ((p, d, x) # S) st \<Longrightarrow> ms_active st p = Some d \<and> ms_completed st p = None"
proof -
  assume shape: "shapeInv ((p, d, x) # S) st"
  then have "ms_active st = (stackIds S)(p \<mapsto> d)"
    unfolding shapeInv_def stackIds_Cons by (elim conjE)
  moreover have "ms_active st p = None \<or> ms_completed st p = None"
    using shape unfolding shapeInv_def by (elim conjE) (erule spec)
  ultimately show ?thesis
    by simp
qed

lemma shape_active_id:
  assumes "shapeInv ((p, d, x) # S) st" "distinct (map gn_documentId (ms_nodes st))"
  shows "d \<notin> ran (ms_completed st)"
proof
  assume "d \<in> ran (ms_completed st)"
  then obtain q where q: "ms_completed st q = Some d"
    by (auto simp: ran_def)
  have "ms_active st p = Some d" "ms_completed st p = None" "ms_active st q = None"
    using shape_top [OF assms(1)] assms(1) q unfolding shapeInv_def by (simp, simp, metis option.distinct(1))
  then have "p \<noteq> q" "nodeIds (ms_nodes st) p = Some d" "nodeIds (ms_nodes st) q = Some d"
    using assms(1) q unfolding shapeInv_def by (auto simp: map_add_Some_iff)
  then obtain n m where "n \<in> set (ms_nodes st)" "m \<in> set (ms_nodes st)" "gn_documentId n = d" "gn_documentId m = d"
    "gn_path n \<noteq> gn_path m"
    by (metis nodeIds_Some)
  with assms(2) show False
    by (metis distinct_map inj_onD)
qed

lemma acyclic_add:
  assumes "acyclic R" "x \<notin> Range R" "x \<noteq> y"
  shows "acyclic (insert (x, y) R)"
proof -
  have "(y, x) \<notin> R\<^sup>*"
    using assms(2,3) by (auto elim: rtranclE)
  with assms(1) show ?thesis
    by (simp add: acyclic_insert)
qed

lemma loadedAcyclic_add:
  assumes acyc: "loadedAcyclic st" and shape: "shapeInv ((p, d, x) # S) st" and same: "sameCore st st'"
    and edges: "set (ms_edges st') = insert edge (set (ms_edges st))" "ge_fromDocumentId edge = d"
    and target: "followed edge \<Longrightarrow> ge_targetDocumentId edge = Some td \<and> ms_completed st t = Some td"
  shows "loadedAcyclic st'"
  unfolding loadedAcyclic_def
proof
  assume "distinct (map gn_documentId (ms_nodes st'))"
  then have dist: "distinct (map gn_documentId (ms_nodes st))"
    using same by (simp add: sameCore_def)
  let ?R = "followedEdges (ms_edges st)"
  have old: "acyclic ?R" "Range ?R \<subseteq> ran (ms_completed st)"
    using acyc dist by (simp_all add: loadedAcyclic_def)
  have out: "d \<notin> ran (ms_completed st)"
    by (rule shape_active_id [OF shape dist])
  have completed: "ms_completed st' = ms_completed st"
    using same by (simp add: sameCore_def)
  show "acyclic (followedEdges (ms_edges st')) \<and> Range (followedEdges (ms_edges st')) \<subseteq> ran (ms_completed st')"
  proof (cases "followed edge")
    case True
    then have td: "td \<in> ran (ms_completed st)" "followedEdges (ms_edges st') = insert (d, td) ?R"
      using target edges by (auto simp: followedEdges_insert [OF edges(1)] ran_def)
    moreover have "d \<noteq> td" "d \<notin> Range ?R"
      using out td old by auto
    ultimately show ?thesis
      using old acyclic_add [OF old(1), of d td] completed by auto
  next
    case False
    then show ?thesis
      using old completed by (simp add: followedEdges_insert [OF edges(1)])
  qed
qed

lemma loadedAcyclic_mono:
  assumes "loadedAcyclic st" "ms_edges st' = ms_edges st" "\<And>q d. ms_completed st q = Some d \<Longrightarrow> ms_completed st' q = Some d"
    "ms_nodes st' = ms_nodes st @ extra"
  shows "loadedAcyclic st'"
proof -
  have "ran (ms_completed st) \<subseteq> ran (ms_completed st')"
    using assms(3) by (auto simp: ran_def)
  with assms show ?thesis
    by (auto simp: loadedAcyclic_def)
qed

definition acyclicInv :: "WalkFrame list \<Rightarrow> MutableState \<Rightarrow> bool" where
  "acyclicInv S st \<longleftrightarrow> shapeInv S st \<and> loadedAcyclic st"

definition acyclicReady :: "WalkFrame list \<Rightarrow> jstring \<Rightarrow> MutableState \<Rightarrow> bool" where
  "acyclicReady S p st \<longleftrightarrow> shapeReady S p st \<and> loadedAcyclic st"

definition acyclicAfter :: "WalkFrame list \<Rightarrow> jstring \<Rightarrow> VisitResult \<Rightarrow> MutableState \<Rightarrow> bool" where
  "acyclicAfter S p r st \<longleftrightarrow> shapeAfter S p r st \<and> loadedAcyclic st"

lemma loadedAcyclic_slot [simp]: "loadedAcyclic (takeSlot st) = loadedAcyclic st"
  by (simp add: loadedAcyclic_def takeSlot_def)

interpretation acyclicity: graph_walk ctx acyclicInv acyclicReady acyclicAfter for ctx
proof
  fix S p st parent st' r
  assume ready: "acyclicReady S p st" and op: "openDocument ctx p (length S) parent st = (st', Inl r)"
    and parent: "parent = parentOf S"
  then have shape: "shapeAfter S p r st'" and acyc: "loadedAcyclic st" and fresh: "ms_completed st p = None"
    using shape.open_end [of S p st ctx parent st' r] unfolding acyclicReady_def shapeReady_def by simp_all
  from op have "loadedAcyclic st'"
  proof (cases rule: openDocument_cases)
    case (failed r' code)
    then show ?thesis
      by (intro loadedAcyclic_mono [OF acyc, of st' "[]"]) (simp_all add: sameCore_def)
  next
    case (unparsed node)
    then show ?thesis
      using fresh by (intro loadedAcyclic_mono [OF acyc, of st' "[node]"]) (auto simp: sameCore_def)
  qed simp
  with shape show "acyclicAfter S p r st'"
    by (simp add: acyclicAfter_def)
next
  fix S p st parent st' d k refs
  assume ready: "acyclicReady S p st" and op: "openDocument ctx p (length S) parent st = (st', Inr (d, k, refs))"
    and parent: "parent = parentOf S"
  then have shape: "shapeInv ((p, d, k, refs, 0) # S) st'" and acyc: "loadedAcyclic st"
    using shape.open_go by (auto simp: acyclicReady_def)
  from op have "loadedAcyclic st'"
  proof (cases rule: openDocument_cases)
    case (loaded node key)
    then show ?thesis
      by (intro loadedAcyclic_mono [OF acyc, of st' "[node]"]) (simp_all add: sameCore_def)
  qed simp_all
  with shape show "acyclicInv ((p, d, k, refs, 0) # S) st'"
    by (simp add: acyclicInv_def)
next
  fix p d k refs i S st
  assume "acyclicInv ((p, d, k, refs, i) # S) st"
  then show "acyclicInv ((p, d, k, refs, i) # S) (haltAt ctx p (refs ! i) st)"
    unfolding acyclicInv_def shapeInv_def loadedAcyclic_def sameCore_haltAt by blast
next
  fix p d k refs i S st st'
  assume now: "acyclicInv ((p, d, k, refs, i) # S) st" "\<not> ms_halted st" "ms_edgeSlots st < lc_limits ctx maxEdges"
    "i < length refs"
    and step: "referenceStep ctx p (length S) d i (refs ! i) (takeSlot st) = Inl st'"
  then have shape: "shapeInv ((p, d, k, refs, Suc i) # S) st'"
    using shape.step_refused unfolding acyclicInv_def by blast
  have before: "loadedAcyclic (takeSlot st)" "shapeInv ((p, d, k, refs, i) # S) (takeSlot st)"
    using now by (simp_all add: acyclicInv_def)
  from step have "loadedAcyclic st'"
  proof (cases rule: referenceStep_cases)
    case (refused edge st'')
    then show ?thesis
      by (intro loadedAcyclic_add [OF before, of st' edge]) (auto simp: edgeFor_def)
  next
    case (already edge st'' t td)
    then show ?thesis
      by (intro loadedAcyclic_add [OF before, of st' edge td t]) (auto simp: edgeFor_def)
  qed simp
  with shape show "acyclicInv ((p, d, k, refs, Suc i) # S) st'"
    by (simp add: acyclicInv_def)
next
  fix p d k refs i S st t
  assume "acyclicInv ((p, d, k, refs, i) # S) st" "\<not> ms_halted st" "ms_edgeSlots st < lc_limits ctx maxEdges"
    "i < length refs" "referenceStep ctx p (length S) d i (refs ! i) (takeSlot st) = Inr t"
  then show "acyclicReady ((p, d, k, refs, i) # S) t (takeSlot st)"
    using shape.step_visit unfolding acyclicInv_def acyclicReady_def by simp
next
  fix p d k refs i S t r st st' position
  assume after: "acyclicAfter ((p, d, k, refs, i) # S) t r st" and i: "i < length refs"
    and edge: "st' = visitedEdge d (refs ! i) (length S) t position r st"
  then have shape: "shapeInv ((p, d, k, refs, Suc i) # S) st'"
    using shape.visited unfolding acyclicAfter_def by blast
  have before: "loadedAcyclic st" "shapeInv ((p, d, k, refs, i) # S) st"
    using after by (simp_all add: acyclicAfter_def shapeAfter_def)
  from edge have "loadedAcyclic st'"
  proof (cases rule: visitedEdge_effect)
    case (1 e)
    then show ?thesis
      using after
      by (intro loadedAcyclic_add [OF before, of st' e "the (fst r)" t])
        (auto simp: edgeFor_def acyclicAfter_def shapeAfter_def split: if_splits)
  qed
  with shape show "acyclicInv ((p, d, k, refs, Suc i) # S) st'"
    by (simp add: acyclicInv_def)
next
  fix p d k refs i S st
  assume now: "acyclicInv ((p, d, k, refs, i) # S) st" and ends: "i = length refs \<or> ms_halted st"
  then have shape: "shapeAfter S p (Some d, None) (closeDocument p k d st)"
    using shape.closing unfolding acyclicInv_def by blast
  have "ms_completed st p = None"
    using now shape_top [of p d "(k, refs, i)" S st] unfolding acyclicInv_def by (elim conjE) simp
  moreover have "loadedAcyclic st"
    using now by (simp add: acyclicInv_def)
  ultimately have "loadedAcyclic (closeDocument p k d st)"
    by (elim loadedAcyclic_mono [where extra = "[]"]) (auto simp: closeDocument_def)
  with shape show "acyclicAfter S p (Some d, None) (closeDocument p k d st)"
    by (simp add: acyclicAfter_def)
qed

subsection \<open>Completeness\<close>

text \<open>An import has an edge to a completed document.\<close>

definition importDone :: "MutableState \<Rightarrow> jstring \<Rightarrow> ImportReference \<Rightarrow> bool" where
  "importDone st d reference \<longleftrightarrow>
     (\<exists>edge\<in>set (ms_edges st). ge_fromDocumentId edge = d \<and> ge_import edge = reference \<and> followed edge \<and>
        (\<exists>t td. ge_targetPath edge = Some t \<and> ge_targetDocumentId edge = Some td \<and> ms_completed st t = Some td))"

definition frameDone :: "LoaderContext \<Rightarrow> MutableState \<Rightarrow> WalkFrame \<Rightarrow> bool" where
  "frameDone ctx st = (\<lambda>(p, d, _, refs, i).
     length refs \<le> lc_limits ctx maxFanOut \<and> (\<forall>j<i. importDone st d (refs ! j)) \<and>
     (\<exists>node\<in>set (ms_nodes st). gn_path node = p \<and> gn_documentId node = d \<and> gn_imports node = refs \<and> gn_state node = NodeLoaded))"

definition nodeDone :: "MutableState \<Rightarrow> ImportGraphNode \<Rightarrow> bool" where
  "nodeDone st node \<longleftrightarrow>
     gn_state node = NodeLoaded \<and> (\<forall>reference\<in>set (gn_imports node). importDone st (gn_documentId node) reference)"

text \<open>As long as no issue was reported, the imports seen so far have edges.\<close>

definition noneMissed :: "LoaderContext \<Rightarrow> WalkFrame list \<Rightarrow> MutableState \<Rightarrow> bool" where
  "noneMissed ctx S st \<longleftrightarrow>
     0 < lc_limits ctx maxIssues \<and> (ms_halted st \<longrightarrow> ms_issues st \<noteq> []) \<and>
     (ms_issues st = [] \<longrightarrow>
        (\<forall>fr\<in>set S. frameDone ctx st fr) \<and>
        (\<forall>node\<in>set (ms_nodes st). gn_path node \<in> dom (ms_completed st) \<longrightarrow> nodeDone st node))"

definition completeInv :: "LoaderContext \<Rightarrow> WalkFrame list \<Rightarrow> MutableState \<Rightarrow> bool" where
  "completeInv ctx S st \<longleftrightarrow> shapeInv S st \<and> noneMissed ctx S st"

definition completeReady :: "LoaderContext \<Rightarrow> WalkFrame list \<Rightarrow> jstring \<Rightarrow> MutableState \<Rightarrow> bool" where
  "completeReady ctx S p st \<longleftrightarrow> shapeReady S p st \<and> noneMissed ctx S st"

definition completeAfter :: "LoaderContext \<Rightarrow> WalkFrame list \<Rightarrow> jstring \<Rightarrow> VisitResult \<Rightarrow> MutableState \<Rightarrow> bool" where
  "completeAfter ctx S p r st \<longleftrightarrow>
     shapeAfter S p r st \<and> noneMissed ctx S st \<and> (ms_issues st = [] \<longrightarrow> snd r = None)"

lemma noneMissed_reported:
  assumes "noneMissed ctx S st" "reported ctx st st'"
  shows "noneMissed ctx S' st'" "ms_issues st' \<noteq> []"
  using assms reported_nonempty [OF assms(2)] by (auto simp: noneMissed_def)

lemma importDone_mono:
  assumes "importDone st d reference" "set (ms_edges st) \<subseteq> set (ms_edges st')"
    "\<And>q d. ms_completed st q = Some d \<Longrightarrow> ms_completed st' q = Some d"
  shows "importDone st' d reference"
  using assms unfolding importDone_def by blast

lemma frameDone_mono:
  assumes "frameDone ctx st fr" "set (ms_edges st) \<subseteq> set (ms_edges st')" "set (ms_nodes st) \<subseteq> set (ms_nodes st')"
    "\<And>q d. ms_completed st q = Some d \<Longrightarrow> ms_completed st' q = Some d"
  shows "frameDone ctx st' fr"
proof -
  obtain p d k refs i where fr: "fr = (p, d, k, refs, i)"
    by (rule prod_cases5)
  show ?thesis
    using assms(1,3) importDone_mono [OF _ assms(2,4)] unfolding frameDone_def fr by auto
qed

lemma nodeDone_mono:
  assumes "nodeDone st node" "set (ms_edges st) \<subseteq> set (ms_edges st')"
    "\<And>q d. ms_completed st q = Some d \<Longrightarrow> ms_completed st' q = Some d"
  shows "nodeDone st' node"
  using assms(1) importDone_mono [OF _ assms(2,3)] unfolding nodeDone_def by blast

lemma noneMissed_slot [simp]: "noneMissed ctx S (takeSlot st) = noneMissed ctx S st"
  by (simp add: noneMissed_def frameDone_def nodeDone_def importDone_def takeSlot_def)

text \<open>An edge to a completed document makes one more import done.\<close>

lemma noneMissed_edge:
  assumes none: "noneMissed ctx ((p, d, k, refs, i) # S) st" and same: "sameCore st st'"
    and issues: "ms_issues st' = ms_issues st" and edges: "set (ms_edges st') = insert edge (set (ms_edges st))"
    and edge: "edgeFor d (refs ! i) depth edge" "followed edge" "ge_targetPath edge = Some t"
      "ge_targetDocumentId edge = Some td" "ms_completed st t = Some td"
  shows "noneMissed ctx ((p, d, k, refs, Suc i) # S) st'"
proof -
  have keep: "set (ms_edges st) \<subseteq> set (ms_edges st')" "set (ms_nodes st) \<subseteq> set (ms_nodes st')"
    "\<And>q d. ms_completed st q = Some d \<Longrightarrow> ms_completed st' q = Some d"
    using edges same by (auto simp: sameCore_def)
  have new: "importDone st' d (refs ! i)"
    using edge edges same unfolding importDone_def edgeFor_def sameCore_def by auto
  have "frameDone ctx st' (p, d, k, refs, Suc i)" if "frameDone ctx st (p, d, k, refs, i)"
    using frameDone_mono [OF that keep] new by (auto simp: frameDone_def less_Suc_eq)
  moreover have "frameDone ctx st' fr" if "frameDone ctx st fr" for fr
    by (rule frameDone_mono [OF that keep])
  moreover have "nodeDone st' node" if "nodeDone st node" for node
    by (rule nodeDone_mono [OF that keep(1,3)])
  ultimately show ?thesis
    using none issues same unfolding noneMissed_def sameCore_def by auto
qed

lemma shape_unique_node:
  assumes "shapeInv S st" "n \<in> set (ms_nodes st)" "m \<in> set (ms_nodes st)" "gn_path n = gn_path m"
  shows "n = m"
  using assms unfolding shapeInv_def by (metis distinct_map inj_onD)

lemma noneMissed_close:
  assumes shape: "shapeInv ((p, d, k, refs, i) # S) st" and none: "noneMissed ctx ((p, d, k, refs, i) # S) st"
    and ends: "i = length refs \<or> ms_halted st"
  shows "noneMissed ctx S (closeDocument p k d st)"
proof -
  let ?st = "closeDocument p k d st"
  have keep: "set (ms_edges st) \<subseteq> set (ms_edges ?st)" "set (ms_nodes st) \<subseteq> set (ms_nodes ?st)"
    "ms_completed st q = Some e \<Longrightarrow> ms_completed ?st q = Some e" for q e
    using shape_top [OF shape] by (auto simp: closeDocument_def)
  have frames: "frameDone ctx ?st fr" if "frameDone ctx st fr" for fr
    by (rule frameDone_mono [OF that keep])
  have nodes: "nodeDone ?st node" if "nodeDone st node" for node
    by (rule nodeDone_mono [OF that keep(1,3)])
  have closed: "nodeDone ?st node"
    if clear: "ms_issues st = []" and node: "node \<in> set (ms_nodes st)" "gn_path node = p" for node
  proof -
    have "frameDone ctx ?st (p, d, k, refs, i)" "i = length refs"
      using none ends clear frames by (auto simp: noneMissed_def)
    then obtain n where n: "n \<in> set (ms_nodes st)" "gn_path n = p" "gn_documentId n = d" "gn_imports n = refs"
      "gn_state n = NodeLoaded" "\<forall>j<length refs. importDone ?st d (refs ! j)"
      by (auto simp: frameDone_def closeDocument_def)
    have "node = n"
      using shape_unique_node [OF shape node(1) n(1)] node(2) n(2) by simp
    with n show ?thesis
      by (auto simp: nodeDone_def in_set_conv_nth)
  qed
  show ?thesis
    using none frames nodes closed unfolding noneMissed_def closeDocument_def by (auto split: if_splits)
qed

lemma noneMissed_loaded:
  assumes ready: "shapeReady S p st" and none: "noneMissed ctx S st"
    and node: "gn_path node = p" "gn_state node = NodeLoaded"
    and same: "sameCore (st\<lparr>ms_nodes := ms_nodes st @ [node], ms_totalBytes := n, ms_active := act, ms_activeIdentities := ids\<rparr>) st'"
    and edges: "ms_edges st' = ms_edges st"
    and issues: "if lc_limits ctx maxFanOut < length (gn_imports node) then reported ctx st st' else ms_issues st' = ms_issues st"
  shows "noneMissed ctx ((p, gn_documentId node, k, gn_imports node, 0) # S) st'"
proof (cases "lc_limits ctx maxFanOut < length (gn_imports node)")
  case True
  with issues none show ?thesis
    by (simp add: noneMissed_reported)
next
  case False
  have keep: "set (ms_edges st) \<subseteq> set (ms_edges st')" "set (ms_nodes st) \<subseteq> set (ms_nodes st')"
    "ms_completed st q = Some e \<Longrightarrow> ms_completed st' q = Some e" for q e
    using edges same by (auto simp: sameCore_def)
  have "frameDone ctx st' fr" if "frameDone ctx st fr" for fr
    by (rule frameDone_mono [OF that keep])
  moreover have "nodeDone st' m" if "nodeDone st m" for m
    by (rule nodeDone_mono [OF that keep(1,3)])
  moreover have "frameDone ctx st' (p, gn_documentId node, k, gn_imports node, 0)"
    using False node same by (auto simp: frameDone_def sameCore_def)
  ultimately show ?thesis
    using none ready same issues False node unfolding noneMissed_def shapeReady_def sameCore_def by (auto simp: domIff)
qed

interpretation completeness: graph_walk ctx "completeInv ctx" "completeReady ctx" "completeAfter ctx" for ctx
proof
  fix S p st parent st' r
  assume ready: "completeReady ctx S p st" and op: "openDocument ctx p (length S) parent st = (st', Inl r)"
    and parent: "parent = parentOf S"
  then have shape: "shapeAfter S p r st'" and none: "noneMissed ctx S st"
    using shape.open_end [of S p st ctx parent st' r] unfolding completeReady_def by simp_all
  from op have "reported ctx st st'"
    by (cases rule: openDocument_cases) simp_all
  with shape show "completeAfter ctx S p r st'"
    using noneMissed_reported [OF none] by (simp add: completeAfter_def)
next
  fix S p st parent st' d k refs
  assume ready: "completeReady ctx S p st" and op: "openDocument ctx p (length S) parent st = (st', Inr (d, k, refs))"
    and parent: "parent = parentOf S"
  then have shape: "shapeInv ((p, d, k, refs, 0) # S) st'"
    using shape.open_go unfolding completeReady_def by blast
  from op have "noneMissed ctx ((p, d, k, refs, 0) # S) st'"
  proof (cases rule: openDocument_cases)
    case (loaded node key)
    with ready show ?thesis
      using noneMissed_loaded [of S p st ctx node, OF _ _ _ _ loaded(5,6,7), of k]
      by (simp add: completeReady_def admitted_def)
  qed simp_all
  with shape show "completeInv ctx ((p, d, k, refs, 0) # S) st'"
    by (simp add: completeInv_def)
next
  fix p d k refs i S st
  assume now: "completeInv ctx ((p, d, k, refs, i) # S) st" "\<not> ms_halted st"
    "lc_limits ctx maxEdges \<le> ms_edgeSlots st" "i < length refs"
  then show "completeInv ctx ((p, d, k, refs, i) # S) (haltAt ctx p (refs ! i) st)"
    using shape.halting noneMissed_reported(1) sameCore_haltAt(6) unfolding completeInv_def by blast
next
  fix p d k refs i S st st'
  assume now: "completeInv ctx ((p, d, k, refs, i) # S) st" "\<not> ms_halted st" "ms_edgeSlots st < lc_limits ctx maxEdges"
    "i < length refs"
    and step: "referenceStep ctx p (length S) d i (refs ! i) (takeSlot st) = Inl st'"
  then have shape: "shapeInv ((p, d, k, refs, Suc i) # S) st'"
    using shape.step_refused unfolding completeInv_def by blast
  have none: "noneMissed ctx ((p, d, k, refs, i) # S) (takeSlot st)"
    using now by (simp add: completeInv_def)
  from step have "noneMissed ctx ((p, d, k, refs, Suc i) # S) st'"
  proof (cases rule: referenceStep_cases)
    case (refused edge st'')
    show ?thesis
    proof (cases "reported ctx (takeSlot st) st''")
      case True
      with refused(1) show ?thesis
        using noneMissed_reported(1) [OF none] by simp
    next
      case False
      with refused have "lc_limits ctx maxFanOut \<le> i" "ms_issues st' = ms_issues (takeSlot st)"
        by simp_all
      moreover have "ms_halted st' = ms_halted (takeSlot st)"
        using refused by (simp add: sameCore_def)
      ultimately show ?thesis
        using none now(4) by (auto simp: noneMissed_def frameDone_def)
    qed
  next
    case (already edge st'' t td)
    then show ?thesis
      by (intro noneMissed_edge [OF none, of st' edge "length S" t td]) simp_all
  qed simp
  with shape show "completeInv ctx ((p, d, k, refs, Suc i) # S) st'"
    by (simp add: completeInv_def)
next
  fix p d k refs i S st t
  assume "completeInv ctx ((p, d, k, refs, i) # S) st" "\<not> ms_halted st" "ms_edgeSlots st < lc_limits ctx maxEdges"
    "i < length refs" "referenceStep ctx p (length S) d i (refs ! i) (takeSlot st) = Inr t"
  then show "completeReady ctx ((p, d, k, refs, i) # S) t (takeSlot st)"
    using shape.step_visit unfolding completeInv_def completeReady_def by simp
next
  fix p d k refs i S t r st st' position
  assume after: "completeAfter ctx ((p, d, k, refs, i) # S) t r st" and i: "i < length refs"
    and edge: "st' = visitedEdge d (refs ! i) (length S) t position r st"
  then have shape: "shapeInv ((p, d, k, refs, Suc i) # S) st'"
    using shape.visited unfolding completeAfter_def by blast
  have none: "noneMissed ctx ((p, d, k, refs, i) # S) st"
    using after by (simp add: completeAfter_def)
  from edge have "noneMissed ctx ((p, d, k, refs, Suc i) # S) st'"
  proof (cases rule: visitedEdge_effect)
    case (1 e)
    show ?thesis
    proof (cases "snd r = None")
      case True
      then obtain td where "fst r = Some td" "ms_completed st t = Some td"
        using after by (auto simp: completeAfter_def shapeAfter_def)
      with True 1 show ?thesis
        by (intro noneMissed_edge [OF none, of st' e "length S" t td]) simp_all
    next
      case False
      with after 1 none show ?thesis
        by (auto simp: completeAfter_def noneMissed_def)
    qed
  qed
  with shape show "completeInv ctx ((p, d, k, refs, Suc i) # S) st'"
    by (simp add: completeInv_def)
next
  fix p d k refs i S st
  assume now: "completeInv ctx ((p, d, k, refs, i) # S) st" and ends: "i = length refs \<or> ms_halted st"
  then have "shapeAfter S p (Some d, None) (closeDocument p k d st)"
    using shape.closing unfolding completeInv_def by blast
  then show "completeAfter ctx S p (Some d, None) (closeDocument p k d st)"
    using now noneMissed_close [OF _ _ ends] by (simp add: completeAfter_def completeInv_def)
qed

subsection \<open>The loader\<close>

lemma loadImportGraph_Inr:
  assumes "loadImportGraph ctx entryPath limitsValue = Inr r"
  obtains limits where "validateLimits limitsValue = Inr limits" "insidePath entryPath"
    "r = graphResult (lc_syntax ctx) entryPath
           (fst (visit (ctx\<lparr>lc_limits := limits\<rparr>) entryPath 0 None initialState))"
  using assms
  by (auto simp: loadImportGraph_def result_simps validateEntry_def insidePath_iff isRepositoryRelativePath_def
      split: sum.splits)

lemma validateGraphLimits_range:
  assumes "validateGraphLimits given names limits = Inr result"
    and "\<forall>n. (n = maxDepth \<or> 0 < limits n) \<and> limits n \<le> HARD_IMPORT_GRAPH_LIMITS n"
  shows "\<forall>n. (n = maxDepth \<or> 0 < result n) \<and> result n \<le> HARD_IMPORT_GRAPH_LIMITS n"
  using assms
proof (induction names arbitrary: limits)
  case (Cons name names)
  show ?case
  proof (cases "given name")
    case None
    with Cons show ?thesis
      by simp
  next
    case (Some candidate)
    with Cons.prems have rest: "validateGraphLimits given names (limits(name := nat candidate)) = Inr result"
      and range: "(if name = maxDepth then 0 else 1) \<le> candidate" "candidate \<le> int (HARD_IMPORT_GRAPH_LIMITS name)"
      by (auto split: if_splits)
    show ?thesis
      by (rule Cons.IH [OF rest]) (use range Cons.prems(2) in \<open>auto split: if_splits\<close>)
  qed
qed simp

lemma validateLimits_range:
  assumes "validateLimits limitsValue = Inr limits"
  shows "n = maxDepth \<or> 0 < limits n" "limits n \<le> HARD_IMPORT_GRAPH_LIMITS n"
proof -
  have "(m = maxDepth \<or> 0 < DEFAULT_IMPORT_GRAPH_LIMITS m) \<and> DEFAULT_IMPORT_GRAPH_LIMITS m \<le> HARD_IMPORT_GRAPH_LIMITS m" for m
    by (cases m) (simp_all add: HARD_IMPORT_GRAPH_LIMITS_def)
  with assms show "n = maxDepth \<or> 0 < limits n" "limits n \<le> HARD_IMPORT_GRAPH_LIMITS n"
    using validateGraphLimits_range [of _ GRAPH_LIMIT_KEYS DEFAULT_IMPORT_GRAPH_LIMITS limits]
    by (auto simp: validateLimits_def split: option.splits)
qed

lemma shape_initial: "shapeReady [] p initialState"
  by (simp add: shapeReady_def shapeInv_def initialState_def stackIds_def nodeIds_def)

lemma acyclic_initial: "acyclicReady [] p initialState"
  using shape_initial by (simp add: acyclicReady_def loadedAcyclic_def initialState_def followedEdges_def acyclic_def)

lemma complete_initial: "0 < lc_limits ctx maxIssues \<Longrightarrow> completeReady ctx [] p initialState"
  using shape_initial by (simp add: completeReady_def noneMissed_def initialState_def)

lemma bounds_initial: "0 < lc_limits ctx maxFiles \<Longrightarrow> boundsReady ctx [] p initialState"
  by (simp add: bounds_defs initialState_def)

lemma paths_initial: "insidePath p \<Longrightarrow> pathsReady [] p initialState"
  by (simp add: paths_defs initialState_def)

subsection \<open>Properties\<close>

text \<open>
  C2. The loader never produces a cyclic graph: whatever the files import, and even when a file changes
  between two reads, every path has at most one node, and the edges that were followed, to a document
  loaded for them or loaded before, form an acyclic relation between documents. The documents are assumed
  to have distinct identifiers, as they have when the digest does not collide.
\<close>

theorem loadImportGraph_acyclic:
  assumes "loadImportGraph ctx entryPath limitsValue = Inr r"
    and "distinct (map gn_documentId (gr_nodes r))"
  shows "distinct (map gn_path (gr_nodes r)) \<and>
    acyclic {(ge_fromDocumentId edge, td) | edge td. edge \<in> set (gr_edges r) \<and>
       (ge_state edge = EdgeLoaded \<or> ge_state edge = EdgeAlreadyLoaded) \<and> ge_targetDocumentId edge = Some td}"
proof -
  from assms(1) show ?thesis
  proof (cases rule: loadImportGraph_Inr)
    case (1 limits)
    then show ?thesis
      using acyclicity.walk_entry [OF acyclic_initial, of entryPath "ctx\<lparr>lc_limits := limits\<rparr>"] assms(2)
      by (simp add: acyclicAfter_def shapeAfter_def shapeInv_def loadedAcyclic_def graphResult_def followedEdges_def)
  qed
qed

text \<open>
  C3. A graph that is reported as complete misses nothing: it has a node for the entry path, every node was
  decoded and lexed, and every import of every node has an edge that was followed to a node of the graph,
  the one with the target's path and identifier.
\<close>

theorem loadImportGraph_complete:
  assumes "loadImportGraph ctx entryPath limitsValue = Inr r" "gr_complete r"
  shows "entryPath \<in> gn_path ` set (gr_nodes r) \<and>
    (\<forall>node\<in>set (gr_nodes r). gn_state node = NodeLoaded \<and>
      (\<forall>reference\<in>set (gn_imports node). \<exists>edge\<in>set (gr_edges r). \<exists>target\<in>set (gr_nodes r).
         ge_fromDocumentId edge = gn_documentId node \<and> ge_import edge = reference \<and>
         (ge_state edge = EdgeLoaded \<or> ge_state edge = EdgeAlreadyLoaded) \<and>
         ge_targetPath edge = Some (gn_path target) \<and> ge_targetDocumentId edge = Some (gn_documentId target)))"
proof -
  from assms(1) show ?thesis
  proof (cases rule: loadImportGraph_Inr)
    case (1 limits)
    let ?ctx = "ctx\<lparr>lc_limits := limits\<rparr>"
    let ?st = "fst (visit ?ctx entryPath 0 None initialState)"
    have "0 < lc_limits ?ctx maxIssues"
      using validateLimits_range(1) [OF 1(1), of maxIssues] by simp
    then have after: "completeAfter ?ctx [] entryPath (snd (visit ?ctx entryPath 0 None initialState)) ?st"
      by (intro completeness.walk_entry complete_initial)
    have shape: "nodeIds (ms_nodes ?st) = ms_completed ?st"
      using after by (simp add: completeAfter_def shapeAfter_def shapeInv_def stackIds_def)
    have nodes: "nodeDone ?st node" if "node \<in> set (ms_nodes ?st)" for node
    proof -
      have "nodeIds (ms_nodes ?st) (gn_path node) \<noteq> None"
        unfolding nodeIds_None using that by simp
      then show ?thesis
        using after assms(2) 1(3) that shape by (auto simp: completeAfter_def noneMissed_def graphResult_def)
    qed
    have edges: "\<exists>edge\<in>set (ms_edges ?st). \<exists>target\<in>set (ms_nodes ?st).
         ge_fromDocumentId edge = d \<and> ge_import edge = reference \<and> followed edge \<and>
         ge_targetPath edge = Some (gn_path target) \<and> ge_targetDocumentId edge = Some (gn_documentId target)"
      if "importDone ?st d reference" for d reference
      using that nodeIds_Some [of "ms_nodes ?st"] unfolding importDone_def shape by metis
    have "\<exists>d. ms_completed ?st entryPath = Some d"
      using after assms(2) 1(3) by (auto simp: completeAfter_def shapeAfter_def graphResult_def)
    then have "entryPath \<in> gn_path ` set (ms_nodes ?st)"
      using nodeIds_Some [of "ms_nodes ?st"] unfolding shape by blast
    with nodes edges show ?thesis
      unfolding 1(3) graphResult_def nodeDone_def by simp
  qed
qed

text \<open>
  C21. The limits hold for every graph the loader returns: its files, edges and issues, the bytes of one file
  and of all files, and the depth of documents and edges stay within the validated limits, which are never
  above the hard ones, and the reported byte total is the sum over the nodes.
\<close>

theorem loadImportGraph_bounds:
  assumes "loadImportGraph ctx entryPath limitsValue = Inr r" "validateLimits limitsValue = Inr limits"
  shows "(\<forall>n. limits n \<le> HARD_IMPORT_GRAPH_LIMITS n) \<and>
    length (gr_nodes r) \<le> limits maxFiles \<and> length (gr_edges r) \<le> limits maxEdges \<and>
    length (gr_issues r) \<le> limits maxIssues \<and>
    gr_totalBytes r = sum_list (map gn_byteLength (gr_nodes r)) \<and> gr_totalBytes r \<le> limits maxTotalBytes \<and>
    (\<forall>node\<in>set (gr_nodes r). gn_byteLength node \<le> limits maxFileBytes \<and> gn_depth node \<le> limits maxDepth) \<and>
    (\<forall>edge\<in>set (gr_edges r). ge_depth edge \<le> limits maxDepth + 1)"
  using assms(1)
proof (cases rule: loadImportGraph_Inr)
  case (1 limits')
  then have same: "limits' = limits"
    using assms(2) by simp
  let ?ctx = "ctx\<lparr>lc_limits := limits\<rparr>"
  have "0 < lc_limits ?ctx maxFiles"
    using validateLimits_range(1) [OF assms(2), of maxFiles] by simp
  then have "boundsAfter ?ctx [] entryPath (snd (visit ?ctx entryPath 0 None initialState))
      (fst (visit ?ctx entryPath 0 None initialState))"
    by (intro bounds.walk_entry bounds_initial)
  then show ?thesis
    using validateLimits_range(2) [OF assms(2)]
    by (simp add: 1(3) same graphResult_def boundsAfter_def withinLimits_def)
qed

text \<open>
  The walk stays inside the repository: the path of every node and the target path of every edge is a
  canonical repository path and not the root, whatever specifiers the files contain.
\<close>

theorem loadImportGraph_inside:
  assumes "loadImportGraph ctx entryPath limitsValue = Inr r"
  shows "(\<forall>node\<in>set (gr_nodes r). isRepositoryRelativePath (gn_path node) \<and> gn_path node \<noteq> REPOSITORY_ROOT) \<and>
    (\<forall>edge\<in>set (gr_edges r). \<forall>t. ge_targetPath edge = Some t \<longrightarrow> isRepositoryRelativePath t \<and> t \<noteq> REPOSITORY_ROOT)"
  using assms
proof (cases rule: loadImportGraph_Inr)
  case (1 limits)
  let ?ctx = "ctx\<lparr>lc_limits := limits\<rparr>"
  have "pathsInv [] (fst (visit ?ctx entryPath 0 None initialState))"
    using paths.walk_entry [OF paths_initial [OF 1(2)], of ?ctx] by (simp add: pathsAfter_def)
  then show ?thesis
    unfolding pathsInv_def insidePath_iff 1(3) graphResult_def by simp
qed

subsection \<open>Witnesses\<close>

text \<open>The file \<open>a\<close> imports \<open>./b\<close>; the file \<open>b\<close> has no imports.\<close>

definition sampleFile :: "jstring \<Rightarrow> jstring \<Rightarrow> RepositoryFile" where
  "sampleFile p contents = \<lparr>rf_device = js ''1'', rf_inode = p, rf_bytes = contents\<rparr>"

text \<open>A digest of 64 hexadecimal digits that tells the few texts of the sample apart.\<close>

definition sampleDigest :: "nat list \<Rightarrow> jstring" where
  "sampleDigest bytes =
     js ''aaaaaaaaaaaaaaaaaaaaaaaaaaaaaaaaaaaaaaaaaaaaaaaaaaaaaaaaaaaaa'' @
     [48 + (case bytes of [] \<Rightarrow> 0 | b # _ \<Rightarrow> b mod 10), 48 + length bytes mod 10,
      48 + (if 30 < length bytes then bytes ! 30 else 0) mod 10]"

definition sampleContext :: LoaderContext where
  "sampleContext =
     \<lparr>lc_limits = DEFAULT_IMPORT_GRAPH_LIMITS,
      lc_readFile = (\<lambda>n p. if p = js ''a'' then Some (sampleFile p (js ''@./b''))
                          else if p = js ''b'' then Some (sampleFile p (js ''x'')) else None),
      lc_syntax = ClaudeCode, lc_sha256 = sampleDigest, lc_fromMarkdown = (\<lambda>_. Some rootTree)\<rparr>"

definition sampleIdentity :: "jstring \<Rightarrow> nat list \<Rightarrow> jstring" where
  "sampleIdentity p contents =
     sampleDigest (utf8 p @ [0] @ utf8 (dialectText ClaudeCode) @ [0] @ sampleDigest contents)"

definition sampleNode :: "jstring \<Rightarrow> nat list \<Rightarrow> nat \<Rightarrow> ImportReference list \<Rightarrow> ImportGraphNode" where
  "sampleNode p contents depth refs =
     \<lparr>gn_byteLength = length contents, gn_depth = depth, gn_documentId = js ''document:'' @ sampleIdentity p contents,
      gn_imports = refs, gn_path = p, gn_sha256 = sampleDigest contents,
      gn_sourceId = js ''source:'' @ sampleIdentity p contents, gn_state = NodeLoaded\<rparr>"

lemma sample_decode: "decodeUtf8 (js ''@./b'') = Some (js ''@./b'')" "decodeUtf8 (js ''x'') = Some (js ''x'')"
  by (simp_all add: js_def sequence_length_def utf16_units_def)

lemma sample_lex:
  assumes "isStableIdentifier d" "isStableIdentifier src"
  shows "\<exists>r x. lexImportReferences (\<lambda>_. Some rootTree) sha d src ClaudeCode (js ''@./b'') (\<lambda>_. None) = Inr r \<and>
      ir_imports r = [x] \<and> ref_state x = ImportRecognized \<and> ref_targetKind x = RepositoryPathCandidate \<and>
      ref_rawSpecifier x = js ''./b''"
    "\<exists>r. lexImportReferences (\<lambda>_. Some rootTree) sha d src ClaudeCode (js ''x'') (\<lambda>_. None) = Inr r \<and> ir_imports r = []"
  using assms unfolding isStableIdentifier_def by (simp_all add: lexer_eval)

lemma sample_stable:
  "isStableIdentifier (js ''document:'' @ sampleIdentity (js ''a'') (js ''@./b''))"
  "isStableIdentifier (js ''source:'' @ sampleIdentity (js ''a'') (js ''@./b''))"
  "isStableIdentifier (js ''document:'' @ sampleIdentity (js ''b'') (js ''x''))"
  "isStableIdentifier (js ''source:'' @ sampleIdentity (js ''b'') (js ''x''))"
  by (simp_all add: isStableIdentifier_def sampleIdentity_def sampleDigest_def js_def utf8_ascii unit_class)

lemma sample_context [simp]:
  "lc_limits sampleContext = DEFAULT_IMPORT_GRAPH_LIMITS" "lc_syntax sampleContext = ClaudeCode"
  "lc_sha256 sampleContext = sampleDigest" "lc_fromMarkdown sampleContext = (\<lambda>_. Some rootTree)"
  "lc_readFile sampleContext n (js ''a'') = Some (sampleFile (js ''a'') (js ''@./b''))"
  "lc_readFile sampleContext n (js ''b'') = Some (sampleFile (js ''b'') (js ''x''))"
  "stableIds sampleContext p contents =
     (js ''document:'' @ sampleIdentity p contents, sampleDigest contents, js ''source:'' @ sampleIdentity p contents)"
  "sampleContext\<lparr>lc_limits := DEFAULT_IMPORT_GRAPH_LIMITS\<rparr> = sampleContext"
  by (simp_all add: sampleContext_def js_def stableIds_def sampleIdentity_def Let_def)

lemma sample_file [simp]:
  "rf_bytes (sampleFile p contents) = contents" "identityKey (sampleFile p contents) = js ''1:1'' @ p"
  by (simp_all add: sampleFile_def identityKey_def js_def decimal.simps)

lemma sample_parse:
  "\<exists>x. ref_state x = ImportRecognized \<and> ref_targetKind x = RepositoryPathCandidate \<and> ref_rawSpecifier x = js ''./b'' \<and>
     (\<forall>depth parent st. parseDocument sampleContext (js ''a'') depth parent (sampleFile (js ''a'') (js ''@./b'')) st =
        (activateDocument sampleContext (sampleNode (js ''a'') (js ''@./b'') depth [x]) (js ''1:1a'') st,
         Inr (gn_documentId (sampleNode (js ''a'') (js ''@./b'') depth [x]), js ''1:1a'', [x])))"
  "parseDocument sampleContext (js ''b'') depth parent (sampleFile (js ''b'') (js ''x'')) st =
     (activateDocument sampleContext (sampleNode (js ''b'') (js ''x'') depth []) (js ''1:1b'') st,
      Inr (gn_documentId (sampleNode (js ''b'') (js ''x'') depth []), js ''1:1b'', []))"
proof -
  have key: "js ''1:1'' @ js ''a'' = js ''1:1a''" "js ''1:1'' @ js ''b'' = js ''1:1b''"
    by (simp_all add: js_def)
  show "\<exists>x. ref_state x = ImportRecognized \<and> ref_targetKind x = RepositoryPathCandidate \<and> ref_rawSpecifier x = js ''./b'' \<and>
     (\<forall>depth parent st. parseDocument sampleContext (js ''a'') depth parent (sampleFile (js ''a'') (js ''@./b'')) st =
        (activateDocument sampleContext (sampleNode (js ''a'') (js ''@./b'') depth [x]) (js ''1:1a'') st,
         Inr (gn_documentId (sampleNode (js ''a'') (js ''@./b'') depth [x]), js ''1:1a'', [x])))"
    using sample_lex(1) [OF sample_stable(1,2), of sampleDigest]
    by (elim exE conjE, intro exI conjI) (assumption | simp add: parseDocument_def sample_decode sampleNode_def key)+
  show "parseDocument sampleContext (js ''b'') depth parent (sampleFile (js ''b'') (js ''x'')) st =
     (activateDocument sampleContext (sampleNode (js ''b'') (js ''x'') depth []) (js ''1:1b'') st,
      Inr (gn_documentId (sampleNode (js ''b'') (js ''x'') depth []), js ''1:1b'', []))"
    using sample_lex(2) [OF sample_stable(3,4), of sampleDigest]
    by (elim exE conjE) (simp add: parseDocument_def sample_decode sampleNode_def key)
qed

lemma sample_resolve: "resolveTarget (js ''a'') (js ''./b'') = (Some (js ''b''), False)"
  by (simp add: resolveTarget_def js_def path_eval)

lemma sample_paths [simp]: "js ''a'' \<noteq> js ''b''" "js ''b'' \<noteq> js ''a''" "js ''1:1b'' \<noteq> js ''1:1a''" "js ''1:1'' @ js ''a'' = js ''1:1a''"
  "js ''1:1'' @ js ''b'' = js ''1:1b''" "length (js ''@./b'') = 4" "length (js ''x'') = 1"
  by (simp_all add: js_def)

lemma sample_node [simp]:
  "gn_path (sampleNode p c depth refs) = p" "gn_imports (sampleNode p c depth refs) = refs"
  "gn_documentId (sampleNode p c depth refs) = js ''document:'' @ sampleIdentity p c"
  by (simp_all add: sampleNode_def)

lemma sample_activate:
  "length refs \<le> 256 \<Longrightarrow> activateDocument sampleContext (sampleNode p c depth refs) key st =
     st\<lparr>ms_nodes := ms_nodes st @ [sampleNode p c depth refs],
        ms_active := (ms_active st)(p \<mapsto> js ''document:'' @ sampleIdentity p c),
        ms_activeIdentities := (ms_activeIdentities st)(key \<mapsto> js ''document:'' @ sampleIdentity p c)\<rparr>"
  by (simp add: activateDocument_def addNode_def Let_def)

lemma sample_visit_b:
  assumes "ms_activeIdentities st (js ''1:1b'') = None" "ms_totalBytes st = 4"
  shows "visit sampleContext (js ''b'') 1 parent st =
    (closeDocument (js ''b'') (js ''1:1b'') (js ''document:'' @ sampleIdentity (js ''b'') (js ''x''))
      (activateDocument sampleContext (sampleNode (js ''b'') (js ''x'') 1 []) (js ''1:1b'')
        (st\<lparr>ms_reads := ms_reads st + 1, ms_totalBytes := 5\<rparr>)),
     (Some (js ''document:'' @ sampleIdentity (js ''b'') (js ''x'')), None))"
  using assms by (simp add: visit.simps openDocument_def sample_parse(2) Let_def visitImports.simps)

lemma sample_graph:
  "\<exists>r x. loadImportGraph sampleContext (js ''a'') None = Inr r \<and> gr_complete r \<and>
     gr_nodes r = [sampleNode (js ''a'') (js ''@./b'') 0 [x], sampleNode (js ''b'') (js ''x'') 1 []] \<and>
     gr_edges r = [graphEdge (js ''document:'' @ sampleIdentity (js ''a'') (js ''@./b'')) x 1 EdgeLoaded (Some (js ''b''))
       (Some (js ''document:'' @ sampleIdentity (js ''b'') (js ''x''))) None]"
proof -
  obtain x where x: "ref_state x = ImportRecognized" "ref_targetKind x = RepositoryPathCandidate" "ref_rawSpecifier x = js ''./b''"
    and parse: "\<forall>depth parent st. parseDocument sampleContext (js ''a'') depth parent (sampleFile (js ''a'') (js ''@./b'')) st =
        (activateDocument sampleContext (sampleNode (js ''a'') (js ''@./b'') depth [x]) (js ''1:1a'') st,
         Inr (gn_documentId (sampleNode (js ''a'') (js ''@./b'') depth [x]), js ''1:1a'', [x]))"
    using sample_parse(1) by (elim exE conjE)
  let ?d = "js ''document:'' @ sampleIdentity (js ''a'') (js ''@./b'')"
  let ?st = "activateDocument sampleContext (sampleNode (js ''a'') (js ''@./b'') 0 [x]) (js ''1:1a'')
      (initialState\<lparr>ms_reads := 1, ms_totalBytes := 4\<rparr>)"
  have opened: "openDocument sampleContext (js ''a'') 0 None initialState = (?st, Inr (?d, js ''1:1a'', [x]))"
    by (simp add: openDocument_def parse initialState_def Let_def)
  have followed: "visitImports sampleContext (js ''a'') 0 ?d 0 [x] ?st =
    visitedEdge ?d x 0 (js ''b'') 0 (snd (visit sampleContext (js ''b'') 1 (Some (js ''a'', x)) (takeSlot ?st)))
      (fst (visit sampleContext (js ''b'') 1 (Some (js ''a'', x)) (takeSlot ?st)))"
    by (subst visitImports_followed [where t = "js ''b''"])
      (auto simp: sample_activate initialState_def referenceStep_def targetStep_def takeSlot_def x sample_resolve visitImports.simps)
  have valid: "validateEntry (js ''a'')"
    by (simp add: validateEntry_def path_eval js_def)
  let ?visited = "visit sampleContext (js ''b'') 1 (Some (js ''a'', x)) (takeSlot ?st)"
  have walked: "visit sampleContext (js ''a'') 0 None initialState =
      (closeDocument (js ''a'') (js ''1:1a'') ?d (visitedEdge ?d x 0 (js ''b'') 0 (snd ?visited) (fst ?visited)), (Some ?d, None))"
    by (simp only: visit_go [OF opened] followed)
  have load: "loadImportGraph sampleContext (js ''a'') None =
      Inr (graphResult ClaudeCode (js ''a'') (fst (visit sampleContext (js ''a'') 0 None initialState)))"
    by (simp add: loadImportGraph_def validateLimits_def valid)
  have "ms_activeIdentities (takeSlot ?st) (js ''1:1b'') = None" "ms_totalBytes (takeSlot ?st) = 4"
    by (simp_all add: sample_activate takeSlot_def initialState_def)
  note visited = sample_visit_b [OF this, of "Some (js ''a'', x)"]
  show ?thesis
    unfolding load walked visited
    by (rule exI, rule exI [of _ x], rule conjI [OF refl])
      (simp add: sample_activate takeSlot_def visitedEdge_def closeDocument_def insertEdge_def graphResult_def initialState_def)
qed

lemma sample_ids: "sampleIdentity (js ''a'') (js ''@./b'') \<noteq> sampleIdentity (js ''b'') (js ''x'')"
  by (simp add: sampleIdentity_def sampleDigest_def js_def utf8_ascii)

theorem loadImportGraph_acyclic_witness:
  "\<exists>r. loadImportGraph sampleContext (js ''a'') None = Inr r \<and> length (gr_edges r) = 1 \<and>
    distinct (map gn_path (gr_nodes r)) \<and>
    acyclic {(ge_fromDocumentId edge, td) | edge td. edge \<in> set (gr_edges r) \<and>
       (ge_state edge = EdgeLoaded \<or> ge_state edge = EdgeAlreadyLoaded) \<and> ge_targetDocumentId edge = Some td}"
proof -
  obtain r x where r: "loadImportGraph sampleContext (js ''a'') None = Inr r"
      "gr_nodes r = [sampleNode (js ''a'') (js ''@./b'') 0 [x], sampleNode (js ''b'') (js ''x'') 1 []]" "length (gr_edges r) = 1"
    using sample_graph by (elim exE conjE) simp
  then show ?thesis
    using loadImportGraph_acyclic [OF r(1)] sample_ids by (intro exI [of _ r]) simp
qed

theorem loadImportGraph_complete_witness:
  "\<exists>r. loadImportGraph sampleContext (js ''a'') None = Inr r \<and> gr_complete r \<and> js ''a'' \<in> gn_path ` set (gr_nodes r)"
proof -
  obtain r where r: "loadImportGraph sampleContext (js ''a'') None = Inr r" "gr_complete r"
    using sample_graph by (elim exE conjE) simp
  then show ?thesis
    using loadImportGraph_complete [OF r] by (intro exI [of _ r]) simp
qed

theorem loadImportGraph_bounds_witness:
  "\<exists>r. loadImportGraph sampleContext (js ''a'') None = Inr r \<and>
     gr_totalBytes r = sum_list (map gn_byteLength (gr_nodes r)) \<and> gr_totalBytes r \<le> 16777216"
proof -
  obtain r where r: "loadImportGraph sampleContext (js ''a'') None = Inr r"
    using sample_graph by (elim exE conjE) simp
  have "validateLimits None = Inr DEFAULT_IMPORT_GRAPH_LIMITS"
    by (simp add: validateLimits_def)
  then show ?thesis
    using loadImportGraph_bounds [OF r] r by (intro exI [of _ r]) simp
qed

theorem loadImportGraph_inside_witness:
  "\<exists>r. loadImportGraph sampleContext (js ''a'') None = Inr r \<and> length (gr_nodes r) = 2 \<and>
    (\<forall>node\<in>set (gr_nodes r). isRepositoryRelativePath (gn_path node) \<and> gn_path node \<noteq> REPOSITORY_ROOT)"
proof -
  obtain r where r: "loadImportGraph sampleContext (js ''a'') None = Inr r" "length (gr_nodes r) = 2"
    using sample_graph by (elim exE conjE) simp
  then show ?thesis
    using loadImportGraph_inside [OF r(1)] by (intro exI [of _ r]) simp
qed

end
