(* ===== verification/Bounded_Resolution.thy ===== *)
theory Bounded_Resolution
  imports Repository_Path
begin

text \<open>
  The bounded resolution scheduler (\<open>packages/resolver/src/bounded-resolution.ts\<close>): validation and ordering of
  resolution tasks, and a pool of workers that take tasks from a shared queue, run their executors concurrently
  and record results under byte limits until they are done or stopped.

  The pool is a state with one control point per worker, and its steps are a relation, since the order in which
  executors settle is not determined. A worker runs without interruption between two awaits; here reaching the
  head of its loop and settling an executor are separate steps, so every schedule of the program is a schedule
  of the relation. Cancellation and the deadline are steps of their own that may happen at any time. Parameters
  of the model: \<open>executes\<close> relates a task to what its executor may do, \<open>issued\<close> says which resolutions the
  resolver has issued, and \<open>jsonBytes\<close> is the length of the JSON text of a resolution. The checks for plain records,
  for issued tasks and for native signals have no counterpart on typed values.
\<close>

subsection \<open>Limits and errors\<close>

datatype BoundedLimitName =
    MaximumConcurrency | MaximumDurationMs | MaximumResultBytes | MaximumTaskIdBytes | MaximumTasks
  | MaximumTotalResultBytes

fun BOUNDED_RESOLUTION_DEFAULT_LIMITS :: "BoundedLimitName \<Rightarrow> nat" where
  "BOUNDED_RESOLUTION_DEFAULT_LIMITS MaximumConcurrency = 8"
| "BOUNDED_RESOLUTION_DEFAULT_LIMITS MaximumDurationMs = 30000"
| "BOUNDED_RESOLUTION_DEFAULT_LIMITS MaximumResultBytes = 33554432"
| "BOUNDED_RESOLUTION_DEFAULT_LIMITS MaximumTaskIdBytes = 512"
| "BOUNDED_RESOLUTION_DEFAULT_LIMITS MaximumTasks = 65536"
| "BOUNDED_RESOLUTION_DEFAULT_LIMITS MaximumTotalResultBytes = 134217728"

fun BOUNDED_RESOLUTION_HARD_LIMITS :: "BoundedLimitName \<Rightarrow> nat" where
  "BOUNDED_RESOLUTION_HARD_LIMITS MaximumConcurrency = 64"
| "BOUNDED_RESOLUTION_HARD_LIMITS MaximumDurationMs = 300000"
| "BOUNDED_RESOLUTION_HARD_LIMITS MaximumResultBytes = 268435456"
| "BOUNDED_RESOLUTION_HARD_LIMITS MaximumTaskIdBytes = 16384"
| "BOUNDED_RESOLUTION_HARD_LIMITS MaximumTasks = 1000000"
| "BOUNDED_RESOLUTION_HARD_LIMITS MaximumTotalResultBytes = 1073741824"

datatype BoundedResolutionErrorCode =
    ResolutionCancelled
  | ResolutionDeadlineExceeded
  | ResolutionInvalidInput
  | ResolutionInvalidOptions
  | ResolutionInvalidRelationship
  | ResolutionResourceLimit
  | ResolutionTaskFailed

text \<open>The code and the failed task indexes of an error.\<close>

type_synonym BoundedResolutionError = "BoundedResolutionErrorCode \<times> nat list"

text \<open>The given limits; an absent one is \<open>None\<close>.\<close>

type_synonym BoundedResolutionOptions = "BoundedLimitName \<Rightarrow> int option"

definition BOUNDED_LIMIT_KEYS :: "BoundedLimitName list" where
  "BOUNDED_LIMIT_KEYS =
     [MaximumConcurrency, MaximumDurationMs, MaximumResultBytes, MaximumTaskIdBytes, MaximumTasks, MaximumTotalResultBytes]"

fun selectLimits ::
  "BoundedResolutionOptions \<Rightarrow> BoundedLimitName list \<Rightarrow> (BoundedLimitName \<Rightarrow> nat) \<Rightarrow>
   BoundedResolutionError + (BoundedLimitName \<Rightarrow> nat)" where
  "selectLimits given [] selected = Inr selected"
| "selectLimits given (name # names) selected =
     (case given name of
        None \<Rightarrow> selectLimits given names selected
      | Some limit \<Rightarrow>
          checkR (1 \<le> limit \<and> limit \<le> int (BOUNDED_RESOLUTION_HARD_LIMITS name)) (ResolutionInvalidOptions, [])
            (selectLimits given names (selected(name := nat limit))))"

definition normalizeOptions :: "BoundedResolutionOptions \<Rightarrow> BoundedResolutionError + (BoundedLimitName \<Rightarrow> nat)" where
  "normalizeOptions given =
     bindR (selectLimits given BOUNDED_LIMIT_KEYS BOUNDED_RESOLUTION_DEFAULT_LIMITS) (\<lambda>selected.
       checkR (selected MaximumResultBytes \<le> selected MaximumTotalResultBytes) (ResolutionInvalidOptions, [])
         (Inr selected))"

subsection \<open>Tasks\<close>

record ResolutionTask =
  rt_clientVersion :: "jstring option"
  rt_id :: jstring
  rt_profileId :: jstring
  rt_profileVersion :: jstring
  rt_specSnapshotId :: jstring
  rt_surfaceId :: jstring
  rt_targetPath :: jstring

definition CONFIGURATION_PROFILE_IDS :: "jstring list" where
  "CONFIGURATION_PROFILE_IDS =
     [js ''claude-code'', js ''codex-cli'', js ''copilot-cli'', js ''copilot-cloud-agent'', js ''copilot-code-review'',
      js ''copilot-vscode'', js ''cursor-agent'', js ''gemini-cli'']"

definition isControlUnit :: "nat \<Rightarrow> bool" where
  "isControlUnit u \<longleftrightarrow>
     u \<le> 0x1F \<or> (0x7F \<le> u \<and> u \<le> 0x9F) \<or> u = 0x061C \<or> u = 0x200E \<or> u = 0x200F \<or>
     (0x202A \<le> u \<and> u \<le> 0x202E) \<or> (0x2066 \<le> u \<and> u \<le> 0x2069)"

definition wellFormedText :: "nat \<Rightarrow> jstring \<Rightarrow> BoundedResolutionError + jstring" where
  "wellFormedText maximumBytes s =
     checkR (hasWellFormedUnicode s \<and> (\<forall>u\<in>set s. \<not> isControlUnit u)) (ResolutionInvalidInput, [])
     (checkR (s \<noteq> []) (ResolutionInvalidInput, [])
     (checkR (textBytes s \<le> maximumBytes) (ResolutionResourceLimit, []) (Inr s)))"

definition normalizeDescriptor :: "nat \<Rightarrow> ResolutionTask \<Rightarrow> BoundedResolutionError + ResolutionTask" where
  "normalizeDescriptor maximumTaskIdBytes task =
     (let bound = BOUNDED_RESOLUTION_HARD_LIMITS MaximumTaskIdBytes in
      bindR (case rt_clientVersion task of
               None \<Rightarrow> Inr None
             | Some version \<Rightarrow> bindR (wellFormedText bound version) (\<lambda>v. Inr (Some v))) (\<lambda>_.
      bindR (wellFormedText maximumTaskIdBytes (rt_id task)) (\<lambda>_.
      checkR (rt_profileId task \<in> set CONFIGURATION_PROFILE_IDS) (ResolutionInvalidInput, [])
     (bindR (wellFormedText bound (rt_profileVersion task)) (\<lambda>_.
      bindR (wellFormedText bound (rt_specSnapshotId task)) (\<lambda>_.
      bindR (wellFormedText bound (rt_surfaceId task)) (\<lambda>_.
      checkR (isRepositoryRelativePath (rt_targetPath task)) (ResolutionInvalidInput, []) (Inr task))))))))"

definition createEffectiveContextResolutionTask :: "ResolutionTask \<Rightarrow> BoundedResolutionError + ResolutionTask" where
  "createEffectiveContextResolutionTask descriptor =
     normalizeDescriptor (BOUNDED_RESOLUTION_HARD_LIMITS MaximumTaskIdBytes) descriptor"

text \<open>
  \<open>compareTasks\<close> compares the UTF-8 bytes of seven fields in turn, which is the lexicographic order of this key.
\<close>

definition taskSortKey :: "ResolutionTask \<Rightarrow> nat list list" where
  "taskSortKey task =
     [utf8 (rt_profileId task), utf8 (rt_surfaceId task), utf8 (rt_profileVersion task), utf8 (rt_specSnapshotId task),
      utf8 (case rt_clientVersion task of None \<Rightarrow> [] | Some v \<Rightarrow> v), utf8 (rt_targetPath task), utf8 (rt_id task)]"

text \<open>The key is the JSON text of a list of six strings, one of them possibly null; equal texts mean equal lists.\<close>

definition taskRelationshipKey ::
  "ResolutionTask \<Rightarrow> jstring \<times> jstring \<times> jstring \<times> jstring \<times> jstring option \<times> jstring" where
  "taskRelationshipKey task =
     (rt_profileId task, rt_surfaceId task, rt_profileVersion task, rt_specSnapshotId task, rt_clientVersion task,
      rt_targetPath task)"

fun collectTasks ::
  "nat \<Rightarrow> ResolutionTask list \<Rightarrow> ResolutionTask list \<Rightarrow> BoundedResolutionError + ResolutionTask list" where
  "collectTasks maximumTaskIdBytes [] accepted = Inr accepted"
| "collectTasks maximumTaskIdBytes (task # rest) accepted =
     bindR (normalizeDescriptor maximumTaskIdBytes task) (\<lambda>normalized.
     checkR (rt_id normalized \<notin> rt_id ` set accepted) (ResolutionInvalidRelationship, [])
     (checkR (taskRelationshipKey normalized \<notin> taskRelationshipKey ` set accepted) (ResolutionInvalidRelationship, [])
       (collectTasks maximumTaskIdBytes rest (accepted @ [task]))))"

definition normalizeTasks ::
  "(BoundedLimitName \<Rightarrow> nat) \<Rightarrow> ResolutionTask list \<Rightarrow> BoundedResolutionError + ResolutionTask list" where
  "normalizeTasks limits tasks =
     checkR (length tasks \<le> limits MaximumTasks) (ResolutionResourceLimit, [])
       (bindR (collectTasks (limits MaximumTaskIdBytes) tasks []) (\<lambda>accepted. Inr (sortOn taskSortKey accepted)))"

subsection \<open>Resolutions\<close>

text \<open>The fields of a resolution that the scheduler reads; the others are its contents.\<close>

record 'a EffectiveContextResolution =
  er_clientVersion :: "jstring option"
  er_profileId :: jstring
  er_profileVersion :: jstring
  er_specSnapshotId :: jstring
  er_surfaceId :: jstring
  er_targetPath :: jstring
  er_contents :: 'a

definition taskMatchesResult :: "ResolutionTask \<Rightarrow> 'a EffectiveContextResolution \<Rightarrow> bool" where
  "taskMatchesResult task r \<longleftrightarrow>
     er_profileId r = rt_profileId task \<and> er_profileVersion r = rt_profileVersion task \<and>
     er_clientVersion r = rt_clientVersion task \<and> er_specSnapshotId r = rt_specSnapshotId task \<and>
     er_surfaceId r = rt_surfaceId task \<and> er_targetPath r = rt_targetPath task"

datatype 'a ExecutorOutcome = ExecutorThrows | ExecutorReturns "'a EffectiveContextResolution"

datatype TaskFailure = ExecutionFailure | InvalidResult

datatype StopReason = StopCancelled | StopDeadline | StopResource

subsection \<open>The pool\<close>

text \<open>A worker is at the head of its loop, awaits the executor of a task, or has returned.\<close>

datatype Worker = AtHead | Awaits nat | Returned

record 'a PoolContext =
  pc_limits :: "BoundedLimitName \<Rightarrow> nat"
  pc_tasks :: "ResolutionTask list"
  pc_issued :: "'a EffectiveContextResolution \<Rightarrow> bool"
  pc_jsonBytes :: "'a EffectiveContextResolution \<Rightarrow> nat"
  pc_hasSignal :: bool

record 'a PoolState =
  ps_stopped :: "StopReason option"
  ps_nextIndex :: nat
  ps_retainedResultBytes :: nat
  ps_resolutions :: "'a EffectiveContextResolution option list"
  ps_failures :: "TaskFailure option list"
  ps_workers :: "Worker list"

definition initialPool :: "'a PoolContext \<Rightarrow> 'a PoolState" where
  "initialPool ctx =
     \<lparr>ps_stopped = None, ps_nextIndex = 0, ps_retainedResultBytes = 0,
      ps_resolutions = replicate (length (pc_tasks ctx)) None, ps_failures = replicate (length (pc_tasks ctx)) None,
      ps_workers = replicate (min (pc_limits ctx MaximumConcurrency) (length (pc_tasks ctx))) AtHead\<rparr>"

definition stopPool :: "StopReason \<Rightarrow> 'a PoolState \<Rightarrow> 'a PoolState" where
  "stopPool reason st = (if ps_stopped st \<noteq> None then st else st\<lparr>ps_stopped := Some reason\<rparr>)"

definition moveWorker :: "nat \<Rightarrow> Worker \<Rightarrow> 'a PoolState \<Rightarrow> 'a PoolState" where
  "moveWorker w control st = st\<lparr>ps_workers := (ps_workers st)[w := control]\<rparr>"

text \<open>The head of the loop: return, or take the next task and start its executor.\<close>

definition workerHead :: "'a PoolContext \<Rightarrow> nat \<Rightarrow> 'a PoolState \<Rightarrow> 'a PoolState" where
  "workerHead ctx w st =
     (if ps_stopped st \<noteq> None then moveWorker w Returned st
      else if length (pc_tasks ctx) \<le> ps_nextIndex st then moveWorker w Returned st
      else moveWorker w (Awaits (ps_nextIndex st)) (st\<lparr>ps_nextIndex := ps_nextIndex st + 1\<rparr>))"

definition recordFailure :: "nat \<Rightarrow> TaskFailure \<Rightarrow> 'a PoolState \<Rightarrow> 'a PoolState" where
  "recordFailure index failure st = st\<lparr>ps_failures := (ps_failures st)[index := Some failure]\<rparr>"

text \<open>The rest of the loop body, once the executor of the task at \<open>index\<close> has settled.\<close>

definition workerSettles :: "'a PoolContext \<Rightarrow> nat \<Rightarrow> nat \<Rightarrow> 'a ExecutorOutcome \<Rightarrow> 'a PoolState \<Rightarrow> 'a PoolState" where
  "workerSettles ctx w index outcome st =
     (case outcome of
        ExecutorThrows \<Rightarrow> moveWorker w AtHead (recordFailure index ExecutionFailure st)
      | ExecutorReturns r \<Rightarrow>
          if \<not> pc_issued ctx r \<or> \<not> taskMatchesResult (pc_tasks ctx ! index) r
          then moveWorker w AtHead (recordFailure index InvalidResult st)
          else let bytes = pc_jsonBytes ctx r in
               if pc_limits ctx MaximumResultBytes < bytes \<or>
                  pc_limits ctx MaximumTotalResultBytes < ps_retainedResultBytes st + bytes
               then moveWorker w Returned (stopPool StopResource st)
               else moveWorker w AtHead
                      (st\<lparr>ps_retainedResultBytes := ps_retainedResultBytes st + bytes,
                          ps_resolutions := (ps_resolutions st)[index := Some r]\<rparr>))"

text \<open>
  One step of the pool. The first two kinds are steps of a worker, the others come from the caller's signal and
  the timer.
\<close>

inductive poolStep ::
  "'a PoolContext \<Rightarrow> (ResolutionTask \<Rightarrow> 'a ExecutorOutcome \<Rightarrow> bool) \<Rightarrow> 'a PoolState \<Rightarrow> 'a PoolState \<Rightarrow> bool"
  for ctx :: "'a PoolContext" and executes :: "ResolutionTask \<Rightarrow> 'a ExecutorOutcome \<Rightarrow> bool" where
  head: "\<lbrakk>w < length (ps_workers st); ps_workers st ! w = AtHead\<rbrakk> \<Longrightarrow> poolStep ctx executes st (workerHead ctx w st)"
| settle: "\<lbrakk>w < length (ps_workers st); ps_workers st ! w = Awaits index; executes (pc_tasks ctx ! index) outcome\<rbrakk> \<Longrightarrow>
    poolStep ctx executes st (workerSettles ctx w index outcome st)"
| cancel: "pc_hasSignal ctx \<Longrightarrow> poolStep ctx executes st (stopPool StopCancelled st)"
| deadline: "poolStep ctx executes st (stopPool StopDeadline st)"

text \<open>\<open>Promise.race([completion, stopPromise])\<close> has settled.\<close>

definition poolSettled :: "'a PoolState \<Rightarrow> bool" where
  "poolSettled st \<longleftrightarrow> ps_stopped st \<noteq> None \<or> (\<forall>worker\<in>set (ps_workers st). worker = Returned)"

subsection \<open>Results\<close>

record 'a BoundedResolutionEntry =
  be_resolution :: "'a EffectiveContextResolution"
  be_taskId :: jstring

definition failureIndexes :: "TaskFailure \<Rightarrow> TaskFailure option list \<Rightarrow> nat list" where
  "failureIndexes failure failures = filter (\<lambda>i. failures ! i = Some failure) [0..<length failures]"

fun resolutionEntries ::
  "nat \<Rightarrow> ResolutionTask list \<Rightarrow> 'a EffectiveContextResolution option list \<Rightarrow>
   BoundedResolutionError + 'a BoundedResolutionEntry list" where
  "resolutionEntries index (task # tasks) (Some r # rs) =
     bindR (resolutionEntries (index + 1) tasks rs) (\<lambda>entries. Inr (\<lparr>be_resolution = r, be_taskId = rt_id task\<rparr> # entries))"
| "resolutionEntries index (task # tasks) rs = Inl (ResolutionInvalidRelationship, [index])"
| "resolutionEntries index [] rs = Inr []"

text \<open>What the function returns once the race has settled; \<open>isAborted\<close> is the state of the signal then.\<close>

definition poolResult :: "'a PoolContext \<Rightarrow> bool \<Rightarrow> 'a PoolState \<Rightarrow> BoundedResolutionError + 'a BoundedResolutionEntry list" where
  "poolResult ctx isAborted st =
     (case ps_stopped st of
        Some StopDeadline \<Rightarrow> Inl (ResolutionDeadlineExceeded, [])
      | Some StopResource \<Rightarrow> Inl (ResolutionResourceLimit, [])
      | Some StopCancelled \<Rightarrow> Inl (ResolutionCancelled, [])
      | None \<Rightarrow>
          if pc_hasSignal ctx \<and> isAborted then Inl (ResolutionCancelled, [])
          else if failureIndexes InvalidResult (ps_failures st) \<noteq> [] then
            Inl (ResolutionInvalidRelationship, failureIndexes InvalidResult (ps_failures st))
          else if failureIndexes ExecutionFailure (ps_failures st) \<noteq> [] then
            Inl (ResolutionTaskFailed, failureIndexes ExecutionFailure (ps_failures st))
          else resolutionEntries 0 (pc_tasks ctx) (ps_resolutions st))"

text \<open>The checks before the pool starts; \<open>signal\<close> is the caller's signal, if any, and whether it is aborted.\<close>

definition prepareResolution ::
  "bool option \<Rightarrow> BoundedResolutionOptions \<Rightarrow> ResolutionTask list \<Rightarrow>
   BoundedResolutionError + ((BoundedLimitName \<Rightarrow> nat) \<times> ResolutionTask list)" where
  "prepareResolution signal options tasks =
     bindR (normalizeOptions options) (\<lambda>limits.
     checkR (signal \<noteq> Some True) (ResolutionCancelled, [])
     (bindR (normalizeTasks limits tasks) (\<lambda>sorted. Inr (limits, sorted))))"

definition poolContext ::
  "('a EffectiveContextResolution \<Rightarrow> bool) \<Rightarrow> ('a EffectiveContextResolution \<Rightarrow> nat) \<Rightarrow> bool option \<Rightarrow>
   (BoundedLimitName \<Rightarrow> nat) \<times> ResolutionTask list \<Rightarrow> 'a PoolContext" where
  "poolContext issued jsonBytes signal prepared =
     \<lparr>pc_limits = fst prepared, pc_tasks = snd prepared, pc_issued = issued, pc_jsonBytes = jsonBytes,
      pc_hasSignal = (signal \<noteq> None)\<rparr>"

text \<open>The results that \<open>resolveEffectiveContextsBounded\<close> may settle with.\<close>

inductive resolveEffectiveContextsBounded ::
  "('a EffectiveContextResolution \<Rightarrow> bool) \<Rightarrow> ('a EffectiveContextResolution \<Rightarrow> nat) \<Rightarrow>
   (ResolutionTask \<Rightarrow> 'a ExecutorOutcome \<Rightarrow> bool) \<Rightarrow> bool option \<Rightarrow> BoundedResolutionOptions \<Rightarrow> ResolutionTask list \<Rightarrow>
   BoundedResolutionError + 'a BoundedResolutionEntry list \<Rightarrow> bool"
  for issued :: "'a EffectiveContextResolution \<Rightarrow> bool" and jsonBytes :: "'a EffectiveContextResolution \<Rightarrow> nat"
    and executes :: "ResolutionTask \<Rightarrow> 'a ExecutorOutcome \<Rightarrow> bool" and signal :: "bool option"
    and options :: BoundedResolutionOptions and tasks :: "ResolutionTask list" where
  refused: "prepareResolution signal options tasks = Inl e \<Longrightarrow>
    resolveEffectiveContextsBounded issued jsonBytes executes signal options tasks (Inl e)"
| no_tasks: "prepareResolution signal options tasks = Inr (limits, []) \<Longrightarrow>
    resolveEffectiveContextsBounded issued jsonBytes executes signal options tasks (Inr [])"
| pooled: "\<lbrakk>prepareResolution signal options tasks = Inr prepared; snd prepared \<noteq> [];
    ctx = poolContext issued jsonBytes signal prepared;
    (poolStep ctx executes)\<^sup>*\<^sup>* (initialPool ctx) st; poolSettled st\<rbrakk> \<Longrightarrow>
    resolveEffectiveContextsBounded issued jsonBytes executes signal options tasks (poolResult ctx isAborted st)"

end
