(* ===== verification/Bounded_Resolution_Props.thy ===== *)
theory Bounded_Resolution_Props
  imports Bounded_Resolution Ignore_Engine
begin

text \<open>
  Properties of the bounded resolution scheduler over every interleaving of its workers: the invariant of the
  pool, the sequential reference result and the proof that every run that is neither cancelled nor out of time
  returns it, independence of the order of tasks and of the concurrency, and completion.
\<close>

subsection \<open>Workers\<close>

abbreviation awaited :: "'a PoolState \<Rightarrow> nat set" where
  "awaited st \<equiv> {i. Awaits i \<in> set (ps_workers st)}"

text \<open>No task is awaited by two workers.\<close>

definition soleWorkers :: "Worker list \<Rightarrow> bool" where
  "soleWorkers ws \<longleftrightarrow> (\<forall>i. count (mset ws) (Awaits i) \<le> 1)"

lemma count_update:
  "w < length ws \<Longrightarrow>
   count (mset (ws[w := c])) x = count (mset ws) x - (if ws ! w = x then 1 else 0) + (if x = c then 1 else 0)"
  by (simp add: mset_update)

lemma in_set_count: "x \<in> set ws \<longleftrightarrow> 0 < count (mset ws) x"
  by simp

lemma set_update_other:
  "w < length ws \<Longrightarrow> ws ! w \<noteq> x \<Longrightarrow> x \<in> set (ws[w := c]) \<longleftrightarrow> x \<in> set ws \<or> x = c"
  by (simp only: in_set_count count_update) simp

lemma awaits_released:
  assumes "w < length ws" "ws ! w = Awaits i" "soleWorkers ws" "c = AtHead \<or> c = Returned"
  shows "Awaits j \<in> set (ws[w := c]) \<longleftrightarrow> Awaits j \<in> set ws \<and> j \<noteq> i"
  using assms(4) assms(3) [unfolded soleWorkers_def, rule_format, of j]
  unfolding in_set_count count_update [OF assms(1)] assms(2) by auto

lemma soleWorkers_released:
  "w < length ws \<Longrightarrow> soleWorkers ws \<Longrightarrow> c = AtHead \<or> c = Returned \<Longrightarrow> soleWorkers (ws[w := c])"
  unfolding soleWorkers_def by (auto simp: count_update)

lemma soleWorkers_taken:
  "w < length ws \<Longrightarrow> soleWorkers ws \<Longrightarrow> Awaits k \<notin> set ws \<Longrightarrow> soleWorkers (ws[w := Awaits k])"
  unfolding soleWorkers_def in_set_count by (auto simp: count_update)

subsection \<open>The invariant\<close>

text \<open>What the pool makes of an executor's outcome.\<close>

definition settledValue ::
  "'a PoolContext \<Rightarrow> ResolutionTask \<Rightarrow> 'a ExecutorOutcome \<Rightarrow> TaskFailure + 'a EffectiveContextResolution" where
  "settledValue ctx task outcome =
     (case outcome of
        ExecutorThrows \<Rightarrow> Inl ExecutionFailure
      | ExecutorReturns r \<Rightarrow> if pc_issued ctx r \<and> taskMatchesResult task r then Inr r else Inl InvalidResult)"

definition poolShape :: "'a PoolContext \<Rightarrow> 'a PoolState \<Rightarrow> bool" where
  "poolShape ctx st \<longleftrightarrow>
     length (ps_resolutions st) = length (pc_tasks ctx) \<and> length (ps_failures st) = length (pc_tasks ctx) \<and>
     length (ps_workers st) = min (pc_limits ctx MaximumConcurrency) (length (pc_tasks ctx)) \<and>
     ps_nextIndex st \<le> length (pc_tasks ctx) \<and> (\<forall>i\<in>awaited st. i < ps_nextIndex st) \<and> soleWorkers (ps_workers st) \<and>
     (ps_stopped st = None \<longrightarrow> Returned \<in> set (ps_workers st) \<longrightarrow> ps_nextIndex st = length (pc_tasks ctx))"

text \<open>What is recorded for a task.\<close>

definition taskRecorded ::
  "'a PoolContext \<Rightarrow> (ResolutionTask \<Rightarrow> 'a ExecutorOutcome \<Rightarrow> bool) \<Rightarrow> 'a PoolState \<Rightarrow> nat \<Rightarrow> bool" where
  "taskRecorded ctx executes st i \<longleftrightarrow>
     (ps_nextIndex st \<le> i \<or> i \<in> awaited st \<longrightarrow> ps_resolutions st ! i = None \<and> ps_failures st ! i = None) \<and>
     (i < ps_nextIndex st \<longrightarrow> i \<notin> awaited st \<longrightarrow> ps_stopped st = None \<longrightarrow>
        ps_resolutions st ! i \<noteq> None \<or> ps_failures st ! i \<noteq> None) \<and>
     (\<forall>r. ps_resolutions st ! i = Some r \<longrightarrow> ps_failures st ! i = None \<and> pc_jsonBytes ctx r \<le> pc_limits ctx MaximumResultBytes \<and>
        (\<exists>outcome. executes (pc_tasks ctx ! i) outcome \<and> settledValue ctx (pc_tasks ctx ! i) outcome = Inr r)) \<and>
     (\<forall>e. ps_failures st ! i = Some e \<longrightarrow>
        (\<exists>outcome. executes (pc_tasks ctx ! i) outcome \<and> settledValue ctx (pc_tasks ctx ! i) outcome = Inl e))"

definition recordedBytes :: "'a PoolContext \<Rightarrow> 'a PoolState \<Rightarrow> nat \<Rightarrow> nat" where
  "recordedBytes ctx st i = (case ps_resolutions st ! i of None \<Rightarrow> 0 | Some r \<Rightarrow> pc_jsonBytes ctx r)"

definition poolInv :: "'a PoolContext \<Rightarrow> (ResolutionTask \<Rightarrow> 'a ExecutorOutcome \<Rightarrow> bool) \<Rightarrow> 'a PoolState \<Rightarrow> bool" where
  "poolInv ctx executes st \<longleftrightarrow>
     poolShape ctx st \<and> (\<forall>i<length (pc_tasks ctx). taskRecorded ctx executes st i) \<and>
     ps_retainedResultBytes st = (\<Sum>i<length (pc_tasks ctx). recordedBytes ctx st i) \<and>
     ps_retainedResultBytes st \<le> pc_limits ctx MaximumTotalResultBytes"

lemma poolInv_initial: "poolInv ctx executes (initialPool ctx)"
  by (auto simp: poolInv_def poolShape_def taskRecorded_def recordedBytes_def initialPool_def soleWorkers_def)

lemma poolInv_stop: "poolInv ctx executes st \<Longrightarrow> poolInv ctx executes (stopPool reason st)"
  by (auto simp: poolInv_def poolShape_def taskRecorded_def recordedBytes_def stopPool_def)

lemma poolInv_head:
  assumes inv: "poolInv ctx executes st" and w: "w < length (ps_workers st)" "ps_workers st ! w = AtHead"
  shows "poolInv ctx executes (workerHead ctx w st)"
proof (cases "ps_stopped st \<noteq> None \<or> length (pc_tasks ctx) \<le> ps_nextIndex st")
  case True
  then have st: "workerHead ctx w st = moveWorker w Returned st"
    by (auto simp: workerHead_def)
  have "poolShape ctx (moveWorker w Returned st)"
    using inv w True by (auto simp: poolInv_def poolShape_def moveWorker_def set_update_other soleWorkers_released)
  then show ?thesis
    using inv w by (simp add: st poolInv_def taskRecorded_def recordedBytes_def moveWorker_def set_update_other)
next
  case False
  then have st: "workerHead ctx w st = moveWorker w (Awaits (ps_nextIndex st)) (st\<lparr>ps_nextIndex := ps_nextIndex st + 1\<rparr>)"
    by (auto simp: workerHead_def)
  have fresh: "Awaits (ps_nextIndex st) \<notin> set (ps_workers st)"
    using inv by (auto simp: poolInv_def poolShape_def)
  have returned: "Returned \<notin> set (ps_workers st)"
    using inv False by (auto simp: poolInv_def poolShape_def)
  have "poolShape ctx (workerHead ctx w st)"
    using inv w False fresh returned
    by (auto simp: st poolInv_def poolShape_def moveWorker_def set_update_other soleWorkers_taken less_Suc_eq
        dest!: set_update_subset_insert [THEN subsetD])
  moreover have "taskRecorded ctx executes (workerHead ctx w st) i" if "i < length (pc_tasks ctx)" for i
  proof -
    have "taskRecorded ctx executes st i"
      using inv that by (simp add: poolInv_def)
    then show ?thesis
      using w False fresh by (auto simp: st taskRecorded_def moveWorker_def set_update_other less_Suc_eq)
  qed
  ultimately show ?thesis
    using inv by (simp add: poolInv_def recordedBytes_def st moveWorker_def)
qed

text \<open>Whether a result is too large to be kept.\<close>

definition tooLarge :: "'a PoolContext \<Rightarrow> nat \<Rightarrow> 'a PoolState \<Rightarrow> bool" where
  "tooLarge ctx bytes st \<longleftrightarrow>
     pc_limits ctx MaximumResultBytes < bytes \<or> pc_limits ctx MaximumTotalResultBytes < ps_retainedResultBytes st + bytes"

definition keepResult :: "'a PoolContext \<Rightarrow> nat \<Rightarrow> 'a EffectiveContextResolution \<Rightarrow> 'a PoolState \<Rightarrow> 'a PoolState" where
  "keepResult ctx index r st =
     st\<lparr>ps_retainedResultBytes := ps_retainedResultBytes st + pc_jsonBytes ctx r,
        ps_resolutions := (ps_resolutions st)[index := Some r]\<rparr>"

lemma workerSettles_value:
  "workerSettles ctx w index outcome st =
     (case settledValue ctx (pc_tasks ctx ! index) outcome of
        Inl e \<Rightarrow> moveWorker w AtHead (recordFailure index e st)
      | Inr r \<Rightarrow> if tooLarge ctx (pc_jsonBytes ctx r) st then moveWorker w Returned (stopPool StopResource st)
               else moveWorker w AtHead (keepResult ctx index r st))"
  by (auto simp: workerSettles_def settledValue_def tooLarge_def keepResult_def Let_def split: ExecutorOutcome.splits)

lemma poolShape_released:
  assumes "poolShape ctx st" "w < length (ps_workers st)" "ps_workers st ! w = Awaits i"
    and "c = AtHead \<or> c = Returned \<and> ps_stopped st \<noteq> None"
  shows "poolShape ctx (moveWorker w c st)"
proof -
  have "Returned \<in> set ((ps_workers st)[w := c]) \<Longrightarrow> ps_stopped st = None \<Longrightarrow> Returned \<in> set (ps_workers st)"
    using assms(2-4) by (auto simp: set_update_other)
  then show ?thesis
    using assms by (auto simp: poolShape_def moveWorker_def awaits_released soleWorkers_released)
qed

lemma poolShape_other: "poolShape ctx st \<Longrightarrow> poolShape ctx (recordFailure i e st)"
  "poolShape ctx st \<Longrightarrow> poolShape ctx (keepResult ctx i r st)" "poolShape ctx st \<Longrightarrow> poolShape ctx (stopPool reason st)"
  by (auto simp: poolShape_def recordFailure_def keepResult_def stopPool_def)

lemma recordedBytes_keep:
  assumes "i < n" "length (ps_resolutions st) = n" "ps_resolutions st ! i = None"
  shows "(\<Sum>j<n. recordedBytes ctx (keepResult ctx i r st) j) = (\<Sum>j<n. recordedBytes ctx st j) + pc_jsonBytes ctx r"
proof -
  have "recordedBytes ctx (keepResult ctx i r st) j = recordedBytes ctx st j + (if j = i then pc_jsonBytes ctx r else 0)"
    if "j < n" for j
    using that assms by (auto simp: recordedBytes_def keepResult_def nth_list_update)
  then have "(\<Sum>j<n. recordedBytes ctx (keepResult ctx i r st) j) =
      (\<Sum>j<n. recordedBytes ctx st j + (if j = i then pc_jsonBytes ctx r else 0))"
    by simp
  also have "\<dots> = (\<Sum>j<n. recordedBytes ctx st j) + pc_jsonBytes ctx r"
    using assms(1) by (simp add: sum.distrib)
  finally show ?thesis .
qed

lemma poolInv_settle:
  assumes inv: "poolInv ctx executes st" and w: "w < length (ps_workers st)" "ps_workers st ! w = Awaits i"
    and run: "executes (pc_tasks ctx ! i) outcome"
  shows "poolInv ctx executes (workerSettles ctx w i outcome st)"
proof -
  let ?n = "length (pc_tasks ctx)"
  have shape: "poolShape ctx st" and recorded: "\<And>j. j < ?n \<Longrightarrow> taskRecorded ctx executes st j"
    and bytes: "ps_retainedResultBytes st = (\<Sum>j<?n. recordedBytes ctx st j)"
      "ps_retainedResultBytes st \<le> pc_limits ctx MaximumTotalResultBytes"
    using inv by (auto simp: poolInv_def)
  have i: "i \<in> awaited st"
    using w nth_mem by fastforce
  then have below: "i < ps_nextIndex st" "i < ?n"
    using shape by (auto simp: poolShape_def)
  have none: "ps_resolutions st ! i = None" "ps_failures st ! i = None"
    using recorded [OF below(2)] i by (auto simp: taskRecorded_def)
  have lengths: "length (ps_resolutions st) = ?n" "length (ps_failures st) = ?n" "soleWorkers (ps_workers st)"
    using shape by (auto simp: poolShape_def)
  note released = awaits_released [OF w lengths(3)]
  show ?thesis
  proof (cases "settledValue ctx (pc_tasks ctx ! i) outcome")
    case (Inl e)
    have "taskRecorded ctx executes (moveWorker w AtHead (recordFailure i e st)) j" if "j < ?n" for j
      using recorded [OF that] below none run Inl lengths
      by (auto simp: taskRecorded_def moveWorker_def recordFailure_def released nth_list_update)
    then show ?thesis
      using Inl w bytes shape
      by (auto simp: workerSettles_value poolInv_def poolShape_other intro!: poolShape_released)
        (simp_all add: recordedBytes_def recordFailure_def moveWorker_def)
  next
    case (Inr r)
    show ?thesis
    proof (cases "tooLarge ctx (pc_jsonBytes ctx r) st")
      case True
      have stopped: "ps_stopped (stopPool StopResource st) \<noteq> None"
        by (simp add: stopPool_def)
      have "taskRecorded ctx executes (moveWorker w Returned (stopPool StopResource st)) j" if "j < ?n" for j
        using recorded [OF that] none by (auto simp: taskRecorded_def moveWorker_def stopPool_def released)
      moreover have "poolShape ctx (moveWorker w Returned (stopPool StopResource st))"
        using poolShape_released [OF poolShape_other(3) [OF shape], where w = w and i = i and c = Returned] w stopped
        by (simp add: stopPool_def)
      ultimately show ?thesis
        using Inr True bytes
        by (simp add: workerSettles_value poolInv_def) (simp add: recordedBytes_def moveWorker_def stopPool_def)
    next
      case False
      have "taskRecorded ctx executes (moveWorker w AtHead (keepResult ctx i r st)) j" if "j < ?n" for j
        using recorded [OF that] below none run Inr lengths False
        by (auto simp: taskRecorded_def moveWorker_def keepResult_def released nth_list_update tooLarge_def)
      moreover have "poolShape ctx (moveWorker w AtHead (keepResult ctx i r st))"
        using poolShape_released [OF poolShape_other(2) [OF shape], where w = w and i = i and c = AtHead] w by (simp add: keepResult_def)
      moreover have "(\<Sum>j<?n. recordedBytes ctx (moveWorker w AtHead (keepResult ctx i r st)) j) =
          ps_retainedResultBytes st + pc_jsonBytes ctx r"
        using recordedBytes_keep [OF below(2) lengths(1) none(1)] bytes by (simp add: recordedBytes_def moveWorker_def)
      ultimately show ?thesis
        using Inr False by (simp add: workerSettles_value poolInv_def) (simp add: moveWorker_def keepResult_def tooLarge_def)
    qed
  qed
qed

lemma poolInv_step: "poolStep ctx executes st st' \<Longrightarrow> poolInv ctx executes st \<Longrightarrow> poolInv ctx executes st'"
  by (induction rule: poolStep.induct) (simp_all add: poolInv_head poolInv_settle poolInv_stop)

lemma poolInv_reachable: "(poolStep ctx executes)\<^sup>*\<^sup>* (initialPool ctx) st \<Longrightarrow> poolInv ctx executes st"
  by (induction rule: rtranclp_induct) (auto intro: poolInv_initial poolInv_step)

subsection \<open>The sequential reference\<close>

text \<open>
  The result of running the executors one after the other, in the order of the tasks, when each has one outcome:
  an error if a result or all results together are too large, else an error with the tasks of invalid results,
  else one with the tasks that threw, else the entries of all tasks.
\<close>

definition resultBytes :: "'a PoolContext \<Rightarrow> (ResolutionTask \<Rightarrow> 'a ExecutorOutcome) \<Rightarrow> ResolutionTask \<Rightarrow> nat" where
  "resultBytes ctx run task = (case settledValue ctx task (run task) of Inl _ \<Rightarrow> 0 | Inr r \<Rightarrow> pc_jsonBytes ctx r)"

definition resultsTooLarge :: "'a PoolContext \<Rightarrow> (ResolutionTask \<Rightarrow> 'a ExecutorOutcome) \<Rightarrow> bool" where
  "resultsTooLarge ctx run \<longleftrightarrow>
     (\<exists>task\<in>set (pc_tasks ctx). pc_limits ctx MaximumResultBytes < resultBytes ctx run task) \<or>
     pc_limits ctx MaximumTotalResultBytes < sum_list (map (resultBytes ctx run) (pc_tasks ctx))"

definition failureOf :: "'a PoolContext \<Rightarrow> (ResolutionTask \<Rightarrow> 'a ExecutorOutcome) \<Rightarrow> ResolutionTask \<Rightarrow> TaskFailure option" where
  "failureOf ctx run task = (case settledValue ctx task (run task) of Inl e \<Rightarrow> Some e | Inr _ \<Rightarrow> None)"

definition entryOf ::
  "'a PoolContext \<Rightarrow> (ResolutionTask \<Rightarrow> 'a ExecutorOutcome) \<Rightarrow> ResolutionTask \<Rightarrow> 'a BoundedResolutionEntry" where
  "entryOf ctx run task = \<lparr>be_resolution = projr (settledValue ctx task (run task)), be_taskId = rt_id task\<rparr>"

definition sequentialResolution ::
  "'a PoolContext \<Rightarrow> (ResolutionTask \<Rightarrow> 'a ExecutorOutcome) \<Rightarrow> BoundedResolutionError + 'a BoundedResolutionEntry list" where
  "sequentialResolution ctx run =
     (let failures = map (failureOf ctx run) (pc_tasks ctx) in
      if resultsTooLarge ctx run then Inl (ResolutionResourceLimit, [])
      else if failureIndexes InvalidResult failures \<noteq> [] then
        Inl (ResolutionInvalidRelationship, failureIndexes InvalidResult failures)
      else if failureIndexes ExecutionFailure failures \<noteq> [] then
        Inl (ResolutionTaskFailed, failureIndexes ExecutionFailure failures)
      else Inr (map (entryOf ctx run) (pc_tasks ctx)))"

lemma failureIndexes_none:
  assumes "failureIndexes InvalidResult failures = []" "failureIndexes ExecutionFailure failures = []"
  shows "\<forall>f\<in>set failures. f = None"
proof
  fix f
  assume "f \<in> set failures"
  then obtain i where i: "i < length failures" "failures ! i = f"
    by (auto simp: in_set_conv_nth)
  then have "failures ! i \<noteq> Some e" for e
    using assms by (cases e) (auto simp: failureIndexes_def filter_empty_conv)
  with i show "f = None"
    by (cases f) auto
qed

lemma resolutionEntries_all:
  "resolutionEntries index tasks (map (\<lambda>task. Some (g task)) tasks) =
     Inr (map (\<lambda>task. \<lparr>be_resolution = g task, be_taskId = rt_id task\<rparr>) tasks)"
  by (induction tasks arbitrary: index) simp_all

text \<open>Recorded bytes are bytes of the reference.\<close>

lemma recordedBytes_le:
  assumes "taskRecorded ctx executes st i" "\<And>task outcome. executes task outcome \<Longrightarrow> outcome = run task"
  shows "recordedBytes ctx st i \<le> resultBytes ctx run (pc_tasks ctx ! i)"
proof (cases "ps_resolutions st ! i")
  case (Some r)
  then obtain outcome where "executes (pc_tasks ctx ! i) outcome" "settledValue ctx (pc_tasks ctx ! i) outcome = Inr r"
    using assms(1) unfolding taskRecorded_def by (elim conjE) metis
  then show ?thesis
    using assms(2) Some by (auto simp: recordedBytes_def resultBytes_def)
qed (simp add: recordedBytes_def)

lemma sum_resultBytes: "sum_list (map (resultBytes ctx run) (pc_tasks ctx)) = (\<Sum>i<length (pc_tasks ctx). resultBytes ctx run (pc_tasks ctx ! i))"
  by (simp add: sum_list_sum_nth atLeast0LessThan)

text \<open>A pool that stopped for its results has seen results that are too large.\<close>

lemma tooLarge_results:
  assumes inv: "poolInv ctx executes st" and w: "w < length (ps_workers st)" "ps_workers st ! w = Awaits i"
    and deterministic: "\<And>task outcome. executes task outcome \<Longrightarrow> outcome = run task"
    and settled: "settledValue ctx (pc_tasks ctx ! i) (run (pc_tasks ctx ! i)) = Inr r"
    and large: "tooLarge ctx (pc_jsonBytes ctx r) st"
  shows "resultsTooLarge ctx run"
proof -
  let ?n = "length (pc_tasks ctx)"
  have i: "i \<in> awaited st"
    using w nth_mem by fastforce
  then have n: "i < ?n"
    using inv by (auto simp: poolInv_def poolShape_def)
  have weight: "resultBytes ctx run (pc_tasks ctx ! i) = pc_jsonBytes ctx r"
    using settled by (simp add: resultBytes_def)
  have "recordedBytes ctx st i = 0"
    using inv i n by (auto simp: poolInv_def taskRecorded_def recordedBytes_def)
  then have "ps_retainedResultBytes st = (\<Sum>j\<in>{..<?n} - {i}. recordedBytes ctx st j)"
    using inv n by (simp add: poolInv_def sum.remove [of _ i])
  also have "\<dots> \<le> (\<Sum>j\<in>{..<?n} - {i}. resultBytes ctx run (pc_tasks ctx ! j))"
    using inv by (intro sum_mono recordedBytes_le [OF _ deterministic]) (auto simp: poolInv_def)
  finally have "ps_retainedResultBytes st + pc_jsonBytes ctx r \<le> sum_list (map (resultBytes ctx run) (pc_tasks ctx))"
    using n weight by (simp add: sum_resultBytes sum.remove [of _ i])
  then show ?thesis
    using large weight n unfolding tooLarge_def resultsTooLarge_def by (metis nth_mem order_less_le_trans)
qed

lemma stopped_for_results:
  assumes "(poolStep ctx executes)\<^sup>*\<^sup>* (initialPool ctx) st" "ps_stopped st = Some StopResource"
    and deterministic: "\<And>task outcome. executes task outcome \<Longrightarrow> outcome = run task"
  shows "resultsTooLarge ctx run"
  using assms(1,2)
proof (induction rule: rtranclp_induct)
  case base
  then show ?case
    by (simp add: initialPool_def)
next
  case (step st st')
  have inv: "poolInv ctx executes st"
    by (rule poolInv_reachable [OF step.hyps(1)])
  have "ps_stopped st = Some StopResource \<or> resultsTooLarge ctx run"
    using step.hyps(2) step.prems inv
  proof (induction rule: poolStep.cases)
    case (settle w st index outcome)
    then have run: "outcome = run (pc_tasks ctx ! index)"
      by (intro deterministic) simp
    show ?case
    proof (cases "settledValue ctx (pc_tasks ctx ! index) outcome")
      case (Inr r)
      then show ?thesis
        using settle run tooLarge_results [OF _ _ _ deterministic, where st = st and w = w and i = index and r = r]
        by (auto simp: workerSettles_value moveWorker_def stopPool_def keepResult_def split: if_splits)
    qed (use settle in \<open>auto simp: workerSettles_value moveWorker_def recordFailure_def\<close>)
  qed (auto simp: workerHead_def moveWorker_def stopPool_def split: if_splits)
  then show ?case
    using step.IH by blast
qed

text \<open>A pool whose workers have all returned without a stop has recorded every task.\<close>

lemma pool_finished:
  assumes inv: "poolInv ctx executes st" and settled: "poolSettled st" "ps_stopped st = None"
    and workers: "0 < min (pc_limits ctx MaximumConcurrency) (length (pc_tasks ctx))"
    and deterministic: "\<And>task outcome. executes task outcome \<Longrightarrow> outcome = run task"
    and i: "i < length (pc_tasks ctx)"
  shows "ps_failures st ! i = failureOf ctx run (pc_tasks ctx ! i)"
    "ps_resolutions st ! i = (case settledValue ctx (pc_tasks ctx ! i) (run (pc_tasks ctx ! i)) of Inl _ \<Rightarrow> None | Inr r \<Rightarrow> Some r)"
proof -
  have returned: "\<forall>worker\<in>set (ps_workers st). worker = Returned"
    using settled by (simp add: poolSettled_def)
  have "0 < length (ps_workers st)"
    using inv workers unfolding poolInv_def poolShape_def by (elim conjE) (simp only:)
  then have "Returned \<in> set (ps_workers st)"
    using returned by (cases "ps_workers st") auto
  then have all: "ps_nextIndex st = length (pc_tasks ctx)"
    using inv settled(2) by (auto simp: poolInv_def poolShape_def)
  have rec: "taskRecorded ctx executes st i"
    using inv i by (simp add: poolInv_def)
  have none: "i \<notin> awaited st"
    using returned by auto
  consider r where "ps_resolutions st ! i = Some r" | e where "ps_resolutions st ! i = None" "ps_failures st ! i = Some e"
    using rec none all i settled(2) unfolding taskRecorded_def by auto
  then have "ps_failures st ! i = failureOf ctx run (pc_tasks ctx ! i) \<and>
    ps_resolutions st ! i = (case settledValue ctx (pc_tasks ctx ! i) (run (pc_tasks ctx ! i)) of Inl _ \<Rightarrow> None | Inr r \<Rightarrow> Some r)"
  proof cases
    case (1 r)
    then obtain outcome where "executes (pc_tasks ctx ! i) outcome" "settledValue ctx (pc_tasks ctx ! i) outcome = Inr r"
      "ps_failures st ! i = None"
      using rec unfolding taskRecorded_def by auto
    then show ?thesis
      using 1 deterministic by (auto simp: failureOf_def)
  next
    case (2 e)
    then obtain outcome where "executes (pc_tasks ctx ! i) outcome" "settledValue ctx (pc_tasks ctx ! i) outcome = Inl e"
      using rec unfolding taskRecorded_def by auto
    then show ?thesis
      using 2 deterministic by (auto simp: failureOf_def)
  qed
  then show "ps_failures st ! i = failureOf ctx run (pc_tasks ctx ! i)"
    "ps_resolutions st ! i = (case settledValue ctx (pc_tasks ctx ! i) (run (pc_tasks ctx ! i)) of Inl _ \<Rightarrow> None | Inr r \<Rightarrow> Some r)"
    by auto
qed

lemma finished_fits:
  assumes inv: "poolInv ctx executes st"
    and same: "\<And>i. i < length (pc_tasks ctx) \<Longrightarrow>
      ps_resolutions st ! i = (case settledValue ctx (pc_tasks ctx ! i) (run (pc_tasks ctx ! i)) of Inl _ \<Rightarrow> None | Inr r \<Rightarrow> Some r)"
  shows "\<not> resultsTooLarge ctx run"
proof -
  have bytes: "recordedBytes ctx st i = resultBytes ctx run (pc_tasks ctx ! i)" if "i < length (pc_tasks ctx)" for i
    using same [OF that] by (auto simp: recordedBytes_def resultBytes_def split: sum.splits)
  then have "sum_list (map (resultBytes ctx run) (pc_tasks ctx)) \<le> pc_limits ctx MaximumTotalResultBytes"
    using inv by (simp add: sum_resultBytes poolInv_def)
  moreover have "resultBytes ctx run (pc_tasks ctx ! i) \<le> pc_limits ctx MaximumResultBytes" if "i < length (pc_tasks ctx)" for i
    using inv that same [OF that]
    by (auto simp: poolInv_def taskRecorded_def resultBytes_def split: sum.splits)
  ultimately show ?thesis
    by (auto simp: resultsTooLarge_def in_set_conv_nth not_less)
qed

lemma poolResult_finished:
  assumes inv: "poolInv ctx executes st" and settled: "poolSettled st" "ps_stopped st = None"
    and workers: "0 < min (pc_limits ctx MaximumConcurrency) (length (pc_tasks ctx))"
    and deterministic: "\<And>task outcome. executes task outcome \<Longrightarrow> outcome = run task"
  shows "poolResult ctx isAborted st = Inl (ResolutionCancelled, []) \<or> poolResult ctx isAborted st = sequentialResolution ctx run"
proof -
  note finished = pool_finished [OF assms]
  let ?failures = "map (failureOf ctx run) (pc_tasks ctx)"
  let ?settledAs = "\<lambda>task. settledValue ctx task (run task)"
  have lengths: "length (ps_failures st) = length (pc_tasks ctx)" "length (ps_resolutions st) = length (pc_tasks ctx)"
    using inv by (auto simp: poolInv_def poolShape_def)
  have failures: "ps_failures st = ?failures"
    using lengths finished(1) by (intro nth_equalityI) auto
  have resolutions: "ps_resolutions st = map (\<lambda>task. case ?settledAs task of Inl _ \<Rightarrow> None | Inr r \<Rightarrow> Some r) (pc_tasks ctx)"
    using lengths finished(2) by (intro nth_equalityI) auto
  have fits: "\<not> resultsTooLarge ctx run"
    by (rule finished_fits [OF inv finished(2)])
  show ?thesis
  proof (cases "failureIndexes InvalidResult ?failures = [] \<and> failureIndexes ExecutionFailure ?failures = []")
    case True
    then have "\<exists>r. ?settledAs task = Inr r" if "task \<in> set (pc_tasks ctx)" for task
      using that failureIndexes_none [of ?failures] by (cases "?settledAs task") (auto simp: failureOf_def split: sum.splits)
    then have "ps_resolutions st = map (\<lambda>task. Some (projr (?settledAs task))) (pc_tasks ctx)"
      unfolding resolutions by (intro map_cong refl) (force split: sum.splits)
    then show ?thesis
      using True fits settled(2) resolutionEntries_all [of 0 "pc_tasks ctx" "\<lambda>task. projr (?settledAs task)"]
      by (auto simp: poolResult_def sequentialResolution_def failures entryOf_def fun_eq_iff)
  next
    case False
    then show ?thesis
      using fits settled(2) by (auto simp: poolResult_def sequentialResolution_def failures)
  qed
qed

lemma poolResult_reference:
  assumes run: "(poolStep ctx executes)\<^sup>*\<^sup>* (initialPool ctx) st" "poolSettled st"
    and workers: "0 < min (pc_limits ctx MaximumConcurrency) (length (pc_tasks ctx))"
    and deterministic: "\<And>task outcome. executes task outcome \<Longrightarrow> outcome = run task"
  shows "poolResult ctx isAborted st \<in>
    {Inl (ResolutionCancelled, []), Inl (ResolutionDeadlineExceeded, []), sequentialResolution ctx run}"
proof (cases "ps_stopped st")
  case None
  then show ?thesis
    using poolResult_finished [where run = run and isAborted = isAborted, OF poolInv_reachable [OF run(1)] run(2) None workers deterministic] by auto
next
  case (Some reason)
  then show ?thesis
    using stopped_for_results [where run = run, OF run(1) _ deterministic]
    by (cases reason) (simp_all add: poolResult_def sequentialResolution_def)
qed

subsection \<open>Preparation\<close>

lemma selectLimits_positive:
  "selectLimits given names selected = Inr limits \<Longrightarrow> (\<And>name. 0 < selected name) \<Longrightarrow> 0 < limits name"
proof (induction given names selected rule: selectLimits.induct)
  case (2 given name' names selected)
  then show ?case
    by (cases "given name'") (auto simp: result_simps fun_upd_def)
qed simp

lemma default_limits_positive: "0 < BOUNDED_RESOLUTION_DEFAULT_LIMITS name"
  by (cases name) simp_all

lemma normalizeDescriptor_Inr:
  "normalizeDescriptor limit task = Inr normalized \<Longrightarrow> normalized = task \<and> hasWellFormedUnicode (rt_id task)"
  by (auto simp: normalizeDescriptor_def wellFormedText_def Let_def result_simps)

lemma collectTasks_Inr:
  assumes "collectTasks limit tasks accepted = Inr all" "distinct (map rt_id accepted)"
    and "\<forall>task\<in>set accepted. hasWellFormedUnicode (rt_id task)"
  shows "all = accepted @ tasks \<and> distinct (map rt_id all) \<and> (\<forall>task\<in>set all. hasWellFormedUnicode (rt_id task))"
  using assms
proof (induction limit tasks accepted rule: collectTasks.induct)
  case (2 limit task rest accepted)
  then show ?case
    using normalizeDescriptor_Inr [of limit task] by (auto simp: result_simps)
qed simp

lemma prepareResolution_Inr:
  assumes "prepareResolution signal options tasks = Inr prepared"
  shows "snd prepared = sortOn taskSortKey tasks" "distinct (map rt_id tasks)"
    "\<forall>task\<in>set tasks. hasWellFormedUnicode (rt_id task)" "0 < fst prepared name"
proof -
  obtain limits all where limits: "selectLimits options BOUNDED_LIMIT_KEYS BOUNDED_RESOLUTION_DEFAULT_LIMITS = Inr limits"
    and all: "collectTasks (limits MaximumTaskIdBytes) tasks [] = Inr all" "prepared = (limits, sortOn taskSortKey all)"
    using assms by (auto simp: prepareResolution_def normalizeOptions_def normalizeTasks_def result_simps)
  then show "snd prepared = sortOn taskSortKey tasks" "distinct (map rt_id tasks)"
    "\<forall>task\<in>set tasks. hasWellFormedUnicode (rt_id task)"
    using collectTasks_Inr [OF all(1)] by auto
  show "0 < fst prepared name"
    using selectLimits_positive [OF limits default_limits_positive] all(2) by simp
qed

lemma sorted_tasks_unique:
  assumes "mset tasks = mset tasks'" "distinct (map rt_id tasks)"
    and "\<forall>task\<in>set tasks. hasWellFormedUnicode (rt_id task) \<and> is_jstring (rt_id task)"
  shows "sortOn taskSortKey tasks = sortOn taskSortKey tasks'"
proof -
  have "inj_on taskSortKey (set tasks)"
  proof (rule inj_onI)
    fix t t'
    assume t: "t \<in> set tasks" "t' \<in> set tasks" "taskSortKey t = taskSortKey t'"
    have "utf8 (rt_id t) = utf8 (rt_id t')"
      using t(3) by (simp add: taskSortKey_def)
    then have "rt_id t = rt_id t'"
      using bspec [OF assms(3) t(1)] bspec [OF assms(3) t(2)] by (elim conjE) (erule (4) utf8_injective)
    then show "t = t'"
      using assms(2) t(1,2) by (auto simp: distinct_map inj_on_def)
  qed
  then show ?thesis
    unfolding sortOn_def using assms(1) by (intro sort_key_inj_key_eq) auto
qed

lemma resolution_reference:
  assumes "resolveEffectiveContextsBounded issued jsonBytes executes signal options tasks r"
    and "prepareResolution signal options tasks = Inr prepared"
    and "\<And>task outcome. executes task outcome \<Longrightarrow> outcome = run task"
  shows "r = Inl (ResolutionCancelled, []) \<or> r = Inl (ResolutionDeadlineExceeded, []) \<or>
    r = sequentialResolution (poolContext issued jsonBytes signal prepared) run"
  using assms(1)
proof (cases rule: resolveEffectiveContextsBounded.cases)
  case (refused e)
  then show ?thesis
    using assms(2) by simp
next
  case (no_tasks limits)
  then show ?thesis
    using assms(2)
    by (auto simp: sequentialResolution_def poolContext_def resultsTooLarge_def failureIndexes_def)
next
  case (pooled prepared' ctx st isAborted)
  then have ctx: "ctx = poolContext issued jsonBytes signal prepared"
    using assms(2) by simp
  have "0 < min (pc_limits ctx MaximumConcurrency) (length (pc_tasks ctx))"
    using pooled(2,3) assms(2) prepareResolution_Inr(4) [OF assms(2), of MaximumConcurrency] ctx
    by (simp add: poolContext_def)
  then show ?thesis
    using poolResult_reference [where run = run and isAborted = isAborted, OF pooled(5,6) _ assms(3)] pooled(1) ctx
    by auto
qed

lemma sequentialResolution_Inr:
  "sequentialResolution (poolContext issued jsonBytes signal prepared) run = Inr entries \<Longrightarrow>
   entries = map (\<lambda>task. \<lparr>be_resolution = projr (settledValue (poolContext issued jsonBytes signal prepared) task (run task)),
     be_taskId = rt_id task\<rparr>) (snd prepared)"
  by (auto simp: sequentialResolution_def Let_def entryOf_def poolContext_def split: if_splits)

lemma settledValue_context:
  "settledValue (poolContext issued jsonBytes signal prepared) = settledValue (poolContext issued jsonBytes signal' prepared')"
  by (auto simp: fun_eq_iff settledValue_def poolContext_def split: ExecutorOutcome.splits)

lemma resolution_success:
  assumes "resolveEffectiveContextsBounded issued jsonBytes executes signal options tasks (Inr entries)"
    and "\<And>task outcome. executes task outcome \<Longrightarrow> outcome = run task"
  obtains prepared where "prepareResolution signal options tasks = Inr prepared"
    "entries = map (\<lambda>task. \<lparr>be_resolution = projr (settledValue (poolContext issued jsonBytes signal prepared) task (run task)),
       be_taskId = rt_id task\<rparr>) (sortOn taskSortKey tasks)"
proof -
  obtain prepared where prepared: "prepareResolution signal options tasks = Inr prepared"
    using assms(1) by (cases rule: resolveEffectiveContextsBounded.cases) auto
  have "sequentialResolution (poolContext issued jsonBytes signal prepared) run = Inr entries"
    using resolution_reference [where run = run, OF assms(1) prepared assms(2)] by auto
  from sequentialResolution_Inr [OF this] show ?thesis
    unfolding prepareResolution_Inr(1) [OF prepared] by (rule that [OF prepared])
qed

subsection \<open>Progress\<close>

text \<open>The steps of the workers alone.\<close>

inductive workerStep ::
  "'a PoolContext \<Rightarrow> (ResolutionTask \<Rightarrow> 'a ExecutorOutcome \<Rightarrow> bool) \<Rightarrow> 'a PoolState \<Rightarrow> 'a PoolState \<Rightarrow> bool"
  for ctx :: "'a PoolContext" and executes :: "ResolutionTask \<Rightarrow> 'a ExecutorOutcome \<Rightarrow> bool" where
  atHead: "\<lbrakk>w < length (ps_workers st); ps_workers st ! w = AtHead\<rbrakk> \<Longrightarrow> workerStep ctx executes st (workerHead ctx w st)"
| settles: "\<lbrakk>w < length (ps_workers st); ps_workers st ! w = Awaits index; executes (pc_tasks ctx ! index) outcome\<rbrakk> \<Longrightarrow>
    workerStep ctx executes st (workerSettles ctx w index outcome st)"

lemma workerStep_poolStep: "workerStep ctx executes st st' \<Longrightarrow> poolStep ctx executes st st'"
  by (induction rule: workerStep.induct) (auto intro: poolStep.intros)

lemma workerStep_exists:
  assumes "poolInv ctx executes st" "\<not> poolSettled st" "\<And>task. task \<in> set (pc_tasks ctx) \<Longrightarrow> \<exists>outcome. executes task outcome"
  shows "\<exists>st'. workerStep ctx executes st st'"
proof -
  obtain w where w: "w < length (ps_workers st)" "ps_workers st ! w \<noteq> Returned"
    using assms(2) by (auto simp: poolSettled_def in_set_conv_nth)
  show ?thesis
  proof (cases "ps_workers st ! w")
    case (Awaits i)
    then have "Awaits i \<in> set (ps_workers st)"
      using w(1) nth_mem by fastforce
    then have "i < length (pc_tasks ctx)"
      using assms(1) by (auto simp: poolInv_def poolShape_def)
    then obtain outcome where "executes (pc_tasks ctx ! i) outcome"
      using assms(3) nth_mem by blast
    then show ?thesis
      using settles [OF w(1) Awaits, of executes ctx] by blast
  qed (use w in \<open>auto intro: atHead\<close>)
qed

text \<open>How far a worker is from returning, and a bound on the steps the pool has left.\<close>

fun workerWeight :: "Worker \<Rightarrow> nat" where
  "workerWeight AtHead = 1"
| "workerWeight (Awaits index) = 2"
| "workerWeight Returned = 0"

definition stepsLeft :: "'a PoolContext \<Rightarrow> 'a PoolState \<Rightarrow> nat" where
  "stepsLeft ctx st = 2 * (length (pc_tasks ctx) - ps_nextIndex st) + sum_list (map workerWeight (ps_workers st))"

lemma workerWeight_update:
  assumes "w < length ws"
  shows "sum_list (map workerWeight (ws[w := c])) + workerWeight (ws ! w) = sum_list (map workerWeight ws) + workerWeight c"
  using assms elem_le_sum_list [of w "map workerWeight ws"]
  by (simp add: map_update sum_list_update)

lemma stepsLeft_decreases:
  assumes "workerStep ctx executes st st'" "poolInv ctx executes st"
  shows "stepsLeft ctx st' < stepsLeft ctx st"
  using assms
proof (induction rule: workerStep.induct)
  case (atHead w st)
  then show ?case
    using workerWeight_update [OF atHead(1), of Returned] workerWeight_update [OF atHead(1), of "Awaits (ps_nextIndex st)"]
    by (auto simp: stepsLeft_def workerHead_def moveWorker_def)
next
  case (settles w st index outcome)
  then show ?case
    using workerWeight_update [OF settles(1), of Returned] workerWeight_update [OF settles(1), of AtHead]
    by (auto simp: stepsLeft_def workerSettles_value moveWorker_def recordFailure_def keepResult_def stopPool_def
        split: sum.splits)
qed

lemma workerSteps_bounded:
  "(workerStep ctx executes ^^ k) st st' \<Longrightarrow> poolInv ctx executes st \<Longrightarrow> stepsLeft ctx st' + k \<le> stepsLeft ctx st"
proof (induction k arbitrary: st')
  case (Suc k)
  then obtain st1 where st1: "(workerStep ctx executes ^^ k) st st1" "workerStep ctx executes st1 st'"
    by auto
  have "poolInv ctx executes st1"
    using st1(1) Suc.prems(2)
  proof (induction k arbitrary: st1)
    case (Suc k)
    then show ?case
      by (auto intro: poolInv_step workerStep_poolStep)
  qed simp
  then show ?case
    using Suc.IH [OF st1(1) Suc.prems(2)] stepsLeft_decreases [OF st1(2)] by simp
qed simp

lemma stepsLeft_le:
  assumes "poolInv ctx executes st"
  shows "stepsLeft ctx st \<le> 4 * length (pc_tasks ctx)"
proof -
  have "sum_list (map workerWeight ws) \<le> 2 * length ws" for ws
  proof (induction ws)
    case (Cons w ws)
    then show ?case
      by (cases w) auto
  qed simp
  then have "sum_list (map workerWeight (ps_workers st)) \<le> 2 * length (ps_workers st)"
    by blast
  then show ?thesis
    using assms by (auto simp: stepsLeft_def poolInv_def poolShape_def)
qed

subsection \<open>Properties\<close>

text \<open>
  C6. Scheduling does not show: if each executor has one outcome, then under every interleaving of the workers, and
  for every concurrency, the call ends with an error about cancellation or the deadline, or with the result of
  running the tasks one after the other.
\<close>

theorem resolution_matches_reference:
  assumes "resolveEffectiveContextsBounded issued jsonBytes executes signal options tasks r"
    and "prepareResolution signal options tasks = Inr prepared"
    and "\<And>task outcome. executes task outcome \<Longrightarrow> outcome = run task"
  shows "r = Inl (ResolutionCancelled, []) \<or> r = Inl (ResolutionDeadlineExceeded, []) \<or>
    r = sequentialResolution (poolContext issued jsonBytes signal prepared) run"
  using resolution_reference [where run = run, OF assms] .

text \<open>
  C18. Neither the order in which the tasks are given nor the limits nor the interleaving show in a result: two calls
  that succeed on the same tasks return the same entries, one for each task, in the order of the sort key.
\<close>

theorem resolution_order_independent:
  assumes "resolveEffectiveContextsBounded issued jsonBytes executes signal options tasks (Inr entries)"
    and "resolveEffectiveContextsBounded issued jsonBytes executes signal' options' tasks' (Inr entries')"
    and "mset tasks = mset tasks'" "\<forall>task\<in>set tasks. is_jstring (rt_id task)"
    and "\<And>task outcome. executes task outcome \<Longrightarrow> outcome = run task"
  shows "entries = entries' \<and> map be_taskId entries = map rt_id (sortOn taskSortKey tasks)"
proof -
  obtain prepared where first: "prepareResolution signal options tasks = Inr prepared"
    "entries = map (\<lambda>task. \<lparr>be_resolution = projr (settledValue (poolContext issued jsonBytes signal prepared) task (run task)),
       be_taskId = rt_id task\<rparr>) (sortOn taskSortKey tasks)"
    by (rule resolution_success [where run = run, OF assms(1,5)])
  obtain prepared' where second: "prepareResolution signal' options' tasks' = Inr prepared'"
    "entries' = map (\<lambda>task. \<lparr>be_resolution = projr (settledValue (poolContext issued jsonBytes signal' prepared') task (run task)),
       be_taskId = rt_id task\<rparr>) (sortOn taskSortKey tasks')"
    by (rule resolution_success [where run = run, OF assms(2,5)])
  have "sortOn taskSortKey tasks = sortOn taskSortKey tasks'"
    using assms(4) prepareResolution_Inr(2,3) [OF first(1)] by (intro sorted_tasks_unique [OF assms(3)]) auto
  then show ?thesis
    unfolding first(2) second(2) settledValue_context [of issued jsonBytes signal prepared signal' prepared'] by simp
qed

text \<open>
  C17. In every state the pool can reach, at most as many tasks are being executed as the concurrency allows, each by
  one worker; a task that is being executed or waits has no record, and after that it has a result or a failure
  unless the pool was stopped; and the retained bytes are those of the recorded results and stay within the limit.
\<close>

theorem pool_invariant:
  assumes "(poolStep ctx executes)\<^sup>*\<^sup>* (initialPool ctx) st"
  shows "card (awaited st) \<le> pc_limits ctx MaximumConcurrency \<and> soleWorkers (ps_workers st) \<and>
    (\<forall>i<length (pc_tasks ctx). taskRecorded ctx executes st i) \<and>
    ps_retainedResultBytes st = (\<Sum>i<length (pc_tasks ctx). recordedBytes ctx st i) \<and>
    ps_retainedResultBytes st \<le> pc_limits ctx MaximumTotalResultBytes"
proof -
  have "card (awaited st) = card (Awaits ` awaited st)"
    by (simp add: card_image inj_on_def)
  also have "\<dots> \<le> card (set (ps_workers st))"
    by (intro card_mono) auto
  also have "\<dots> \<le> length (ps_workers st)"
    by (rule card_length)
  finally show ?thesis
    using poolInv_reachable [OF assms] by (auto simp: poolInv_def poolShape_def)
qed

text \<open>
  C16. The pool neither hangs nor runs for ever: if every executor settles, then in every state it can reach either the
  call can return or a worker can make a step, and from there the workers make at most four steps per task.
\<close>

theorem resolution_completes:
  assumes "(poolStep ctx executes)\<^sup>*\<^sup>* (initialPool ctx) st"
    and "\<And>task. task \<in> set (pc_tasks ctx) \<Longrightarrow> \<exists>outcome. executes task outcome"
  shows "(poolSettled st \<or> (\<exists>st'. workerStep ctx executes st st')) \<and>
    (\<forall>k st'. (workerStep ctx executes ^^ k) st st' \<longrightarrow> k \<le> 4 * length (pc_tasks ctx))"
  using workerStep_exists [OF poolInv_reachable [OF assms(1)] _ assms(2)]
    workerSteps_bounded [OF _ poolInv_reachable [OF assms(1)]] stepsLeft_le [OF poolInv_reachable [OF assms(1)]]
  by (meson add_leE le_trans)

subsection \<open>Witnesses\<close>

definition sampleTask :: ResolutionTask where
  "sampleTask =
     \<lparr>rt_clientVersion = None, rt_id = js ''t'', rt_profileId = js ''claude-code'', rt_profileVersion = js ''1'',
      rt_specSnapshotId = js ''s'', rt_surfaceId = js ''cli'', rt_targetPath = js ''a''\<rparr>"

definition sampleResolution :: "unit EffectiveContextResolution" where
  "sampleResolution =
     \<lparr>er_clientVersion = None, er_profileId = js ''claude-code'', er_profileVersion = js ''1'',
      er_specSnapshotId = js ''s'', er_surfaceId = js ''cli'', er_targetPath = js ''a'', er_contents = ()\<rparr>"

definition sampleRun :: "ResolutionTask \<Rightarrow> unit ExecutorOutcome" where
  "sampleRun task = ExecutorReturns sampleResolution"

abbreviation sampleExecutes :: "ResolutionTask \<Rightarrow> unit ExecutorOutcome \<Rightarrow> bool" where
  "sampleExecutes task outcome \<equiv> outcome = sampleRun task"

abbreviation samplePrepared :: "(BoundedLimitName \<Rightarrow> nat) \<times> ResolutionTask list" where
  "samplePrepared \<equiv> (BOUNDED_RESOLUTION_DEFAULT_LIMITS, [sampleTask])"

abbreviation samplePool :: "unit PoolContext" where
  "samplePool \<equiv> poolContext (\<lambda>_. True) (\<lambda>_. 10) None samplePrepared"

lemma sample_prepare: "prepareResolution None (\<lambda>_. None) [sampleTask] = Inr samplePrepared"
  by (simp add: prepareResolution_def normalizeOptions_def BOUNDED_LIMIT_KEYS_def normalizeTasks_def sortOn_def
      normalizeDescriptor_def wellFormedText_def sampleTask_def js_def isControlUnit_def textBytes_def utf8_ascii
      CONFIGURATION_PROFILE_IDS_def path_eval unit_class checkR_def)

abbreviation sampleTaken :: "unit PoolState" where
  "sampleTaken \<equiv> workerHead samplePool 0 (initialPool samplePool)"

abbreviation sampleKept :: "unit PoolState" where
  "sampleKept \<equiv> workerSettles samplePool 0 0 (sampleRun sampleTask) sampleTaken"

abbreviation sampleDone :: "unit PoolState" where
  "sampleDone \<equiv> workerHead samplePool 0 sampleKept"

lemmas pool_eval = poolContext_def initialPool_def workerHead_def workerSettles_def moveWorker_def sampleRun_def
  sampleResolution_def sampleTask_def taskMatchesResult_def

lemma sample_states:
  "ps_workers (initialPool samplePool) = [AtHead]" "ps_workers sampleTaken = [Awaits 0]" "ps_workers sampleKept = [AtHead]"
  "ps_workers sampleDone = [Returned]" "pc_tasks samplePool = [sampleTask]"
  by (simp_all add: pool_eval)

lemma sample_steps: "(poolStep samplePool sampleExecutes)\<^sup>*\<^sup>* (initialPool samplePool) sampleDone"
proof -
  have "poolStep samplePool sampleExecutes (initialPool samplePool) sampleTaken"
    by (rule head) (simp_all add: sample_states)
  moreover have "poolStep samplePool sampleExecutes sampleTaken sampleKept"
    by (rule settle) (simp_all add: sample_states)
  moreover have "poolStep samplePool sampleExecutes sampleKept sampleDone"
    by (rule head) (simp_all add: sample_states)
  ultimately show ?thesis
    by (meson rtranclp.rtrancl_refl rtranclp.rtrancl_into_rtrancl)
qed

lemma sample_resolution:
  "resolveEffectiveContextsBounded (\<lambda>_. True) (\<lambda>_. 10) sampleExecutes None (\<lambda>_. None) [sampleTask]
     (Inr [\<lparr>be_resolution = sampleResolution, be_taskId = js ''t''\<rparr>])"
proof -
  have "poolResult samplePool False sampleDone = Inr [\<lparr>be_resolution = sampleResolution, be_taskId = js ''t''\<rparr>]"
    by (simp add: poolResult_def failureIndexes_def pool_eval)
  moreover have "poolSettled sampleDone"
    by (simp add: poolSettled_def sample_states)
  ultimately show ?thesis
    using pooled [OF sample_prepare _ refl sample_steps, of False] by simp
qed

theorem resolution_matches_reference_witness:
  "Inr [\<lparr>be_resolution = sampleResolution, be_taskId = js ''t''\<rparr>] = sequentialResolution samplePool sampleRun"
  using resolution_matches_reference [where run = sampleRun, OF sample_resolution sample_prepare] by simp

theorem resolution_order_independent_witness:
  "map be_taskId [\<lparr>be_resolution = sampleResolution, be_taskId = js ''t''\<rparr>] = map rt_id (sortOn taskSortKey [sampleTask])"
  using resolution_order_independent [where run = sampleRun, OF sample_resolution sample_resolution refl]
  by (simp add: sampleTask_def js_def is_jstring_def)

theorem pool_invariant_witness: "card (awaited sampleDone) \<le> 8 \<and> soleWorkers (ps_workers sampleDone)"
  using pool_invariant [OF sample_steps] by (simp add: poolContext_def)

theorem resolution_completes_witness:
  "(\<exists>st'. workerStep samplePool sampleExecutes (initialPool samplePool) st') \<and>
    \<not> (workerStep samplePool sampleExecutes ^^ 5) (initialPool samplePool) sampleDone"
proof -
  have "\<not> poolSettled (initialPool samplePool)"
    by (simp add: poolSettled_def sample_states) (simp add: initialPool_def)
  then show ?thesis
    using resolution_completes [OF rtranclp.rtrancl_refl, of samplePool sampleExecutes] by (fastforce simp: sample_states)
qed

end
