(* ===== verification/Duplication_Index.thy ===== *)
theory Duplication_Index
  imports Markdown Output_Text
begin

text \<open>
  The duplication index (\<open>packages/evidence/src/duplication-index.ts\<close>): it groups statements with the same
  normalized text, compares the remaining texts by the Jaccard similarity of their shingles, where only texts
  that share a rare shingle are compared, and joins similar texts to clusters with a union-find forest.

  Parameters of the model: \<open>sha256\<close> is the hexadecimal digest of bytes, \<open>normalizeNFC\<close> and \<open>toLowerCase\<close> are the
  Unicode operations of the language. The loops of \<open>find\<close> are partial functions; \<open>DuplicationDiverges\<close> stands for a
  loop that does not end and \<open>DuplicationInternal\<close> for the internal errors of the source, and
  \<open>Duplication_Index_Props\<close> proves that neither happens. Checks on untyped values (plain records, dense arrays)
  have no counterpart.
\<close>

subsection \<open>Data\<close>

record DuplicationIndexEntry =
  de_documentId :: jstring
  de_nodeIds :: "jstring list"
  de_normalizedText :: jstring
  de_range :: SourceRange
  de_statementId :: jstring

datatype DuplicationLimitName =
    MaximumAnchorsPerEntry | MaximumCandidateComparisons | MaximumClusterMembers | MaximumEntries
  | MaximumNodeIdsPerEntry | MaximumNormalizedTextLength | MaximumPostingLength | MaximumShinglesPerEntry
  | MaximumTotalNormalizedTextLength | MaximumTotalShingleOccurrences | MinimumNearDuplicateCodePoints
  | MinimumSimilarityBasisPoints

type_synonym DuplicationIndexLimits = "DuplicationLimitName \<Rightarrow> nat"

fun DUPLICATION_INDEX_DEFAULT_LIMITS :: DuplicationIndexLimits where
  "DUPLICATION_INDEX_DEFAULT_LIMITS MaximumAnchorsPerEntry = 16"
| "DUPLICATION_INDEX_DEFAULT_LIMITS MaximumCandidateComparisons = 2000000"
| "DUPLICATION_INDEX_DEFAULT_LIMITS MaximumClusterMembers = 100000"
| "DUPLICATION_INDEX_DEFAULT_LIMITS MaximumEntries = 100000"
| "DUPLICATION_INDEX_DEFAULT_LIMITS MaximumNodeIdsPerEntry = 4096"
| "DUPLICATION_INDEX_DEFAULT_LIMITS MaximumNormalizedTextLength = 65536"
| "DUPLICATION_INDEX_DEFAULT_LIMITS MaximumPostingLength = 1024"
| "DUPLICATION_INDEX_DEFAULT_LIMITS MaximumShinglesPerEntry = 4096"
| "DUPLICATION_INDEX_DEFAULT_LIMITS MaximumTotalNormalizedTextLength = 67108864"
| "DUPLICATION_INDEX_DEFAULT_LIMITS MaximumTotalShingleOccurrences = 2000000"
| "DUPLICATION_INDEX_DEFAULT_LIMITS MinimumNearDuplicateCodePoints = 12"
| "DUPLICATION_INDEX_DEFAULT_LIMITS MinimumSimilarityBasisPoints = 8000"

fun DUPLICATION_INDEX_HARD_LIMITS :: DuplicationIndexLimits where
  "DUPLICATION_INDEX_HARD_LIMITS MaximumAnchorsPerEntry = 128"
| "DUPLICATION_INDEX_HARD_LIMITS MaximumCandidateComparisons = 20000000"
| "DUPLICATION_INDEX_HARD_LIMITS MaximumClusterMembers = 1000000"
| "DUPLICATION_INDEX_HARD_LIMITS MaximumEntries = 1000000"
| "DUPLICATION_INDEX_HARD_LIMITS MaximumNodeIdsPerEntry = 65536"
| "DUPLICATION_INDEX_HARD_LIMITS MaximumNormalizedTextLength = 1048576"
| "DUPLICATION_INDEX_HARD_LIMITS MaximumPostingLength = 65536"
| "DUPLICATION_INDEX_HARD_LIMITS MaximumShinglesPerEntry = 65536"
| "DUPLICATION_INDEX_HARD_LIMITS MaximumTotalNormalizedTextLength = 536870912"
| "DUPLICATION_INDEX_HARD_LIMITS MaximumTotalShingleOccurrences = 20000000"
| "DUPLICATION_INDEX_HARD_LIMITS MinimumNearDuplicateCodePoints = 1024"
| "DUPLICATION_INDEX_HARD_LIMITS MinimumSimilarityBasisPoints = 10000"

record DuplicationEvidencePointer =
  ep_documentId :: jstring
  ep_nodeIds :: "jstring list"
  ep_range :: SourceRange
  ep_statementId :: jstring

record ExactDuplicationCluster =
  xc_id :: jstring
  xc_members :: "DuplicationEvidencePointer list"
  xc_normalizedTextSha256 :: jstring
  xc_similarityBasisPoints :: nat

record NearDuplicationEdge =
  ne_intersectionShingles :: nat
  ne_leftStatementId :: jstring
  ne_rightStatementId :: jstring
  ne_similarityBasisPoints :: nat
  ne_unionShingles :: nat

record NearDuplicationCluster =
  nc_edges :: "NearDuplicationEdge list"
  nc_id :: jstring
  nc_members :: "DuplicationEvidencePointer list"

datatype ExclusionReason = EmptyNormalizedText | NearTextTooShort

record DuplicationIndexExclusion =
  dx_evidence :: DuplicationEvidencePointer
  dx_reason :: ExclusionReason

record DuplicationIndexMetrics =
  dm_candidateComparisons :: nat
  dm_entryCount :: nat
  dm_exactClusterCount :: nat
  dm_exactDuplicateEntryCount :: nat
  dm_nearClusterCount :: nat
  dm_nearEdgeCount :: nat
  dm_totalNormalizedTextLength :: nat
  dm_totalShingleOccurrences :: nat
  dm_uniqueNormalizedTextCount :: nat

record DuplicationIndexResult =
  dr_exactClusters :: "ExactDuplicationCluster list"
  dr_exclusions :: "DuplicationIndexExclusion list"
  dr_limits :: DuplicationIndexLimits
  dr_metrics :: DuplicationIndexMetrics
  dr_nearClusters :: "NearDuplicationCluster list"

datatype DuplicationFailure =
    DuplicationInvalidInput
  | DuplicationInvalidOptions DuplicationLimitName
  | DuplicationLimitExceeded DuplicationLimitName
  | DuplicationInternal
  | DuplicationDiverges

text \<open>Statements with one normalized text, with its shingles.\<close>

record UniqueTextRecord =
  ur_members :: "DuplicationIndexEntry list"
  ur_normalizedText :: jstring
  ur_shingles :: "jstring list"

text \<open>An edge between two records, given by their positions.\<close>

record IndexedEdge =
  eg_left :: nat
  eg_right :: nat
  eg_value :: NearDuplicationEdge

subsection \<open>Options\<close>

definition DUPLICATION_LIMIT_KEYS :: "DuplicationLimitName list" where
  "DUPLICATION_LIMIT_KEYS =
     [MaximumAnchorsPerEntry, MaximumCandidateComparisons, MaximumClusterMembers, MaximumEntries,
      MaximumNodeIdsPerEntry, MaximumNormalizedTextLength, MaximumPostingLength, MaximumShinglesPerEntry,
      MaximumTotalNormalizedTextLength, MaximumTotalShingleOccurrences, MinimumNearDuplicateCodePoints,
      MinimumSimilarityBasisPoints]"

definition validateDuplicationLimit :: "int \<Rightarrow> DuplicationLimitName \<Rightarrow> DuplicationFailure + nat" where
  "validateDuplicationLimit v name =
     checkR (1 \<le> v \<and> v \<le> int (DUPLICATION_INDEX_HARD_LIMITS name)) (DuplicationInvalidOptions name) (Inr (nat v))"

fun validateDuplicationLimits ::
  "(DuplicationLimitName \<Rightarrow> int option) \<Rightarrow> DuplicationLimitName list \<Rightarrow> DuplicationIndexLimits \<Rightarrow>
   DuplicationFailure + DuplicationIndexLimits" where
  "validateDuplicationLimits given [] limits = Inr limits"
| "validateDuplicationLimits given (name # names) limits =
     bindR (validateDuplicationLimit
              (case given name of None \<Rightarrow> int (DUPLICATION_INDEX_DEFAULT_LIMITS name) | Some v \<Rightarrow> v) name) (\<lambda>n.
       validateDuplicationLimits given names (limits(name := n)))"

definition validateDuplicationOptions ::
  "(DuplicationLimitName \<Rightarrow> int option) \<Rightarrow> DuplicationFailure + DuplicationIndexLimits" where
  "validateDuplicationOptions given =
     validateDuplicationLimits given DUPLICATION_LIMIT_KEYS DUPLICATION_INDEX_DEFAULT_LIMITS"

subsection \<open>Entries\<close>

definition stableIdentifierR :: "jstring \<Rightarrow> DuplicationFailure + jstring" where
  "stableIdentifierR s = checkR (isStableIdentifier s) DuplicationInvalidInput (Inr s)"

definition validateRange :: "SourceRange \<Rightarrow> DuplicationFailure + SourceRange" where
  "validateRange rng =
     checkR (safePosition (sr_start rng) \<and> safePosition (sr_end rng)) DuplicationInvalidInput
     (checkR (forwardRange (sr_start rng) (sr_end rng)) DuplicationInvalidInput
     (checkR (isStableIdentifier (sr_sourceId rng)) DuplicationInvalidInput (Inr rng)))"

fun sortedIdentifiers :: "jstring \<Rightarrow> jstring list \<Rightarrow> DuplicationFailure + unit" where
  "sortedIdentifiers previous [] = Inr ()"
| "sortedIdentifiers previous (current # rest) =
     bindR (stableIdentifierR current) (\<lambda>_.
     checkR (previous < current) DuplicationInvalidInput (sortedIdentifiers current rest))"

definition denseNodeIds :: "nat \<Rightarrow> jstring list \<Rightarrow> DuplicationFailure + jstring list" where
  "denseNodeIds maximumNodeIdsPerEntry ids =
     checkR (ids \<noteq> []) DuplicationInvalidInput
     (checkR (length ids \<le> maximumNodeIdsPerEntry) (DuplicationLimitExceeded MaximumNodeIdsPerEntry)
     (bindR (sortedIdentifiers [] ids) (\<lambda>_. Inr ids)))"

definition trimText :: "jstring \<Rightarrow> jstring" where
  "trimText s = rev (trimStart (rev (trimStart s)))"

text \<open>\<open>/[\t\n\v\f\r\u0085\u00a0...\u3000]| {2}/u\<close>.\<close>

definition forbiddenSpace :: "nat \<Rightarrow> bool" where
  "forbiddenSpace u \<longleftrightarrow>
     (0x09 \<le> u \<and> u \<le> 0x0D) \<or> u = 0x85 \<or> u = 0xA0 \<or> u = 0x1680 \<or> (0x2000 \<le> u \<and> u \<le> 0x200A) \<or>
     u = 0x2028 \<or> u = 0x2029 \<or> u = 0x202F \<or> u = 0x205F \<or> u = 0x3000"

definition normalizedTextR ::
  "(jstring \<Rightarrow> jstring) \<Rightarrow> (jstring \<Rightarrow> jstring) \<Rightarrow> nat \<Rightarrow> jstring \<Rightarrow> DuplicationFailure + jstring" where
  "normalizedTextR normalizeNFC toLowerCase maximumLength s =
     checkR (length s \<le> maximumLength) (DuplicationLimitExceeded MaximumNormalizedTextLength)
     (checkR (hasWellFormedUnicode s) DuplicationInvalidInput
     (checkR (s = normalizeNFC s \<and> s = toLowerCase s \<and> s = trimText s \<and>
              (\<forall>u\<in>set s. \<not> forbiddenSpace u) \<and> \<not> includesStr s [0x20, 0x20])
        DuplicationInvalidInput (Inr s)))"

text \<open>The entries of \<open>validateEntries\<close> with the total length of their texts.\<close>

fun validateEntriesFrom ::
  "(jstring \<Rightarrow> jstring) \<Rightarrow> (jstring \<Rightarrow> jstring) \<Rightarrow> DuplicationIndexLimits \<Rightarrow> jstring \<Rightarrow> nat \<Rightarrow> DuplicationIndexEntry list \<Rightarrow>
   DuplicationFailure + nat" where
  "validateEntriesFrom normalizeNFC toLowerCase limits previous totalSoFar [] = Inr totalSoFar"
| "validateEntriesFrom normalizeNFC toLowerCase limits previous totalSoFar (entry # rest) =
     bindR (stableIdentifierR (de_statementId entry)) (\<lambda>statementId.
     checkR (previous < statementId) DuplicationInvalidInput
     (bindR (normalizedTextR normalizeNFC toLowerCase (limits MaximumNormalizedTextLength) (de_normalizedText entry)) (\<lambda>s.
      checkR (totalSoFar + length s \<le> limits MaximumTotalNormalizedTextLength)
        (DuplicationLimitExceeded MaximumTotalNormalizedTextLength)
     (bindR (stableIdentifierR (de_documentId entry)) (\<lambda>_.
      bindR (denseNodeIds (limits MaximumNodeIdsPerEntry) (de_nodeIds entry)) (\<lambda>_.
      bindR (validateRange (de_range entry)) (\<lambda>_.
        validateEntriesFrom normalizeNFC toLowerCase limits statementId (totalSoFar + length s) rest)))))))"

definition validateEntries ::
  "(jstring \<Rightarrow> jstring) \<Rightarrow> (jstring \<Rightarrow> jstring) \<Rightarrow> DuplicationIndexLimits \<Rightarrow> DuplicationIndexEntry list \<Rightarrow>
   DuplicationFailure + nat" where
  "validateEntries normalizeNFC toLowerCase limits entries =
     checkR (length entries \<le> limits MaximumEntries) (DuplicationLimitExceeded MaximumEntries)
       (validateEntriesFrom normalizeNFC toLowerCase limits [] 0 entries)"

definition evidenceOf :: "DuplicationIndexEntry \<Rightarrow> DuplicationEvidencePointer" where
  "evidenceOf entry =
     \<lparr>ep_documentId = de_documentId entry, ep_nodeIds = de_nodeIds entry, ep_range = de_range entry,
      ep_statementId = de_statementId entry\<rparr>"

text \<open>\<open>JSON.stringify\<close> of a list of stable identifiers, in which no character is escaped.\<close>

definition jsonIdentifiers :: "jstring list \<Rightarrow> jstring" where
  "jsonIdentifiers ids = 0x5B # join_with 0x2C (map (\<lambda>s. 0x22 # s @ [0x22]) ids) @ [0x5D]"

definition stableClusterId :: "(nat list \<Rightarrow> jstring) \<Rightarrow> jstring \<Rightarrow> jstring list \<Rightarrow> jstring" where
  "stableClusterId sha256 kind ids = js ''duplicate-'' @ kind @ js ''-'' @ take 20 (sha256 (utf8 (jsonIdentifiers ids)))"

subsection \<open>Shingles and unique texts\<close>

definition SHINGLE_WIDTH :: nat where
  "SHINGLE_WIDTH = 3"

definition shingleSet :: "jstring \<Rightarrow> jstring list" where
  "shingleSet s =
     (let symbols = 0x02 # scalars s @ [0x03]
      in remdups (map (\<lambda>index. concat (map utf16_units (take SHINGLE_WIDTH (drop index symbols))))
           [0..<length symbols + 1 - SHINGLE_WIDTH]))"

definition createShingles :: "DuplicationIndexLimits \<Rightarrow> jstring \<Rightarrow> DuplicationFailure + jstring list" where
  "createShingles limits s =
     checkR (length (shingleSet s) \<le> limits MaximumShinglesPerEntry) (DuplicationLimitExceeded MaximumShinglesPerEntry)
       (Inr (sort (shingleSet s)))"

definition textMembers :: "DuplicationIndexEntry list \<Rightarrow> jstring \<Rightarrow> DuplicationIndexEntry list" where
  "textMembers entries s = sortOn de_statementId (filter (\<lambda>entry. de_normalizedText entry = s) entries)"

text \<open>The loop over the grouped texts; the result has the total of the shingles.\<close>

fun buildRecords ::
  "DuplicationIndexLimits \<Rightarrow> DuplicationIndexEntry list \<Rightarrow> nat \<Rightarrow> jstring list \<Rightarrow>
   DuplicationFailure + UniqueTextRecord list \<times> nat" where
  "buildRecords limits entries totalSoFar [] = Inr ([], totalSoFar)"
| "buildRecords limits entries totalSoFar (s # rest) =
     bindR (createShingles limits s) (\<lambda>shingles.
     checkR (totalSoFar + length shingles \<le> limits MaximumTotalShingleOccurrences)
       (DuplicationLimitExceeded MaximumTotalShingleOccurrences)
     (bindR (buildRecords limits entries (totalSoFar + length shingles) rest) (\<lambda>(records, newTotal).
        Inr (\<lparr>ur_members = textMembers entries s, ur_normalizedText = s, ur_shingles = shingles\<rparr> # records, newTotal))))"

definition buildUniqueRecords ::
  "DuplicationIndexLimits \<Rightarrow> DuplicationIndexEntry list \<Rightarrow> DuplicationFailure + UniqueTextRecord list \<times> nat" where
  "buildUniqueRecords limits entries = buildRecords limits entries 0 (sort (remdups (map de_normalizedText entries)))"

subsection \<open>Exact clusters\<close>

definition exactCluster ::
  "(nat list \<Rightarrow> jstring) \<Rightarrow> DuplicationIndexLimits \<Rightarrow> UniqueTextRecord \<Rightarrow> DuplicationFailure + ExactDuplicationCluster" where
  "exactCluster sha256 limits r =
     (let members = sortOn ep_statementId (map evidenceOf (ur_members r))
      in checkR (length members \<le> limits MaximumClusterMembers) (DuplicationLimitExceeded MaximumClusterMembers)
           (Inr \<lparr>xc_id = stableClusterId sha256 (js ''exact'') (map ep_statementId members), xc_members = members,
                 xc_normalizedTextSha256 = sha256 (utf8 (ur_normalizedText r)), xc_similarityBasisPoints = 10000\<rparr>))"

definition exactClusters ::
  "(nat list \<Rightarrow> jstring) \<Rightarrow> DuplicationIndexLimits \<Rightarrow> UniqueTextRecord list \<Rightarrow>
   DuplicationFailure + ExactDuplicationCluster list" where
  "exactClusters sha256 limits records =
     bindR (sequenceR (map (exactCluster sha256 limits)
              (filter (\<lambda>r. 0 < length (ur_normalizedText r) \<and> 1 < length (ur_members r)) records)))
       (\<lambda>clusters. Inr (sortOn xc_id clusters))"

subsection \<open>Near edges\<close>

text \<open>Intersection, similarity in basis points and union.\<close>

definition jaccard :: "jstring list \<Rightarrow> jstring list \<Rightarrow> nat \<times> nat \<times> nat" where
  "jaccard left right =
     (let intersection = length (filter (\<lambda>shingle. shingle \<in> set right) left);
          union = length left + length right - intersection
      in (intersection, if union = 0 then 10000 else intersection * 10000 div union, union))"

definition isEligible :: "DuplicationIndexLimits \<Rightarrow> UniqueTextRecord \<Rightarrow> bool" where
  "isEligible limits r \<longleftrightarrow> limits MinimumNearDuplicateCodePoints \<le> length (scalars (ur_normalizedText r))"

text \<open>How many eligible texts have a shingle.\<close>

definition shingleSupport :: "DuplicationIndexLimits \<Rightarrow> UniqueTextRecord list \<Rightarrow> jstring \<Rightarrow> nat" where
  "shingleSupport limits records shingle = count_list (concat (map ur_shingles (filter (isEligible limits) records))) shingle"

definition selectedAnchors :: "UniqueTextRecord \<Rightarrow> (jstring \<Rightarrow> nat) \<Rightarrow> DuplicationIndexLimits \<Rightarrow> jstring list" where
  "selectedAnchors r support limits =
     take (limits MaximumAnchorsPerEntry)
       (sortOn (\<lambda>shingle. support shingle # shingle)
         (filter (\<lambda>shingle. 2 \<le> support shingle \<and> support shingle \<le> limits MaximumPostingLength) (ur_shingles r)))"

definition primaryStatementId :: "UniqueTextRecord \<Rightarrow> DuplicationFailure + jstring" where
  "primaryStatementId r = (case ur_members r of [] \<Rightarrow> Inl DuplicationInternal | first # _ \<Rightarrow> Inr (de_statementId first))"

text \<open>The edge between two records, if they are similar enough.\<close>

definition compareRecords ::
  "DuplicationIndexLimits \<Rightarrow> UniqueTextRecord list \<Rightarrow> nat \<Rightarrow> nat \<Rightarrow> UniqueTextRecord \<Rightarrow>
   DuplicationFailure + IndexedEdge option" where
  "compareRecords limits records left right r =
     checkR (left < length records) DuplicationInternal
       (let leftRecord = records ! left; (intersection, similarity, union) = jaccard (ur_shingles leftRecord) (ur_shingles r)
        in if similarity < limits MinimumSimilarityBasisPoints then Inr None
           else bindR (primaryStatementId leftRecord) (\<lambda>leftId.
                bindR (primaryStatementId r) (\<lambda>rightId.
                  Inr (Some \<lparr>eg_left = left, eg_right = right,
                     eg_value = \<lparr>ne_intersectionShingles = intersection, ne_leftStatementId = leftId,
                       ne_rightStatementId = rightId, ne_similarityBasisPoints = similarity,
                       ne_unionShingles = union\<rparr>\<rparr>))))"

text \<open>The loop over the candidates of one record: the number of comparisons and the edges so far.\<close>

fun compareCandidates ::
  "DuplicationIndexLimits \<Rightarrow> UniqueTextRecord list \<Rightarrow> nat \<Rightarrow> UniqueTextRecord \<Rightarrow> nat list \<Rightarrow> nat \<times> IndexedEdge list \<Rightarrow>
   DuplicationFailure + nat \<times> IndexedEdge list" where
  "compareCandidates limits records right r [] progress = Inr progress"
| "compareCandidates limits records right r (left # lefts) (comparisons, edges) =
     checkR (comparisons + 1 \<le> limits MaximumCandidateComparisons) (DuplicationLimitExceeded MaximumCandidateComparisons)
       (bindR (compareRecords limits records left right r) (\<lambda>edge.
          compareCandidates limits records right r lefts
            (comparisons + 1, edges @ (case edge of None \<Rightarrow> [] | Some e \<Rightarrow> [e]))))"

text \<open>The loop over the records; \<open>postings\<close> lists the earlier records of each anchor.\<close>

fun nearEdgesFrom ::
  "DuplicationIndexLimits \<Rightarrow> UniqueTextRecord list \<Rightarrow> (jstring \<Rightarrow> nat) \<Rightarrow> nat \<Rightarrow> UniqueTextRecord list \<Rightarrow>
   (jstring \<Rightarrow> nat list) \<Rightarrow> nat \<times> IndexedEdge list \<Rightarrow> DuplicationFailure + nat \<times> IndexedEdge list" where
  "nearEdgesFrom limits records support right [] postings progress = Inr progress"
| "nearEdgesFrom limits records support right (r # rest) postings progress =
     (if \<not> isEligible limits r then nearEdgesFrom limits records support (right + 1) rest postings progress
      else let anchors = selectedAnchors r support limits;
               candidates = sort (remdups (concat (map postings anchors)))
           in bindR (compareCandidates limits records right r candidates progress)
                (nearEdgesFrom limits records support (right + 1) rest
                   (fold (\<lambda>anchor p. p(anchor := p anchor @ [right])) anchors postings)))"

definition nearEdges ::
  "DuplicationIndexLimits \<Rightarrow> UniqueTextRecord list \<Rightarrow> DuplicationFailure + nat \<times> IndexedEdge list" where
  "nearEdges limits records = nearEdgesFrom limits records (shingleSupport limits records) 0 records (\<lambda>_. []) (0, [])"

subsection \<open>Union-find\<close>

definition parentAt :: "nat list \<Rightarrow> nat \<Rightarrow> nat option" where
  "parentAt parent i = (if i < length parent then Some (parent ! i) else None)"

text \<open>The first loop of \<open>find\<close>: outside the array it runs for ever.\<close>

partial_function (option) findRoot :: "nat list \<Rightarrow> nat \<Rightarrow> nat option" where
  "findRoot parent current =
     (case parentAt parent current of
        None \<Rightarrow> findRoot parent current
      | Some p \<Rightarrow> if p = current then Some current else findRoot parent p)"

text \<open>The second loop of \<open>find\<close>, which makes the root the parent of every element on the path.\<close>

partial_function (option) compressPath :: "nat list \<Rightarrow> nat \<Rightarrow> nat \<Rightarrow> nat list option" where
  "compressPath parent root i =
     (case parentAt parent i of
        None \<Rightarrow> Some parent
      | Some following \<Rightarrow> if following = root then Some parent else compressPath (parent[i := root]) root following)"

declare findRoot.simps [code] compressPath.simps [code]

definition findParent :: "nat list \<Rightarrow> nat \<Rightarrow> (nat \<times> nat list) option" where
  "findParent parent v =
     (case findRoot parent v of
        None \<Rightarrow> None
      | Some root \<Rightarrow> map_option (\<lambda>parent'. (root, parent')) (compressPath parent root v))"

definition unionParents :: "nat list \<Rightarrow> nat \<Rightarrow> nat \<Rightarrow> nat list option" where
  "unionParents parent left right =
     (case findParent parent left of
        None \<Rightarrow> None
      | Some (leftRoot, parent1) \<Rightarrow>
          (case findParent parent1 right of
             None \<Rightarrow> None
           | Some (rightRoot, parent2) \<Rightarrow>
               Some (if leftRoot = rightRoot then parent2
                     else if leftRoot < rightRoot then parent2[rightRoot := leftRoot]
                     else parent2[leftRoot := rightRoot])))"

fun unionEdges :: "nat list \<Rightarrow> IndexedEdge list \<Rightarrow> nat list option" where
  "unionEdges parent [] = Some parent"
| "unionEdges parent (edge # edges) =
     (case unionParents parent (eg_left edge) (eg_right edge) of
        None \<Rightarrow> None
      | Some parent' \<Rightarrow> unionEdges parent' edges)"

text \<open>\<open>Set.add\<close> and the map from roots to components, both in the order of insertion.\<close>

definition setAdd :: "'a \<Rightarrow> 'a list \<Rightarrow> 'a list" where
  "setAdd x xs = (if x \<in> set xs then xs else xs @ [x])"

fun addToComponent :: "nat \<Rightarrow> nat \<Rightarrow> nat \<Rightarrow> (nat \<times> nat list) list \<Rightarrow> (nat \<times> nat list) list" where
  "addToComponent root left right [] = [(root, setAdd right (setAdd left []))]"
| "addToComponent root left right ((key, component) # rest) =
     (if key = root then (key, setAdd right (setAdd left component)) # rest
      else (key, component) # addToComponent root left right rest)"

fun collectComponents ::
  "nat list \<Rightarrow> IndexedEdge list \<Rightarrow> (nat \<times> nat list) list \<Rightarrow> (nat \<times> nat list) list option" where
  "collectComponents parent [] components = Some components"
| "collectComponents parent (edge # edges) components =
     (case findParent parent (eg_left edge) of
        None \<Rightarrow> None
      | Some (root, parent') \<Rightarrow>
          collectComponents parent' edges (addToComponent root (eg_left edge) (eg_right edge) components))"

text \<open>The indexes of the components, for a number of records and their edges.\<close>

definition edgeComponents :: "nat \<Rightarrow> IndexedEdge list \<Rightarrow> nat list list option" where
  "edgeComponents n edges =
     (case unionEdges [0..<n] edges of
        None \<Rightarrow> None
      | Some parent \<Rightarrow> map_option (map (\<lambda>(root, component). sort component)) (collectComponents parent edges []))"

subsection \<open>Near clusters\<close>

definition componentEdges :: "IndexedEdge list \<Rightarrow> nat list \<Rightarrow> NearDuplicationEdge list" where
  "componentEdges edges indices =
     sortOn (\<lambda>e. [ne_leftStatementId e, ne_rightStatementId e])
       (map eg_value (filter (\<lambda>edge. eg_left edge \<in> set indices \<and> eg_right edge \<in> set indices) edges))"

definition nearCluster ::
  "(nat list \<Rightarrow> jstring) \<Rightarrow> DuplicationIndexLimits \<Rightarrow> UniqueTextRecord list \<Rightarrow> IndexedEdge list \<Rightarrow> nat list \<Rightarrow>
   DuplicationFailure + NearDuplicationCluster" where
  "nearCluster sha256 limits records edges indices =
     (let members = sortOn ep_statementId (map evidenceOf
            (concat (map (\<lambda>index. if index < length records then ur_members (records ! index) else []) indices)))
      in checkR (length members \<le> limits MaximumClusterMembers) (DuplicationLimitExceeded MaximumClusterMembers)
           (Inr \<lparr>nc_edges = componentEdges edges indices,
                 nc_id = stableClusterId sha256 (js ''near'') (map ep_statementId members), nc_members = members\<rparr>))"

definition nearClusters ::
  "(nat list \<Rightarrow> jstring) \<Rightarrow> DuplicationIndexLimits \<Rightarrow> UniqueTextRecord list \<Rightarrow> IndexedEdge list \<Rightarrow>
   DuplicationFailure + NearDuplicationCluster list" where
  "nearClusters sha256 limits records edges =
     (case edgeComponents (length records) edges of
        None \<Rightarrow> Inl DuplicationDiverges
      | Some components \<Rightarrow>
          bindR (sequenceR (map (nearCluster sha256 limits records edges) components))
            (\<lambda>clusters. Inr (sortOn nc_id clusters)))"

subsection \<open>The index\<close>

definition exclusions :: "DuplicationIndexEntry list \<Rightarrow> DuplicationIndexLimits \<Rightarrow> DuplicationIndexExclusion list" where
  "exclusions entries limits =
     map (\<lambda>entry. \<lparr>dx_evidence = evidenceOf entry,
            dx_reason = (if de_normalizedText entry = [] then EmptyNormalizedText else NearTextTooShort)\<rparr>)
       (filter (\<lambda>entry. de_normalizedText entry = [] \<or>
            length (scalars (de_normalizedText entry)) < limits MinimumNearDuplicateCodePoints) entries)"

definition buildDuplicationIndex ::
  "(nat list \<Rightarrow> jstring) \<Rightarrow> (jstring \<Rightarrow> jstring) \<Rightarrow> (jstring \<Rightarrow> jstring) \<Rightarrow> DuplicationIndexEntry list \<Rightarrow>
   (DuplicationLimitName \<Rightarrow> int option) \<Rightarrow> DuplicationFailure + DuplicationIndexResult" where
  "buildDuplicationIndex sha256 normalizeNFC toLowerCase entries options =
     bindR (validateDuplicationOptions options) (\<lambda>limits.
     bindR (validateEntries normalizeNFC toLowerCase limits entries) (\<lambda>totalLength.
     bindR (buildUniqueRecords limits entries) (\<lambda>(records, totalShingles).
     bindR (exactClusters sha256 limits records) (\<lambda>exact.
     bindR (nearEdges limits records) (\<lambda>(comparisons, edges).
     bindR (nearClusters sha256 limits records edges) (\<lambda>near.
       Inr \<lparr>dr_exactClusters = exact, dr_exclusions = exclusions entries limits, dr_limits = limits,
            dr_metrics =
              \<lparr>dm_candidateComparisons = comparisons, dm_entryCount = length entries,
               dm_exactClusterCount = length exact,
               dm_exactDuplicateEntryCount = sum_list (map (\<lambda>cluster. length (xc_members cluster)) exact),
               dm_nearClusterCount = length near, dm_nearEdgeCount = length edges,
               dm_totalNormalizedTextLength = totalLength, dm_totalShingleOccurrences = totalShingles,
               dm_uniqueNormalizedTextCount = length records\<rparr>,
            dr_nearClusters = near\<rparr>))))))"

end
