(* ===== verification/Duplication_Components.thy ===== *)
theory Duplication_Components
  imports Duplication_Index
begin

text \<open>
  The union-find forest of the duplication index (\<open>find\<close> and \<open>union\<close> in
  \<open>packages/evidence/src/duplication-index.ts\<close>): parents never have larger indexes, so both loops of \<open>find\<close>
  end; compressing a path keeps every root; and the components that the forest gives are exactly the connected
  components of the edges.
\<close>

subsection \<open>The forest\<close>

text \<open>Parents never have larger indexes, so every path to a root ends.\<close>

definition forest :: "nat list \<Rightarrow> bool" where
  "forest p \<longleftrightarrow> (\<forall>i<length p. p ! i \<le> i)"

function rootOf :: "nat list \<Rightarrow> nat \<Rightarrow> nat" where
  "rootOf p i = (if i < length p \<and> p ! i < i then rootOf p (p ! i) else i)"
  by pat_completeness auto
termination
  by (relation "measure snd") auto

declare rootOf.simps [simp del]

lemma rootOf_root: "p ! i = i \<Longrightarrow> rootOf p i = i"
  by (simp add: rootOf.simps)

lemma rootOf_step: "forest p \<Longrightarrow> i < length p \<Longrightarrow> rootOf p (p ! i) = rootOf p i"
  using rootOf.simps [of p i] rootOf_root [of p i] by (auto simp: forest_def le_less)

lemma rootOf_fixed: "forest p \<Longrightarrow> i < length p \<Longrightarrow> rootOf p i \<le> i \<and> p ! rootOf p i = rootOf p i"
proof (induction i rule: less_induct)
  case (less i)
  have "p ! i < i \<or> p ! i = i"
    using less.prems by (auto simp: forest_def le_less)
  then show ?case
  proof
    assume "p ! i < i"
    then show ?thesis
      using less.IH [of "p ! i"] less.prems rootOf_step [OF less.prems] by auto
  qed (simp add: rootOf_root)
qed

lemmas rootOf_spec = conjunct1 [OF rootOf_fixed] conjunct2 [OF rootOf_fixed]

lemma findRoot_rootOf: "forest p \<Longrightarrow> i < length p \<Longrightarrow> findRoot p i = Some (rootOf p i)"
proof (induction i rule: less_induct)
  case (less i)
  show ?case
  proof (cases "p ! i = i")
    case True
    then show ?thesis
      using less.prems by (subst findRoot.simps) (simp add: parentAt_def rootOf_root)
  next
    case False
    then have "p ! i < i"
      using less.prems by (auto simp: forest_def le_less)
    then show ?thesis
      using less False rootOf_step [OF less.prems] by (subst findRoot.simps) (auto simp: parentAt_def)
  qed
qed

text \<open>Updating a parent to the root keeps all roots.\<close>

lemma rootOf_shortcut:
  assumes "forest p" "i < length p" "j < length p"
  shows "rootOf (p[i := rootOf p i]) j = rootOf p j"
  using assms(3)
proof (induction j rule: less_induct)
  case (less j)
  let ?p = "p[i := rootOf p i]"
  have le: "rootOf p i \<le> i"
    by (rule rootOf_spec(1) [OF assms(1,2)])
  show ?case
  proof (cases "j = i")
    case True
    show ?thesis
    proof (cases "rootOf p i = i")
      case True
      with \<open>j = i\<close> assms(2) show ?thesis
        by (simp add: rootOf_root)
    next
      case False
      then have lt: "rootOf p i < i"
        using le by simp
      have "rootOf ?p i = rootOf ?p (rootOf p i)"
        using assms(2) lt by (subst rootOf.simps) simp
      also have "\<dots> = rootOf p (rootOf p i)"
        using less.IH [of "rootOf p i"] lt True assms(2) by simp
      also have "\<dots> = rootOf p i"
        by (rule rootOf_root) (rule rootOf_spec(2) [OF assms(1,2)])
      finally show ?thesis
        using True by simp
    qed
  next
    case False
    then show ?thesis
      using less assms(1) by (subst (1 2) rootOf.simps) (auto simp: forest_def)
  qed
qed

lemma forest_shortcut: "forest p \<Longrightarrow> i < length p \<Longrightarrow> r \<le> i \<Longrightarrow> forest (p[i := r])"
  by (auto simp: forest_def nth_list_update)

definition sameRoots :: "nat list \<Rightarrow> nat list \<Rightarrow> bool" where
  "sameRoots p q \<longleftrightarrow> length p = length q \<and> forest q \<and> (\<forall>i<length p. rootOf q i = rootOf p i)"

lemma compressPath_spec:
  "forest p \<Longrightarrow> i < length p \<Longrightarrow> r = rootOf p i \<Longrightarrow> \<exists>q. compressPath p r i = Some q \<and> sameRoots p q"
proof (induction i arbitrary: p r rule: less_induct)
  case (less i)
  show ?case
  proof (cases "p ! i = r")
    case True
    then show ?thesis
      using less.prems by (subst compressPath.simps) (simp add: parentAt_def sameRoots_def)
  next
    case False
    let ?p = "p[i := r]"
    have lt: "p ! i < i"
      using less.prems False rootOf_root [of p i] by (auto simp: forest_def le_less)
    have same: "rootOf ?p j = rootOf p j" if "j < length p" for j
      using rootOf_shortcut [OF less.prems(1,2) that] less.prems(3) by simp
    have "\<exists>q. compressPath ?p r (p ! i) = Some q \<and> sameRoots ?p q"
      using less.prems lt same [of "p ! i"] rootOf_step [OF less.prems(1,2)] rootOf_spec(1) [OF less.prems(1,2)]
      by (intro less.IH forest_shortcut) auto
    then show ?thesis
      using False less.prems(2) same by (subst compressPath.simps) (auto simp: parentAt_def sameRoots_def)
  qed
qed

lemma findParent_spec:
  assumes "forest p" "i < length p"
  obtains q where "findParent p i = Some (rootOf p i, q)" "sameRoots p q"
  using compressPath_spec [OF assms refl] findRoot_rootOf [OF assms] that by (auto simp: findParent_def)

text \<open>Linking one root under a smaller one merges the two trees.\<close>

lemma rootOf_link:
  assumes "forest p" "a < b" "b < length p" "p ! a = a" "p ! b = b" "j < length p"
  shows "rootOf (p[b := a]) j = (if rootOf p j = b then a else rootOf p j)"
  using assms(6)
proof (induction j rule: less_induct)
  case (less j)
  consider "j = b" | "j \<noteq> b" "p ! j = j" | "j \<noteq> b" "p ! j < j"
    using assms(1) less.prems by (auto simp: forest_def le_less)
  then show ?case
  proof cases
    case 1
    have "rootOf (p[b := a]) b = rootOf (p[b := a]) a"
      using assms(2,3) by (subst rootOf.simps) simp
    moreover have "rootOf (p[b := a]) a = a"
      using assms(2,4) by (simp add: rootOf_root)
    ultimately show ?thesis
      using 1 assms(5) by (simp add: rootOf_root)
  next
    case 2
    then show ?thesis
      by (simp add: rootOf_root)
  next
    case 3
    then have "rootOf (p[b := a]) j = rootOf (p[b := a]) (p ! j)"
      using less.prems by (subst rootOf.simps) simp
    then show ?thesis
      using 3 less.IH [of "p ! j"] less.prems rootOf_step [OF assms(1) less.prems] by simp
  qed
qed

lemma unionParents_spec:
  assumes "forest p" "l < length p" "r < length p"
  obtains q where "unionParents p l r = Some q" "length q = length p" "forest q"
    "\<forall>i<length p. \<forall>j<length p. rootOf q i = rootOf q j \<longleftrightarrow>
       rootOf p i = rootOf p j \<or> (rootOf p i = rootOf p l \<and> rootOf p j = rootOf p r) \<or>
       (rootOf p i = rootOf p r \<and> rootOf p j = rootOf p l)"
proof -
  obtain p1 where p1: "findParent p l = Some (rootOf p l, p1)" "sameRoots p p1"
    by (rule findParent_spec [OF assms(1,2)])
  then have forest1: "forest p1" "length p1 = length p"
    by (auto simp: sameRoots_def)
  obtain p2 where p2: "findParent p1 r = Some (rootOf p1 r, p2)" "sameRoots p1 p2"
    using findParent_spec [OF forest1(1), of r] assms(3) forest1(2) by auto
  have roots: "rootOf p1 r = rootOf p r" "length p2 = length p" "forest p2" "\<And>i. i < length p \<Longrightarrow> rootOf p2 i = rootOf p i"
    using p1(2) p2(2) assms(3) by (auto simp: sameRoots_def)
  show ?thesis
  proof (cases "rootOf p l = rootOf p r")
    case True
    then show ?thesis
      using p1 p2 roots by (intro that [of p2]) (auto simp: unionParents_def)
  next
    case False
    then obtain a b where ab: "a < b" "a = rootOf p l \<and> b = rootOf p r \<or> a = rootOf p r \<and> b = rootOf p l"
      using linorder_neq_iff [of "rootOf p l" "rootOf p r"] by blast
    then have union: "unionParents p l r = Some (p2[b := a])"
      using p1(1) p2(1) roots(1) by (auto simp: unionParents_def)
    have "rootOf p x < length p \<and> p2 ! rootOf p x = rootOf p x" if "x = l \<or> x = r" for x
      using rootOf_spec [OF roots(3), of x] roots(2,4) assms(2,3) that by fastforce
    then have fixed: "b < length p2" "p2 ! a = a" "p2 ! b = b"
      using ab(2) roots(2) by auto
    have link: "rootOf (p2[b := a]) i = (if rootOf p i = b then a else rootOf p i)" if "i < length p" for i
      using rootOf_link [OF roots(3) ab(1) fixed, of i] roots that by simp
    have "rootOf (p2[b := a]) i = rootOf (p2[b := a]) j \<longleftrightarrow>
       rootOf p i = rootOf p j \<or> (rootOf p i = a \<and> rootOf p j = b) \<or> (rootOf p i = b \<and> rootOf p j = a)"
      if "i < length p" "j < length p" for i j
      using ab(1) by (auto simp: link that)
    then show ?thesis
      using union ab roots(2) forest_shortcut [OF roots(3) fixed(1), of a]
      by (intro that [of "p2[b := a]"]) auto
  qed
qed

subsection \<open>Components\<close>

text \<open>The edges in both directions; the components are the classes of its reflexive transitive closure.\<close>

definition linked :: "IndexedEdge list \<Rightarrow> (nat \<times> nat) set" where
  "linked edges = {(i, j). \<exists>e\<in>set edges. (i = eg_left e \<and> j = eg_right e) \<or> (i = eg_right e \<and> j = eg_left e)}"

definition inRange :: "nat \<Rightarrow> IndexedEdge list \<Rightarrow> bool" where
  "inRange n edges \<longleftrightarrow> (\<forall>e\<in>set edges. eg_left e < n \<and> eg_right e < n)"

definition sameTree :: "nat list \<Rightarrow> (nat \<times> nat) set" where
  "sameTree p = {(i, j). i < length p \<and> j < length p \<and> rootOf p i = rootOf p j}"

lemma linked_Cons: "linked (e # es) = insert (eg_left e, eg_right e) (insert (eg_right e, eg_left e) (linked es))"
  by (auto simp: linked_def)

lemma sym_linked: "sym (linked edges)"
  by (auto simp: linked_def sym_def)

lemma linked_range: "inRange n edges \<Longrightarrow> (i, j) \<in> linked edges \<Longrightarrow> i < n \<and> j < n"
  by (auto simp: linked_def inRange_def)

lemma linked_closure_range: "(i, j) \<in> (linked edges)\<^sup>* \<Longrightarrow> inRange n edges \<Longrightarrow> i < n \<Longrightarrow> j < n"
  by (induction rule: rtrancl_induct) (auto dest: linked_range)

lemma unionEdges_spec:
  assumes "forest p" "inRange (length p) edges"
  shows "\<exists>q. unionEdges p edges = Some q \<and> forest q \<and> length q = length p \<and> sameTree p \<subseteq> sameTree q \<and>
    linked edges \<subseteq> sameTree q \<and> sameTree q \<subseteq> (sameTree p \<union> linked edges)\<^sup>*"
  using assms
proof (induction edges arbitrary: p)
  case Nil
  then show ?case
    by (auto simp: linked_def)
next
  case (Cons e edges)
  let ?l = "eg_left e" and ?r = "eg_right e"
  have range: "?l < length p" "?r < length p"
    using Cons.prems(2) by (auto simp: inRange_def)
  obtain p1 where p1: "unionParents p ?l ?r = Some p1" "length p1 = length p" "forest p1"
    "\<forall>i<length p. \<forall>j<length p. rootOf p1 i = rootOf p1 j \<longleftrightarrow>
       rootOf p i = rootOf p j \<or> (rootOf p i = rootOf p ?l \<and> rootOf p j = rootOf p ?r) \<or>
       (rootOf p i = rootOf p ?r \<and> rootOf p j = rootOf p ?l)"
    by (rule unionParents_spec [OF Cons.prems(1) range])
  obtain q where q: "unionEdges p1 edges = Some q" "forest q" "length q = length p1" "sameTree p1 \<subseteq> sameTree q"
    "linked edges \<subseteq> sameTree q" "sameTree q \<subseteq> (sameTree p1 \<union> linked edges)\<^sup>*"
    using Cons.IH [OF p1(3)] Cons.prems(2) p1(2) by (auto simp: inRange_def)
  have keep: "sameTree p \<subseteq> sameTree p1" "(?l, ?r) \<in> sameTree p1" "(?r, ?l) \<in> sameTree p1"
    using p1(2,4) range by (auto simp: sameTree_def)
  let ?S = "sameTree p \<union> linked (e # edges)"
  have "sameTree p1 \<subseteq> ?S\<^sup>*"
  proof clarify
    fix i j
    assume "(i, j) \<in> sameTree p1"
    then have ij: "i < length p" "j < length p" "rootOf p1 i = rootOf p1 j"
      using p1(2) by (auto simp: sameTree_def)
    have step: "(?l, ?r) \<in> ?S" "(?r, ?l) \<in> ?S"
      by (auto simp: linked_Cons)
    consider "rootOf p i = rootOf p j" | "(i, ?l) \<in> ?S" "(?r, j) \<in> ?S" | "(i, ?r) \<in> ?S" "(?l, j) \<in> ?S"
      using ij p1(4) range by (auto simp: sameTree_def)
    then show "(i, j) \<in> ?S\<^sup>*"
    proof cases
      case 1
      then show ?thesis
        using ij by (auto simp: sameTree_def)
    qed (use step in \<open>meson converse_rtrancl_into_rtrancl r_into_rtrancl\<close>)+
  qed
  then have "(sameTree p1 \<union> linked edges)\<^sup>* \<subseteq> ?S\<^sup>*"
    by (intro rtrancl_subset_rtrancl) (auto simp: linked_Cons)
  then show ?case
    using q keep p1(1,2) by (auto simp: linked_Cons)
qed

text \<open>After all edges of a fresh forest, two elements are in one tree exactly if edges connect them.\<close>

lemma unionEdges_connected:
  assumes "inRange n edges"
  obtains q where "unionEdges [0..<n] edges = Some q" "forest q" "length q = n"
    "\<And>i j. i < n \<Longrightarrow> j < n \<Longrightarrow> rootOf q i = rootOf q j \<longleftrightarrow> (i, j) \<in> (linked edges)\<^sup>*"
proof -
  have fresh: "forest [0..<n]" "sameTree [0..<n] \<subseteq> Id"
    by (auto simp: forest_def sameTree_def rootOf_root)
  obtain q where q: "unionEdges [0..<n] edges = Some q" "forest q" "length q = n"
    "linked edges \<subseteq> sameTree q" "sameTree q \<subseteq> (sameTree [0..<n] \<union> linked edges)\<^sup>*"
    using unionEdges_spec [OF fresh(1), of edges] assms by auto
  have "rootOf q i = rootOf q j" if "(i, j) \<in> (linked edges)\<^sup>*" for i j
    using that by (induction rule: rtrancl_induct) (use q(4) in \<open>auto simp: sameTree_def\<close>)
  moreover have "(sameTree [0..<n] \<union> linked edges)\<^sup>* \<subseteq> (linked edges)\<^sup>*"
    using fresh(2) by (intro rtrancl_subset_rtrancl) auto
  ultimately show ?thesis
    using q by (intro that [of q]) (auto simp: sameTree_def)
qed

definition addEdge :: "nat list \<Rightarrow> (nat \<times> nat list) list \<Rightarrow> IndexedEdge \<Rightarrow> (nat \<times> nat list) list" where
  "addEdge p components e = addToComponent (rootOf p (eg_left e)) (eg_left e) (eg_right e) components"

lemma addEdge_cong: "sameRoots p q \<Longrightarrow> eg_left e < length p \<Longrightarrow> addEdge q cs e = addEdge p cs e"
  by (simp add: addEdge_def sameRoots_def)

lemma collectComponents_fold:
  assumes "forest p" "inRange (length p) edges"
  shows "collectComponents p edges cs = Some (foldl (addEdge p) cs edges)"
  using assms
proof (induction edges arbitrary: p cs)
  case (Cons e edges)
  have range: "eg_left e < length p" "inRange (length p) edges"
    using Cons.prems(2) by (auto simp: inRange_def)
  obtain q where q: "findParent p (eg_left e) = Some (rootOf p (eg_left e), q)" "sameRoots p q"
    by (rule findParent_spec [OF Cons.prems(1) range(1)])
  have same: "foldl (addEdge q) cs' edges = foldl (addEdge p) cs' edges" for cs'
    using range(2) addEdge_cong [OF q(2)] by (intro foldl_cong) (auto simp: inRange_def)
  have "forest q" "inRange (length q) edges"
    using q(2) range(2) by (auto simp: sameRoots_def)
  then show ?case
    using q(1) Cons.IH [of q] same by (simp add: addEdge_def [symmetric])
qed simp

text \<open>The members of the component with a key.\<close>

definition membersAt :: "(nat \<times> nat list) list \<Rightarrow> nat \<Rightarrow> nat set" where
  "membersAt cs key = (case map_of cs key of None \<Rightarrow> {} | Some c \<Rightarrow> set c)"

definition wellKeyed :: "(nat \<times> nat list) list \<Rightarrow> bool" where
  "wellKeyed cs \<longleftrightarrow> distinct (map fst cs) \<and> (\<forall>(key, c)\<in>set cs. distinct c)"

lemma setAdd_simps [simp]: "set (setAdd x xs) = insert x (set xs)" "distinct (setAdd x xs) = distinct xs"
  by (auto simp: setAdd_def)

lemma addToComponent_keys: "fst ` set (addToComponent r a b cs) = insert r (fst ` set cs)"
  by (induction r a b cs rule: addToComponent.induct) auto

lemma membersAt_Cons: "membersAt ((k, c) # cs) key = (if k = key then set c else membersAt cs key)"
  by (simp add: membersAt_def)

lemma addToComponent_members:
  "membersAt (addToComponent r a b cs) key = membersAt cs key \<union> (if key = r then {a, b} else {})"
proof (induction r a b cs rule: addToComponent.induct)
  case (2 root left right k component rest)
  show ?case
  proof (cases "k = root")
    case True
    then show ?thesis
      by (auto simp: membersAt_Cons)
  next
    case False
    then show ?thesis
      using 2 [OF False] by (simp add: membersAt_Cons)
  qed
qed (auto simp: membersAt_def)

lemma addToComponent_wellKeyed: "wellKeyed cs \<Longrightarrow> wellKeyed (addToComponent r a b cs)"
proof (induction r a b cs rule: addToComponent.induct)
  case (2 root left right key component rest)
  then show ?case
    using addToComponent_keys [of root left right rest] by (auto simp: wellKeyed_def)
qed (simp add: wellKeyed_def)

lemma foldl_wellKeyed: "wellKeyed cs \<Longrightarrow> wellKeyed (foldl (addEdge p) cs edges)"
  by (induction edges arbitrary: cs) (simp_all add: addEdge_def addToComponent_wellKeyed)

lemma foldl_keys: "fst ` set (foldl (addEdge p) cs edges) = (\<lambda>e. rootOf p (eg_left e)) ` set edges \<union> fst ` set cs"
  by (induction edges arbitrary: cs) (simp_all add: addEdge_def addToComponent_keys)

lemma foldl_members:
  "x \<in> membersAt (foldl (addEdge p) cs edges) key \<longleftrightarrow>
     x \<in> membersAt cs key \<or> (\<exists>e\<in>set edges. rootOf p (eg_left e) = key \<and> (x = eg_left e \<or> x = eg_right e))"
proof (induction edges arbitrary: cs)
  case (Cons e edges)
  show ?case
    unfolding foldl_Cons Cons.IH by (simp add: addEdge_def addToComponent_members)
qed simp

definition components :: "IndexedEdge list \<Rightarrow> nat set set" where
  "components edges = (\<lambda>e. {x. (eg_left e, x) \<in> (linked edges)\<^sup>*}) ` set edges"

lemma component_members:
  assumes "e \<in> set edges" "inRange n edges"
    and roots: "\<And>i j. i < n \<Longrightarrow> j < n \<Longrightarrow> rootOf q i = rootOf q j \<longleftrightarrow> (i, j) \<in> (linked edges)\<^sup>*"
  shows "{x. \<exists>e'\<in>set edges. rootOf q (eg_left e') = rootOf q (eg_left e) \<and> (x = eg_left e' \<or> x = eg_right e')} =
    {x. (eg_left e, x) \<in> (linked edges)\<^sup>*}"
proof (intro set_eqI iffI; clarify)
  fix x e'
  assume e': "e' \<in> set edges" "rootOf q (eg_left e') = rootOf q (eg_left e)" "x = eg_left e' \<or> x = eg_right e'"
  have "(eg_left e', x) \<in> (linked edges)\<^sup>*"
    using e'(1,3) by (auto simp: linked_def)
  moreover have "(eg_left e, eg_left e') \<in> (linked edges)\<^sup>*"
    using roots [of "eg_left e" "eg_left e'"] e'(1,2) assms(1,2) by (auto simp: inRange_def)
  ultimately show "(eg_left e, x) \<in> (linked edges)\<^sup>*"
    by (rule rtrancl_trans [rotated])
next
  fix x
  assume x: "(eg_left e, x) \<in> (linked edges)\<^sup>*"
  have range: "eg_left e < n" "x < n"
    using assms(1,2) linked_closure_range [OF x assms(2)] by (auto simp: inRange_def)
  have "\<exists>e'\<in>set edges. x = eg_left e' \<or> x = eg_right e'"
    using x assms(1) by (cases rule: rtrancl.cases) (auto simp: linked_def)
  then obtain e' where e': "e' \<in> set edges" "x = eg_left e' \<or> x = eg_right e'"
    by blast
  then have "(eg_left e', x) \<in> (linked edges)\<^sup>*"
    by (auto simp: linked_def)
  then have "rootOf q (eg_left e') = rootOf q x"
    using roots [of "eg_left e'" x] e'(1) range assms(2) by (auto simp: inRange_def)
  moreover have "rootOf q (eg_left e) = rootOf q x"
    using roots [OF range] x by simp
  ultimately show "\<exists>e'\<in>set edges. rootOf q (eg_left e') = rootOf q (eg_left e) \<and> (x = eg_left e' \<or> x = eg_right e')"
    using e' by auto
qed

lemma edgeComponents_spec:
  assumes "inRange n edges"
  obtains cs where "edgeComponents n edges = Some cs" "set ` set cs = components edges" "distinct (map set cs)"
    "\<forall>c\<in>set cs. sorted c \<and> distinct c"
proof -
  obtain q where q: "unionEdges [0..<n] edges = Some q" "forest q" "length q = n"
    "\<And>i j. i < n \<Longrightarrow> j < n \<Longrightarrow> rootOf q i = rootOf q j \<longleftrightarrow> (i, j) \<in> (linked edges)\<^sup>*"
    using unionEdges_connected [OF assms] by metis
  let ?cs = "foldl (addEdge q) [] edges"
  have run: "collectComponents q edges [] = Some ?cs"
    using collectComponents_fold [OF q(2)] assms q(3) by simp
  have keyed: "wellKeyed ?cs" "fst ` set ?cs = (\<lambda>e. rootOf q (eg_left e)) ` set edges"
    "membersAt ?cs key = {x. \<exists>e\<in>set edges. rootOf q (eg_left e) = key \<and> (x = eg_left e \<or> x = eg_right e)}" for key
    using foldl_wellKeyed [of "[]" q edges] foldl_keys [of q "[]" edges] foldl_members [of _ q "[]" edges]
    by (auto simp: wellKeyed_def membersAt_def)
  have at: "set c = membersAt ?cs key" if "(key, c) \<in> set ?cs" for key c
    using that keyed(1) by (simp add: membersAt_def wellKeyed_def map_of_is_SomeI)
  have "set ` snd ` set ?cs = (\<lambda>key. membersAt ?cs key) ` fst ` set ?cs"
    using at by (force simp: image_iff)
  also have "\<dots> = components edges"
    unfolding keyed(2,3) components_def image_image using component_members [OF _ assms q(4)] by (intro image_cong) auto
  finally have sets: "set ` snd ` set ?cs = components edges" .
  have inj: "inj_on (\<lambda>(key, c). set c) (set ?cs)"
  proof (rule inj_onI, clarify)
    fix k c k' c'
    assume kc: "(k, c) \<in> set ?cs" "(k', c') \<in> set ?cs" "set c = set c'"
    obtain e where "e \<in> set edges" "k = rootOf q (eg_left e)"
      using kc(1) keyed(2) by force
    then have "eg_left e \<in> membersAt ?cs k" "eg_left e < n"
      using assms by (auto simp: keyed(3) inRange_def)
    then obtain e' where e': "e' \<in> set edges" "rootOf q (eg_left e') = k'" "eg_left e = eg_left e' \<or> eg_left e = eg_right e'"
      using at [OF kc(1)] at [OF kc(2)] kc(3) by (auto simp: keyed(3))
    then have "(eg_left e', eg_left e) \<in> (linked edges)\<^sup>*"
      by (auto simp: linked_def)
    then have "rootOf q (eg_left e') = rootOf q (eg_left e)"
      using q(4) [of "eg_left e'" "eg_left e"] e'(1) assms \<open>eg_left e < n\<close> by (auto simp: inRange_def)
    then have "k = k'"
      using e'(2) \<open>k = rootOf q (eg_left e)\<close> by simp
    then show "k = k' \<and> c = c'"
      using kc keyed(1) by (auto simp: wellKeyed_def dest: eq_key_imp_eq_value)
  qed
  have dist: "distinct (map (\<lambda>(key, c). set c) ?cs)"
    using inj keyed(1) by (simp add: distinct_map wellKeyed_def)
  let ?sorted = "map (\<lambda>(root, component). sort component) ?cs"
  have sorted_sets: "map set ?sorted = map (\<lambda>(key, c). set c) ?cs"
    by auto
  show ?thesis
  proof (rule that [of ?sorted])
    show "edgeComponents n edges = Some ?sorted"
      by (simp add: edgeComponents_def q(1) run)
    have "set ` set ?sorted = set ` snd ` set ?cs"
      by (force simp: image_iff)
    then show "set ` set ?sorted = components edges"
      using sets by simp
    show "distinct (map set ?sorted)"
      unfolding sorted_sets by (rule dist)
    show "\<forall>c\<in>set ?sorted. sorted c \<and> distinct c"
      using keyed(1) by (auto simp: wellKeyed_def)
  qed
qed

end
