(* ===== verification/Duplication_Index_Props.thy ===== *)
theory Duplication_Index_Props
  imports Duplication_Components
begin

text \<open>
  Properties of the duplication index: the near clusters are the connected components of the near edges, the
  anchored search finds exactly the similar pairs that share an anchor (all similar pairs when the limits on
  anchors and postings are not reached), and the exact clusters are the groups of equal texts.
\<close>

subsection \<open>Results of lists\<close>

lemma map_Inr_source: "map g xs = map Inr ys \<Longrightarrow> y \<in> set ys \<Longrightarrow> \<exists>x\<in>set xs. g x = Inr y"
  by (induction xs arbitrary: ys) (auto simp: Cons_eq_map_conv)

lemma map_Inr_image:
  assumes "map g xs = map Inr ys" "\<And>x y. x \<in> set xs \<Longrightarrow> g x = Inr y \<Longrightarrow> F y = G x"
  shows "F ` set ys = G ` set xs"
  using assms
proof (induction xs arbitrary: ys)
  case (Cons x xs)
  then obtain z zs where ys: "ys = z # zs" "g x = Inr z" "map g xs = map Inr zs"
    by (auto simp: Cons_eq_map_conv)
  have "F ` set zs = G ` set xs"
    by (rule Cons.IH [OF ys(3) Cons.prems(2)]) simp_all
  moreover have "F z = G x"
    by (rule Cons.prems(2) [OF _ ys(2)]) simp
  ultimately show ?case
    by (simp add: ys(1))
qed simp

subsection \<open>Records\<close>

definition goodRecord :: "DuplicationIndexEntry list \<Rightarrow> UniqueTextRecord \<Rightarrow> bool" where
  "goodRecord entries r \<longleftrightarrow>
     distinct (ur_shingles r) \<and> set (ur_shingles r) = set (shingleSet (ur_normalizedText r)) \<and>
     ur_members r = textMembers entries (ur_normalizedText r) \<and> ur_members r \<noteq> []"

lemma goodRecord_members: "goodRecord entries r \<Longrightarrow> ur_members r \<noteq> []"
  unfolding goodRecord_def by blast

lemma createShingles_Inr:
  "createShingles limits s = Inr shingles \<Longrightarrow> shingles = sort (shingleSet s) \<and> distinct shingles"
  by (auto simp: createShingles_def checkR_Inr_iff shingleSet_def Let_def)

lemma textMembers_set: "set (textMembers entries s) = {entry \<in> set entries. de_normalizedText entry = s}"
  by (simp add: textMembers_def sortOn_def)

lemma buildRecords_Inr:
  assumes "buildRecords limits entries start texts = Inr (records, n)" "set texts \<subseteq> de_normalizedText ` set entries"
  shows "map ur_normalizedText records = texts \<and> (\<forall>r\<in>set records. goodRecord entries r)"
  using assms
proof (induction texts arbitrary: start records n)
  case (Cons s texts)
  then obtain shingles rest m where rest: "createShingles limits s = Inr shingles"
    "buildRecords limits entries (start + length shingles) texts = Inr (rest, m)"
    "records = \<lparr>ur_members = textMembers entries s, ur_normalizedText = s, ur_shingles = shingles\<rparr> # rest"
    by (auto simp: bindR_Inr_iff checkR_Inr_iff)
  have "textMembers entries s \<noteq> []"
    using Cons.prems(2) textMembers_set [of entries s] by force
  then show ?case
    using Cons.IH [OF rest(2)] Cons.prems(2) createShingles_Inr [OF rest(1)] rest(3) by (auto simp: goodRecord_def)
qed simp

lemma buildUniqueRecords_Inr:
  assumes "buildUniqueRecords limits entries = Inr (records, n)"
  shows "map ur_normalizedText records = sort (remdups (map de_normalizedText entries))"
    "\<And>r. r \<in> set records \<Longrightarrow> goodRecord entries r"
  using buildRecords_Inr [of limits entries 0 _ records n] assms by (auto simp: buildUniqueRecords_def)

lemma shingleSet_nonempty: "s \<noteq> [] \<Longrightarrow> shingleSet s \<noteq> []"
  by (cases s rule: scalars.cases) (auto simp: shingleSet_def SHINGLE_WIDTH_def)

subsection \<open>Near edges\<close>

definition anchorsOf :: "DuplicationIndexLimits \<Rightarrow> UniqueTextRecord list \<Rightarrow> nat \<Rightarrow> jstring set" where
  "anchorsOf limits records i = set (selectedAnchors (records ! i) (shingleSupport limits records) limits)"

definition similarityOf :: "UniqueTextRecord list \<Rightarrow> nat \<Rightarrow> nat \<Rightarrow> nat" where
  "similarityOf records i j = fst (snd (jaccard (ur_shingles (records ! i)) (ur_shingles (records ! j))))"

text \<open>The earlier eligible records that share an anchor with a record.\<close>

definition comparedWith :: "DuplicationIndexLimits \<Rightarrow> UniqueTextRecord list \<Rightarrow> nat \<Rightarrow> nat list" where
  "comparedWith limits records j =
     filter (\<lambda>i. isEligible limits (records ! i) \<and> anchorsOf limits records i \<inter> anchorsOf limits records j \<noteq> {}) [0..<j]"

definition pairsOf :: "DuplicationIndexLimits \<Rightarrow> UniqueTextRecord list \<Rightarrow> nat list \<Rightarrow> nat \<Rightarrow> (nat \<times> nat) list" where
  "pairsOf limits records lefts j =
     map (\<lambda>i. (i, j)) (filter (\<lambda>i. limits MinimumSimilarityBasisPoints \<le> similarityOf records i j) lefts)"

definition anchoredPairs :: "DuplicationIndexLimits \<Rightarrow> UniqueTextRecord list \<Rightarrow> nat list \<Rightarrow> (nat \<times> nat) list" where
  "anchoredPairs limits records rights =
     concat (map (\<lambda>j. pairsOf limits records (comparedWith limits records j) j)
       (filter (\<lambda>j. isEligible limits (records ! j)) rights))"

text \<open>What an edge says of its two records.\<close>

definition exactEdge :: "UniqueTextRecord list \<Rightarrow> IndexedEdge \<Rightarrow> bool" where
  "exactEdge records e \<longleftrightarrow>
     (let A = set (ur_shingles (records ! eg_left e)); B = set (ur_shingles (records ! eg_right e)) in
      eg_left e < eg_right e \<and> eg_right e < length records \<and>
      ne_intersectionShingles (eg_value e) = card (A \<inter> B) \<and> ne_unionShingles (eg_value e) = card (A \<union> B) \<and>
      ne_similarityBasisPoints (eg_value e) = similarityOf records (eg_left e) (eg_right e) \<and>
      ne_leftStatementId (eg_value e) = de_statementId (hd (ur_members (records ! eg_left e))) \<and>
      ne_rightStatementId (eg_value e) = de_statementId (hd (ur_members (records ! eg_right e))))"

lemma jaccard_card:
  assumes "distinct xs" "distinct ys"
  shows "jaccard xs ys =
    (card (set xs \<inter> set ys),
     if set xs \<union> set ys = {} then 10000 else card (set xs \<inter> set ys) * 10000 div card (set xs \<union> set ys),
     card (set xs \<union> set ys))"
proof -
  have inter: "length (filter (\<lambda>x. x \<in> set ys) xs) = card (set xs \<inter> set ys)"
    using assms(1) distinct_card [of "filter (\<lambda>x. x \<in> set ys) xs"] by (simp add: Int_def conj_commute)
  have "card (set xs \<union> set ys) + card (set xs \<inter> set ys) = length xs + length ys"
    using assms card_Un_Int [of "set xs" "set ys"] by (simp add: distinct_card)
  then have union: "length xs + length ys - card (set xs \<inter> set ys) = card (set xs \<union> set ys)"
    by simp
  show ?thesis
    unfolding jaccard_def inter Let_def union by (simp add: card_eq_0_iff)
qed

lemma jaccard_empty: "jaccard [] [] = (0, 10000, 0)"
  by (simp add: jaccard_def)

lemma compareRecords_Inr:
  assumes "compareRecords limits records left right r = Inr edge" "r = records ! right" "left < right" "right < length records"
    and good: "\<And>r. r \<in> set records \<Longrightarrow> goodRecord entries r"
  shows "(case edge of None \<Rightarrow> similarityOf records left right < limits MinimumSimilarityBasisPoints
     | Some e \<Rightarrow> limits MinimumSimilarityBasisPoints \<le> similarityOf records left right \<and> eg_left e = left \<and>
         eg_right e = right \<and> exactEdge records e)"
proof -
  have in_records: "records ! left \<in> set records" "records ! right \<in> set records"
    using assms(3,4) by auto
  have "distinct (ur_shingles (records ! left))" "distinct (ur_shingles (records ! right))"
    using good in_records by (auto simp: goodRecord_def)
  note card = jaccard_card [OF this]
  show ?thesis
    using assms(1-4) unfolding compareRecords_def card similarityOf_def exactEdge_def
    by (auto simp: Let_def bindR_Inr_iff checkR_Inr_iff primaryStatementId_def card jaccard_empty split: if_splits list.splits)
qed

lemma compareCandidates_Inr:
  assumes "compareCandidates limits records right r lefts (c, es) = Inr (c', es')" "r = records ! right"
    and "\<forall>left\<in>set lefts. left < right" "right < length records"
    and good: "\<And>r. r \<in> set records \<Longrightarrow> goodRecord entries r"
  shows "\<exists>new. es' = es @ new \<and> map (\<lambda>e. (eg_left e, eg_right e)) new = pairsOf limits records lefts right \<and>
    (\<forall>e\<in>set new. exactEdge records e)"
  using assms(1,3)
proof (induction lefts arbitrary: c es)
  case (Cons left lefts)
  then obtain edge where edge: "compareRecords limits records left right r = Inr edge"
    "compareCandidates limits records right r lefts (c + 1, es @ (case edge of None \<Rightarrow> [] | Some e \<Rightarrow> [e])) = Inr (c', es')"
    by (auto simp: bindR_Inr_iff checkR_Inr_iff)
  obtain new where new: "es' = (es @ (case edge of None \<Rightarrow> [] | Some e \<Rightarrow> [e])) @ new"
    "map (\<lambda>e. (eg_left e, eg_right e)) new = pairsOf limits records lefts right" "\<forall>e\<in>set new. exactEdge records e"
    using Cons.IH [OF edge(2)] Cons.prems(2) by auto
  have "left < right"
    using Cons.prems(2) by simp
  note cases = compareRecords_Inr [OF edge(1) assms(2) this assms(4) good]
  show ?case
    by (rule exI [of _ "(case edge of None \<Rightarrow> [] | Some e \<Rightarrow> [e]) @ new"])
      (use cases new in \<open>auto simp: pairsOf_def split: option.splits\<close>)
qed (simp add: pairsOf_def)

lemma fold_postings:
  assumes "distinct anchors"
  shows "fold (\<lambda>anchor p. p(anchor := p anchor @ [right])) anchors postings a =
    postings a @ (if a \<in> set anchors then [right] else [])"
  using assms by (induction anchors arbitrary: postings) auto

lemma selectedAnchors_distinct: "distinct (ur_shingles r) \<Longrightarrow> distinct (selectedAnchors r support limits)"
  by (simp add: selectedAnchors_def sortOn_def)

lemma nearEdgesFrom_Inr:
  assumes "nearEdgesFrom limits records (shingleSupport limits records) right rest postings (c, es) = Inr (c', es')"
    and "right \<le> length records" "rest = drop right records"
    and "\<And>a. postings a = filter (\<lambda>i. isEligible limits (records ! i) \<and> a \<in> anchorsOf limits records i) [0..<right]"
    and good: "\<And>r. r \<in> set records \<Longrightarrow> goodRecord entries r"
  shows "\<exists>new. es' = es @ new \<and>
    map (\<lambda>e. (eg_left e, eg_right e)) new = anchoredPairs limits records [right..<length records] \<and>
    (\<forall>e\<in>set new. exactEdge records e)"
  using assms(1-4)
proof (induction rest arbitrary: right postings c es)
  case Nil
  then show ?case
    by (simp add: anchoredPairs_def)
next
  case (Cons r rest)
  have right: "right < length records" "r = records ! right" "rest = drop (right + 1) records"
  proof -
    show less: "right < length records"
      using Cons.prems(3) drop_eq_Nil [of right records] by (metis list.distinct(1) not_le_imp_less)
    have "r # rest = records ! right # drop (Suc right) records"
      using Cons.prems(3) Cons_nth_drop_Suc [OF less] by (simp only:)
    then show "r = records ! right" "rest = drop (right + 1) records"
      by auto
  qed
  have range: "[right..<length records] = right # [right + 1..<length records]"
    using right(1) by (simp add: upt_conv_Cons)
  show ?case
  proof (cases "isEligible limits r")
    case False
    have after: "postings a = filter (\<lambda>i. isEligible limits (records ! i) \<and> a \<in> anchorsOf limits records i) [0..<right + 1]" for a
      using False right(2) Cons.prems(4) [of a] by simp
    show ?thesis
      using Cons.IH [of "right + 1" postings c es] Cons.prems(1) False right after by (simp add: range anchoredPairs_def)
  next
    case True
    let ?anchors = "selectedAnchors r (shingleSupport limits records) limits"
    let ?candidates = "sort (remdups (concat (map postings ?anchors)))"
    have anchors: "set ?anchors = anchorsOf limits records right" "distinct ?anchors"
      using right(1,2) good [of r] by (auto simp: anchorsOf_def goodRecord_def selectedAnchors_distinct)
    have candidates: "?candidates = comparedWith limits records right"
    proof (rule sorted_distinct_set_unique)
      show "set ?candidates = set (comparedWith limits records right)"
        using anchors(1) by (auto simp: comparedWith_def Cons.prems(4))
    qed (simp_all add: comparedWith_def sorted_wrt_filter)
    obtain c1 es1 where run: "compareCandidates limits records right r ?candidates (c, es) = Inr (c1, es1)"
      "nearEdgesFrom limits records (shingleSupport limits records) (right + 1) rest
         (fold (\<lambda>anchor p. p(anchor := p anchor @ [right])) ?anchors postings) (c1, es1) = Inr (c', es')"
      using Cons.prems(1) True by (auto simp: Let_def bindR_Inr_iff)
    have "\<forall>left\<in>set ?candidates. left < right"
      unfolding candidates by (simp add: comparedWith_def)
    then obtain new1 where new1: "es1 = es @ new1"
      "map (\<lambda>e. (eg_left e, eg_right e)) new1 = pairsOf limits records (comparedWith limits records right) right"
      "\<forall>e\<in>set new1. exactEdge records e"
      using compareCandidates_Inr [OF run(1) right(2) _ right(1) good] candidates by auto
    have after: "fold (\<lambda>anchor p. p(anchor := p anchor @ [right])) ?anchors postings a =
        filter (\<lambda>i. isEligible limits (records ! i) \<and> a \<in> anchorsOf limits records i) [0..<right + 1]" for a
      using True right(2) anchors by (simp add: fold_postings Cons.prems(4))
    obtain new2 where "es' = es1 @ new2"
      "map (\<lambda>e. (eg_left e, eg_right e)) new2 = anchoredPairs limits records [right + 1..<length records]"
      "\<forall>e\<in>set new2. exactEdge records e"
      using Cons.IH [OF run(2) _ right(3) after] right(1) by auto
    then show ?thesis
      using new1 True right(2) by (intro exI [of _ "new1 @ new2"]) (auto simp: range anchoredPairs_def)
  qed
qed

subsection \<open>The limits\<close>

lemma validateDuplicationLimit_Inr:
  "validateDuplicationLimit v name = Inr n \<Longrightarrow> 1 \<le> n \<and> n \<le> DUPLICATION_INDEX_HARD_LIMITS name"
  by (auto simp: validateDuplicationLimit_def checkR_Inr_iff)

lemma validateDuplicationLimits_Inr:
  assumes "validateDuplicationLimits given names start = Inr limits"
  shows "(name \<in> set names \<longrightarrow> 1 \<le> limits name \<and> limits name \<le> DUPLICATION_INDEX_HARD_LIMITS name) \<and>
    (name \<notin> set names \<longrightarrow> limits name = start name)"
  using assms
proof (induction names arbitrary: start)
  case (Cons n names)
  then obtain v where v: "1 \<le> v \<and> v \<le> DUPLICATION_INDEX_HARD_LIMITS n"
    "validateDuplicationLimits given names (start(n := v)) = Inr limits"
    by (auto simp: bindR_Inr_iff dest: validateDuplicationLimit_Inr)
  then show ?case
    using Cons.IH [OF v(2)] by (cases "name \<in> set names") auto
qed simp

lemma validateDuplicationOptions_Inr:
  assumes "validateDuplicationOptions given = Inr limits"
  shows "1 \<le> limits name \<and> limits name \<le> DUPLICATION_INDEX_HARD_LIMITS name"
proof -
  have "name \<in> set DUPLICATION_LIMIT_KEYS"
    by (cases name) (simp_all add: DUPLICATION_LIMIT_KEYS_def)
  then show ?thesis
    using validateDuplicationLimits_Inr [OF assms [unfolded validateDuplicationOptions_def]] by blast
qed

subsection \<open>All similar pairs\<close>

definition similarPairs :: "DuplicationIndexLimits \<Rightarrow> UniqueTextRecord list \<Rightarrow> (nat \<times> nat) list" where
  "similarPairs limits records =
     [(i, j). j \<leftarrow> [0..<length records], isEligible limits (records ! j),
              i \<leftarrow> [0..<j], isEligible limits (records ! i),
              limits MinimumSimilarityBasisPoints \<le> similarityOf records i j]"

lemma filter_listcomp: "concat (map (\<lambda>i. if P i then [f i] else []) xs) = map f (filter P xs)"
  by (induction xs) simp_all

lemma concat_if: "concat (map (\<lambda>j. if P j then f j else []) xs) = concat (map f (filter P xs))"
  by (induction xs) simp_all

lemma similarPairs_pairsOf:
  "similarPairs limits records =
    concat (map (\<lambda>j. pairsOf limits records (filter (\<lambda>i. isEligible limits (records ! i)) [0..<j]) j)
      (filter (\<lambda>j. isEligible limits (records ! j)) [0..<length records]))"
  by (simp add: similarPairs_def pairsOf_def concat_if filter_listcomp filter_filter cong: if_cong)

lemma count_distinct: "distinct xs \<Longrightarrow> count_list xs a = (if a \<in> set xs then 1 else 0)"
  by (induction xs) auto

lemma support_count:
  assumes "\<forall>r\<in>set rs. distinct (ur_shingles r)"
  shows "shingleSupport limits rs a = length (filter (\<lambda>r. isEligible limits r \<and> a \<in> set (ur_shingles r)) rs)"
  using assms by (induction rs) (auto simp: shingleSupport_def count_distinct)

lemma length_filter_le2:
  assumes "i < j" "j < length xs" "P (xs ! i)" "P (xs ! j)"
  shows "2 \<le> length (filter P xs)"
proof -
  have "card {i, j} \<le> card {k. k < length xs \<and> P (xs ! k)}"
    by (rule card_mono) (use assms in auto)
  then show ?thesis
    using assms(1) by (simp add: length_filter_conv_card)
qed

lemma similar_share_shingle:
  assumes "1 \<le> limits MinimumSimilarityBasisPoints" "1 \<le> limits MinimumNearDuplicateCodePoints"
    and "limits MinimumSimilarityBasisPoints \<le> similarityOf records i j"
    and "isEligible limits (records ! i)" "goodRecord entries (records ! i)" "goodRecord entries (records ! j)"
  shows "set (ur_shingles (records ! i)) \<inter> set (ur_shingles (records ! j)) \<noteq> {}"
proof
  let ?A = "set (ur_shingles (records ! i))" and ?B = "set (ur_shingles (records ! j))"
  assume none: "?A \<inter> ?B = {}"
  have "ur_normalizedText (records ! i) \<noteq> []"
    using assms(2,4) by (auto simp: isEligible_def)
  then have "?A \<noteq> {}"
    using assms(5) shingleSet_nonempty by (auto simp: goodRecord_def)
  moreover have "distinct (ur_shingles (records ! i))" "distinct (ur_shingles (records ! j))"
    using assms(5,6) by (auto simp: goodRecord_def)
  ultimately have "similarityOf records i j = 0"
    by (simp add: similarityOf_def jaccard_card none)
  then show False
    using assms(1,3) by simp
qed

lemma similar_share_anchor:
  assumes limits: "1 \<le> limits MinimumSimilarityBasisPoints" "1 \<le> limits MinimumNearDuplicateCodePoints"
    and small: "\<forall>r\<in>set records. isEligible limits r \<longrightarrow> length (ur_shingles r) \<le> limits MaximumAnchorsPerEntry"
      "length (filter (isEligible limits) records) \<le> limits MaximumPostingLength"
    and good: "\<And>r. r \<in> set records \<Longrightarrow> goodRecord entries r"
    and ij: "i < j" "j < length records" "isEligible limits (records ! i)" "isEligible limits (records ! j)"
      "limits MinimumSimilarityBasisPoints \<le> similarityOf records i j"
  shows "anchorsOf limits records i \<inter> anchorsOf limits records j \<noteq> {}"
proof -
  have in_records: "records ! i \<in> set records" "records ! j \<in> set records"
    using ij by auto
  obtain a where a: "a \<in> set (ur_shingles (records ! i))" "a \<in> set (ur_shingles (records ! j))"
    using similar_share_shingle [OF limits ij(5,3) good [OF in_records(1)] good [OF in_records(2)]] by blast
  have distinct: "\<forall>r\<in>set records. distinct (ur_shingles r)"
    using good by (simp add: goodRecord_def)
  have "2 \<le> shingleSupport limits records a"
    unfolding support_count [OF distinct] using length_filter_le2 [OF ij(1,2)] ij(3,4) a by simp
  moreover have "shingleSupport limits records a \<le> length (filter (isEligible limits) records)"
    unfolding support_count [OF distinct]
    by (metis (no_types, lifting) filter_filter length_filter_le filter_cong)
  ultimately have support: "2 \<le> shingleSupport limits records a" "shingleSupport limits records a \<le> limits MaximumPostingLength"
    using small(2) by simp_all
  have "a \<in> anchorsOf limits records k" if k: "a \<in> set (ur_shingles (records ! k))" "isEligible limits (records ! k)"
    "records ! k \<in> set records" for k
  proof -
    let ?sel = "filter (\<lambda>shingle. 2 \<le> shingleSupport limits records shingle \<and>
      shingleSupport limits records shingle \<le> limits MaximumPostingLength) (ur_shingles (records ! k))"
    have "length ?sel \<le> limits MaximumAnchorsPerEntry"
      using small(1) k(2,3) length_filter_le [of _ "ur_shingles (records ! k)"] order_trans by blast
    then show ?thesis
      using k(1) support by (simp add: anchorsOf_def selectedAnchors_def sortOn_def)
  qed
  then show ?thesis
    using a ij(3,4) in_records by blast
qed

lemma anchoredPairs_subset: "set (anchoredPairs limits records [0..<length records]) \<subseteq> set (similarPairs limits records)"
  unfolding similarPairs_pairsOf by (auto simp: anchoredPairs_def comparedWith_def pairsOf_def)

lemma anchoredPairs_complete:
  assumes "1 \<le> limits MinimumSimilarityBasisPoints" "1 \<le> limits MinimumNearDuplicateCodePoints"
    and "\<forall>r\<in>set records. isEligible limits r \<longrightarrow> length (ur_shingles r) \<le> limits MaximumAnchorsPerEntry"
      "length (filter (isEligible limits) records) \<le> limits MaximumPostingLength"
    and "\<And>r. r \<in> set records \<Longrightarrow> goodRecord entries r"
  shows "anchoredPairs limits records [0..<length records] = similarPairs limits records"
proof -
  have "pairsOf limits records (comparedWith limits records j) j =
      pairsOf limits records (filter (\<lambda>i. isEligible limits (records ! i)) [0..<j]) j"
    if "j < length records" "isEligible limits (records ! j)" for j
    unfolding pairsOf_def comparedWith_def filter_filter
    using similar_share_anchor [OF assms _ that(1) _ that(2)] by (intro arg_cong [where f = "map _"] filter_cong) auto
  then show ?thesis
    unfolding anchoredPairs_def similarPairs_pairsOf by (intro arg_cong [where f = concat] map_cong) auto
qed

lemma nearEdges_Inr:
  assumes "nearEdges limits records = Inr (comparisons, edges)" "\<And>r. r \<in> set records \<Longrightarrow> goodRecord entries r"
  shows "map (\<lambda>e. (eg_left e, eg_right e)) edges = anchoredPairs limits records [0..<length records]"
    "\<forall>e\<in>set edges. exactEdge records e"
  using nearEdgesFrom_Inr [of limits records 0 records "\<lambda>_. []" 0 "[]" comparisons edges entries] assms
  by (auto simp: nearEdges_def)

subsection \<open>Failures\<close>

definition expected :: "DuplicationFailure \<Rightarrow> bool" where
  "expected f \<longleftrightarrow> f \<noteq> DuplicationInternal \<and> f \<noteq> DuplicationDiverges"

lemma expected_simps [simp]:
  "expected DuplicationInvalidInput" "expected (DuplicationInvalidOptions name)" "expected (DuplicationLimitExceeded name)"
  by (simp_all add: expected_def)

lemma validateDuplicationLimits_expected: "validateDuplicationLimits given names start = Inl f \<Longrightarrow> expected f"
  by (induction given names start rule: validateDuplicationLimits.induct)
    (auto simp: bindR_Inl_iff checkR_Inl_iff validateDuplicationLimit_def)

lemma stableIdentifierR_expected: "stableIdentifierR s = Inl f \<Longrightarrow> expected f"
  by (auto simp: stableIdentifierR_def checkR_Inl_iff)

lemma sortedIdentifiers_expected: "sortedIdentifiers previous ids = Inl f \<Longrightarrow> expected f"
  by (induction previous ids rule: sortedIdentifiers.induct)
    (auto simp: bindR_Inl_iff checkR_Inl_iff dest: stableIdentifierR_expected)

lemma denseNodeIds_expected: "denseNodeIds n ids = Inl f \<Longrightarrow> expected f"
  by (auto simp: denseNodeIds_def bindR_Inl_iff checkR_Inl_iff dest: sortedIdentifiers_expected)

lemma validateEntriesFrom_expected: "validateEntriesFrom nfc lower limits previous n entries = Inl f \<Longrightarrow> expected f"
proof (induction nfc lower limits previous n entries rule: validateEntriesFrom.induct)
  case (2 nfc lower limits previous n entry rest)
  then show ?case
    by (auto simp: bindR_Inl_iff checkR_Inl_iff normalizedTextR_def validateRange_def
        dest: stableIdentifierR_expected denseNodeIds_expected)
qed simp

lemma buildRecords_expected: "buildRecords limits entries n texts = Inl f \<Longrightarrow> expected f"
proof (induction texts arbitrary: n)
  case (Cons s texts)
  then show ?case
    by (auto simp: bindR_Inl_iff checkR_Inl_iff createShingles_def)
qed simp

lemma sequenceR_expected:
  assumes "sequenceR (map g xs) = Inl f" "\<And>x f. g x = Inl f \<Longrightarrow> expected f"
  shows "expected f"
  using sequenceR_Inl [OF assms(1)] assms(2) by (metis image_iff list.set_map)

lemma exactClusters_expected: "exactClusters sha256 limits records = Inl f \<Longrightarrow> expected f"
  by (auto simp: exactClusters_def bindR_Inl_iff exactCluster_def checkR_Inl_iff Let_def elim!: sequenceR_expected)

lemma compareRecords_expected:
  assumes "compareRecords limits records left right r = Inl f" "left < length records"
    and "\<And>r. r \<in> set records \<Longrightarrow> goodRecord entries r" "r \<in> set records"
  shows "expected f"
proof -
  have "ur_members (records ! left) \<noteq> []" "ur_members r \<noteq> []"
    using goodRecord_members [OF assms(3)] assms(2,4) by simp_all
  then show ?thesis
    using assms(1,2)
    by (auto simp: compareRecords_def bindR_Inl_iff Let_def primaryStatementId_def split: prod.splits if_splits list.splits)
qed

lemma compareCandidates_expected:
  assumes "compareCandidates limits records right r lefts progress = Inl f" "\<forall>left\<in>set lefts. left < length records"
    and "\<And>r. r \<in> set records \<Longrightarrow> goodRecord entries r" "r \<in> set records"
  shows "expected f"
  using assms(1,2)
proof (induction lefts arbitrary: progress)
  case (Cons left lefts)
  then show ?case
    using compareRecords_expected [OF _ _ assms(3,4)]
    by (cases progress) (auto simp: bindR_Inl_iff checkR_Inl_iff)
qed simp

lemma nearEdgesFrom_expected:
  assumes "nearEdgesFrom limits records support right rest postings progress = Inl f"
    and "right + length rest = length records" "set rest \<subseteq> set records" "\<And>a. set (postings a) \<subseteq> {..<right}"
    and good: "\<And>r. r \<in> set records \<Longrightarrow> goodRecord entries r"
  shows "expected f"
  using assms(1-4)
proof (induction rest arbitrary: right postings progress)
  case (Cons r rest)
  let ?anchors = "selectedAnchors r support limits"
  let ?candidates = "sort (remdups (concat (map postings ?anchors)))"
  let ?after = "fold (\<lambda>anchor p. p(anchor := p anchor @ [right])) ?anchors postings"
  have r: "r \<in> set records" "distinct ?anchors"
    using Cons.prems(3) good [of r] by (auto simp: goodRecord_def selectedAnchors_distinct)
  have postings: "set (postings a) \<subseteq> {..<right + 1}" "set (?after a) \<subseteq> {..<right + 1}" for a
    using Cons.prems(4) [of a] by (auto simp: fold_postings [OF r(2)])
  have candidates: "\<forall>left\<in>set ?candidates. left < length records"
    using Cons.prems(2,4) by fastforce
  show ?case
  proof (cases "isEligible limits r")
    case True
    then consider "compareCandidates limits records right r ?candidates progress = Inl f"
      | x where "nearEdgesFrom limits records support (right + 1) rest ?after x = Inl f"
      using Cons.prems(1) by (auto simp: Let_def bindR_Inl_iff)
    then show ?thesis
    proof cases
      case 1
      show ?thesis
        by (rule compareCandidates_expected [OF 1 candidates good r(1)])
    next
      case 2
      show ?thesis
        by (rule Cons.IH [OF 2]) (use Cons.prems(2,3) postings(2) in auto)
    qed
  next
    case False
    then show ?thesis
      using Cons.IH [of "right + 1" postings progress] Cons.prems(1-3) postings(1) by simp
  qed
qed simp

lemma nearEdges_expected:
  assumes "nearEdges limits records = Inl f" "\<And>r. r \<in> set records \<Longrightarrow> goodRecord entries r"
  shows "expected f"
  by (rule nearEdgesFrom_expected [OF assms(1) [unfolded nearEdges_def] _ _ _ assms(2)]) auto

lemma exactEdges_inRange: "\<forall>e\<in>set edges. exactEdge records e \<Longrightarrow> inRange (length records) edges"
  by (auto simp: inRange_def exactEdge_def Let_def)

lemma nearClusters_expected:
  assumes "nearClusters sha256 limits records edges = Inl f" "inRange (length records) edges"
  shows "expected f"
proof -
  obtain cs where cs: "edgeComponents (length records) edges = Some cs"
    using edgeComponents_spec [OF assms(2)] by metis
  show ?thesis
    using assms(1)
    by (auto simp: nearClusters_def cs bindR_Inl_iff nearCluster_def checkR_Inl_iff Let_def elim!: sequenceR_expected)
qed

text \<open>C15. Building the index always ends with a result or one of the documented errors: no input reaches the
  endless loop that \<open>find\<close> has outside its array, nor an internal error.\<close>

theorem duplication_index_answers:
  "buildDuplicationIndex sha256 normalizeNFC toLowerCase entries options \<notin> {Inl DuplicationDiverges, Inl DuplicationInternal}"
proof -
  have "expected f" if failed: "buildDuplicationIndex sha256 normalizeNFC toLowerCase entries options = Inl f" for f
  proof -
    consider "validateDuplicationOptions options = Inl f"
      | limits where "validateEntries normalizeNFC toLowerCase limits entries = Inl f"
      | limits where "buildUniqueRecords limits entries = Inl f"
      | limits records where "exactClusters sha256 limits records = Inl f"
      | limits records n where "buildUniqueRecords limits entries = Inr (records, n)" "nearEdges limits records = Inl f"
      | limits records n c edges where "buildUniqueRecords limits entries = Inr (records, n)"
          "nearEdges limits records = Inr (c, edges)" "nearClusters sha256 limits records edges = Inl f"
      using failed unfolding buildDuplicationIndex_def by (auto simp: bindR_Inl_iff split: prod.splits)
    then show ?thesis
    proof cases
      case 1
      then show ?thesis
        by (auto simp: validateDuplicationOptions_def dest: validateDuplicationLimits_expected)
    next
      case 2
      then show ?thesis
        by (auto simp: validateEntries_def checkR_Inl_iff dest: validateEntriesFrom_expected)
    next
      case 3
      then show ?thesis
        by (auto simp: buildUniqueRecords_def dest: buildRecords_expected)
    next
      case 4
      then show ?thesis
        by (rule exactClusters_expected)
    next
      case 5
      show ?thesis
        by (rule nearEdges_expected [OF 5(2) buildUniqueRecords_Inr(2) [OF 5(1)]])
    next
      case 6
      show ?thesis
        by (rule nearClusters_expected [OF 6(3) exactEdges_inRange])
          (rule nearEdges_Inr(2) [OF 6(2) buildUniqueRecords_Inr(2) [OF 6(1)]])
    qed
  qed
  then show ?thesis
    by (auto simp: expected_def)
qed

subsection \<open>Exact clusters\<close>

definition statementsOf :: "DuplicationIndexEntry list \<Rightarrow> jstring \<Rightarrow> DuplicationIndexEntry set" where
  "statementsOf entries s = {entry \<in> set entries. de_normalizedText entry = s}"

lemma validateEntriesFrom_sorted:
  assumes "validateEntriesFrom nfc lower limits previous n entries = Inr m"
  shows "sorted_wrt (<) (map de_statementId entries) \<and> (\<forall>entry\<in>set entries. previous < de_statementId entry)"
  using assms
proof (induction nfc lower limits previous n entries rule: validateEntriesFrom.induct)
  case (2 nfc lower limits previous n entry rest)
  then have "previous < de_statementId entry" "sorted_wrt (<) (map de_statementId rest)"
    "\<forall>e\<in>set rest. de_statementId entry < de_statementId e"
    by (auto simp: bindR_Inr_iff checkR_Inr_iff stableIdentifierR_def)
  then show ?case
    by auto
qed simp

lemma validateEntries_distinct:
  assumes "validateEntries nfc lower limits entries = Inr m"
  shows "distinct entries \<and> inj_on de_statementId (set entries)"
proof -
  have "distinct (map de_statementId entries)"
    using validateEntriesFrom_sorted assms
    by (auto simp: validateEntries_def checkR_Inr_iff strict_sorted_iff)
  then show ?thesis
    by (simp add: distinct_map)
qed

lemma statementsOf_members: "statementsOf entries s = set (textMembers entries s)"
  by (simp add: statementsOf_def textMembers_set)

lemma card_statementsOf: "distinct entries \<Longrightarrow> length (textMembers entries s) = card (statementsOf entries s)"
  unfolding statementsOf_members by (rule distinct_card [symmetric]) (simp add: textMembers_def sortOn_def)

lemma records_textMembers:
  assumes "buildUniqueRecords limits entries = Inr (records, n)"
  shows "map ur_members records = map (textMembers entries) (sort (remdups (map de_normalizedText entries)))"
proof -
  have "map ur_members records = map (textMembers entries) (map ur_normalizedText records)"
    using buildUniqueRecords_Inr(2) [OF assms] by (auto simp: goodRecord_def)
  then show ?thesis
    using buildUniqueRecords_Inr(1) [OF assms] by simp
qed

lemma exactCluster_Inr:
  "exactCluster sha256 limits r = Inr c \<Longrightarrow>
    set (xc_members c) = evidenceOf ` set (ur_members r) \<and> length (xc_members c) \<le> limits MaximumClusterMembers \<and>
    sorted (map ep_statementId (xc_members c)) \<and> length (xc_members c) = length (ur_members r) \<and>
    xc_id c = stableClusterId sha256 (js ''exact'') (map ep_statementId (xc_members c)) \<and>
    xc_normalizedTextSha256 c = sha256 (utf8 (ur_normalizedText r))"
  by (auto simp: exactCluster_def Let_def checkR_Inr_iff sortOn_def)

definition repeatedTexts :: "DuplicationIndexEntry list \<Rightarrow> jstring set" where
  "repeatedTexts entries = {s. s \<noteq> [] \<and> 1 < card (statementsOf entries s)}"

lemma repeated_records:
  assumes "buildUniqueRecords limits entries = Inr (records, n)" "distinct entries"
  shows "ur_normalizedText ` set (filter (\<lambda>r. 0 < length (ur_normalizedText r) \<and> 1 < length (ur_members r)) records) =
      repeatedTexts entries"
    "inj_on ur_normalizedText (set records)" "distinct records"
proof -
  let ?texts = "sort (remdups (map de_normalizedText entries))"
  have texts: "map ur_normalizedText records = ?texts"
    by (rule buildUniqueRecords_Inr(1) [OF assms(1)])
  have "distinct (map ur_normalizedText records)"
    unfolding texts by simp
  then show "inj_on ur_normalizedText (set records)" "distinct records"
    by (simp_all add: distinct_map)
  have size: "length (ur_members r) = card (statementsOf entries (ur_normalizedText r))" if "r \<in> set records" for r
    using buildUniqueRecords_Inr(2) [OF assms(1) that] card_statementsOf [OF assms(2)] by (simp add: goodRecord_def)
  have present: "s \<in> ur_normalizedText ` set records" if "s \<in> repeatedTexts entries" for s
  proof -
    have "statementsOf entries s \<noteq> {}"
      using that by (auto simp: repeatedTexts_def)
    then have "s \<in> set (map ur_normalizedText records)"
      unfolding texts by (auto simp: statementsOf_def)
    then show ?thesis
      by simp
  qed
  show "ur_normalizedText ` set (filter (\<lambda>r. 0 < length (ur_normalizedText r) \<and> 1 < length (ur_members r)) records) =
      repeatedTexts entries"
    using present size by (auto simp: repeatedTexts_def image_iff) (metis size)
qed

lemma exactClusters_Inr:
  assumes "exactClusters sha256 limits records = Inr clusters"
  defines "repeated \<equiv> filter (\<lambda>r. 0 < length (ur_normalizedText r) \<and> 1 < length (ur_members r)) records"
  obtains cs where "map (exactCluster sha256 limits) repeated = map Inr cs" "set clusters = set cs" "length clusters = length cs"
  using assms by (auto simp: exactClusters_def bindR_Inr_iff sequenceR_Inr sortOn_def)

lemma exactClusters_spec:
  assumes records: "buildUniqueRecords limits entries = Inr (records, n)" and "distinct entries"
    and clusters: "exactClusters sha256 limits records = Inr clusters"
  shows "(\<lambda>c. set (xc_members c)) ` set clusters = (\<lambda>s. evidenceOf ` statementsOf entries s) ` repeatedTexts entries"
    "length clusters = card (repeatedTexts entries)"
    "c \<in> set clusters \<Longrightarrow> sorted (map ep_statementId (xc_members c)) \<and>
      length (xc_members c) \<le> limits MaximumClusterMembers \<and>
      xc_id c = stableClusterId sha256 (js ''exact'') (map ep_statementId (xc_members c))"
proof -
  let ?repeated = "filter (\<lambda>r. 0 < length (ur_normalizedText r) \<and> 1 < length (ur_members r)) records"
  note repeated = repeated_records [OF records assms(2)]
  obtain cs where cs: "map (exactCluster sha256 limits) ?repeated = map Inr cs" "set clusters = set cs" "length clusters = length cs"
    by (rule exactClusters_Inr [OF clusters])
  have members: "evidenceOf ` set (ur_members r) = evidenceOf ` statementsOf entries (ur_normalizedText r)"
    if "r \<in> set records" for r
    using buildUniqueRecords_Inr(2) [OF records that] by (simp add: goodRecord_def statementsOf_members)
  have "(\<lambda>c. set (xc_members c)) ` set cs = (\<lambda>r. evidenceOf ` statementsOf entries (ur_normalizedText r)) ` set ?repeated"
    by (rule map_Inr_image [OF cs(1)]) (use exactCluster_Inr members in auto)
  also have "\<dots> = (\<lambda>s. evidenceOf ` statementsOf entries s) ` repeatedTexts entries"
    unfolding repeated(1) [symmetric] by (simp add: image_image)
  finally show "(\<lambda>c. set (xc_members c)) ` set clusters =
      (\<lambda>s. evidenceOf ` statementsOf entries s) ` repeatedTexts entries"
    unfolding cs(2) .
  have "length cs = length ?repeated"
    using arg_cong [OF cs(1), of length] by simp
  also have "\<dots> = card (set ?repeated)"
    by (rule distinct_card [symmetric]) (simp add: repeated(3))
  also have "\<dots> = card (ur_normalizedText ` set ?repeated)"
    by (rule card_image [symmetric], rule inj_on_subset [OF repeated(2)]) auto
  finally show "length clusters = card (repeatedTexts entries)"
    unfolding repeated(1) cs(3) .
  show "sorted (map ep_statementId (xc_members c)) \<and> length (xc_members c) \<le> limits MaximumClusterMembers \<and>
      xc_id c = stableClusterId sha256 (js ''exact'') (map ep_statementId (xc_members c))" if c: "c \<in> set clusters"
  proof -
    obtain r where "exactCluster sha256 limits r = Inr c"
      using map_Inr_source [OF cs(1)] c unfolding cs(2) by blast
    then show ?thesis
      using exactCluster_Inr by blast
  qed
qed

lemma buildDuplicationIndex_Inr:
  assumes "buildDuplicationIndex sha256 normalizeNFC toLowerCase entries options = Inr result"
  obtains records n comparisons edges where "validateDuplicationOptions options = Inr (dr_limits result)"
    "distinct entries" "inj_on de_statementId (set entries)"
    "buildUniqueRecords (dr_limits result) entries = Inr (records, n)"
    "exactClusters sha256 (dr_limits result) records = Inr (dr_exactClusters result)"
    "nearEdges (dr_limits result) records = Inr (comparisons, edges)"
    "nearClusters sha256 (dr_limits result) records edges = Inr (dr_nearClusters result)"
  using assms validateEntries_distinct [of normalizeNFC toLowerCase "dr_limits result" entries]
  unfolding buildDuplicationIndex_def by (auto simp: bindR_Inr_iff)

text \<open>C14. The exact clusters of an index are exactly the groups of two or more statements with one non-empty
  normalized text, one cluster for each text, within the limit on members, with the members in the order of
  their identifiers and the cluster's identifier computed from these.\<close>

theorem exact_clusters_exact:
  assumes "buildDuplicationIndex sha256 normalizeNFC toLowerCase entries options = Inr result"
  shows "(\<lambda>c. set (xc_members c)) ` set (dr_exactClusters result) =
      (\<lambda>s. evidenceOf ` statementsOf entries s) ` repeatedTexts entries \<and>
    length (dr_exactClusters result) = card (repeatedTexts entries) \<and>
    (\<forall>c\<in>set (dr_exactClusters result). sorted (map ep_statementId (xc_members c)) \<and>
      length (xc_members c) \<le> dr_limits result MaximumClusterMembers \<and>
      xc_id c = stableClusterId sha256 (js ''exact'') (map ep_statementId (xc_members c)))"
proof -
  obtain records n where records: "distinct entries" "buildUniqueRecords (dr_limits result) entries = Inr (records, n)"
    "exactClusters sha256 (dr_limits result) records = Inr (dr_exactClusters result)"
    using buildDuplicationIndex_Inr [OF assms] by metis
  show ?thesis
    using exactClusters_spec [OF records(2,1,3)] by blast
qed

subsection \<open>Near clusters\<close>

definition textSimilarity :: "jstring \<Rightarrow> jstring \<Rightarrow> nat" where
  "textSimilarity s t =
     (let A = set (shingleSet s); B = set (shingleSet t) in
      if A \<union> B = {} then 10000 else card (A \<inter> B) * 10000 div card (A \<union> B))"

definition comparable :: "DuplicationIndexLimits \<Rightarrow> jstring \<Rightarrow> bool" where
  "comparable limits s \<longleftrightarrow> limits MinimumNearDuplicateCodePoints \<le> length (scalars s)"

text \<open>Two different texts of the entries are near when both are long enough and similar enough.\<close>

definition nearTexts :: "DuplicationIndexLimits \<Rightarrow> DuplicationIndexEntry list \<Rightarrow> (jstring \<times> jstring) set" where
  "nearTexts limits entries =
     {(s, t). s \<in> de_normalizedText ` set entries \<and> t \<in> de_normalizedText ` set entries \<and> s \<noteq> t \<and>
        comparable limits s \<and> comparable limits t \<and> limits MinimumSimilarityBasisPoints \<le> textSimilarity s t}"

lemma textSimilarity_sym: "textSimilarity s t = textSimilarity t s"
  unfolding textSimilarity_def Let_def by (simp only: Int_commute Un_commute)

lemma sym_nearTexts: "sym (nearTexts limits entries)"
  by (auto simp: sym_def nearTexts_def textSimilarity_sym)

lemma nearClusters_spec:
  assumes "inRange (length records) edges" "nearClusters sha256 limits records edges = Inr clusters"
  shows "(\<lambda>c. set (nc_members c)) ` set clusters =
      (\<lambda>C. evidenceOf ` (\<Union>i\<in>C. set (ur_members (records ! i)))) ` components edges"
    "length clusters = card (components edges)"
proof -
  obtain cs where cs: "edgeComponents (length records) edges = Some cs" "set ` set cs = components edges" "distinct (map set cs)"
    using edgeComponents_spec [OF assms(1)] by metis
  obtain built where built: "map (nearCluster sha256 limits records edges) cs = map Inr built" "set clusters = set built"
    "length clusters = length built"
    using assms(2) by (auto simp: nearClusters_def cs(1) bindR_Inr_iff sequenceR_Inr sortOn_def)
  have below: "i < length records" if indices: "indices \<in> set cs" "i \<in> set indices" for indices i
  proof -
    have "set indices \<in> components edges"
      using indices(1) cs(2) by blast
    then obtain e where "e \<in> set edges" "(eg_left e, i) \<in> (linked edges)\<^sup>*"
      using indices(2) by (auto simp: components_def)
    then show ?thesis
      using linked_closure_range [OF _ assms(1)] assms(1) by (auto simp: inRange_def)
  qed
  have members: "set (nc_members c) = evidenceOf ` (\<Union>i\<in>set indices. set (ur_members (records ! i)))"
    if "nearCluster sha256 limits records edges indices = Inr c" "indices \<in> set cs" for indices c
  proof -
    have "set (concat (map (\<lambda>index. if index < length records then ur_members (records ! index) else []) indices)) =
        (\<Union>i\<in>set indices. set (ur_members (records ! i)))"
      using below [OF that(2)] by simp
    moreover have "nc_members c = sortOn ep_statementId (map evidenceOf
        (concat (map (\<lambda>index. if index < length records then ur_members (records ! index) else []) indices)))"
      using that(1) by (auto simp: nearCluster_def Let_def checkR_Inr_iff)
    ultimately show ?thesis
      by (simp only: sortOn_def set_sort set_map)
  qed
  have "(\<lambda>c. set (nc_members c)) ` set built =
      (\<lambda>indices. evidenceOf ` (\<Union>i\<in>set indices. set (ur_members (records ! i)))) ` set cs"
    by (rule map_Inr_image [OF built(1) members])
  then show "(\<lambda>c. set (nc_members c)) ` set clusters =
      (\<lambda>C. evidenceOf ` (\<Union>i\<in>C. set (ur_members (records ! i)))) ` components edges"
    unfolding built(2) cs(2) [symmetric] by (simp add: image_image)
  have "length built = length (map set cs)"
    using arg_cong [OF built(1), of length] by simp
  also have "\<dots> = card (components edges)"
    using distinct_card [OF cs(3)] cs(2) by simp
  finally show "length clusters = card (components edges)"
    unfolding built(3) .
qed

text \<open>Positions of records and texts correspond; so do edges and near texts, and therefore components and classes.\<close>

lemma rtrancl_inv_image_on:
  assumes image: "\<And>i j. i \<in> A \<Longrightarrow> j \<in> A \<Longrightarrow> (i, j) \<in> r \<longleftrightarrow> (f i, f j) \<in> s"
    and closed: "\<And>i j. (i, j) \<in> r \<Longrightarrow> j \<in> A" "\<And>x y. (x, y) \<in> s \<Longrightarrow> y \<in> f ` A" and "i \<in> A"
  shows "f ` {j. (i, j) \<in> r\<^sup>*} = {x. (f i, x) \<in> s\<^sup>*}"
proof (intro set_eqI iffI; clarify)
  fix j
  assume "(i, j) \<in> r\<^sup>*"
  then have "j \<in> A \<and> (f i, f j) \<in> s\<^sup>*"
  proof induction
    case (step j k)
    then have "k \<in> A" "(f j, f k) \<in> s"
      using closed(1) image by auto
    then show ?case
      using step.IH by (meson rtrancl.rtrancl_into_rtrancl)
  qed (use assms(4) in simp)
  then show "(f i, f j) \<in> s\<^sup>*"
    by blast
next
  fix x
  assume "(f i, x) \<in> s\<^sup>*"
  then have "\<exists>j\<in>A. x = f j \<and> (i, j) \<in> r\<^sup>*"
  proof induction
    case (step x y)
    then obtain j k where "j \<in> A" "x = f j" "(i, j) \<in> r\<^sup>*" "k \<in> A" "y = f k"
      using closed(2) by blast
    moreover have "(j, k) \<in> r"
      using image [of j k] step.hyps(2) calculation by simp
    ultimately show ?case
      by (intro bexI [of _ k]) (auto intro: rtrancl.rtrancl_into_rtrancl)
  qed (use assms(4) in auto)
  then show "x \<in> f ` {j. (i, j) \<in> r\<^sup>*}"
    by blast
qed

text \<open>The limits on anchors and postings are not reached.\<close>

definition withinAnchorLimits :: "DuplicationIndexLimits \<Rightarrow> DuplicationIndexEntry list \<Rightarrow> bool" where
  "withinAnchorLimits limits entries \<longleftrightarrow>
     (\<forall>s\<in>de_normalizedText ` set entries. comparable limits s \<longrightarrow>
        length (shingleSet s) \<le> limits MaximumAnchorsPerEntry) \<and>
     card {s \<in> de_normalizedText ` set entries. comparable limits s} \<le> limits MaximumPostingLength"

lemma similarityOf_textSimilarity:
  assumes "goodRecord entries (records ! i)" "goodRecord entries (records ! j)"
  shows "similarityOf records i j =
    textSimilarity (ur_normalizedText (records ! i)) (ur_normalizedText (records ! j))"
proof -
  have "distinct (ur_shingles (records ! i))" "distinct (ur_shingles (records ! j))"
    "set (ur_shingles (records ! i)) = set (shingleSet (ur_normalizedText (records ! i)))"
    "set (ur_shingles (records ! j)) = set (shingleSet (ur_normalizedText (records ! j)))"
    using assms unfolding goodRecord_def by blast+
  then show ?thesis
    unfolding similarityOf_def textSimilarity_def Let_def by (simp add: jaccard_card)
qed

lemma record_texts:
  assumes "buildUniqueRecords limits entries = Inr (records, n)"
  shows "(\<lambda>i. ur_normalizedText (records ! i)) ` {..<length records} = de_normalizedText ` set entries"
    "inj_on (\<lambda>i. ur_normalizedText (records ! i)) {..<length records}"
proof -
  let ?texts = "map ur_normalizedText records"
  have texts: "?texts = sort (remdups (map de_normalizedText entries))"
    by (rule buildUniqueRecords_Inr(1) [OF assms])
  have "(\<lambda>i. ur_normalizedText (records ! i)) ` {..<length records} = set ?texts"
    by (simp only: set_map) (auto simp: set_conv_nth)
  then show "(\<lambda>i. ur_normalizedText (records ! i)) ` {..<length records} = de_normalizedText ` set entries"
    unfolding texts by simp
  have "distinct ?texts"
    unfolding texts by simp
  then show "inj_on (\<lambda>i. ur_normalizedText (records ! i)) {..<length records}"
    by (auto simp: inj_on_def distinct_conv_nth)
qed

lemma withinAnchorLimits_records:
  assumes records: "buildUniqueRecords limits entries = Inr (records, n)" and "withinAnchorLimits limits entries"
  shows "\<forall>r\<in>set records. isEligible limits r \<longrightarrow> length (ur_shingles r) \<le> limits MaximumAnchorsPerEntry"
    "length (filter (isEligible limits) records) \<le> limits MaximumPostingLength"
proof -
  let ?texts = "map ur_normalizedText records"
  have texts: "?texts = sort (remdups (map de_normalizedText entries))"
    by (rule buildUniqueRecords_Inr(1) [OF records])
  have text_set: "ur_normalizedText ` set records = de_normalizedText ` set entries"
    using arg_cong [OF texts, of set] by simp
  have eligible: "isEligible limits = comparable limits \<circ> ur_normalizedText"
    by (auto simp: isEligible_def comparable_def)
  show "\<forall>r\<in>set records. isEligible limits r \<longrightarrow> length (ur_shingles r) \<le> limits MaximumAnchorsPerEntry"
  proof (intro ballI impI)
    fix r
    assume r: "r \<in> set records" "isEligible limits r"
    have "distinct (ur_shingles r)" "set (ur_shingles r) = set (shingleSet (ur_normalizedText r))"
      using buildUniqueRecords_Inr(2) [OF records r(1)] unfolding goodRecord_def by blast+
    then have "length (ur_shingles r) \<le> length (shingleSet (ur_normalizedText r))"
      using card_length [of "shingleSet (ur_normalizedText r)"] distinct_card [of "ur_shingles r"] by simp
    moreover have "length (shingleSet (ur_normalizedText r)) \<le> limits MaximumAnchorsPerEntry"
      using assms(2) r imageI [OF r(1), of ur_normalizedText]
      unfolding withinAnchorLimits_def eligible text_set by (metis comp_apply)
    ultimately show "length (ur_shingles r) \<le> limits MaximumAnchorsPerEntry"
      by simp
  qed
  have "length (filter (isEligible limits) records) = length (filter (comparable limits) ?texts)"
    unfolding eligible by (simp add: filter_map)
  also have "\<dots> = card (set (filter (comparable limits) ?texts))"
    by (rule distinct_card [symmetric]) (simp add: texts)
  also have "\<dots> = card {s \<in> de_normalizedText ` set entries. comparable limits s}"
    using text_set by (intro arg_cong [where f = card]) auto
  finally show "length (filter (isEligible limits) records) \<le> limits MaximumPostingLength"
    using assms(2) by (simp add: withinAnchorLimits_def)
qed

lemma linked_nearTexts:
  assumes records: "buildUniqueRecords limits entries = Inr (records, n)"
    and edges: "nearEdges limits records = Inr (comparisons, edges)"
    and valid: "\<And>name. 1 \<le> limits name" and within: "withinAnchorLimits limits entries"
    and ij: "i < length records" "j < length records"
  shows "(i, j) \<in> linked edges \<longleftrightarrow>
    (ur_normalizedText (records ! i), ur_normalizedText (records ! j)) \<in> nearTexts limits entries"
proof -
  let ?pairs = "map (\<lambda>e. (eg_left e, eg_right e)) edges"
  have good: "goodRecord entries r" if "r \<in> set records" for r
    by (rule buildUniqueRecords_Inr(2) [OF records that])
  have "?pairs = similarPairs limits records"
    using nearEdges_Inr(1) [OF edges good]
      anchoredPairs_complete [OF valid valid withinAnchorLimits_records [OF records within] good] by simp
  then have pairs: "set ?pairs = {(i, j). i < j \<and> j < length records \<and> isEligible limits (records ! i) \<and>
      isEligible limits (records ! j) \<and> limits MinimumSimilarityBasisPoints \<le> similarityOf records i j}"
    by (auto simp: similarPairs_def)
  have similarity: "similarityOf records i j = textSimilarity (ur_normalizedText (records ! i)) (ur_normalizedText (records ! j))"
    "similarityOf records j i = textSimilarity (ur_normalizedText (records ! i)) (ur_normalizedText (records ! j))"
    using similarityOf_textSimilarity [of entries records i j] similarityOf_textSimilarity [of entries records j i] good ij
      textSimilarity_sym [of "ur_normalizedText (records ! i)"] by simp_all
  have "(i, j) \<in> linked edges \<longleftrightarrow> (i, j) \<in> set ?pairs \<or> (j, i) \<in> set ?pairs"
    by (auto simp: linked_def)
  also have "\<dots> \<longleftrightarrow> i \<noteq> j \<and> isEligible limits (records ! i) \<and> isEligible limits (records ! j) \<and>
      limits MinimumSimilarityBasisPoints \<le> textSimilarity (ur_normalizedText (records ! i)) (ur_normalizedText (records ! j))"
    unfolding pairs using ij similarity by auto
  also have "\<dots> \<longleftrightarrow>
      (ur_normalizedText (records ! i), ur_normalizedText (records ! j)) \<in> nearTexts limits entries"
    using ij record_texts(1) [OF records] inj_onD [OF record_texts(2) [OF records], of i j]
    by (auto simp: nearTexts_def isEligible_def comparable_def)
  finally show ?thesis .
qed

text \<open>The classes of texts that are connected by near texts, and the statements of a class.\<close>

definition nearClasses :: "DuplicationIndexLimits \<Rightarrow> DuplicationIndexEntry list \<Rightarrow> jstring set set" where
  "nearClasses limits entries =
     (\<lambda>s. {t. (s, t) \<in> (nearTexts limits entries)\<^sup>*}) ` Domain (nearTexts limits entries)"

definition statementsIn :: "DuplicationIndexEntry list \<Rightarrow> jstring set \<Rightarrow> DuplicationIndexEntry set" where
  "statementsIn entries T = {entry \<in> set entries. de_normalizedText entry \<in> T}"

lemma sym_class:
  assumes "sym r" "(s, t) \<in> r"
  shows "{x. (s, x) \<in> r\<^sup>*} = {x. (t, x) \<in> r\<^sup>*}"
proof -
  have "(t, s) \<in> r"
    by (rule symD [OF assms])
  then show ?thesis
    using assms(2) by (auto intro: converse_rtrancl_into_rtrancl)
qed

lemma components_nearClasses:
  assumes records: "buildUniqueRecords limits entries = Inr (records, n)"
    and edges: "nearEdges limits records = Inr (comparisons, edges)"
    and valid: "\<And>name. 1 \<le> limits name" and within: "withinAnchorLimits limits entries"
  shows "(\<lambda>C. (\<lambda>i. ur_normalizedText (records ! i)) ` C) ` components edges = nearClasses limits entries"
proof -
  let ?t = "\<lambda>i. ur_normalizedText (records ! i)" and ?near = "nearTexts limits entries"
  note linked = linked_nearTexts [OF records edges valid within]
  have range: "inRange (length records) edges"
    using nearEdges_Inr(2) [OF edges buildUniqueRecords_Inr(2) [OF records]] by (rule exactEdges_inRange)
  have near_texts: "s \<in> ?t ` {..<length records}" "t \<in> ?t ` {..<length records}" if "(s, t) \<in> ?near" for s t
    using that unfolding record_texts(1) [OF records] by (auto simp: nearTexts_def)
  have class_eq: "?t ` {j. (i, j) \<in> (linked edges)\<^sup>*} = {x. (?t i, x) \<in> ?near\<^sup>*}" if i: "i < length records" for i
  proof (rule rtrancl_inv_image_on [where A = "{..<length records}"])
    show "(j, k) \<in> linked edges \<longleftrightarrow> (?t j, ?t k) \<in> ?near" if "j \<in> {..<length records}" "k \<in> {..<length records}" for j k
      using linked that by simp
    show "k \<in> {..<length records}" if "(j, k) \<in> linked edges" for j k
      using linked_range [OF range that] by simp
  qed (use near_texts(2) i in simp_all)
  have "(\<lambda>C. ?t ` C) ` components edges = (\<lambda>e. {x. (?t (eg_left e), x) \<in> ?near\<^sup>*}) ` set edges"
    unfolding components_def image_image using class_eq range by (intro image_cong) (auto simp: inRange_def)
  also have "\<dots> = nearClasses limits entries"
  proof (intro set_eqI iffI)
    fix C
    assume "C \<in> (\<lambda>e. {x. (?t (eg_left e), x) \<in> ?near\<^sup>*}) ` set edges"
    then obtain e where e: "e \<in> set edges" "C = {x. (?t (eg_left e), x) \<in> ?near\<^sup>*}"
      by blast
    have "(eg_left e, eg_right e) \<in> linked edges" "eg_left e < length records" "eg_right e < length records"
      using e(1) range by (auto simp: linked_def inRange_def)
    then have "?t (eg_left e) \<in> Domain ?near"
      using linked [of "eg_left e" "eg_right e"] by blast
    then show "C \<in> nearClasses limits entries"
      using e(2) by (auto simp: nearClasses_def)
  next
    fix C
    assume "C \<in> nearClasses limits entries"
    then obtain s t where st: "(s, t) \<in> ?near" "C = {x. (s, x) \<in> ?near\<^sup>*}"
      by (auto simp: nearClasses_def)
    obtain i j where ij: "i < length records" "j < length records" "s = ?t i" "t = ?t j"
      using near_texts [OF st(1)] by auto
    then obtain e where e: "e \<in> set edges" "i = eg_left e \<and> j = eg_right e \<or> i = eg_right e \<and> j = eg_left e"
      using linked [of i j] st(1) by (auto simp: linked_def)
    have "C = {x. (?t (eg_left e), x) \<in> ?near\<^sup>*}"
      using e(2) ij(3,4) st sym_class [OF sym_nearTexts st(1)] by auto
    then show "C \<in> (\<lambda>e. {x. (?t (eg_left e), x) \<in> ?near\<^sup>*}) ` set edges"
      using e(1) by blast
  qed
  finally show ?thesis .
qed

text \<open>C5. When the limits on anchors and postings are not reached, the near clusters of an index are exactly
  the statements of the connected components of the relation "different, long enough and similar enough"
  between normalized texts, one cluster for each component.\<close>

theorem near_clusters_connected:
  assumes index: "buildDuplicationIndex sha256 normalizeNFC toLowerCase entries options = Inr result"
    and within: "withinAnchorLimits (dr_limits result) entries"
  shows "(\<lambda>c. set (nc_members c)) ` set (dr_nearClusters result) =
      (\<lambda>T. evidenceOf ` statementsIn entries T) ` nearClasses (dr_limits result) entries \<and>
    length (dr_nearClusters result) = card (nearClasses (dr_limits result) entries)"
proof -
  obtain records n comparisons edges where valid: "validateDuplicationOptions options = Inr (dr_limits result)"
    and records: "buildUniqueRecords (dr_limits result) entries = Inr (records, n)"
    and edges: "nearEdges (dr_limits result) records = Inr (comparisons, edges)"
    and clusters: "nearClusters sha256 (dr_limits result) records edges = Inr (dr_nearClusters result)"
    using buildDuplicationIndex_Inr [OF index] by metis
  let ?t = "\<lambda>i. ur_normalizedText (records ! i)"
  have range: "inRange (length records) edges"
    using nearEdges_Inr(2) [OF edges buildUniqueRecords_Inr(2) [OF records]] by (rule exactEdges_inRange)
  have below: "C \<subseteq> {..<length records}" if "C \<in> components edges" for C
    using that linked_closure_range [OF _ range] range by (auto simp: components_def inRange_def)
  have classes: "(\<lambda>C. ?t ` C) ` components edges = nearClasses (dr_limits result) entries"
    using components_nearClasses [OF records edges _ within] validateDuplicationOptions_Inr [OF valid] by blast
  have members: "(\<Union>i\<in>C. set (ur_members (records ! i))) = statementsIn entries (?t ` C)" if "C \<in> components edges" for C
  proof -
    have "set (ur_members (records ! i)) = statementsOf entries (?t i)" if "i < length records" for i
      using buildUniqueRecords_Inr(2) [OF records, of "records ! i"] that
      unfolding goodRecord_def statementsOf_members by simp
    then have "(\<Union>i\<in>C. set (ur_members (records ! i))) = (\<Union>i\<in>C. statementsOf entries (?t i))"
      using below [OF that] by (intro SUP_cong) auto
    then show ?thesis
      by (auto simp: statementsOf_def statementsIn_def)
  qed
  have "(\<lambda>C. evidenceOf ` (\<Union>i\<in>C. set (ur_members (records ! i)))) ` components edges =
      (\<lambda>T. evidenceOf ` statementsIn entries T) ` nearClasses (dr_limits result) entries"
    unfolding classes [symmetric] image_image using members by (intro image_cong) auto
  moreover have "card (nearClasses (dr_limits result) entries) = card (components edges)"
    unfolding classes [symmetric]
    by (rule card_image, rule inj_on_subset [OF inj_on_image_Pow [OF record_texts(2) [OF records]]]) (use below in blast)
  ultimately show ?thesis
    using nearClusters_spec [OF range clusters] by simp
qed

subsection \<open>Near edges against a reference\<close>

text \<open>
  The reference is stated on texts and sets. The trigrams of a text are the runs of three code points of the text
  between two sentinels; the similarity of two texts is the size of the intersection over the size of the union of
  their trigrams, in basis points, rounded down.
\<close>

definition trigrams :: "jstring \<Rightarrow> jstring set" where
  "trigrams s = {concat (map utf16_units [x, y, z]) |x y z. \<exists>before after. [2] @ scalars s @ [3] = before @ [x, y, z] @ after}"

definition basisPoints :: "'a set \<Rightarrow> 'a set \<Rightarrow> nat" where
  "basisPoints A B = (if A \<union> B = {} then 10000 else (card (A \<inter> B) * 10000) div card (A \<union> B))"

text \<open>In how many of the comparable texts a trigram occurs, and which trigrams have a posting list.\<close>

definition support :: "DuplicationIndexLimits \<Rightarrow> jstring set \<Rightarrow> jstring \<Rightarrow> nat" where
  "support limits T a = card {s \<in> T. comparable limits s \<and> a \<in> trigrams s}"

definition posted :: "DuplicationIndexLimits \<Rightarrow> jstring set \<Rightarrow> jstring \<Rightarrow> jstring set" where
  "posted limits T s = {a \<in> trigrams s. 2 \<le> support limits T a \<and> support limits T a \<le> limits MaximumPostingLength}"

text \<open>The anchors of a text are its rarest trigrams that have a posting list, the smaller of two equally rare ones first.\<close>

definition rarer :: "DuplicationIndexLimits \<Rightarrow> jstring set \<Rightarrow> jstring \<Rightarrow> jstring \<Rightarrow> bool" where
  "rarer limits T a b \<longleftrightarrow> support limits T a < support limits T b \<or> support limits T a = support limits T b \<and> a < b"

definition rarest :: "DuplicationIndexLimits \<Rightarrow> jstring set \<Rightarrow> jstring \<Rightarrow> jstring set" where
  "rarest limits T s =
     {a \<in> posted limits T s. card {b \<in> posted limits T s. rarer limits T b a} < limits MaximumAnchorsPerEntry}"

definition nearPair :: "DuplicationIndexLimits \<Rightarrow> jstring \<Rightarrow> jstring \<Rightarrow> bool" where
  "nearPair limits s t \<longleftrightarrow> comparable limits s \<and> comparable limits t \<and>
     limits MinimumSimilarityBasisPoints \<le> basisPoints (trigrams s) (trigrams t)"

text \<open>What an edge between the texts \<open>s\<close> and \<open>t\<close> records.\<close>

definition recordsPair :: "DuplicationIndexEntry list \<Rightarrow> jstring \<Rightarrow> jstring \<Rightarrow> NearDuplicationEdge \<Rightarrow> bool" where
  "recordsPair entries s t e \<longleftrightarrow>
     ne_intersectionShingles e = card (trigrams s \<inter> trigrams t) \<and> ne_unionShingles e = card (trigrams s \<union> trigrams t) \<and>
     ne_similarityBasisPoints e = basisPoints (trigrams s) (trigrams t) \<and>
     ne_leftStatementId e = Min (de_statementId ` statementsOf entries s) \<and>
     ne_rightStatementId e = Min (de_statementId ` statementsOf entries t)"

lemma set_shingleSet: "set (shingleSet s) = trigrams s"
proof -
  let ?symbols = "[2] @ scalars s @ [3]"
  have piece: "take 3 (drop i ?symbols) = [x, y, z] \<longleftrightarrow>
      (\<exists>before after. ?symbols = before @ [x, y, z] @ after \<and> length before = i)"
    if "i + 3 \<le> length ?symbols" for i x y z
  proof
    assume "take 3 (drop i ?symbols) = [x, y, z]"
    moreover have "?symbols = take i ?symbols @ take 3 (drop i ?symbols) @ drop 3 (drop i ?symbols)"
      by (simp only: append_take_drop_id)
    ultimately show "\<exists>before after. ?symbols = before @ [x, y, z] @ after \<and> length before = i"
      using that by (intro exI [of _ "take i ?symbols"] exI [of _ "drop 3 (drop i ?symbols)"]) simp
  qed auto
  have triple: "\<exists>x y z. take 3 (drop i ?symbols) = [x, y, z]" if "i + 3 \<le> length ?symbols" for i
  proof -
    have "\<exists>x y z. ys = [x, y, z]" if "length ys = 3" for ys :: "nat list"
      using that by (auto simp: length_Suc_conv numeral_3_eq_3)
    then show ?thesis
      using that by simp
  qed
  have "set (shingleSet s) = (\<lambda>i. concat (map utf16_units (take 3 (drop i ?symbols)))) ` {i. i + 3 \<le> length ?symbols}"
    by (auto simp: shingleSet_def SHINGLE_WIDTH_def Let_def)
  also have "\<dots> = trigrams s"
  proof (intro set_eqI iffI)
    fix a
    assume "a \<in> (\<lambda>i. concat (map utf16_units (take 3 (drop i ?symbols)))) ` {i. i + 3 \<le> length ?symbols}"
    then obtain i where i: "i + 3 \<le> length ?symbols" "a = concat (map utf16_units (take 3 (drop i ?symbols)))"
      by blast
    moreover obtain x y z where "take 3 (drop i ?symbols) = [x, y, z]"
      using triple [OF i(1)] by blast
    ultimately show "a \<in> trigrams s"
      using piece [OF i(1)] unfolding trigrams_def by (metis (mono_tags, lifting) mem_Collect_eq)
  next
    fix a
    assume "a \<in> trigrams s"
    then obtain x y z before after where a: "a = concat (map utf16_units [x, y, z])" "?symbols = before @ [x, y, z] @ after"
      unfolding trigrams_def by blast
    have "length before + 3 \<le> length ?symbols" "take 3 (drop (length before) ?symbols) = [x, y, z]"
      unfolding a(2) by simp_all
    then show "a \<in> (\<lambda>i. concat (map utf16_units (take 3 (drop i ?symbols)))) ` {i. i + 3 \<le> length ?symbols}"
      unfolding a(1) by (metis (mono_tags, lifting) image_eqI mem_Collect_eq)
  qed
  finally show ?thesis .
qed

lemma length_shingleSet: "length (shingleSet s) = card (trigrams s)"
  unfolding set_shingleSet [symmetric] by (rule distinct_card [symmetric]) (simp add: shingleSet_def Let_def)

text \<open>The first elements of a list sorted by an injective key are those with few smaller ones.\<close>

lemma set_take_sort_key:
  assumes "distinct xs" "inj_on k (set xs)"
  shows "set (take n (sort_key k xs)) = {a \<in> set xs. card {b \<in> set xs. k b < k a} < n}"
proof -
  let ?ys = "sort_key k xs"
  have strict: "sorted_wrt (<) (map k ?ys)"
    using assms by (simp add: strict_sorted_iff distinct_map)
  have smaller: "{b \<in> set xs. k b < k (?ys ! i)} = set (take i ?ys)" if i: "i < length ?ys" for i
  proof -
    have less: "k (?ys ! j) < k (?ys ! i) \<longleftrightarrow> j < i" if "j < length ?ys" for j
      using sorted_wrt_nth_less [OF strict, of i j] sorted_wrt_nth_less [OF strict, of j i] i that
      by (cases j i rule: linorder_cases) auto
    have "{b \<in> set xs. k b < k (?ys ! i)} = {?ys ! j |j. j < length ?ys \<and> k (?ys ! j) < k (?ys ! i)}"
      by (subst set_sort [of k xs, symmetric]) (auto simp: set_conv_nth simp del: set_sort)
    also have "\<dots> = set (take i ?ys)"
    proof -
      have "{?ys ! j |j. j < length ?ys \<and> k (?ys ! j) < k (?ys ! i)} = (!) ?ys ` {0..<i}"
        using less i by auto
      then show ?thesis
        using i nth_image [of i ?ys] by simp
    qed
    finally show ?thesis .
  qed
  have card: "card {b \<in> set xs. k b < k (?ys ! i)} = i" if "i < length ?ys" for i
    unfolding smaller [OF that] using that assms(1) by (subst distinct_card) auto
  have "a \<in> set (take n ?ys) \<longleftrightarrow> a \<in> set xs \<and> card {b \<in> set xs. k b < k a} < n" for a
  proof
    assume "a \<in> set (take n ?ys)"
    then obtain i where "i < n" "i < length ?ys" "a = ?ys ! i"
      by (auto simp: in_set_conv_nth)
    then show "a \<in> set xs \<and> card {b \<in> set xs. k b < k a} < n"
      using card [of i] nth_mem [of i ?ys] by simp
  next
    assume a: "a \<in> set xs \<and> card {b \<in> set xs. k b < k a} < n"
    then obtain i where "i < length ?ys" "a = ?ys ! i"
      by (metis in_set_conv_nth set_sort)
    then show "a \<in> set (take n ?ys)"
      using a card [of i] by (auto simp: in_set_conv_nth)
  qed
  then show ?thesis
    by blast
qed

lemma hd_sort_key: "xs \<noteq> [] \<Longrightarrow> k (hd (sort_key k xs)) = Min (k ` set xs)"
proof -
  assume "xs \<noteq> []"
  then obtain y ys where ys: "sort_key k xs = y # ys"
    by (metis length_sort list.exhaust list.size(3) length_0_conv)
  then have "sorted (map k (y # ys))" "set xs = set (y # ys)"
    by (metis sorted_sort_key, metis set_sort)
  then show ?thesis
    unfolding ys by (intro Min_eqI [symmetric]) auto
qed

text \<open>The records of the index, seen as texts.\<close>

lemma record_reference:
  assumes records: "buildUniqueRecords limits entries = Inr (records, n)" and i: "i < length records"
  defines "T \<equiv> de_normalizedText ` set entries"
  shows "set (ur_shingles (records ! i)) = trigrams (ur_normalizedText (records ! i))"
    "isEligible limits (records ! i) \<longleftrightarrow> comparable limits (ur_normalizedText (records ! i))"
    "anchorsOf limits records i = rarest limits T (ur_normalizedText (records ! i))"
    "de_statementId (hd (ur_members (records ! i))) = Min (de_statementId ` statementsOf entries (ur_normalizedText (records ! i)))"
proof -
  have good: "goodRecord entries r" if "r \<in> set records" for r
    by (rule buildUniqueRecords_Inr(2) [OF records that])
  have shingles: "set (ur_shingles r) = trigrams (ur_normalizedText r)" "distinct (ur_shingles r)" if "r \<in> set records" for r
    using good [OF that] by (auto simp: goodRecord_def set_shingleSet)
  have ri: "records ! i \<in> set records"
    using i by simp
  show "set (ur_shingles (records ! i)) = trigrams (ur_normalizedText (records ! i))"
    using shingles(1) [OF ri] .
  show "isEligible limits (records ! i) \<longleftrightarrow> comparable limits (ur_normalizedText (records ! i))"
    by (simp add: isEligible_def comparable_def)
  have supports: "shingleSupport limits records a = support limits T a" for a
  proof -
    have "shingleSupport limits records a =
        length (filter (\<lambda>r. comparable limits (ur_normalizedText r) \<and> a \<in> trigrams (ur_normalizedText r)) records)"
      using support_count [of records limits a] shingles
      by (simp add: isEligible_def comparable_def cong: filter_cong)
    also have "\<dots> = length (filter (\<lambda>s. comparable limits s \<and> a \<in> trigrams s) (map ur_normalizedText records))"
      by (simp add: filter_map comp_def)
    also have "\<dots> = card (set (filter (\<lambda>s. comparable limits s \<and> a \<in> trigrams s) (map ur_normalizedText records)))"
      unfolding buildUniqueRecords_Inr(1) [OF records] by (rule distinct_card [symmetric]) simp
    also have "\<dots> = support limits T a"
      unfolding buildUniqueRecords_Inr(1) [OF records] support_def T_def by simp
    finally show ?thesis .
  qed
  have "anchorsOf limits records i = set (take (limits MaximumAnchorsPerEntry) (sort_key (\<lambda>a. support limits T a # a)
      (filter (\<lambda>a. 2 \<le> support limits T a \<and> support limits T a \<le> limits MaximumPostingLength) (ur_shingles (records ! i)))))"
    by (simp add: anchorsOf_def selectedAnchors_def sortOn_def supports)
  also have "\<dots> = rarest limits T (ur_normalizedText (records ! i))"
    using shingles [OF ri]
    by (subst set_take_sort_key) (auto simp: inj_on_def rarest_def posted_def rarer_def)
  finally show "anchorsOf limits records i = rarest limits T (ur_normalizedText (records ! i))" .
  have members: "ur_members (records ! i) = textMembers entries (ur_normalizedText (records ! i))" "ur_members (records ! i) \<noteq> []"
    using good [OF ri] by (auto simp: goodRecord_def)
  then have "filter (\<lambda>entry. de_normalizedText entry = ur_normalizedText (records ! i)) entries \<noteq> []"
    by (auto simp: textMembers_def sortOn_def)
  then show "de_statementId (hd (ur_members (records ! i))) =
      Min (de_statementId ` statementsOf entries (ur_normalizedText (records ! i)))"
    unfolding members(1) textMembers_def sortOn_def by (simp add: hd_sort_key statementsOf_def)
qed

lemma similarityOf_basisPoints:
  assumes "buildUniqueRecords limits entries = Inr (records, n)" "i < length records" "j < length records"
  shows "similarityOf records i j =
    basisPoints (trigrams (ur_normalizedText (records ! i))) (trigrams (ur_normalizedText (records ! j)))"
proof -
  have "goodRecord entries (records ! i)" "goodRecord entries (records ! j)"
    using buildUniqueRecords_Inr(2) [OF assms(1)] assms(2,3) by simp_all
  from similarityOf_textSimilarity [of entries records i j, OF this] show ?thesis
    by (simp add: textSimilarity_def basisPoints_def set_shingleSet Let_def)
qed

text \<open>Pairs are found by their right text, and for each right text by their left text.\<close>

definition pairOrder :: "nat \<times> nat \<Rightarrow> nat \<times> nat \<Rightarrow> bool" where
  "pairOrder p q \<longleftrightarrow> snd p < snd q \<or> snd p = snd q \<and> fst p < fst q"

lemma anchoredPairs_sorted: "sorted_wrt (<) rights \<Longrightarrow> sorted_wrt pairOrder (anchoredPairs limits records rights)"
proof (induction rights)
  case (Cons j rights)
  have "sorted_wrt pairOrder (pairsOf limits records (comparedWith limits records j) j)"
    unfolding pairsOf_def comparedWith_def
    by (simp add: sorted_wrt_map sorted_wrt_filter pairOrder_def)
  moreover have "sorted_wrt pairOrder (anchoredPairs limits records rights)"
    using Cons by simp
  moreover have "pairOrder p q" if "p \<in> set (pairsOf limits records (comparedWith limits records j) j)"
    "q \<in> set (anchoredPairs limits records rights)" for p q
    using that Cons.prems by (auto simp: anchoredPairs_def pairsOf_def pairOrder_def)
  moreover have "anchoredPairs limits records (j # rights) =
      (if isEligible limits (records ! j) then pairsOf limits records (comparedWith limits records j) j else []) @
      anchoredPairs limits records rights"
    by (simp add: anchoredPairs_def)
  ultimately show ?case
    by (simp add: sorted_wrt_append)
qed (simp add: anchoredPairs_def)

text \<open>What the search finds, in terms of the texts of the records.\<close>

lemma nearPair_records:
  assumes "buildUniqueRecords limits entries = Inr (records, n)" "i < j" "j < length records"
  shows "nearPair limits (map ur_normalizedText records ! i) (map ur_normalizedText records ! j) \<longleftrightarrow>
    isEligible limits (records ! i) \<and> isEligible limits (records ! j) \<and>
    limits MinimumSimilarityBasisPoints \<le> similarityOf records i j"
  using record_reference(2) [OF assms(1), of i] record_reference(2) [OF assms(1), of j]
    similarityOf_basisPoints [OF assms(1), of i j] assms(2,3) by (simp add: nearPair_def)

lemma anchoredPairs_reference:
  assumes "buildUniqueRecords limits entries = Inr (records, n)"
  shows "set (anchoredPairs limits records [0..<length records]) = {(i, j). i < j \<and> j < length records \<and>
    nearPair limits (map ur_normalizedText records ! i) (map ur_normalizedText records ! j) \<and>
    rarest limits (de_normalizedText ` set entries) (map ur_normalizedText records ! i) \<inter>
    rarest limits (de_normalizedText ` set entries) (map ur_normalizedText records ! j) \<noteq> {}}"
proof -
  have "set (anchoredPairs limits records [0..<length records]) =
     {(i, j). i < j \<and> j < length records \<and> isEligible limits (records ! i) \<and> isEligible limits (records ! j) \<and>
      limits MinimumSimilarityBasisPoints \<le> similarityOf records i j \<and>
      anchorsOf limits records i \<inter> anchorsOf limits records j \<noteq> {}}"
    by (auto simp: anchoredPairs_def pairsOf_def comparedWith_def)
  also have "\<dots> = {(i, j). i < j \<and> j < length records \<and>
      nearPair limits (map ur_normalizedText records ! i) (map ur_normalizedText records ! j) \<and>
      rarest limits (de_normalizedText ` set entries) (map ur_normalizedText records ! i) \<inter>
      rarest limits (de_normalizedText ` set entries) (map ur_normalizedText records ! j) \<noteq> {}}"
    using nearPair_records [OF assms] record_reference(3) [OF assms] by (auto; fastforce)
  finally show ?thesis .
qed

lemma exactEdge_recordsPair:
  assumes "buildUniqueRecords limits entries = Inr (records, n)" "exactEdge records e"
  shows "recordsPair entries (map ur_normalizedText records ! eg_left e) (map ur_normalizedText records ! eg_right e) (eg_value e)"
proof -
  have "eg_left e < length records" "eg_right e < length records"
    using assms(2) by (auto simp: exactEdge_def Let_def)
  then show ?thesis
    using assms(2) record_reference(1,4) [OF assms(1)] similarityOf_basisPoints [OF assms(1)]
    by (simp add: exactEdge_def recordsPair_def Let_def)
qed

lemma all_similar_found:
  assumes records: "buildUniqueRecords limits entries = Inr (records, n)" and valid: "\<And>name. 1 \<le> limits name"
    and small: "\<forall>s\<in>de_normalizedText ` set entries. comparable limits s \<longrightarrow> card (trigrams s) \<le> limits MaximumAnchorsPerEntry"
      "card {s \<in> de_normalizedText ` set entries. comparable limits s} \<le> limits MaximumPostingLength"
  shows "set (anchoredPairs limits records [0..<length records]) = {(i, j). i < j \<and> j < length records \<and>
      nearPair limits (map ur_normalizedText records ! i) (map ur_normalizedText records ! j)}"
proof -
  have "withinAnchorLimits limits entries"
    unfolding withinAnchorLimits_def length_shingleSet using small by blast
  from withinAnchorLimits_records [OF records this]
  have "anchoredPairs limits records [0..<length records] = similarPairs limits records"
    using anchoredPairs_complete [OF valid valid _ _ buildUniqueRecords_Inr(2) [OF records]] by simp
  then show ?thesis
    using nearPair_records [OF records] by (auto simp: similarPairs_def)
qed

text \<open>C13. The near edges that the index finds, in the order of their texts, are exactly the pairs of comparable
  texts that share one of their rarest trigrams and whose similarity, the size of the intersection of their trigrams
  over the size of the union in basis points rounded down, reaches the minimum; each edge records the two sizes, the
  similarity and the first statements of both texts. When no comparable text has more trigrams than it may have
  anchors and no more texts are comparable than a posting list may hold, no similar pair is missed.\<close>

theorem near_edges_reference:
  assumes "validateDuplicationOptions options = Inr limits" "buildUniqueRecords limits entries = Inr (records, shingles)"
    and "nearEdges limits records = Inr (comparisons, edges)"
  shows "let T = de_normalizedText ` set entries; texts = sorted_list_of_set T;
      pairs = map (\<lambda>e. (eg_left e, eg_right e)) edges in
    sorted_wrt pairOrder pairs \<and>
    set pairs = {(i, j). i < j \<and> j < length texts \<and> nearPair limits (texts ! i) (texts ! j) \<and>
      rarest limits T (texts ! i) \<inter> rarest limits T (texts ! j) \<noteq> {}} \<and>
    (\<forall>e\<in>set edges. recordsPair entries (texts ! eg_left e) (texts ! eg_right e) (eg_value e)) \<and>
    ((\<forall>s\<in>T. comparable limits s \<longrightarrow> card (trigrams s) \<le> limits MaximumAnchorsPerEntry) \<and>
     card {s \<in> T. comparable limits s} \<le> limits MaximumPostingLength \<longrightarrow>
       set pairs = {(i, j). i < j \<and> j < length texts \<and> nearPair limits (texts ! i) (texts ! j)})"
proof -
  let ?T = "de_normalizedText ` set entries" and ?pairs = "map (\<lambda>e. (eg_left e, eg_right e)) edges"
  have texts: "sorted_list_of_set ?T = map ur_normalizedText records"
    unfolding buildUniqueRecords_Inr(1) [OF assms(2)] by (metis list.set_map sorted_list_of_set_sort_remdups)
  have found: "?pairs = anchoredPairs limits records [0..<length records]" "\<forall>e\<in>set edges. exactEdge records e"
    using nearEdges_Inr [OF assms(3) buildUniqueRecords_Inr(2) [OF assms(2)]] by blast+
  have valid: "1 \<le> limits name" for name
    using validateDuplicationOptions_Inr [OF assms(1)] by blast
  have "sorted_wrt pairOrder ?pairs"
    unfolding found(1) by (rule anchoredPairs_sorted) simp
  then show ?thesis
    using anchoredPairs_reference [OF assms(2)] all_similar_found [OF assms(2) valid] exactEdge_recordsPair [OF assms(2)] found(2)
    unfolding Let_def texts length_map found(1) by blast
qed

subsection \<open>An index\<close>

definition exampleEntry :: "string \<Rightarrow> string \<Rightarrow> DuplicationIndexEntry" where
  "exampleEntry i s =
     (let p = \<lparr>sp_byteOffset = 0, sp_utf16Offset = 0, sp_line = 0, sp_utf16Column = 0\<rparr> in
      \<lparr>de_documentId = js ''d'', de_nodeIds = [js ''n''], de_normalizedText = js s,
       de_range = \<lparr>sr_sourceId = js ''d'', sr_start = p, sr_end = p\<rparr>, de_statementId = js i\<rparr>)"

definition exampleEntries :: "DuplicationIndexEntry list" where
  "exampleEntries = [exampleEntry ''s1'' ''aab'', exampleEntry ''s2'' ''aac'', exampleEntry ''s3'' ''aab'']"

definition exampleOptions :: "DuplicationLimitName \<Rightarrow> int option" where
  "exampleOptions = (\<lambda>_. Some 20)(MinimumNearDuplicateCodePoints := Some 1, MinimumSimilarityBasisPoints := Some 2000)"

definition exampleLimits :: DuplicationIndexLimits where
  "exampleLimits = (\<lambda>_. 20)(MinimumNearDuplicateCodePoints := 1, MinimumSimilarityBasisPoints := 2000)"

definition exampleRecord1 :: UniqueTextRecord where
  "exampleRecord1 =
     \<lparr>ur_members = [exampleEntry ''s1'' ''aab'', exampleEntry ''s3'' ''aab''], ur_normalizedText = js ''aab'',
      ur_shingles = [[2, 97, 97], [97, 97, 98], [97, 98, 3]]\<rparr>"

definition exampleRecord2 :: UniqueTextRecord where
  "exampleRecord2 =
     \<lparr>ur_members = [exampleEntry ''s2'' ''aac''], ur_normalizedText = js ''aac'',
      ur_shingles = [[2, 97, 97], [97, 97, 99], [97, 99, 3]]\<rparr>"

definition exampleEdges :: "IndexedEdge list" where
  "exampleEdges =
     [\<lparr>eg_left = 0, eg_right = 1, eg_value =
        \<lparr>ne_intersectionShingles = 1, ne_leftStatementId = js ''s1'', ne_rightStatementId = js ''s2'',
         ne_similarityBasisPoints = 2000, ne_unionShingles = 5\<rparr>\<rparr>]"

lemma example_limits: "validateDuplicationOptions exampleOptions = Inr exampleLimits"
  unfolding exampleOptions_def
  by (simp add: validateDuplicationOptions_def validateDuplicationLimit_def DUPLICATION_LIMIT_KEYS_def bindR_Inr_iff
      checkR_Inr_iff exampleLimits_def) (rule ext, rename_tac x, case_tac x, simp_all)

lemma example_identifiers:
  "isStableIdentifier (js ''s1'')" "isStableIdentifier (js ''s2'')" "isStableIdentifier (js ''s3'')"
  "isStableIdentifier (js ''d'')" "isStableIdentifier (js ''n'')"
  "[] < js ''s1''" "js ''s1'' < js ''s2''" "js ''s2'' < js ''s3''" "[] < js ''n''"
  by code_simp+

lemma example_texts:
  "normalizedTextR (\<lambda>s. s) (\<lambda>s. s) 20 (js ''aab'') = Inr (js ''aab'')"
  "normalizedTextR (\<lambda>s. s) (\<lambda>s. s) 20 (js ''aac'') = Inr (js ''aac'')"
  "length (js ''aab'') = 3" "length (js ''aac'') = 3"
  by (simp_all add: normalizedTextR_def js_def forbiddenSpace_def trimText_def isWhitespace_def trimStart_def
      is_high_def is_low_def)

lemma example_entries_valid: "validateEntries (\<lambda>s. s) (\<lambda>s. s) exampleLimits exampleEntries = Inr 9"
  by (simp add: validateEntries_def exampleEntries_def exampleEntry_def exampleLimits_def Let_def stableIdentifierR_def
      example_identifiers example_texts denseNodeIds_def validateRange_def safePosition_def forwardRange_def
      bindR_Inr_iff checkR_Inr_iff)

lemma example_shingles:
  "shingleSet (js ''aab'') = [[2, 97, 97], [97, 97, 98], [97, 98, 3]]"
  "shingleSet (js ''aac'') = [[2, 97, 97], [97, 97, 99], [97, 99, 3]]"
  by (simp_all add: shingleSet_def js_def SHINGLE_WIDTH_def upt_rec utf16_units_def is_high_def is_low_def
      take_Cons' drop_Cons')

lemma example_members:
  "textMembers exampleEntries (js ''aab'') = [exampleEntry ''s1'' ''aab'', exampleEntry ''s3'' ''aab'']"
  "textMembers exampleEntries (js ''aac'') = [exampleEntry ''s2'' ''aac'']"
  by (simp_all add: textMembers_def exampleEntries_def exampleEntry_def Let_def js_def sortOn_def)

lemma example_sorted: "sort (remdups (map de_normalizedText exampleEntries)) = [js ''aab'', js ''aac'']"
  by (simp add: exampleEntries_def exampleEntry_def Let_def js_def)

lemma example_records: "buildUniqueRecords exampleLimits exampleEntries = Inr ([exampleRecord1, exampleRecord2], 6)"
  by (simp add: buildUniqueRecords_def example_sorted createShingles_def example_shingles bindR_Inr_iff exampleLimits_def
      exampleRecord1_def exampleRecord2_def example_members)

lemma example_eligible: "isEligible exampleLimits exampleRecord1" "isEligible exampleLimits exampleRecord2"
  by (simp_all add: exampleRecord1_def exampleRecord2_def isEligible_def exampleLimits_def js_def)

lemma example_support:
  "shingleSupport exampleLimits [exampleRecord1, exampleRecord2] = (\<lambda>x. if x = [2, 97, 97] then 2
     else if x \<in> {[97, 97, 98], [97, 98, 3], [97, 97, 99], [97, 99, 3]} then 1 else 0)"
  using example_eligible by (auto simp: shingleSupport_def exampleRecord1_def exampleRecord2_def fun_eq_iff)

lemma example_anchors:
  "selectedAnchors exampleRecord1 (shingleSupport exampleLimits [exampleRecord1, exampleRecord2]) exampleLimits = [[2, 97, 97]]"
  "selectedAnchors exampleRecord2 (shingleSupport exampleLimits [exampleRecord1, exampleRecord2]) exampleLimits = [[2, 97, 97]]"
  unfolding selectedAnchors_def example_support
  by (simp_all add: exampleRecord1_def exampleRecord2_def exampleLimits_def sortOn_def)

lemma example_edges: "nearEdges exampleLimits [exampleRecord1, exampleRecord2] = Inr (1, exampleEdges)"
proof -
  have "compareRecords exampleLimits [exampleRecord1, exampleRecord2] 0 1 exampleRecord2 = Inr (Some (hd exampleEdges))"
    by (simp add: compareRecords_def jaccard_def primaryStatementId_def exampleRecord1_def exampleRecord2_def
        exampleEntry_def exampleEdges_def exampleLimits_def Let_def)
  then show ?thesis
    using example_eligible example_anchors
    by (simp add: nearEdges_def Let_def exampleEdges_def) (simp add: exampleLimits_def)
qed

lemma example_components:
  "edgeComponents (Suc (Suc 0)) [\<lparr>eg_left = 0, eg_right = Suc 0, eg_value = v\<rparr>] = Some [[0, Suc 0]]"
  by code_simp

lemma example_index:
  "\<exists>result. buildDuplicationIndex (\<lambda>_. js ''0'') (\<lambda>s. s) (\<lambda>s. s) exampleEntries exampleOptions = Inr result \<and>
     dr_limits result = exampleLimits \<and> length (dr_exactClusters result) = 1 \<and> length (dr_nearClusters result) = 1"
proof -
  have exact: "\<exists>c. exactClusters (\<lambda>_. js ''0'') exampleLimits [exampleRecord1, exampleRecord2] = Inr [c]"
    by (simp add: exactClusters_def exactCluster_def exampleRecord1_def exampleRecord2_def exampleLimits_def Let_def
        sortOn_def js_def)
  have near: "\<exists>c. nearClusters (\<lambda>_. js ''0'') exampleLimits [exampleRecord1, exampleRecord2] exampleEdges = Inr [c]"
    by (simp add: nearClusters_def exampleEdges_def example_components nearCluster_def exampleRecord1_def
        exampleRecord2_def exampleLimits_def Let_def sortOn_def)
  show ?thesis
    using exact near
    by (auto simp: buildDuplicationIndex_def example_limits example_entries_valid example_records example_edges)
qed

lemma example_within: "withinAnchorLimits exampleLimits exampleEntries"
proof -
  have texts: "de_normalizedText ` set exampleEntries = {js ''aab'', js ''aac''}"
    by (auto simp: exampleEntries_def exampleEntry_def Let_def)
  have "card {s \<in> {js ''aab'', js ''aac''}. comparable exampleLimits s} \<le> card {js ''aab'', js ''aac''}"
    by (rule card_mono) auto
  also have "\<dots> \<le> exampleLimits MaximumPostingLength"
    by (simp add: exampleLimits_def card_insert_if)
  finally show ?thesis
    unfolding withinAnchorLimits_def texts by (simp add: example_shingles) (simp add: exampleLimits_def)
qed

theorem near_edges_reference_witness:
  "set (map (\<lambda>e. (eg_left e, eg_right e)) exampleEdges) =
     {(i, j). i < j \<and> j < length [js ''aab'', js ''aac''] \<and> nearPair exampleLimits ([js ''aab'', js ''aac''] ! i) ([js ''aab'', js ''aac''] ! j)} \<and>
   recordsPair exampleEntries (js ''aab'') (js ''aac'') (eg_value (hd exampleEdges))"
proof -
  have texts: "de_normalizedText ` set exampleEntries = {js ''aab'', js ''aac''}"
    "sorted_list_of_set (de_normalizedText ` set exampleEntries) = [js ''aab'', js ''aac'']"
    using example_sorted sorted_list_of_set_sort_remdups [of "map de_normalizedText exampleEntries"]
    by (auto simp: exampleEntries_def exampleEntry_def Let_def)
  have within: "\<forall>s\<in>{js ''aab'', js ''aac''}. comparable exampleLimits s \<longrightarrow> card (trigrams s) \<le> exampleLimits MaximumAnchorsPerEntry"
    "card {s \<in> {js ''aab'', js ''aac''}. comparable exampleLimits s} \<le> exampleLimits MaximumPostingLength"
    using example_within unfolding withinAnchorLimits_def texts length_shingleSet by blast+
  note reference = near_edges_reference [OF example_limits example_records example_edges, unfolded Let_def texts(2), unfolded texts(1)]
  have edge: "hd exampleEdges \<in> set exampleEdges" "eg_left (hd exampleEdges) = 0" "eg_right (hd exampleEdges) = 1"
    by (simp_all add: exampleEdges_def)
  have "recordsPair exampleEntries ([js ''aab'', js ''aac''] ! 0) ([js ''aab'', js ''aac''] ! 1) (eg_value (hd exampleEdges))"
    using bspec [OF reference [THEN conjunct2, THEN conjunct2, THEN conjunct1] edge(1)] unfolding edge(2,3) .
  then have "recordsPair exampleEntries (js ''aab'') (js ''aac'') (eg_value (hd exampleEdges))"
    by (simp only: nth_Cons_0 nth_Cons_Suc One_nat_def)
  then show ?thesis
    using mp [OF reference [THEN conjunct2, THEN conjunct2, THEN conjunct2] conjI [OF within]] by (rule conjI [rotated])
qed

theorem exact_clusters_exact_witness:
  "\<exists>result. buildDuplicationIndex (\<lambda>_. js ''0'') (\<lambda>s. s) (\<lambda>s. s) exampleEntries exampleOptions = Inr result \<and>
     length (dr_exactClusters result) = 1 \<and>
     length (dr_exactClusters result) = card (repeatedTexts exampleEntries)"
  using example_index exact_clusters_exact [of "\<lambda>_. js ''0''" "\<lambda>s. s" "\<lambda>s. s" exampleEntries exampleOptions] by blast

theorem near_clusters_connected_witness:
  "\<exists>result. buildDuplicationIndex (\<lambda>_. js ''0'') (\<lambda>s. s) (\<lambda>s. s) exampleEntries exampleOptions = Inr result \<and>
     length (dr_nearClusters result) = 1 \<and>
     length (dr_nearClusters result) = card (nearClasses exampleLimits exampleEntries)"
  using example_index example_within
    near_clusters_connected [of "\<lambda>_. js ''0''" "\<lambda>s. s" "\<lambda>s. s" exampleEntries exampleOptions] by metis

end
