(* ===== verification/Document_Import_Dag.thy ===== *)
theory Document_Import_Dag
  imports Import_Graph
begin

text \<open>
  The document import DAG (\<open>packages/resolver/src/document-import-dag.ts\<close>): it checks a graph of the import
  graph loader again, field by field and across its parts, and turns it into documents, contents and one
  occurrence for each import.

  Parameters of the model: \<open>sha256\<close> is the hexadecimal digest of bytes, and \<open>trace\<close> is what the normalisation of
  the resolution event trace answers, its event identifiers and its digest or its own error. The checks for
  plain records, dense arrays and issued snapshots have no counterpart on typed values.
\<close>

subsection \<open>Data\<close>

definition maxDocuments :: nat where
  "maxDocuments = 4096"

definition maxGraphIssues :: nat where
  "maxGraphIssues = 4096"

definition maxOccurrences :: nat where
  "maxOccurrences = 65537"

definition maxReferences :: nat where
  "maxReferences = 262144"

record ImportDagDocument =
  dd_byteLength :: nat
  dd_contentId :: jstring
  dd_depth :: nat
  dd_documentId :: jstring
  dd_path :: jstring
  dd_sourceId :: jstring
  dd_state :: ImportGraphNodeState

record ImportDagContent =
  dc_byteLength :: nat
  dc_documentIds :: "jstring list"
  dc_id :: jstring
  dc_sha256 :: jstring

text \<open>\<open>None\<close> is the state \<open>entry\<close>.\<close>

type_synonym ImportDagOccurrenceState = "ImportGraphEdgeState option"

record ImportDagOccurrence =
  oc_contentId :: "jstring option"
  oc_depth :: nat
  oc_fromDocumentId :: "jstring option"
  oc_id :: jstring
  oc_importId :: "jstring option"
  oc_issueCode :: "ImportGraphIssueCode option"
  oc_ordinal :: nat
  oc_range :: "SourceRange option"
  oc_state :: ImportDagOccurrenceState
  oc_targetDocumentId :: "jstring option"
  oc_targetPath :: "jstring option"

record DocumentImportDag =
  dg_contents :: "ImportDagContent list"
  dg_documents :: "ImportDagDocument list"
  dg_entryDocumentId :: "jstring option"
  dg_entryPath :: jstring
  dg_complete :: bool
  dg_issues :: "ImportGraphIssue list"
  dg_occurrences :: "ImportDagOccurrence list"
  dg_traceEventIds :: "jstring list"
  dg_traceSha256 :: jstring

datatype ResolutionEventTraceErrorCode =
    TraceInvalidEvent
  | TraceInvalidInput
  | TraceInvalidPath
  | TraceInvalidRelationship
  | TraceInvalidState
  | TraceResourceLimit

datatype DagFailure =
    DagInvalidGraph
  | DagInvalidRelationship
  | DagResourceLimit
  | DagTraceFailure ResolutionEventTraceErrorCode

text \<open>What the normalisation of the trace answers.\<close>

type_synonym TraceOutcome = "ResolutionEventTraceErrorCode + jstring list \<times> jstring"

record NormalizedNode =
  nn_byteLength :: nat
  nn_depth :: nat
  nn_documentId :: jstring
  nn_path :: jstring
  nn_sha256 :: jstring
  nn_sourceId :: jstring
  nn_state :: ImportGraphNodeState

record NormalizedEdge =
  en_depth :: nat
  en_fromDocumentId :: jstring
  en_importId :: jstring
  en_issueCode :: "ImportGraphIssueCode option"
  en_range :: SourceRange
  en_state :: ImportGraphEdgeState
  en_targetDocumentId :: "jstring option"
  en_targetPath :: "jstring option"

record NormalizedGraph =
  ng_edges :: "NormalizedEdge list"
  ng_entryPath :: jstring
  ng_issues :: "ImportGraphIssue list"
  ng_nodes :: "NormalizedNode list"
  ng_complete :: bool

subsection \<open>Checks of a field\<close>

definition isSha256 :: "jstring \<Rightarrow> bool" where
  "isSha256 s \<longleftrightarrow> length s = 64 \<and> (\<forall>u\<in>set s. is_ascii_digit u \<or> (0x61 \<le> u \<and> u \<le> 0x66))"

definition boundedInteger :: "nat \<Rightarrow> nat \<Rightarrow> bool" where
  "boundedInteger maximum n \<longleftrightarrow> n \<le> MAX_SAFE_INTEGER \<and> n \<le> maximum"

definition nullable :: "('a \<Rightarrow> bool) \<Rightarrow> 'a option \<Rightarrow> bool" where
  "nullable ok x \<longleftrightarrow> (case x of None \<Rightarrow> True | Some v \<Rightarrow> ok v)"

definition graphRange :: "SourceRange \<Rightarrow> bool" where
  "graphRange rng \<longleftrightarrow>
     isStableIdentifier (sr_sourceId rng) \<and> safePosition (sr_start rng) \<and> safePosition (sr_end rng) \<and>
     forwardRange (sr_start rng) (sr_end rng)"

subsection \<open>Normalisation of the graph\<close>

definition normalizeNode :: "ImportGraphNode \<Rightarrow> DagFailure + NormalizedNode" where
  "normalizeNode node =
     checkR (length (gn_imports node) \<le> 4096) DagResourceLimit
     (checkR (isSha256 (gn_sha256 node)) DagInvalidGraph
     (checkR (boundedInteger 524288 (gn_byteLength node)) DagInvalidGraph
     (checkR (boundedInteger 32 (gn_depth node)) DagInvalidGraph
     (checkR (isStableIdentifier (gn_documentId node)) DagInvalidGraph
     (checkR (isRepositoryRelativePath (gn_path node)) DagInvalidGraph
     (checkR (isStableIdentifier (gn_sourceId node)) DagInvalidGraph
       (Inr \<lparr>nn_byteLength = gn_byteLength node, nn_depth = gn_depth node, nn_documentId = gn_documentId node,
             nn_path = gn_path node, nn_sha256 = gn_sha256 node, nn_sourceId = gn_sourceId node,
             nn_state = gn_state node\<rparr>)))))))"

definition normalizeEdge :: "ImportGraphEdge \<Rightarrow> DagFailure + NormalizedEdge" where
  "normalizeEdge edge =
     (let reference = ge_import edge in
      checkR (length (ref_rawSpecifier reference) \<le> 4096) DagInvalidGraph
     (checkR (isStableIdentifier (ge_fromDocumentId edge)) DagInvalidGraph
     (checkR (ref_documentId reference = ge_fromDocumentId edge) DagInvalidRelationship
     (checkR (boundedInteger 33 (ge_depth edge)) DagInvalidGraph
     (checkR (isStableIdentifier (ref_id reference)) DagInvalidGraph
     (checkR (graphRange (ref_specifierRange reference)) DagInvalidGraph
     (checkR (nullable isStableIdentifier (ge_targetDocumentId edge)) DagInvalidGraph
     (checkR (nullable isRepositoryRelativePath (ge_targetPath edge)) DagInvalidGraph
       (Inr \<lparr>en_depth = ge_depth edge, en_fromDocumentId = ge_fromDocumentId edge, en_importId = ref_id reference,
             en_issueCode = ge_issueCode edge, en_range = ref_specifierRange reference, en_state = ge_state edge,
             en_targetDocumentId = ge_targetDocumentId edge, en_targetPath = ge_targetPath edge\<rparr>)))))))))"

definition normalizeIssue :: "ImportGraphIssue \<Rightarrow> DagFailure + ImportGraphIssue" where
  "normalizeIssue issue =
     checkR (nullable isStableIdentifier (gi_importId issue)) DagInvalidGraph
     (checkR (isRepositoryRelativePath (gi_path issue)) DagInvalidGraph
     (checkR (nullable graphRange (gi_range issue)) DagInvalidGraph
     (checkR (nullable isRepositoryRelativePath (gi_targetPath issue)) DagInvalidGraph (Inr issue))))"

text \<open>The loop over the nodes with the count of references so far.\<close>

fun normalizeNodes :: "nat \<Rightarrow> ImportGraphNode list \<Rightarrow> DagFailure + NormalizedNode list" where
  "normalizeNodes referenceCount [] = Inr []"
| "normalizeNodes referenceCount (node # nodes) =
     checkR (length (gn_imports node) \<le> 4096) DagResourceLimit
     (let counted = referenceCount + length (gn_imports node) in
      checkR (counted \<le> maxReferences) DagResourceLimit
     (bindR (normalizeNode node) (\<lambda>n.
      bindR (normalizeNodes counted nodes) (\<lambda>rest. Inr (n # rest)))))"

definition normalizeGraph :: "ImportGraphResult \<Rightarrow> DagFailure + NormalizedGraph" where
  "normalizeGraph graph =
     checkR (isRepositoryRelativePath (gr_entryPath graph)) DagInvalidGraph
     (checkR (gr_entryPath graph \<noteq> REPOSITORY_ROOT) DagInvalidGraph
     (checkR (length (gr_nodes graph) \<le> maxDocuments) DagResourceLimit
     (checkR (length (gr_edges graph) \<le> maxOccurrences - 1) DagResourceLimit
     (checkR (length (gr_issues graph) \<le> maxGraphIssues) DagResourceLimit
     (bindR (normalizeNodes 0 (gr_nodes graph)) (\<lambda>nodes.
      bindR (sequenceR (map normalizeEdge (gr_edges graph))) (\<lambda>edges.
      bindR (sequenceR (map normalizeIssue (gr_issues graph))) (\<lambda>issues.
      checkR (gr_complete graph = (issues = [])) DagInvalidGraph
     (checkR (boundedInteger MAX_SAFE_INTEGER (gr_usedEdges graph) \<and> gr_usedEdges graph = length edges \<and>
              boundedInteger MAX_SAFE_INTEGER (gr_usedFiles graph) \<and> gr_usedFiles graph = length nodes \<and>
              boundedInteger MAX_SAFE_INTEGER (gr_usedIssues graph) \<and> gr_usedIssues graph = length issues) DagInvalidGraph
     (checkR (boundedInteger 16777216 (gr_totalBytes graph)) DagInvalidGraph
     (checkR (gr_totalBytes graph = sum_list (map nn_byteLength nodes)) DagInvalidGraph
       (Inr \<lparr>ng_edges = edges, ng_entryPath = gr_entryPath graph, ng_issues = issues, ng_nodes = nodes,
             ng_complete = gr_complete graph\<rparr>))))))))))))"

subsection \<open>Identifiers\<close>

definition framedBytes :: "jstring \<Rightarrow> jstring list \<Rightarrow> nat list" where
  "framedBytes namespace parts =
     utf8 namespace @ concat (map (\<lambda>field. 0 # utf8 (decimal (length (utf8 field))) @ COLON # utf8 field) parts)"

definition occurrenceId :: "(nat list \<Rightarrow> jstring) \<Rightarrow> jstring list \<Rightarrow> jstring" where
  "occurrenceId sha256 parts = js ''occurrence:'' @ sha256 (framedBytes (js ''document-import-occurrence-v1'') parts)"

text \<open>The name of a state in the source.\<close>

fun edgeStateText :: "ImportGraphEdgeState \<Rightarrow> jstring" where
  "edgeStateText EdgeLoaded = js ''loaded''"
| "edgeStateText EdgeAlreadyLoaded = js ''already-loaded''"
| "edgeStateText EdgeCycle = js ''cycle''"
| "edgeStateText EdgeAmbiguous = js ''ambiguous''"
| "edgeStateText EdgeRejected = js ''rejected''"
| "edgeStateText EdgeUnavailable = js ''unavailable''"
| "edgeStateText EdgeLimitExceeded = js ''limit-exceeded''"

definition orEmpty :: "jstring option \<Rightarrow> jstring" where
  "orEmpty x = (case x of None \<Rightarrow> [] | Some s \<Rightarrow> s)"

subsection \<open>Documents and contents\<close>

text \<open>The map \<open>contentDocuments\<close> in the order of insertion; its documents in the order of the nodes.\<close>

type_synonym ContentTable = "(jstring \<times> nat \<times> jstring list \<times> jstring) list"

fun addContent :: "jstring \<Rightarrow> NormalizedNode \<Rightarrow> ContentTable \<Rightarrow> ContentTable option" where
  "addContent contentId node [] = Some [(contentId, nn_byteLength node, [nn_documentId node], nn_sha256 node)]"
| "addContent contentId node ((key, byteLength, ids, sha) # rest) =
     (if key = contentId
      then if byteLength \<noteq> nn_byteLength node then None else Some ((key, byteLength, ids @ [nn_documentId node], sha) # rest)
      else map_option (\<lambda>table. (key, byteLength, ids, sha) # table) (addContent contentId node rest))"

definition contentIdOf :: "jstring \<Rightarrow> jstring" where
  "contentIdOf sha = js ''content:'' @ sha"

definition dagDocument :: "NormalizedNode \<Rightarrow> ImportDagDocument" where
  "dagDocument node =
     \<lparr>dd_byteLength = nn_byteLength node, dd_contentId = contentIdOf (nn_sha256 node), dd_depth = nn_depth node,
      dd_documentId = nn_documentId node, dd_path = nn_path node, dd_sourceId = nn_sourceId node,
      dd_state = nn_state node\<rparr>"

text \<open>The loop over the nodes; the documents made so far hold the identifiers and paths that were seen.\<close>

fun collectDocuments ::
  "NormalizedNode list \<Rightarrow> ImportDagDocument list \<Rightarrow> ContentTable \<Rightarrow> DagFailure + ImportDagDocument list \<times> ContentTable" where
  "collectDocuments [] documents contents = Inr (documents, contents)"
| "collectDocuments (node # nodes) documents contents =
     checkR (\<not> (nn_documentId node \<in> dd_documentId ` set documents \<or> nn_sourceId node \<in> dd_sourceId ` set documents \<or>
                nn_path node \<in> dd_path ` set documents)) DagInvalidRelationship
       (case addContent (contentIdOf (nn_sha256 node)) node contents of
          None \<Rightarrow> Inl DagInvalidRelationship
        | Some contents' \<Rightarrow> collectDocuments nodes (documents @ [dagDocument node]) contents')"

definition dagContents :: "ContentTable \<Rightarrow> ImportDagContent list" where
  "dagContents table =
     map (\<lambda>(key, byteLength, ids, sha). \<lparr>dc_byteLength = byteLength, dc_documentIds = sort ids, dc_id = key, dc_sha256 = sha\<rparr>)
       (sortOn fst table)"

subsection \<open>Occurrences\<close>

definition entryOccurrence :: "(nat list \<Rightarrow> jstring) \<Rightarrow> jstring \<Rightarrow> jstring \<Rightarrow> jstring \<Rightarrow> ImportDagOccurrence" where
  "entryOccurrence sha256 contentId documentId path =
     \<lparr>oc_contentId = Some contentId, oc_depth = 0, oc_fromDocumentId = None,
      oc_id = occurrenceId sha256 [js ''entry'', documentId, path], oc_importId = None, oc_issueCode = None,
      oc_ordinal = 0, oc_range = None, oc_state = None, oc_targetDocumentId = Some documentId, oc_targetPath = Some path\<rparr>"

definition documentById :: "ImportDagDocument list \<Rightarrow> jstring \<Rightarrow> ImportDagDocument option" where
  "documentById documents i = find (\<lambda>document. dd_documentId document = i) documents"

text \<open>The relations that an edge must satisfy, in the order of the checks; all have one error.\<close>

definition edgeRelations :: "NormalizedEdge \<Rightarrow> ImportDagDocument option \<Rightarrow> ImportDagDocument option \<Rightarrow> bool" where
  "edgeRelations edge source target \<longleftrightarrow>
     (let state = en_state edge in
      map_option dd_sourceId source = Some (sr_sourceId (en_range edge)) \<and>
      \<not> (en_targetDocumentId edge \<noteq> None \<and> target = None) \<and>
      \<not> (target \<noteq> None \<and> en_targetPath edge \<noteq> map_option dd_path target \<and> state \<noteq> EdgeCycle) \<and>
      \<not> ((state = EdgeLoaded \<or> state = EdgeAlreadyLoaded \<or> state = EdgeCycle) \<and> target = None) \<and>
      \<not> (state \<noteq> EdgeLoaded \<and> state \<noteq> EdgeAlreadyLoaded \<and> state \<noteq> EdgeCycle \<and> target \<noteq> None) \<and>
      \<not> (((state = EdgeLoaded \<or> state = EdgeAlreadyLoaded) \<and> en_issueCode edge \<noteq> None) \<or>
         (state = EdgeCycle \<and> en_issueCode edge \<noteq> Some ImportCycle) \<or>
         (state \<noteq> EdgeLoaded \<and> state \<noteq> EdgeAlreadyLoaded \<and> en_issueCode edge = None)))"

definition edgeFields :: "nat \<Rightarrow> NormalizedEdge \<Rightarrow> jstring list" where
  "edgeFields index edge =
     [decimal index, en_fromDocumentId edge, en_importId edge, edgeStateText (en_state edge),
      orEmpty (en_targetDocumentId edge), orEmpty (en_targetPath edge)]"

definition edgeOccurrence ::
  "(nat list \<Rightarrow> jstring) \<Rightarrow> nat \<Rightarrow> nat \<Rightarrow> NormalizedEdge \<Rightarrow> ImportDagDocument option \<Rightarrow> ImportDagOccurrence" where
  "edgeOccurrence sha256 index ordinal edge target =
     \<lparr>oc_contentId = map_option dd_contentId target, oc_depth = en_depth edge,
      oc_fromDocumentId = Some (en_fromDocumentId edge), oc_id = occurrenceId sha256 (edgeFields index edge),
      oc_importId = Some (en_importId edge), oc_issueCode = en_issueCode edge, oc_ordinal = ordinal,
      oc_range = Some (en_range edge), oc_state = Some (en_state edge),
      oc_targetDocumentId = en_targetDocumentId edge, oc_targetPath = en_targetPath edge\<rparr>"

text \<open>The loop over the edges; the occurrences made so far hold the identifiers that were seen.\<close>

fun collectOccurrences ::
  "(nat list \<Rightarrow> jstring) \<Rightarrow> ImportDagDocument list \<Rightarrow> nat \<Rightarrow> NormalizedEdge list \<Rightarrow> ImportDagOccurrence list \<Rightarrow>
   DagFailure + ImportDagOccurrence list" where
  "collectOccurrences sha256 documents index [] occurrences = Inr occurrences"
| "collectOccurrences sha256 documents index (edge # edges) occurrences =
     checkR (Some (en_importId edge) \<notin> oc_importId ` set occurrences) DagInvalidRelationship
     (let source = documentById documents (en_fromDocumentId edge);
          target = Option.bind (en_targetDocumentId edge) (documentById documents);
          occurrence = edgeOccurrence sha256 index (length occurrences) edge target
      in checkR (edgeRelations edge source target) DagInvalidRelationship
        (checkR (oc_id occurrence \<notin> oc_id ` set occurrences) DagInvalidRelationship
          (collectOccurrences sha256 documents (index + 1) edges (occurrences @ [occurrence]))))"

subsection \<open>The DAG\<close>

definition buildDocumentImportDag ::
  "(nat list \<Rightarrow> jstring) \<Rightarrow> ImportGraphResult \<Rightarrow> TraceOutcome \<Rightarrow> DagFailure + DocumentImportDag" where
  "buildDocumentImportDag sha256 graphValue trace =
     bindR (normalizeGraph graphValue) (\<lambda>graph.
     bindR (case trace of Inl e \<Rightarrow> Inl (DagTraceFailure e) | Inr t \<Rightarrow> Inr t) (\<lambda>(eventIds, traceSha256).
     bindR (collectDocuments (ng_nodes graph) [] []) (\<lambda>(documents, table).
     let entry = find (\<lambda>document. dd_path document = ng_entryPath graph) documents in
     checkR (\<not> (documents \<noteq> [] \<and> entry = None)) DagInvalidRelationship
     (bindR (collectOccurrences sha256 documents 0 (ng_edges graph)
               (case entry of None \<Rightarrow> []
                | Some document \<Rightarrow>
                    [entryOccurrence sha256 (dd_contentId document) (dd_documentId document) (dd_path document)]))
        (\<lambda>occurrences.
          Inr \<lparr>dg_contents = dagContents table, dg_documents = documents,
               dg_entryDocumentId = map_option dd_documentId entry, dg_entryPath = ng_entryPath graph,
               dg_complete = ng_complete graph, dg_issues = ng_issues graph, dg_occurrences = occurrences,
               dg_traceEventIds = eventIds, dg_traceSha256 = traceSha256\<rparr>)))))"

subsection \<open>One document without imports\<close>

text \<open>The fields of the instruction model that \<open>buildNoImportDocumentDag\<close> reads.\<close>

record IrInstructionDocument =
  id_id :: jstring
  id_sourceId :: jstring
  id_importIds :: "jstring list"

record IrSourceDocument =
  is_id :: jstring
  is_path :: jstring
  is_byteLength :: nat
  is_sha256 :: jstring
  is_parsedCompletely :: bool

definition buildNoImportDocumentDag ::
  "(nat list \<Rightarrow> jstring) \<Rightarrow> IrInstructionDocument list \<Rightarrow> IrSourceDocument list \<Rightarrow> jstring \<Rightarrow>
   TraceOutcome \<Rightarrow> DagFailure + DocumentImportDag" where
  "buildNoImportDocumentDag sha256 irDocuments irSources documentId trace =
     checkR (length irDocuments \<le> maxDocuments) DagResourceLimit
     (case find (\<lambda>entry. id_id entry = documentId) irDocuments of
        None \<Rightarrow> Inl DagInvalidRelationship
      | Some document \<Rightarrow>
          checkR (id_importIds document = []) DagInvalidRelationship
          (case find (\<lambda>entry. is_id entry = id_sourceId document) irSources of
             None \<Rightarrow> Inl DagInvalidRelationship
           | Some source \<Rightarrow>
               bindR (case trace of Inl e \<Rightarrow> Inl (DagTraceFailure e) | Inr t \<Rightarrow> Inr t) (\<lambda>(eventIds, traceSha256).
               let contentId = contentIdOf (is_sha256 source);
                   state = (if is_parsedCompletely source then NodeLoaded else NodeParseFailed) in
               Inr \<lparr>dg_contents = [\<lparr>dc_byteLength = is_byteLength source, dc_documentIds = [id_id document],
                                   dc_id = contentId, dc_sha256 = is_sha256 source\<rparr>],
                    dg_documents = [\<lparr>dd_byteLength = is_byteLength source, dd_contentId = contentId, dd_depth = 0,
                                     dd_documentId = id_id document, dd_path = is_path source,
                                     dd_sourceId = is_id source, dd_state = state\<rparr>],
                    dg_entryDocumentId = Some (id_id document), dg_entryPath = is_path source,
                    dg_complete = is_parsedCompletely source, dg_issues = [],
                    dg_occurrences = [entryOccurrence sha256 contentId (id_id document) (is_path source)],
                    dg_traceEventIds = eventIds, dg_traceSha256 = traceSha256\<rparr>)))"

end
