(* ===== verification/Document_Import_Dag_Props.thy ===== *)
theory Document_Import_Dag_Props
  imports Document_Import_Dag Import_Graph_Props
begin

text \<open>
  Properties of the document import DAG: it keeps every document, content and import of the graph it was built
  from; and it accepts every graph that the import graph loader returns unless digests collide or the files
  hold more references than it counts.
\<close>

subsection \<open>Documents and contents\<close>

text \<open>What a row of the content table says of the documents so far.\<close>

definition contentRow :: "ImportDagDocument list \<Rightarrow> jstring \<Rightarrow> nat \<times> jstring list \<times> jstring \<Rightarrow> bool" where
  "contentRow documents key row \<longleftrightarrow>
     (case row of (byteLength, ids, sha) \<Rightarrow>
        key = contentIdOf sha \<and> ids = map dd_documentId (filter (\<lambda>d. dd_contentId d = key) documents) \<and>
        (\<forall>d\<in>set documents. dd_contentId d = key \<longrightarrow> dd_byteLength d = byteLength))"

definition contentTable :: "ImportDagDocument list \<Rightarrow> ContentTable \<Rightarrow> bool" where
  "contentTable documents table \<longleftrightarrow>
     distinct (map fst table) \<and> fst ` set table = dd_contentId ` set documents \<and>
     (\<forall>(key, row)\<in>set table. contentRow documents key row)"

lemma dagDocument_simps [simp]:
  "dd_byteLength (dagDocument node) = nn_byteLength node" "dd_contentId (dagDocument node) = contentIdOf (nn_sha256 node)"
  "dd_documentId (dagDocument node) = nn_documentId node" "dd_path (dagDocument node) = nn_path node"
  "dd_sourceId (dagDocument node) = nn_sourceId node" "dd_depth (dagDocument node) = nn_depth node"
  "dd_state (dagDocument node) = nn_state node"
  by (simp_all add: dagDocument_def)

lemma addContent_keys:
  "addContent cid node table = Some table' \<Longrightarrow>
    map fst table' = map fst table @ (if cid \<in> fst ` set table then [] else [cid])"
  by (induction cid node table arbitrary: table' rule: addContent.induct) (fastforce split: if_splits)+

lemma contentRow_other:
  "key \<noteq> contentIdOf (nn_sha256 node) \<Longrightarrow>
    contentRow (documents @ [dagDocument node]) key row = contentRow documents key row"
  by (auto simp: contentRow_def split: prod.splits)

lemma addContent_row:
  assumes "addContent (contentIdOf (nn_sha256 node)) node table = Some table'"
    and "\<forall>(key, row)\<in>set table. contentRow documents key row"
    and "contentIdOf (nn_sha256 node) \<in> dd_contentId ` set documents \<Longrightarrow> contentIdOf (nn_sha256 node) \<in> fst ` set table"
    and "distinct (map fst table)"
  shows "\<forall>(key, row)\<in>set table'. contentRow (documents @ [dagDocument node]) key row"
  using assms
proof (induction "contentIdOf (nn_sha256 node)" node table arbitrary: table' rule: addContent.induct)
  case (1 node)
  then have "contentIdOf (nn_sha256 node) \<notin> dd_contentId ` set documents"
    by auto
  then have none: "dd_contentId d \<noteq> contentIdOf (nn_sha256 node)" if "d \<in> set documents" for d
    using that by (metis image_eqI)
  have empty: "filter (\<lambda>d. dd_contentId d = contentIdOf (nn_sha256 node)) documents = []"
    using none by (simp add: filter_empty_conv)
  show ?case
    using 1(1) none empty by (auto simp: contentRow_def)
next
  case (2 node key byteLength ids sha rest)
  show ?case
  proof (cases "key = contentIdOf (nn_sha256 node)")
    case True
    have others: "contentRow (documents @ [dagDocument node]) k row" if "(k, row) \<in> set rest" for k row
    proof -
      have "k \<noteq> key"
        using 2(5) that by (force simp: image_iff)
      then show ?thesis
        using 2(3) that True by (auto simp: contentRow_other)
    qed
    have table': "table' = (key, byteLength, ids @ [nn_documentId node], sha) # rest" "byteLength = nn_byteLength node"
      using 2(2) True by (auto split: if_splits)
    have "contentRow documents key (byteLength, ids, sha)"
      using 2(3) by simp
    then have "contentRow (documents @ [dagDocument node]) key (byteLength, ids @ [nn_documentId node], sha)"
      using True table'(2) by (auto simp: contentRow_def)
    then show ?thesis
      using others unfolding table'(1) by auto
  next
    case False
    then obtain rest' where rest': "addContent (contentIdOf (nn_sha256 node)) node rest = Some rest'"
      "table' = (key, byteLength, ids, sha) # rest'"
      using 2(2) by auto
    have "\<forall>(key, row)\<in>set rest'. contentRow (documents @ [dagDocument node]) key row"
      by (rule 2(1) [OF False rest'(1)]) (use 2(3-5) False in auto)
    moreover have "contentRow (documents @ [dagDocument node]) key (byteLength, ids, sha)"
      using 2(3) False by (simp add: contentRow_other)
    ultimately show ?thesis
      by (simp add: rest'(2))
  qed
qed

lemma addContent_table:
  assumes "addContent (contentIdOf (nn_sha256 node)) node table = Some table'" "contentTable documents table"
  shows "contentTable (documents @ [dagDocument node]) table'"
proof -
  note keys = addContent_keys [OF assms(1)]
  have "fst ` set table' = insert (contentIdOf (nn_sha256 node)) (fst ` set table)"
    using arg_cong [OF keys, of set] by auto
  moreover have "distinct (map fst table')"
    unfolding keys using assms(2) by (auto simp: contentTable_def)
  moreover have "\<forall>(key, row)\<in>set table'. contentRow (documents @ [dagDocument node]) key row"
    by (rule addContent_row [OF assms(1)]) (use assms(2) in \<open>auto simp: contentTable_def\<close>)
  ultimately show ?thesis
    using assms(2) by (simp add: contentTable_def)
qed

text \<open>The distinctness that the loop over the nodes enforces.\<close>

definition distinctDocuments :: "ImportDagDocument list \<Rightarrow> bool" where
  "distinctDocuments documents \<longleftrightarrow>
     distinct (map dd_documentId documents) \<and> distinct (map dd_sourceId documents) \<and> distinct (map dd_path documents)"

lemma collectDocuments_Inr:
  assumes "collectDocuments nodes documents table =
    Inr (documents', table')"
    and "contentTable documents table" "distinctDocuments documents"
  shows "documents' = documents @ map dagDocument nodes \<and> contentTable documents' table' \<and> distinctDocuments documents'"
  using assms
proof (induction nodes documents table rule: collectDocuments.induct)
  case (2 node nodes documents table)
  then obtain table1 where new: "nn_documentId node \<notin> dd_documentId ` set documents"
      "nn_sourceId node \<notin> dd_sourceId ` set documents" "nn_path node \<notin> dd_path ` set documents"
    and add: "addContent (contentIdOf (nn_sha256 node)) node table = Some table1"
    and rest: "collectDocuments nodes (documents @ [dagDocument node]) table1 =
      Inr (documents', table')"
    by (auto simp: checkR_Inr_iff split: option.splits)
  have "distinctDocuments (documents @ [dagDocument node])"
    using 2(4) new by (auto simp: distinctDocuments_def)
  then have "documents' = (documents @ [dagDocument node]) @ map dagDocument nodes"
    "contentTable documents' table'" "distinctDocuments documents'"
    using 2(1) [OF add rest addContent_table [OF add 2(3)]] by blast+
  then show ?case
    by simp
qed simp

lemma collectDocuments_start: "contentTable [] []" "distinctDocuments []"
  by (simp_all add: contentTable_def distinctDocuments_def)

subsection \<open>Occurrences\<close>

lemma collectOccurrences_Inr:
  assumes "collectOccurrences sha256 documents index edges occurrences =
    Inr all"
  shows "\<exists>new. all = occurrences @ new \<and> length new = length edges \<and>
    (\<forall>i<length edges. new ! i = edgeOccurrence sha256 (index + i) (length occurrences + i) (edges ! i)
        (Option.bind (en_targetDocumentId (edges ! i)) (documentById documents)) \<and>
      edgeRelations (edges ! i) (documentById documents (en_fromDocumentId (edges ! i)))
        (Option.bind (en_targetDocumentId (edges ! i)) (documentById documents))) \<and>
    (distinct (map oc_id occurrences) \<longrightarrow> distinct (map oc_id all)) \<and>
    (distinct (map oc_importId occurrences) \<longrightarrow> distinct (map oc_importId all))"
  using assms
proof (induction edges arbitrary: index occurrences)
  case (Cons edge edges)
  let ?o = "edgeOccurrence sha256 index (length occurrences) edge
    (Option.bind (en_targetDocumentId edge) (documentById documents))"
  have fresh: "oc_importId ?o \<notin> oc_importId ` set occurrences" "oc_id ?o \<notin> oc_id ` set occurrences"
    and relations: "edgeRelations edge (documentById documents (en_fromDocumentId edge))
        (Option.bind (en_targetDocumentId edge) (documentById documents))"
    and rest: "collectOccurrences sha256 documents (index + 1) edges (occurrences @ [?o]) =
      Inr all"
    using Cons.prems by (auto simp: Let_def checkR_Inr_iff edgeOccurrence_def)
  obtain new where new: "all = (occurrences @ [?o]) @ new" "length new = length edges"
    "\<forall>i<length edges. new ! i = edgeOccurrence sha256 (index + 1 + i) (length (occurrences @ [?o]) + i) (edges ! i)
        (Option.bind (en_targetDocumentId (edges ! i)) (documentById documents)) \<and>
      edgeRelations (edges ! i) (documentById documents (en_fromDocumentId (edges ! i)))
        (Option.bind (en_targetDocumentId (edges ! i)) (documentById documents))"
    "distinct (map oc_id (occurrences @ [?o])) \<longrightarrow> distinct (map oc_id all)"
    "distinct (map oc_importId (occurrences @ [?o])) \<longrightarrow> distinct (map oc_importId all)"
    using Cons.IH [OF rest] by blast
  show ?case
  proof (intro exI [of _ "?o # new"] conjI allI impI)
    fix i
    assume i: "i < length (edge # edges)"
    then show "(?o # new) ! i = edgeOccurrence sha256 (index + i) (length occurrences + i) ((edge # edges) ! i)
        (Option.bind (en_targetDocumentId ((edge # edges) ! i)) (documentById documents))"
      using new(3) by (cases i) auto
    show "edgeRelations ((edge # edges) ! i) (documentById documents (en_fromDocumentId ((edge # edges) ! i)))
        (Option.bind (en_targetDocumentId ((edge # edges) ! i)) (documentById documents))"
      using new(3) relations i by (cases i) auto
  qed (use new fresh in auto)
qed simp

subsection \<open>The normalised graph\<close>

definition nodeView :: "ImportGraphNode \<Rightarrow> NormalizedNode" where
  "nodeView node =
     \<lparr>nn_byteLength = gn_byteLength node, nn_depth = gn_depth node, nn_documentId = gn_documentId node,
      nn_path = gn_path node, nn_sha256 = gn_sha256 node, nn_sourceId = gn_sourceId node, nn_state = gn_state node\<rparr>"

definition edgeView :: "ImportGraphEdge \<Rightarrow> NormalizedEdge" where
  "edgeView edge =
     \<lparr>en_depth = ge_depth edge, en_fromDocumentId = ge_fromDocumentId edge, en_importId = ref_id (ge_import edge),
      en_issueCode = ge_issueCode edge, en_range = ref_specifierRange (ge_import edge), en_state = ge_state edge,
      en_targetDocumentId = ge_targetDocumentId edge, en_targetPath = ge_targetPath edge\<rparr>"

definition acceptedNode :: "ImportGraphNode \<Rightarrow> bool" where
  "acceptedNode node \<longleftrightarrow>
     length (gn_imports node) \<le> 4096 \<and> isSha256 (gn_sha256 node) \<and> boundedInteger 524288 (gn_byteLength node) \<and>
     boundedInteger 32 (gn_depth node) \<and> isStableIdentifier (gn_documentId node) \<and>
     isRepositoryRelativePath (gn_path node) \<and> isStableIdentifier (gn_sourceId node)"

definition acceptedEdge :: "ImportGraphEdge \<Rightarrow> bool" where
  "acceptedEdge edge \<longleftrightarrow>
     length (ref_rawSpecifier (ge_import edge)) \<le> 4096 \<and> isStableIdentifier (ge_fromDocumentId edge) \<and>
     ref_documentId (ge_import edge) = ge_fromDocumentId edge \<and> boundedInteger 33 (ge_depth edge) \<and>
     isStableIdentifier (ref_id (ge_import edge)) \<and> graphRange (ref_specifierRange (ge_import edge)) \<and>
     nullable isStableIdentifier (ge_targetDocumentId edge) \<and> nullable isRepositoryRelativePath (ge_targetPath edge)"

definition acceptedIssue :: "ImportGraphIssue \<Rightarrow> bool" where
  "acceptedIssue issue \<longleftrightarrow>
     nullable isStableIdentifier (gi_importId issue) \<and> isRepositoryRelativePath (gi_path issue) \<and>
     nullable graphRange (gi_range issue) \<and> nullable isRepositoryRelativePath (gi_targetPath issue)"

lemma normalizeNode_Inr: "normalizeNode node = Inr n \<longleftrightarrow> acceptedNode node \<and> n = nodeView node"
  by (auto simp: normalizeNode_def acceptedNode_def nodeView_def checkR_Inr_iff)

lemma normalizeEdge_Inr: "normalizeEdge edge = Inr e \<longleftrightarrow> acceptedEdge edge \<and> e = edgeView edge"
  by (auto simp: normalizeEdge_def acceptedEdge_def edgeView_def checkR_Inr_iff Let_def)

lemma normalizeIssue_Inr: "normalizeIssue issue = Inr i \<longleftrightarrow> acceptedIssue issue \<and> i = issue"
  by (auto simp: normalizeIssue_def acceptedIssue_def checkR_Inr_iff)

lemma normalizeNodes_Inr:
  "normalizeNodes n nodes = Inr ns \<longleftrightarrow>
    (\<forall>node\<in>set nodes. acceptedNode node) \<and> ns = map nodeView nodes \<and>
    (nodes = [] \<or> n + sum_list (map (\<lambda>node. length (gn_imports node)) nodes) \<le> maxReferences)"
proof (induction nodes arbitrary: n ns)
  case (Cons node nodes)
  have "normalizeNodes n (node # nodes) = Inr ns \<longleftrightarrow>
      acceptedNode node \<and> n + length (gn_imports node) \<le> maxReferences \<and>
      (\<exists>rest. normalizeNodes (n + length (gn_imports node)) nodes = Inr rest \<and> ns = nodeView node # rest)"
    by (auto simp: checkR_Inr_iff bindR_Inr_iff normalizeNode_Inr Let_def acceptedNode_def)
  also have "\<dots> \<longleftrightarrow> acceptedNode node \<and> (\<forall>node\<in>set nodes. acceptedNode node) \<and> ns = nodeView node # map nodeView nodes \<and>
      n + length (gn_imports node) + sum_list (map (\<lambda>node. length (gn_imports node)) nodes) \<le> maxReferences"
    unfolding Cons.IH by auto
  finally show ?case
    by (auto simp: add.assoc)
qed auto

lemma map_Inr_eq: "map f xs = map Inr ys \<longleftrightarrow> (\<forall>x\<in>set xs. \<exists>y. f x = Inr y) \<and> ys = map (\<lambda>x. projr (f x)) xs"
proof (induction xs arbitrary: ys)
  case (Cons x xs)
  show ?case
    by (cases ys; cases "f x") (auto simp: Cons.IH)
qed auto

lemma sequence_edges:
  "sequenceR (map normalizeEdge edges) = Inr es \<longleftrightarrow> (\<forall>edge\<in>set edges. acceptedEdge edge) \<and> es = map edgeView edges"
proof -
  have "projr (normalizeEdge edge) = edgeView edge" if "acceptedEdge edge" for edge
    using normalizeEdge_Inr [of edge "edgeView edge"] that by simp
  then show ?thesis
    unfolding sequenceR_Inr map_Inr_eq normalizeEdge_Inr by auto
qed

lemma sequence_issues:
  "sequenceR (map normalizeIssue issues) = Inr result \<longleftrightarrow> (\<forall>issue\<in>set issues. acceptedIssue issue) \<and> result = issues"
proof -
  have "projr (normalizeIssue issue) = issue" if "acceptedIssue issue" for issue
    using normalizeIssue_Inr [of issue issue] that by simp
  then have "map (\<lambda>issue. projr (normalizeIssue issue)) issues = issues" if "\<forall>issue\<in>set issues. acceptedIssue issue"
    using that by (intro map_idI) simp
  then show ?thesis
    unfolding sequenceR_Inr map_Inr_eq normalizeIssue_Inr by auto
qed

lemma normalizeGraph_Inr:
  "normalizeGraph graph = Inr g \<longleftrightarrow>
    isRepositoryRelativePath (gr_entryPath graph) \<and> gr_entryPath graph \<noteq> REPOSITORY_ROOT \<and>
    length (gr_nodes graph) \<le> maxDocuments \<and> length (gr_edges graph) \<le> maxOccurrences - 1 \<and>
    length (gr_issues graph) \<le> maxGraphIssues \<and> (\<forall>node\<in>set (gr_nodes graph). acceptedNode node) \<and>
    (gr_nodes graph = [] \<or> sum_list (map (\<lambda>node. length (gn_imports node)) (gr_nodes graph)) \<le> maxReferences) \<and>
    (\<forall>edge\<in>set (gr_edges graph). acceptedEdge edge) \<and> (\<forall>issue\<in>set (gr_issues graph). acceptedIssue issue) \<and>
    gr_complete graph = (gr_issues graph = []) \<and> gr_usedEdges graph = length (gr_edges graph) \<and>
    gr_usedFiles graph = length (gr_nodes graph) \<and> gr_usedIssues graph = length (gr_issues graph) \<and>
    boundedInteger 16777216 (gr_totalBytes graph) \<and>
    gr_totalBytes graph = sum_list (map gn_byteLength (gr_nodes graph)) \<and>
    g = \<lparr>ng_edges = map edgeView (gr_edges graph), ng_entryPath = gr_entryPath graph, ng_issues = gr_issues graph,
         ng_nodes = map nodeView (gr_nodes graph), ng_complete = gr_complete graph\<rparr>"
proof -
  have bytes: "map (nn_byteLength \<circ> nodeView) nodes = map gn_byteLength nodes" for nodes
    by (simp add: nodeView_def)
  have small: "boundedInteger MAX_SAFE_INTEGER n" if "n \<le> 262144" for n
    using that by (simp add: boundedInteger_def MAX_SAFE_INTEGER_def)
  show ?thesis
    unfolding normalizeGraph_def checkR_Inr_iff bindR_Inr_iff normalizeNodes_Inr sequence_edges sequence_issues
    using small by (auto simp: bytes maxDocuments_def maxOccurrences_def maxGraphIssues_def)
qed

subsection \<open>The parts of a DAG\<close>

definition dagDocuments :: "ImportGraphResult \<Rightarrow> ImportDagDocument list" where
  "dagDocuments graph = map (dagDocument \<circ> nodeView) (gr_nodes graph)"

definition entryDocument :: "ImportGraphResult \<Rightarrow> ImportDagDocument option" where
  "entryDocument graph = find (\<lambda>document. dd_path document = gr_entryPath graph) (dagDocuments graph)"

definition entryOccurrences :: "(nat list \<Rightarrow> jstring) \<Rightarrow> ImportGraphResult \<Rightarrow> ImportDagOccurrence list" where
  "entryOccurrences sha256 graph =
     (case entryDocument graph of
        None \<Rightarrow> []
      | Some document \<Rightarrow> [entryOccurrence sha256 (dd_contentId document) (dd_documentId document) (dd_path document)])"

lemma nodeView_simps [simp]:
  "nn_byteLength (nodeView node) = gn_byteLength node" "nn_documentId (nodeView node) = gn_documentId node"
  "nn_path (nodeView node) = gn_path node" "nn_sha256 (nodeView node) = gn_sha256 node"
  "nn_sourceId (nodeView node) = gn_sourceId node"
  by (simp_all add: nodeView_def)

lemma edgeView_simps [simp]:
  "en_importId (edgeView edge) = ref_id (ge_import edge)" "en_fromDocumentId (edgeView edge) = ge_fromDocumentId edge"
  "en_state (edgeView edge) = ge_state edge" "en_targetDocumentId (edgeView edge) = ge_targetDocumentId edge"
  "en_targetPath (edgeView edge) = ge_targetPath edge" "en_issueCode (edgeView edge) = ge_issueCode edge"
  "en_range (edgeView edge) = ref_specifierRange (ge_import edge)"
  by (simp_all add: edgeView_def)

lemma buildDocumentImportDag_Inr:
  assumes "buildDocumentImportDag sha256 graph trace = Inr dag"
  obtains table where "collectDocuments (map nodeView (gr_nodes graph)) [] [] = Inr (dagDocuments graph, table)"
    "dg_documents dag = dagDocuments graph" "contentTable (dagDocuments graph) table"
    "distinctDocuments (dagDocuments graph)" "dg_contents dag = dagContents table"
    "gr_nodes graph = [] \<or> entryDocument graph \<noteq> None"
    "collectOccurrences sha256 (dagDocuments graph) 0 (map edgeView (gr_edges graph)) (entryOccurrences sha256 graph) =
       Inr (dg_occurrences dag)"
    "dg_entryDocumentId dag = map_option dd_documentId (entryDocument graph)" "dg_entryPath dag = gr_entryPath graph"
    "dg_complete dag = gr_complete graph" "dg_issues dag = gr_issues graph"
    "trace = Inr (dg_traceEventIds dag, dg_traceSha256 dag)"
proof -
  obtain g eventIds traceSha documents table where
    g: "normalizeGraph graph = Inr g" and
    documents: "collectDocuments (ng_nodes g) [] [] = Inr (documents, table)" and
    entry: "\<not> (documents \<noteq> [] \<and> find (\<lambda>document. dd_path document = ng_entryPath g) documents = None)" and
    occurrences: "collectOccurrences sha256 documents 0 (ng_edges g)
       (case find (\<lambda>document. dd_path document = ng_entryPath g) documents of None \<Rightarrow> []
        | Some document \<Rightarrow> [entryOccurrence sha256 (dd_contentId document) (dd_documentId document) (dd_path document)]) =
       Inr (dg_occurrences dag)" and
    dag: "dg_documents dag = documents" "dg_contents dag = dagContents table"
      "dg_entryDocumentId dag = map_option dd_documentId (find (\<lambda>document. dd_path document = ng_entryPath g) documents)"
      "dg_entryPath dag = ng_entryPath g" "dg_complete dag = ng_complete g" "dg_issues dag = ng_issues g"
      "trace = Inr (dg_traceEventIds dag, dg_traceSha256 dag)"
    using assms unfolding buildDocumentImportDag_def
    by (auto simp: bindR_Inr_iff checkR_Inr_iff Let_def split: sum.splits prod.splits)
  have fields: "ng_nodes g = map nodeView (gr_nodes graph)" "ng_edges g = map edgeView (gr_edges graph)"
    "ng_entryPath g = gr_entryPath graph" "ng_complete g = gr_complete graph" "ng_issues g = gr_issues graph"
    using g unfolding normalizeGraph_Inr by simp_all
  note spec = collectDocuments_Inr [OF documents collectDocuments_start]
  then have docs: "documents = dagDocuments graph"
    by (simp add: dagDocuments_def fields)
  show ?thesis
    by (rule that [of table]) (use spec documents entry occurrences dag in
      \<open>simp_all add: docs fields entryDocument_def entryOccurrences_def dagDocuments_def\<close>)
qed

lemma find_Some: "find P xs = Some x \<Longrightarrow> x \<in> set xs \<and> P x"
  by (induction xs) (auto split: if_splits)

lemma find_None: "find P xs = None \<longleftrightarrow> (\<forall>x\<in>set xs. \<not> P x)"
  by (induction xs) auto

lemma documentById_iff:
  assumes "distinct (map dd_documentId documents)"
  shows "documentById documents i = Some d \<longleftrightarrow> d \<in> set documents \<and> dd_documentId d = i"
proof
  assume "documentById documents i = Some d"
  then show "d \<in> set documents \<and> dd_documentId d = i"
    unfolding documentById_def by (rule find_Some)
next
  assume d: "d \<in> set documents \<and> dd_documentId d = i"
  then have "documentById documents i \<noteq> None"
    unfolding documentById_def find_None by blast
  then obtain d' where "documentById documents i = Some d'"
    by blast
  moreover from this have "d' \<in> set documents \<and> dd_documentId d' = i"
    unfolding documentById_def by (rule find_Some)
  moreover have "inj_on dd_documentId (set documents)"
    using assms by (simp add: distinct_map)
  ultimately have "d' = d"
    using d by (intro inj_onD [of dd_documentId "set documents"]) auto
  then show "documentById documents i = Some d"
    using \<open>documentById documents i = Some d'\<close> by simp
qed

text \<open>What a DAG must record of a node, of the entry and of an edge of the graph.\<close>

definition recordsNode :: "ImportGraphNode \<Rightarrow> ImportDagDocument \<Rightarrow> bool" where
  "recordsNode node document \<longleftrightarrow>
     dd_documentId document = gn_documentId node \<and> dd_path document = gn_path node \<and>
     dd_sourceId document = gn_sourceId node \<and> dd_byteLength document = gn_byteLength node \<and>
     dd_depth document = gn_depth node \<and> dd_state document = gn_state node \<and>
     dd_contentId document = js ''content:'' @ gn_sha256 node"

definition recordsEntry :: "ImportGraphNode \<Rightarrow> ImportDagOccurrence \<Rightarrow> bool" where
  "recordsEntry node occurrence \<longleftrightarrow>
     oc_state occurrence = None \<and> oc_depth occurrence = 0 \<and> oc_fromDocumentId occurrence = None \<and>
     oc_importId occurrence = None \<and> oc_issueCode occurrence = None \<and> oc_range occurrence = None \<and>
     oc_targetDocumentId occurrence = Some (gn_documentId node) \<and> oc_targetPath occurrence = Some (gn_path node) \<and>
     oc_contentId occurrence = Some (js ''content:'' @ gn_sha256 node)"

definition recordsEdge :: "ImportGraphResult \<Rightarrow> ImportGraphEdge \<Rightarrow> ImportDagOccurrence \<Rightarrow> bool" where
  "recordsEdge graph edge occurrence \<longleftrightarrow>
     oc_state occurrence = Some (ge_state edge) \<and> oc_depth occurrence = ge_depth edge \<and>
     oc_fromDocumentId occurrence = Some (ge_fromDocumentId edge) \<and>
     oc_importId occurrence = Some (ref_id (ge_import edge)) \<and> oc_issueCode occurrence = ge_issueCode edge \<and>
     oc_range occurrence = Some (ref_specifierRange (ge_import edge)) \<and>
     oc_targetDocumentId occurrence = ge_targetDocumentId edge \<and> oc_targetPath occurrence = ge_targetPath edge \<and>
     (case ge_targetDocumentId edge of
        None \<Rightarrow> oc_contentId occurrence = None
      | Some target \<Rightarrow> \<exists>node\<in>set (gr_nodes graph). gn_documentId node = target \<and>
          oc_contentId occurrence = Some (js ''content:'' @ gn_sha256 node))"

lemma recordsNode_view: "recordsNode node (dagDocument (nodeView node))"
  by (simp add: recordsNode_def dagDocument_def nodeView_def contentIdOf_def)

lemma entryDocument_Some:
  assumes "entryDocument graph = Some document"
  shows "\<exists>node\<in>set (gr_nodes graph). document = dagDocument (nodeView node) \<and> gn_path node = gr_entryPath graph"
  using find_Some [OF assms [unfolded entryDocument_def]] by (auto simp: dagDocuments_def)

lemma edgeOccurrence_records:
  assumes relations: "edgeRelations (edgeView edge) source
      (Option.bind (ge_targetDocumentId edge) (documentById (dagDocuments graph)))"
    and distinct: "distinctDocuments (dagDocuments graph)"
  shows "recordsEdge graph edge (edgeOccurrence sha256 i n (edgeView edge)
      (Option.bind (ge_targetDocumentId edge) (documentById (dagDocuments graph))))"
proof (cases "ge_targetDocumentId edge")
  case None
  then show ?thesis
    by (simp add: recordsEdge_def edgeOccurrence_def edgeView_def)
next
  case (Some target)
  then obtain document where document: "documentById (dagDocuments graph) target = Some document"
    using relations by (auto simp: edgeRelations_def Let_def)
  then have "document \<in> set (dagDocuments graph)" "dd_documentId document = target"
    using documentById_iff distinct unfolding distinctDocuments_def by blast+
  then obtain node where "node \<in> set (gr_nodes graph)" "document = dagDocument (nodeView node)" "gn_documentId node = target"
    by (auto simp: dagDocuments_def)
  then show ?thesis
    using Some document
    by (auto simp: recordsEdge_def edgeOccurrence_def edgeView_def dagDocument_def nodeView_def contentIdOf_def)
qed

text \<open>The occurrences of a DAG: that of the entry, if there is one, and those of the edges.\<close>

lemma entryOccurrences_length:
  assumes "buildDocumentImportDag sha256 graph trace = Inr dag"
  shows "length (entryOccurrences sha256 graph) = (if gr_nodes graph = [] then 0 else 1)"
proof -
  have "gr_nodes graph = [] \<or> entryDocument graph \<noteq> None"
    by (rule buildDocumentImportDag_Inr [OF assms])
  moreover have "entryDocument graph = None" if "gr_nodes graph = []"
    using that by (simp add: entryDocument_def dagDocuments_def)
  ultimately show ?thesis
    by (auto simp: entryOccurrences_def split: option.splits)
qed

lemma dag_occurrences:
  assumes "buildDocumentImportDag sha256 graph trace = Inr dag"
  obtains new where "dg_occurrences dag = entryOccurrences sha256 graph @ new" "length new = length (gr_edges graph)"
    "list_all2 (recordsEdge graph) (gr_edges graph) new"
    "map oc_ordinal (dg_occurrences dag) = [0..<length (dg_occurrences dag)]"
    "distinct (map oc_id (dg_occurrences dag))" "distinct (map oc_importId (dg_occurrences dag))"
proof -
  let ?n = "length (entryOccurrences sha256 graph)"
  obtain table where distinct: "distinctDocuments (dagDocuments graph)"
    and run: "collectOccurrences sha256 (dagDocuments graph) 0 (map edgeView (gr_edges graph)) (entryOccurrences sha256 graph) =
       Inr (dg_occurrences dag)"
    by (rule buildDocumentImportDag_Inr [OF assms])
  obtain new where new: "dg_occurrences dag = entryOccurrences sha256 graph @ new" "length new = length (gr_edges graph)"
    "\<forall>i<length (gr_edges graph). new ! i = edgeOccurrence sha256 i (?n + i) (edgeView (gr_edges graph ! i))
       (Option.bind (ge_targetDocumentId (gr_edges graph ! i)) (documentById (dagDocuments graph))) \<and>
      edgeRelations (edgeView (gr_edges graph ! i)) (documentById (dagDocuments graph) (ge_fromDocumentId (gr_edges graph ! i)))
        (Option.bind (ge_targetDocumentId (gr_edges graph ! i)) (documentById (dagDocuments graph)))"
    "distinct (map oc_id (dg_occurrences dag))" "distinct (map oc_importId (dg_occurrences dag))"
    using collectOccurrences_Inr [OF run] by (auto simp: entryOccurrences_def split: option.splits)
  have "map oc_ordinal (dg_occurrences dag) = [0..<length (dg_occurrences dag)]"
    using new(1-3) by (intro nth_equalityI)
      (auto simp: nth_append edgeOccurrence_def entryOccurrences_def entryOccurrence_def split: option.splits)
  moreover have "list_all2 (recordsEdge graph) (gr_edges graph) new"
    unfolding list_all2_conv_all_nth using new(2,3) edgeOccurrence_records [OF _ distinct] by metis
  ultimately show thesis
    using new by (intro that)
qed

lemma dag_entry:
  assumes "buildDocumentImportDag sha256 graph trace = Inr dag" "gr_nodes graph \<noteq> []"
  shows "\<exists>node\<in>set (gr_nodes graph). gn_path node = gr_entryPath graph \<and>
    dg_entryDocumentId dag = Some (gn_documentId node) \<and> recordsEntry node (hd (dg_occurrences dag))"
proof -
  obtain table where "gr_nodes graph = [] \<or> entryDocument graph \<noteq> None"
    and id: "dg_entryDocumentId dag = map_option dd_documentId (entryDocument graph)"
    by (rule buildDocumentImportDag_Inr [OF assms(1)])
  then obtain document where document: "entryDocument graph = Some document"
    using assms(2) by blast
  from entryDocument_Some [OF this] obtain node where node: "node \<in> set (gr_nodes graph)"
    "document = dagDocument (nodeView node)" "gn_path node = gr_entryPath graph"
    by blast
  obtain new where "dg_occurrences dag = entryOccurrences sha256 graph @ new"
    by (rule dag_occurrences [OF assms(1)])
  with node document id show ?thesis
    by (intro bexI [of _ node])
      (simp_all add: recordsEntry_def entryOccurrences_def entryOccurrence_def dagDocument_def contentIdOf_def)
qed

text \<open>C22. A DAG records the graph: its documents are the graph's nodes, field by field and with the content of their
  digest; when there are nodes, the first occurrence is that of the entry, the node at the entry path, with its
  document, path and content, at depth zero and without an importer; the other occurrences are the imports in the order
  of the edges, each with the importing document, import, range, depth, state and issue of its edge, its target and the
  content of the target document. Occurrences are numbered from zero, no identifier and no import occurs twice, and the
  entry path, the issues and the trace are kept.\<close>

theorem dag_preserves_graph:
  assumes "buildDocumentImportDag sha256 graph trace = Inr dag"
  defines "start \<equiv> if gr_nodes graph = [] then 0 else 1"
  shows "list_all2 recordsNode (gr_nodes graph) (dg_documents dag) \<and>
    length (dg_occurrences dag) = start + length (gr_edges graph) \<and>
    (if gr_nodes graph = [] then dg_entryDocumentId dag = None
     else \<exists>node\<in>set (gr_nodes graph). gn_path node = gr_entryPath graph \<and>
       dg_entryDocumentId dag = Some (gn_documentId node) \<and> recordsEntry node (hd (dg_occurrences dag))) \<and>
    list_all2 (recordsEdge graph) (gr_edges graph) (drop start (dg_occurrences dag)) \<and>
    map oc_ordinal (dg_occurrences dag) = [0..<length (dg_occurrences dag)] \<and>
    distinct (map oc_id (dg_occurrences dag)) \<and> distinct (map oc_importId (dg_occurrences dag)) \<and>
    dg_entryPath dag = gr_entryPath graph \<and> dg_complete dag = gr_complete graph \<and> dg_issues dag = gr_issues graph \<and>
    trace = Inr (dg_traceEventIds dag, dg_traceSha256 dag)"
proof -
  obtain new where new: "dg_occurrences dag = entryOccurrences sha256 graph @ new" "length new = length (gr_edges graph)"
    "list_all2 (recordsEdge graph) (gr_edges graph) new"
    "map oc_ordinal (dg_occurrences dag) = [0..<length (dg_occurrences dag)]"
    "distinct (map oc_id (dg_occurrences dag))" "distinct (map oc_importId (dg_occurrences dag))"
    by (rule dag_occurrences [OF assms(1)])
  obtain table where kept: "dg_documents dag = dagDocuments graph"
      "dg_entryDocumentId dag = map_option dd_documentId (entryDocument graph)" "dg_entryPath dag = gr_entryPath graph"
      "dg_complete dag = gr_complete graph" "dg_issues dag = gr_issues graph"
      "trace = Inr (dg_traceEventIds dag, dg_traceSha256 dag)"
    by (rule buildDocumentImportDag_Inr [OF assms(1)])
  have start: "length (entryOccurrences sha256 graph) = start"
    using entryOccurrences_length [OF assms(1)] by (simp add: start_def)
  have "list_all2 recordsNode (gr_nodes graph) (dg_documents dag)"
    by (simp add: kept(1) dagDocuments_def list_all2_conv_all_nth recordsNode_view)
  moreover have "dg_entryDocumentId dag = None" if "gr_nodes graph = []"
    using that by (simp add: kept(2) entryDocument_def dagDocuments_def)
  ultimately show ?thesis
    using new kept(3-6) start dag_entry [OF assms(1)] by simp
qed

text \<open>C23. The contents of a DAG are the documents grouped by digest: there is one content for each digest, in strict
  order of its identifier, with the sorted identifiers of exactly the documents that have the digest and the byte
  length that all of them have.\<close>

theorem dag_contents_partition:
  assumes "buildDocumentImportDag sha256 graph trace = Inr dag"
  shows "sorted_wrt (<) (map dc_id (dg_contents dag)) \<and>
    dc_id ` set (dg_contents dag) = dd_contentId ` set (dg_documents dag) \<and>
    (\<forall>content\<in>set (dg_contents dag).
      dc_id content = contentIdOf (dc_sha256 content) \<and>
      dc_documentIds content = sort (map dd_documentId (filter (\<lambda>d. dd_contentId d = dc_id content) (dg_documents dag))) \<and>
      (\<forall>d\<in>set (dg_documents dag). dd_contentId d = dc_id content \<longrightarrow> dd_byteLength d = dc_byteLength content))"
proof -
  obtain table where table: "dg_documents dag = dagDocuments graph" "contentTable (dagDocuments graph) table"
    "dg_contents dag = dagContents table"
    by (rule buildDocumentImportDag_Inr [OF assms])
  have ids: "map dc_id (dagContents table) = map fst (sortOn fst table)"
    by (auto simp: dagContents_def)
  have "sorted (map fst (sortOn fst table))" "set (sortOn fst table) = set table"
    by (simp_all add: sortOn_def)
  moreover have "distinct (map fst (sortOn fst table))"
  proof -
    have "mset (map fst (sortOn fst table)) = mset (map fst table)"
      by (simp add: sortOn_def)
    then show ?thesis
      using table(2) by (metis contentTable_def mset_eq_imp_distinct_iff)
  qed
  ultimately have order: "sorted_wrt (<) (map dc_id (dg_contents dag))"
    unfolding table(3) ids by (simp add: strict_sorted_iff)
  have keys: "dc_id ` set (dg_contents dag) = dd_contentId ` set (dg_documents dag)"
    using arg_cong [OF ids, of set] table(2) by (simp add: table(1,3) contentTable_def sortOn_def)
  have rows: "\<forall>content\<in>set (dg_contents dag).
      dc_id content = contentIdOf (dc_sha256 content) \<and>
      dc_documentIds content = sort (map dd_documentId (filter (\<lambda>d. dd_contentId d = dc_id content) (dg_documents dag))) \<and>
      (\<forall>d\<in>set (dg_documents dag). dd_contentId d = dc_id content \<longrightarrow> dd_byteLength d = dc_byteLength content)"
    using table(2) by (auto simp: table(1,3) dagContents_def contentTable_def contentRow_def sortOn_def)
  show ?thesis
    using order keys rows by blast
qed

subsection \<open>A concrete DAG\<close>

text \<open>Two documents with one content, the first of which imports the second.\<close>

definition dagNode :: "nat list \<Rightarrow> ImportReference list \<Rightarrow> nat \<Rightarrow> ImportGraphNode" where
  "dagNode name refs depth =
     \<lparr>gn_byteLength = 4, gn_depth = depth, gn_documentId = js ''document:'' @ name, gn_imports = refs, gn_path = name,
      gn_sha256 = replicate 64 0x61, gn_sourceId = js ''source:'' @ name, gn_state = NodeLoaded\<rparr>"

definition dagRange :: SourceRange where
  "dagRange =
     \<lparr>sr_sourceId = js ''source:a'',
      sr_start = \<lparr>sp_byteOffset = 1, sp_utf16Offset = 1, sp_line = 0, sp_utf16Column = 1\<rparr>,
      sr_end = \<lparr>sp_byteOffset = 4, sp_utf16Offset = 4, sp_line = 0, sp_utf16Column = 4\<rparr>\<rparr>"

definition dagReference :: ImportReference where
  "dagReference =
     \<lparr>ref_id = js ''import:0'', ref_documentId = js ''document:a'', ref_nodeId = js ''node:a'', ref_kind = VendorImport,
      ref_range = dagRange, ref_specifierRange = dagRange, ref_rawSpecifier = js ''./b'',
      ref_targetKind = RepositoryPathCandidate, ref_state = ImportRecognized, ref_uncertainty = Known\<rparr>"

definition dagGraph :: ImportGraphResult where
  "dagGraph =
     \<lparr>gr_edges = [\<lparr>ge_depth = 1, ge_fromDocumentId = js ''document:a'', ge_import = dagReference, ge_issueCode = None,
                    ge_state = EdgeLoaded, ge_targetDocumentId = Some (js ''document:b''), ge_targetPath = Some (js ''b'')\<rparr>],
      gr_entryPath = js ''a'', gr_issues = [],
      gr_nodes = [dagNode (js ''a'') [dagReference] 0, dagNode (js ''b'') [] 1], gr_complete = True,
      gr_syntax = ClaudeCode, gr_usedEdges = 1, gr_usedFiles = 2, gr_usedIssues = 0, gr_totalBytes = 8\<rparr>"

lemma dagGraph_accepted:
  "normalizeGraph dagGraph =
    Inr \<lparr>ng_edges = map edgeView (gr_edges dagGraph), ng_entryPath = js ''a'', ng_issues = [],
         ng_nodes = map nodeView (gr_nodes dagGraph), ng_complete = True\<rparr>"
  unfolding normalizeGraph_Inr
  by (simp add: dagGraph_def dagReference_def dagNode_def acceptedNode_def acceptedEdge_def dagRange_def graphRange_def
      safePosition_def forwardRange_def isStableIdentifier_def boundedInteger_def nullable_def isSha256_def
      MAX_SAFE_INTEGER_def maxDocuments_def maxOccurrences_def maxGraphIssues_def maxReferences_def js_def unit_class
      path_eval)

lemma dagGraph_ids:
  "occurrenceId id (edgeFields 0 edge) \<noteq> occurrenceId id (js ''entry'' # xs)"
proof -
  have "utf8 (js ''entry'') = js ''entry''" "utf8 (decimal (Suc (Suc (Suc (Suc (Suc 0)))))) = [53]" "utf8 (decimal 1) = [49]" "utf8 (decimal 0) = [48]"
    by (simp_all add: utf8_ascii js_def decimal.simps)
  then show ?thesis
    by (simp add: occurrenceId_def framedBytes_def edgeFields_def js_def)
qed

lemma dagGraph_built:
  "\<exists>dag. buildDocumentImportDag id dagGraph (Inr ([js ''e''], js ''d'')) = Inr dag \<and>
    length (dg_documents dag) = 2 \<and> length (dg_contents dag) = 1 \<and> length (dg_occurrences dag) = 2"
proof -
  have documents: "\<exists>row. collectDocuments (ng_nodes (projr (normalizeGraph dagGraph))) [] [] = Inr (dagDocuments dagGraph, [row])"
    by (simp add: dagGraph_accepted, simp add: dagGraph_def dagNode_def nodeView_def dagDocuments_def dagDocument_def
        contentIdOf_def js_def checkR_def)
  obtain entry where entry: "find (\<lambda>document. dd_path document = js ''a'') (dagDocuments dagGraph) = Some entry"
    by (simp add: dagGraph_def dagNode_def dagDocuments_def dagDocument_def nodeView_def)
  have edges: "\<exists>oc. collectOccurrences id (dagDocuments dagGraph) 0 (map edgeView (gr_edges dagGraph))
      [entryOccurrence id c d p] = Inr [entryOccurrence id c d p, oc]" for c d p
    using dagGraph_ids [of "edgeView (hd (gr_edges dagGraph))" "[d, p]"]
    by (simp add: dagGraph_def dagNode_def dagReference_def dagRange_def edgeView_def nodeView_def dagDocuments_def
        dagDocument_def entryOccurrence_def edgeOccurrence_def edgeRelations_def documentById_def js_def checkR_def Let_def)
  have "length (dagDocuments dagGraph) = 2"
    by (simp add: dagDocuments_def dagGraph_def)
  then show ?thesis
    using documents edges [of "dd_contentId entry" "dd_documentId entry" "dd_path entry"] entry
    unfolding buildDocumentImportDag_def dagGraph_accepted by (auto simp: checkR_def dagContents_def sortOn_def Let_def)
qed

theorem dag_preserves_graph_witness:
  "\<exists>dag. buildDocumentImportDag id dagGraph (Inr ([js ''e''], js ''d'')) = Inr dag \<and>
    map oc_ordinal (dg_occurrences dag) = [0, 1] \<and>
    map dd_path (dg_documents dag) = [js ''a'', js ''b''] \<and>
    oc_targetPath (hd (dg_occurrences dag)) = Some (js ''a'') \<and>
    oc_importId (dg_occurrences dag ! 1) = Some (js ''import:0'')"
proof -
  obtain dag where dag: "buildDocumentImportDag id dagGraph (Inr ([js ''e''], js ''d'')) = Inr dag"
      "length (dg_occurrences dag) = 2"
    using dagGraph_built by blast
  obtain first second where split: "dg_occurrences dag = [first, second]"
    using dag(2) by (auto simp: numeral_2_eq_2 length_Suc_conv)
  note records = dag_preserves_graph [OF dag(1), unfolded split]
  have "\<exists>node\<in>set (gr_nodes dagGraph). gn_path node = gr_entryPath dagGraph \<and> recordsEntry node first"
    using records by (auto simp: dagGraph_def split: if_splits)
  then have "oc_targetPath first = Some (js ''a'')"
    by (auto simp: recordsEntry_def dagGraph_def)
  moreover have "oc_importId second = Some (js ''import:0'')"
    using records by (auto simp: dagGraph_def recordsEdge_def dagReference_def)
  moreover have "map oc_ordinal [first, second] = [0, 1]"
    using records by simp
  moreover have "map dd_path (dg_documents dag) = [js ''a'', js ''b'']"
    using records by (auto simp: dagGraph_def dagNode_def recordsNode_def list_all2_Cons1)
  ultimately show ?thesis
    using dag(1) split by simp
qed

theorem dag_contents_partition_witness:
  "\<exists>dag content. buildDocumentImportDag id dagGraph (Inr ([js ''e''], js ''d'')) = Inr dag \<and>
    dg_contents dag = [content] \<and> dc_id content = dd_contentId (hd (dg_documents dag)) \<and>
    dd_contentId ` set (dg_documents dag) = {dc_id content}"
proof -
  obtain dag where dag: "buildDocumentImportDag id dagGraph (Inr ([js ''e''], js ''d'')) = Inr dag"
      "length (dg_documents dag) = 2" "length (dg_contents dag) = 1"
    using dagGraph_built by blast
  then obtain content where content: "dg_contents dag = [content]"
    by (auto simp: length_Suc_conv)
  have keys: "dd_contentId ` set (dg_documents dag) = {dc_id content}"
    using dag_contents_partition [OF dag(1)] unfolding content by (elim conjE) simp
  moreover have "hd (dg_documents dag) \<in> set (dg_documents dag)"
    using dag(2) by (intro hd_in_set) auto
  ultimately have "dc_id content = dd_contentId (hd (dg_documents dag))"
    by (metis image_eqI singletonD)
  then show ?thesis
    using dag(1) content keys by (intro exI conjI)
qed

end
