(* ===== verification/Document_Import_Dag_Loaded.thy ===== *)
theory Document_Import_Dag_Loaded
  imports Document_Import_Dag_Props
begin

text \<open>
  What the lexer, the walk of the import graph loader and the limits guarantee of a loaded graph, stated as the
  document import DAG checks it: identifiers, ranges, nodes, edges, issues and counts.
\<close>

subsection \<open>Identifiers\<close>

lemma stableUnits_alnum:
  "\<forall>u\<in>set xs. is_ascii_letter u \<or> is_ascii_digit u \<Longrightarrow> stableUnits b (xs @ ys) = stableUnits (xs \<noteq> [] \<or> b) ys"
  by (induction xs arbitrary: b) auto

lemma isSha256_alnum: "isSha256 s \<Longrightarrow> u \<in> set s \<Longrightarrow> is_ascii_letter u \<or> is_ascii_digit u"
  by (auto simp: isSha256_def is_ascii_letter_def)

lemma isSha256_stable: "isSha256 s \<Longrightarrow> stableUnits b (s @ ys) = stableUnits True ys"
proof -
  assume s: "isSha256 s"
  then have "s \<noteq> []"
    by (auto simp: isSha256_def)
  then show ?thesis
    using isSha256_alnum [OF s] by (simp add: stableUnits_alnum)
qed

lemma document_identifiers:
  assumes "isSha256 s"
  shows "isStableIdentifier (js ''document:'' @ s)" "isStableIdentifier (js ''source:'' @ s)"
  using isSha256_stable [OF assms, where ys = "[]"] assms
  by (simp_all add: isStableIdentifier_def isSha256_def js_def is_ascii_letter_def)

lemma base36_alnum: "u \<in> set (base36 n) \<Longrightarrow> is_ascii_letter u \<or> is_ascii_digit u"
proof (induction n rule: base36.induct)
  case (1 n)
  have digit: "is_ascii_letter (digit36 k) \<or> is_ascii_digit (digit36 k)" if "k < 36" for k
    using that by (auto simp: is_ascii_letter_def is_ascii_digit_def)
  show ?case
    using 1 digit [of n] digit [of "n mod 36"] by (subst (asm) base36.simps) (auto split: if_splits simp del: digit36.simps)
qed

lemma length_base36: "n < 36 ^ k \<Longrightarrow> 0 < k \<Longrightarrow> length (base36 n) \<le> k"
proof (induction k arbitrary: n)
  case (Suc k)
  show ?case
  proof (cases "n < 36")
    case False
    then have "n div 36 < 36 ^ k" "0 < k"
      using Suc.prems by (auto simp: less_mult_imp_div_less mult.commute intro: gr0I)
    then show ?thesis
      using Suc.IH False by (simp add: base36.simps [of n])
  qed (simp add: base36.simps)
qed simp

lemma import_identifier:
  assumes "isSha256 identity" "i < 4096"
  shows "isStableIdentifier (js ''import:'' @ identity @ COLON # padStart3 (base36 i))"
proof -
  have "length (base36 i) \<le> 3"
    using assms(2) by (intro length_base36) simp_all
  then have "length (padStart3 (base36 i)) = 3"
    by (simp add: padStart3_def)
  moreover have "\<forall>u\<in>set (padStart3 (base36 i)). is_ascii_letter u \<or> is_ascii_digit u"
    using base36_alnum by (auto simp: padStart3_def is_ascii_digit_def)
  moreover from this have "stableUnits False (padStart3 (base36 i))"
    using stableUnits_alnum [of "padStart3 (base36 i)" False "[]"] \<open>length (padStart3 (base36 i)) = 3\<close> by auto
  ultimately show ?thesis
    using assms(1) isSha256_stable [OF assms(1), where ys = "COLON # padStart3 (base36 i)"]
    by (simp add: isStableIdentifier_def isSha256_def js_def is_ascii_letter_def is_ascii_digit_def)
qed

lemma padStart3_inj:
  assumes "padStart3 (base36 i) = padStart3 (base36 j)"
  shows "i = j"
proof -
  have "value36 (padStart3 s) = value36 s" for s
  proof -
    have "foldl (\<lambda>a d. 36 * a + (if d < 58 then d - 48 else d - 87)) 0 (replicate n 0x30) = (0 :: nat)" for n :: nat
      by (induction n) simp_all
    then show ?thesis
      by (simp add: padStart3_def)
  qed
  then show ?thesis
    using assms value36_base36 by metis
qed

subsection \<open>Ranges\<close>

lemma length_scalars_le: "length (scalars s) \<le> length s"
  by (induction s rule: scalars.induct) auto

lemma textBytes_le: "textBytes s \<le> 4 * length s"
proof -
  have "length (concat (map utf8_scalar cs)) \<le> 4 * length cs" for cs
    using length_utf8_scalar(2) by (induction cs) (auto intro: add_mono)
  then have "textBytes s \<le> 4 * length (scalars s)"
    by (simp add: textBytes_def utf8_def)
  then show ?thesis
    using length_scalars_le [of s] by simp
qed

lemma textBytes_prefix:
  assumes "a \<le> b" "hasWellFormedUnicode (take a s)"
  shows "textBytes (take a s) \<le> textBytes (take b s)"
proof -
  have "take b s = take a s @ drop a (take b s)"
    using assms(1) by (metis append_take_drop_id min.absorb1 take_take)
  then show ?thesis
    by (metis assms(2) le_add1 textBytes_append)
qed

lemma lineOf_mono: "a \<le> b \<Longrightarrow> lineOf s a \<le> lineOf s b"
proof -
  assume "a \<le> b"
  then have "[1..<Suc b] = [1..<Suc a] @ [Suc a..<Suc b]"
    using upt_add_eq_append [of 1 "Suc a" "b - a"] by simp
  then show ?thesis
    unfolding lineOf_def by (simp del: upt_Suc)
qed

lemma lineOf_le: "lineOf s a \<le> a"
  using length_filter_le [of "lineStart s" "[1..<Suc a]"] by (simp add: lineOf_def del: upt_Suc)

lemma exactRange_graphRange:
  assumes "a \<le> b" "b \<le> length s" "length s \<le> 524288" "hasWellFormedUnicode (take a s)" "isStableIdentifier sourceId"
  shows "graphRange (exactRange sourceId s a b)"
proof -
  have bytes: "textBytes (take c s) \<le> 2097152" for c
    using textBytes_le [of "take c s"] assms(3) by simp
  have safe: "safePosition (exactPosition s c)" if "c \<le> length s" for c
    using bytes [of c] lineOf_le [of s c] that assms(3)
    by (simp add: safePosition_def exactPosition_def MAX_SAFE_INTEGER_def)
  have "lineBegin s a = lineBegin s b" if "lineOf s a = lineOf s b"
    using lineStarts_nth [of a s] lineStarts_nth [of b s] assms(1,2) that by simp
  then have "forwardRange (exactPosition s a) (exactPosition s b)"
    using textBytes_prefix [OF assms(1,4)] lineOf_mono [OF assms(1), of s] assms(1)
    by (auto simp: forwardRange_def exactPosition_def)
  then show ?thesis
    using safe [of a] safe [of b] assms(1,2,5) by (simp add: graphRange_def exactRange_def)
qed

subsection \<open>References\<close>

definition acceptedReference :: "jstring \<Rightarrow> jstring \<Rightarrow> ImportReference \<Rightarrow> bool" where
  "acceptedReference documentId sourceId reference \<longleftrightarrow>
     ref_documentId reference = documentId \<and> isStableIdentifier (ref_id reference) \<and>
     graphRange (ref_specifierRange reference) \<and> sr_sourceId (ref_specifierRange reference) = sourceId \<and>
     length (ref_rawSpecifier reference) \<le> 4096"

definition specifierLength :: "jstring \<Rightarrow> Candidate \<Rightarrow> nat" where
  "specifierLength s c = length (specifierAt s (cd_start c + 1))"

lemma scanCandidates_bounds:
  assumes "scanCandidates s dialect limits ranges index candidates = Inr found"
    and "length candidates \<le> limits MaxImports"
    and "\<forall>c\<in>set candidates. specifierLength s c \<le> limits MaxSpecifierUtf16CodeUnits"
  shows "length found \<le> limits MaxImports \<and> (\<forall>c\<in>set found. specifierLength s c \<le> limits MaxSpecifierUtf16CodeUnits)"
  using assms
proof (induction "length s - index" arbitrary: index candidates rule: less_induct)
  case less
  show ?case
  proof (cases "index < length s")
    case False
    with less.prems show ?thesis
      by (auto simp: scanCandidates.simps)
  next
    case True
    have "index < tokenEnd s index"
      by (simp add: tokenEnd_def)
    then have shorter: "length s - (index + 1) < length s - index" "length s - tokenEnd s index < length s - index"
      using True by simp_all
    from less.prems(1) True show ?thesis
    proof (cases rule: scanCandidates_cases)
      case none
      show ?thesis
        by (rule less.hyps [OF shorter(1) none(2) less.prems(2,3)])
    next
      case excluded
      show ?thesis
        by (rule less.hyps [OF shorter(2) excluded(3) less.prems(2,3)])
    next
      case taken
      show ?thesis
        by (rule less.hyps [OF shorter(2) taken(3)]) (use taken(4,5) less.prems(2,3) in \<open>auto simp: specifierLength_def\<close>)
    qed
  qed
qed

lemma default_lexer_limits: "validateLexerOptions (\<lambda>_. None) = Inr limits \<Longrightarrow> limits name = 4096"
  by (cases name) (auto simp: validateLexerOptions_def validateLexerLimit_def ABSOLUTE_IMPORT_LEXER_LIMITS_def Let_def
      bindR_Inr_iff checkR_Inr_iff)

lemma extraction_length:
  assumes "extractMarkdownContent fromMarkdown sha256 sourceId source (\<lambda>_. None) = Inr markdown"
  shows "length source \<le> 524288"
proof -
  obtain tree xs where "parseMarkdownInternal fromMarkdown sha256 sourceId source (\<lambda>_. None) = Inr (tree, xs, fst markdown)"
    using assms by (auto simp: extractMarkdownContent_def result_simps)
  then show ?thesis
  proof (cases rule: parseMarkdownInternal_Inr)
    case (1 limits positions key)
    have "limits MaxUtf16CodeUnits = 512 * 1024"
      using 1(1) by (auto simp: validateOptions_def PARSER_LIMIT_NAMES_def validateLimit_def ABSOLUTE_MARKDOWN_LIMITS_def
          Let_def result_simps)
    then show ?thesis
      using 1(2) by (auto simp: preflightInput_def checkR_Inr_iff)
  qed
qed

lemma decode_octets_range: "decode_octets octets = Some c \<Longrightarrow> octets = a # rest \<Longrightarrow> a < 0xF8 \<Longrightarrow> c \<le> 0x10FFFF"
  by (induction octets rule: decode_octets.induct) (auto simp: is_continuation_def Let_def split: if_splits)

lemma utf16_units_jstring: "c \<le> 0x10FFFF \<Longrightarrow> is_jstring (utf16_units c)"
proof -
  assume "c \<le> 0x10FFFF"
  then have "(c - 0x10000) div 1024 < 1024"
    by (simp add: div_less_iff_less_mult)
  moreover have "(c - 0x10000) mod 1024 < 0x2400"
    by (rule less_le_trans [OF mod_less_divisor]) simp_all
  ultimately show ?thesis
    by (simp add: is_jstring_def utf16_units_def)
qed

lemma decodeUtf8_jstring: "decodeUtf8 bytes = Some s \<Longrightarrow> is_jstring s"
proof (induction bytes arbitrary: s rule: decodeUtf8.induct)
  case (2 b bs)
  then obtain n c rest where step: "sequence_length b = Some n" "decode_octets (take n (b # bs)) = Some c"
      "decodeUtf8 (drop n (b # bs)) = Some rest" "s = utf16_units c @ rest"
    by (auto split: option.splits)
  then obtain m where "n = Suc m" "b < 0xF8"
    by (auto simp: sequence_length_def split: if_splits)
  then have "is_jstring (utf16_units c)"
    using decode_octets_range [OF step(2), of b "take m bs"] by (simp add: utf16_units_jstring)
  moreover have "is_jstring rest"
    by (rule "2.IH" [OF step(1-3)])
  ultimately show ?case
    by (simp add: step(4) is_jstring_def)
qed (simp add: is_jstring_def)

lemma lexed_references:
  assumes "lexImportReferences fromMarkdown sha256 documentId sourceId dialect s (\<lambda>_. None) = Inr lexed"
    and "is_jstring s" "\<forall>bytes. isSha256 (sha256 bytes)"
  shows "length (ir_imports lexed) \<le> 4096 \<and> distinct (map ref_id (ir_imports lexed)) \<and>
    (\<forall>reference\<in>set (ir_imports lexed). acceptedReference documentId sourceId reference)"
proof -
  obtain limits markdown positions candidates refs where parts: "isStableIdentifier documentId" "isStableIdentifier sourceId"
    "validateLexerOptions (\<lambda>_. None) = Inr limits"
    "mapMarkdownError (extractMarkdownContent fromMarkdown sha256 sourceId s (\<lambda>_. None)) = Inr markdown"
    "lexerPositionIndex s = Inr positions"
    "scanCandidates s dialect limits (buildDispositionRanges s (mr_nodes (fst markdown)) dialect) 0 [] = Inr candidates"
    "map (\<lambda>(index, candidate). buildReference documentId sourceId dialect s (fst markdown) positions
        (importIdentity sha256 documentId dialect sourceId s) index candidate) (enumerate 0 candidates) = map Inr refs"
    "ir_imports lexed = refs"
    using assms(1) unfolding lexImportReferences_def checkR_Inr_iff bindR_Inr_iff sequenceR_Inr by auto
  let ?identity = "importIdentity sha256 documentId dialect sourceId s"
  have markdown: "extractMarkdownContent fromMarkdown sha256 sourceId s (\<lambda>_. None) = Inr markdown"
    using parts(4) by (simp add: mapMarkdownError_def split: sum.splits)
  have positions: "positionIndex None s = Some positions"
    using parts(5) by (simp add: lexerPositionIndex_def split: option.splits)
  note table = extraction_table [OF markdown]
  have found: "\<forall>c\<in>set candidates. goodCandidate s dialect (buildDispositionRanges s (mr_nodes (fst markdown)) dialect) c"
    using scanCandidates_spec [OF parts(6)] by simp
  have small: "length candidates \<le> 4096" "\<forall>c\<in>set candidates. specifierLength s c \<le> 4096"
    using scanCandidates_bounds [OF parts(6)] default_lexer_limits [OF parts(3)] by simp_all
  have count: "length refs = length candidates"
    using arg_cong [OF parts(7), of length] by simp
  have each: "ref_id (refs ! i) = js ''import:'' @ ?identity @ COLON # padStart3 (base36 i) \<and>
      acceptedReference documentId sourceId (refs ! i)" if i: "i < length candidates" for i
  proof -
    let ?c = "candidates ! i"
    have build: "buildReference documentId sourceId dialect s (fst markdown) positions ?identity i ?c = Inr (refs ! i)"
      using arg_cong [OF parts(7), of "\<lambda>xs. xs ! i"] i count by (simp add: nth_enumerate_eq)
    have good: "goodCandidate s dialect (buildDispositionRanges s (mr_nodes (fst markdown)) dialect) ?c"
      using found i by simp
    have start: "cd_start ?c < length s" "opensReference s dialect (cd_start ?c)" "cd_end ?c = tokenEnd s (cd_start ?c)"
      using good by (auto simp: goodCandidate_def dest: arg_cong [where f = cd_end])
    note token = opening_token [OF start(1,2)]
    have prefix: "hasWellFormedUnicode (take (cd_start ?c + 1) s)"
      using token start(1) by (intro take_wellFormed [OF table(5)]) auto
    have rng: "graphRange (exactRange sourceId s (cd_start ?c + 1) (cd_end ?c))"
      using token(2,3) start(3) extraction_length [OF markdown] prefix parts(2) by (intro exactRange_graphRange) simp_all
    have ref: "ref_id (refs ! i) = js ''import:'' @ ?identity @ COLON # padStart3 (base36 i)"
      "ref_documentId (refs ! i) = documentId"
      using build by (auto simp: buildReference_def bindR_Inr_iff dest!: sym [of _ "refs ! i"])
    have "isStableIdentifier (ref_id (refs ! i))"
      unfolding ref(1) using assms(3) small(1) i by (intro import_identifier) (simp_all add: importIdentity_def)
    moreover have "ref_specifierRange (refs ! i) = exactRange sourceId s (cd_start ?c + 1) (cd_end ?c)"
      "ref_rawSpecifier (refs ! i) = specifierAt s (cd_start ?c + 1)"
      using buildReference_returns [OF table(1-4) table(5) assms(2) positions good, of documentId sourceId ?identity i] build
      by auto
    moreover have "specifierLength s ?c \<le> 4096"
      using small(2) i by simp
    ultimately show ?thesis
      using ref rng by (simp add: acceptedReference_def specifierLength_def exactRange_def)
  qed
  have "distinct (map ref_id refs)"
    unfolding distinct_conv_nth using each count by (auto dest: padStart3_inj)
  moreover have "\<forall>reference\<in>set refs. acceptedReference documentId sourceId reference"
    using each count by (auto simp: in_set_conv_nth)
  ultimately show ?thesis
    using count small(1) parts(8) by simp
qed

subsection \<open>Effects of the walk\<close>

definition issueOf :: "ImportGraphIssueCode \<Rightarrow> jstring \<Rightarrow> ImportReference option \<Rightarrow> jstring option \<Rightarrow> ImportGraphIssue" where
  "issueOf code p reference t =
     \<lparr>gi_code = code, gi_importId = map_option ref_id reference, gi_path = p,
      gi_range = map_option ref_specifierRange reference, gi_targetPath = t\<rparr>"

lemma addGraphIssue_issues:
  "issue \<in> set (ms_issues (addGraphIssue ctx code p reference t st)) \<Longrightarrow>
    issue \<in> set (ms_issues st) \<or> issue = issueOf code p reference t"
  by (auto simp: addGraphIssue_def issueOf_def split: if_splits)

definition parentIssueOf :: "ImportGraphIssueCode \<Rightarrow> jstring \<Rightarrow> ImportParent \<Rightarrow> ImportGraphIssue" where
  "parentIssueOf code p parent =
     (case parent of
        None \<Rightarrow> issueOf code p None (Some p)
      | Some (parentPath, reference) \<Rightarrow> issueOf code parentPath (Some reference) (Some p))"

lemma parentIssue_issues:
  "issue \<in> set (ms_issues (parentIssue ctx code p parent st)) \<Longrightarrow>
    issue \<in> set (ms_issues st) \<or> issue = parentIssueOf code p parent"
  by (auto simp: parentIssue_def parentIssueOf_def split: option.splits dest: addGraphIssue_issues)

lemma parseDocument_issues:
  assumes "parseDocument ctx p depth parent f st = (st', res)" "issue \<in> set (ms_issues st')"
  shows "issue \<in> set (ms_issues st) \<or> (\<exists>code. issue = parentIssueOf code p parent) \<or>
    (\<exists>d k refs reference code. res = Inr (d, k, refs) \<and> reference \<in> set refs \<and> issue = issueOf code p (Some reference) None)"
  using assms(1)
proof (cases rule: parseDocument_cases)
  case (bad code node r)
  then show ?thesis
    using assms(2) parentIssue_issues by (fastforce simp: parseFailed_def addNode_def Let_def)
next
  case (good node)
  let ?limit = "lc_limits ctx maxFanOut"
  have "?limit < length (gn_imports node) \<and> issue = issueOf FanOutLimit p (Some (gn_imports node ! ?limit)) None"
    if "issue \<notin> set (ms_issues st)"
    using that assms(2) good(1,3) unfolding activateDocument_def Let_def
    by (auto simp: addNode_def split: if_splits dest!: addGraphIssue_issues)
  then show ?thesis
    using good(2) nth_mem by blast
qed

lemma openDocument_issues:
  assumes "openDocument ctx p depth parent st = (st', res)" "issue \<in> set (ms_issues st')"
  shows "issue \<in> set (ms_issues st) \<or> (\<exists>code. issue = parentIssueOf code p parent) \<or>
    (\<exists>d k refs reference code. res = Inr (d, k, refs) \<and> reference \<in> set refs \<and> issue = issueOf code p (Some reference) None)"
proof -
  let ?st = "st\<lparr>ms_reads := ms_reads st + 1\<rparr>"
  consider code where "st' = parentIssue ctx code p parent ?st"
    | f n where "parseDocument ctx p depth parent f (?st\<lparr>ms_totalBytes := n\<rparr>) = (st', res)"
    using assms(1) by (auto simp: openDocument_def Let_def split: option.splits if_splits)
  then show ?thesis
  proof cases
    case 1
    then show ?thesis
      using assms(2) parentIssue_issues [of issue ctx code p parent ?st] by auto
  next
    case 2
    then show ?thesis
      using parseDocument_issues [OF 2 assms(2)] by simp
  qed
qed

text \<open>What the edge of an import that is not followed says of its target.\<close>

definition edgeOutcome :: "MutableState \<Rightarrow> ImportGraphEdge \<Rightarrow> bool" where
  "edgeOutcome st edge \<longleftrightarrow>
     (if followed edge then
        ge_issueCode edge = None \<and>
        (\<exists>t td. ms_completed st t = Some td \<and> ge_targetDocumentId edge = Some td \<and> ge_targetPath edge = Some t)
      else if ge_state edge = EdgeCycle then
        ge_issueCode edge = Some ImportCycle \<and> (\<exists>t td. ms_active st t = Some td \<and> ge_targetDocumentId edge = Some td)
      else ge_issueCode edge \<noteq> None \<and> ge_targetDocumentId edge = None)"

definition addsEdge :: "ImportGraphEdge \<Rightarrow> MutableState \<Rightarrow> MutableState \<Rightarrow> bool" where
  "addsEdge edge st st' \<longleftrightarrow> sameCore st st' \<and> mset (ms_edges st') = add_mset edge (mset (ms_edges st))"

definition importIssues :: "jstring \<Rightarrow> ImportReference \<Rightarrow> MutableState \<Rightarrow> MutableState \<Rightarrow> bool" where
  "importIssues p reference st st' \<longleftrightarrow>
     (\<forall>issue\<in>set (ms_issues st'). issue \<in> set (ms_issues st) \<or>
        (\<exists>code t. issue = issueOf code p (Some reference) t \<and>
           (\<forall>t'. t = Some t' \<longrightarrow> (\<exists>escaped. resolveTarget p (ref_rawSpecifier reference) = (Some t', escaped)))))"

lemma refuseImport_adds:
  fixes ctx p depth d reference code edgeState t td st
  defines "st' \<equiv> refuseImport ctx p depth d reference code edgeState t td st"
    and "edge \<equiv> graphEdge d reference (depth + 1) edgeState t td (Some code)"
  assumes "\<forall>t'. t = Some t' \<longrightarrow> (\<exists>escaped. resolveTarget p (ref_rawSpecifier reference) = (Some t', escaped))"
  shows "addsEdge edge st st' \<and> edgeFor d reference depth edge \<and> importIssues p reference st st'"
proof (intro conjI)
  show "addsEdge edge st st'"
    using refuseImport_effect(1,3) [OF refl, where ctx = ctx and p = p and depth = depth and d = d and reference = reference and
        code = code and edgeState = edgeState and t = t and td = td and st = st]
    by (simp add: addsEdge_def st'_def edge_def)
  show "edgeFor d reference depth edge"
    by (simp add: edgeFor_def edge_def graphEdge_def)
  show "importIssues p reference st st'"
    using assms(3) addGraphIssue_issues [where ctx = ctx and code = code and p = p and t = t and st = st]
    by (fastforce simp: importIssues_def st'_def refuseImport_def pushEdge_def)
qed

text \<open>A state change that adds one edge for an import.\<close>

definition importStep :: "jstring \<Rightarrow> jstring \<Rightarrow> nat \<Rightarrow> ImportReference \<Rightarrow> MutableState \<Rightarrow> MutableState \<Rightarrow> bool" where
  "importStep p d depth reference st st' \<longleftrightarrow>
     (\<exists>edge. addsEdge edge st st' \<and> edgeFor d reference depth edge \<and> edgeOutcome st edge) \<and> importIssues p reference st st'"

lemma edgeOutcome_graphEdge:
  "edgeOutcome st (graphEdge d reference depth edgeState t td code) \<longleftrightarrow>
     (if edgeState = EdgeLoaded \<or> edgeState = EdgeAlreadyLoaded then
        code = None \<and> (\<exists>t' td'. ms_completed st t' = Some td' \<and> td = Some td' \<and> t = Some t')
      else if edgeState = EdgeCycle then code = Some ImportCycle \<and> (\<exists>t' td'. ms_active st t' = Some td' \<and> td = Some td')
      else code \<noteq> None \<and> td = None)"
  by (simp add: edgeOutcome_def graphEdge_def)

lemma referenceStep_adds:
  assumes "referenceStep ctx p depth d i reference st = Inl st'"
  shows "importStep p d depth reference st st'"
proof -
  have refuse: "importStep p d depth reference st (refuseImport ctx p depth d reference code edgeState t td st)"
    if "\<forall>t'. t = Some t' \<longrightarrow> (\<exists>escaped. resolveTarget p (ref_rawSpecifier reference) = (Some t', escaped))"
      "edgeOutcome st (graphEdge d reference (depth + 1) edgeState t td (Some code))" for code edgeState t td
    using refuseImport_adds [where ctx = ctx and p = p and depth = depth and d = d and reference = reference and code = code and
        edgeState = edgeState and t = t and td = td and st = st] that
    by (auto simp: importStep_def)
  have push: "importStep p d depth reference st (pushEdge (graphEdge d reference (depth + 1) edgeState t td code) st)"
    if "edgeOutcome st (graphEdge d reference (depth + 1) edgeState t td code)" for edgeState t td code
    using that
    by (auto simp: importStep_def addsEdge_def pushEdge_def sameCore_def importIssues_def edgeFor_def graphEdge_def)
  show ?thesis
    using assms unfolding referenceStep_def targetStep_def Let_def
    by (auto split: if_splits option.splits prod.splits intro!: refuse push [simplified] simp: edgeOutcome_graphEdge)
qed

text \<open>The same for the edge of an import that was visited.\<close>

definition visitOutcome :: "jstring \<Rightarrow> VisitResult \<Rightarrow> ImportGraphEdge \<Rightarrow> bool" where
  "visitOutcome t r edge \<longleftrightarrow>
     (case snd r of
        None \<Rightarrow> ge_state edge = EdgeLoaded \<and> ge_issueCode edge = None \<and> ge_targetDocumentId edge = fst r \<and>
          ge_targetPath edge = Some t
      | Some code \<Rightarrow>
          if code = ImportCycle then ge_state edge = EdgeCycle \<and> ge_issueCode edge = Some ImportCycle \<and> ge_targetDocumentId edge = fst r
          else \<not> followed edge \<and> ge_state edge \<noteq> EdgeCycle \<and> ge_issueCode edge \<noteq> None \<and> ge_targetDocumentId edge = None)"

lemma insertEdge_adds: "addsEdge edge st (insertEdge position edge st)"
proof -
  have "mset (take position xs @ edge # drop position xs) = add_mset edge (mset xs)" for xs :: "ImportGraphEdge list"
  proof -
    have "mset xs = mset (take position xs) + mset (drop position xs)"
      by (metis append_take_drop_id mset_append)
    then show ?thesis
      by simp
  qed
  then show ?thesis
    by (simp add: addsEdge_def insertEdge_def sameCore_def)
qed

lemma visitedEdge_adds:
  fixes d reference depth t position r st
  defines "st' \<equiv> visitedEdge d reference depth t position r st"
  shows "(\<exists>edge. addsEdge edge st st' \<and> edgeFor d reference depth edge \<and> visitOutcome t r edge) \<and> ms_issues st' = ms_issues st"
proof -
  have adds: "(\<exists>edge. addsEdge edge st st' \<and> edgeFor d reference depth edge \<and> visitOutcome t r edge) \<and> ms_issues st' = ms_issues st"
    if "st' = insertEdge position (graphEdge d reference (depth + 1) edgeState target td code) st"
      "visitOutcome t r (graphEdge d reference (depth + 1) edgeState target td code)" for edgeState target td code
    using that(2) insertEdge_effect(2) [OF that(1)] insertEdge_adds [of _ st position] unfolding that(1)
    by (intro conjI exI [of _ "graphEdge d reference (depth + 1) edgeState target td code"]) (simp_all add: edgeFor_def graphEdge_def)
  show ?thesis
  proof (cases "snd r")
    case None
    show ?thesis
      by (rule adds [of EdgeLoaded "Some t" "fst r" None])
        (simp_all add: st'_def visitedEdge_def visitOutcome_def None, simp_all add: graphEdge_def)
  next
    case (Some code)
    show ?thesis
    proof (cases "code = ImportCycle")
      case True
      show ?thesis
        by (rule adds [of EdgeCycle "Some t" "fst r" "Some code"])
          (simp_all add: st'_def visitedEdge_def visitOutcome_def Some True, simp_all add: graphEdge_def)
    next
      case False
      then show ?thesis
        by (intro adds [of "failureState code" "Some t" None "Some code"])
          (simp_all add: st'_def visitedEdge_def visitOutcome_def Some, simp_all add: graphEdge_def failureState_def)
    qed
  qed
qed

subsection \<open>Coherent parts\<close>

text \<open>What the parts of a graph say of its nodes.\<close>

definition targetOk :: "ImportGraphNode list \<Rightarrow> ImportGraphEdge \<Rightarrow> bool" where
  "targetOk nodes edge \<longleftrightarrow>
     (if followed edge then
        ge_issueCode edge = None \<and>
        (\<exists>target\<in>set nodes. ge_targetDocumentId edge = Some (gn_documentId target) \<and> ge_targetPath edge = Some (gn_path target))
      else if ge_state edge = EdgeCycle then
        ge_issueCode edge = Some ImportCycle \<and> (\<exists>target\<in>set nodes. ge_targetDocumentId edge = Some (gn_documentId target))
      else ge_issueCode edge \<noteq> None \<and> ge_targetDocumentId edge = None)"

definition goodEdge :: "ImportGraphNode list \<Rightarrow> ImportGraphEdge \<Rightarrow> bool" where
  "goodEdge nodes edge \<longleftrightarrow>
     (\<exists>node\<in>set nodes. ge_fromDocumentId edge = gn_documentId node \<and> ge_import edge \<in> set (gn_imports node)) \<and>
     targetOk nodes edge"

definition goodIssue :: "ImportGraphNode list \<Rightarrow> ImportGraphIssue \<Rightarrow> bool" where
  "goodIssue nodes issue \<longleftrightarrow>
     insidePath (gi_path issue) \<and> (\<forall>t. gi_targetPath issue = Some t \<longrightarrow> insidePath t) \<and>
     (gi_importId issue = None \<and> gi_range issue = None \<or>
      (\<exists>node\<in>set nodes. \<exists>reference\<in>set (gn_imports node).
         gi_importId issue = Some (ref_id reference) \<and> gi_range issue = Some (ref_specifierRange reference)))"

definition goodFrame :: "ImportGraphNode list \<Rightarrow> WalkFrame \<Rightarrow> bool" where
  "goodFrame nodes frame \<longleftrightarrow>
     (case frame of (p, d, k, refs, i) \<Rightarrow>
        \<exists>node\<in>set nodes. gn_path node = p \<and> gn_documentId node = d \<and> gn_imports node = refs)"

definition partsOk :: "LoaderContext \<Rightarrow> WalkFrame list \<Rightarrow> MutableState \<Rightarrow> bool" where
  "partsOk ctx S st \<longleftrightarrow>
     (\<forall>node\<in>set (ms_nodes st). \<exists>bytes. parsedFrom ctx bytes node) \<and> (\<forall>frame\<in>set S. goodFrame (ms_nodes st) frame) \<and>
     (\<forall>edge\<in>set (ms_edges st). goodEdge (ms_nodes st) edge) \<and> (\<forall>issue\<in>set (ms_issues st). goodIssue (ms_nodes st) issue) \<and>
     (\<forall>k a. ms_activeIdentities st k = Some a \<longrightarrow> a \<in> gn_documentId ` set (ms_nodes st))"

lemma goodParts_mono:
  assumes "set nodes \<subseteq> set nodes'"
  shows "goodEdge nodes edge \<Longrightarrow> goodEdge nodes' edge" "goodIssue nodes issue \<Longrightarrow> goodIssue nodes' issue"
    "goodFrame nodes frame \<Longrightarrow> goodFrame nodes' frame"
proof -
  have targets: "targetOk nodes' edge" if "targetOk nodes edge"
    using that assms unfolding targetOk_def by (auto split: if_splits)
  then show "goodEdge nodes edge \<Longrightarrow> goodEdge nodes' edge"
    using assms unfolding goodEdge_def by blast
  show "goodIssue nodes issue \<Longrightarrow> goodIssue nodes' issue"
    using assms unfolding goodIssue_def by blast
  show "goodFrame nodes frame \<Longrightarrow> goodFrame nodes' frame"
    using assms unfolding goodFrame_def by auto
qed

lemma partsOk_step:
  assumes "partsOk ctx S st" "ms_nodes st' = ms_nodes st @ new" "\<forall>node\<in>set new. \<exists>bytes. parsedFrom ctx bytes node"
    and "\<forall>edge\<in>set (ms_edges st'). edge \<in> set (ms_edges st) \<or> goodEdge (ms_nodes st') edge"
    and "\<forall>issue\<in>set (ms_issues st'). issue \<in> set (ms_issues st) \<or> goodIssue (ms_nodes st') issue"
    and "\<forall>frame\<in>set S'. frame \<in> set S \<or> goodFrame (ms_nodes st') frame"
    and "\<forall>k a. ms_activeIdentities st' k = Some a \<longrightarrow>
      ms_activeIdentities st k = Some a \<or> a \<in> gn_documentId ` set (ms_nodes st')"
  shows "partsOk ctx S' st'"
proof -
  have nodes: "set (ms_nodes st) \<subseteq> set (ms_nodes st')"
    by (simp add: assms(2))
  note mono = goodParts_mono [OF nodes]
  have "\<forall>node\<in>set (ms_nodes st'). \<exists>bytes. parsedFrom ctx bytes node"
    using assms(1-3) unfolding partsOk_def by auto
  moreover have "\<forall>frame\<in>set S'. goodFrame (ms_nodes st') frame"
    using assms(1,6) mono(3) unfolding partsOk_def by blast
  moreover have "\<forall>edge\<in>set (ms_edges st'). goodEdge (ms_nodes st') edge"
    using assms(1,4) mono(1) unfolding partsOk_def by blast
  moreover have "\<forall>issue\<in>set (ms_issues st'). goodIssue (ms_nodes st') issue"
    using assms(1,5) mono(2) unfolding partsOk_def by blast
  moreover have "a \<in> gn_documentId ` set (ms_nodes st')" if "ms_activeIdentities st' k = Some a" for k a
    using assms(1,7) that image_mono [OF nodes, of gn_documentId] unfolding partsOk_def by blast
  ultimately show ?thesis
    unfolding partsOk_def by blast
qed

text \<open>Targets of visits that ended early or were refused are nodes.\<close>

lemma shape_targets:
  assumes "shapeInv S st"
  shows "ms_active st t = Some d \<Longrightarrow> \<exists>target\<in>set (ms_nodes st). gn_path target = t \<and> gn_documentId target = d"
    "ms_completed st t = Some d \<Longrightarrow> \<exists>target\<in>set (ms_nodes st). gn_path target = t \<and> gn_documentId target = d"
proof -
  have ids: "nodeIds (ms_nodes st) = ms_completed st ++ ms_active st \<and> (\<forall>p. ms_active st p = None \<or> ms_completed st p = None)"
    using assms unfolding shapeInv_def by (elim conjE, intro conjI)
  show "\<exists>target\<in>set (ms_nodes st). gn_path target = t \<and> gn_documentId target = d" if "ms_active st t = Some d"
    using that nodeIds_Some [of "ms_nodes st" t d] by (simp add: ids)
  show "\<exists>target\<in>set (ms_nodes st). gn_path target = t \<and> gn_documentId target = d" if "ms_completed st t = Some d"
    using that spec [OF conjunct2 [OF ids], of t] nodeIds_Some [of "ms_nodes st" t d] by (auto simp: ids map_add_def)
qed

lemma edgeOutcome_target: "shapeInv S st \<Longrightarrow> edgeOutcome st edge \<Longrightarrow> targetOk (ms_nodes st) edge"
proof -
  assume shape: "shapeInv S st" and outcome: "edgeOutcome st edge"
  show ?thesis
  proof (cases "followed edge")
    case True
    then obtain t td where td: "ge_issueCode edge = None" "ms_completed st t = Some td" "ge_targetDocumentId edge = Some td"
        "ge_targetPath edge = Some t"
      using outcome by (auto simp: edgeOutcome_def)
    then show ?thesis
      using True shape_targets(2) [OF shape td(2)] unfolding targetOk_def by metis
  next
    case False
    show ?thesis
    proof (cases "ge_state edge = EdgeCycle")
      case True
      then obtain t td where td: "ge_issueCode edge = Some ImportCycle" "ms_active st t = Some td" "ge_targetDocumentId edge = Some td"
        using outcome by (auto simp: edgeOutcome_def)
      then show ?thesis
        using True shape_targets(1) [OF shape td(2)] by (simp add: targetOk_def) metis
    next
      case other: False
      then show ?thesis
        using False outcome by (simp add: edgeOutcome_def targetOk_def)
    qed
  qed
qed

subsection \<open>No import twice\<close>

definition keyOf :: "ImportGraphEdge \<Rightarrow> jstring \<times> jstring" where
  "keyOf edge = (ge_fromDocumentId edge, ref_id (ge_import edge))"

definition hexDigests :: "(nat list \<Rightarrow> jstring) \<Rightarrow> bool" where
  "hexDigests sha256 \<longleftrightarrow> (\<forall>bytes. isSha256 (sha256 bytes))"

text \<open>Edges of a document on the stack are for imports that come before the one it is following.\<close>

definition frameKeys :: "MutableState \<Rightarrow> WalkFrame \<Rightarrow> bool" where
  "frameKeys st frame \<longleftrightarrow>
     (case frame of (p, d, k, refs, i) \<Rightarrow>
        \<forall>edge\<in>set (ms_edges st). ge_fromDocumentId edge = d \<longrightarrow> ref_id (ge_import edge) \<in> ref_id ` set (take i refs))"

definition keysOk :: "LoaderContext \<Rightarrow> WalkFrame list \<Rightarrow> MutableState \<Rightarrow> bool" where
  "keysOk ctx S st \<longleftrightarrow>
     (hexDigests (lc_sha256 ctx) \<and> distinct (map gn_documentId (ms_nodes st)) \<longrightarrow>
        distinct (map keyOf (ms_edges st)) \<and> (\<forall>frame\<in>set S. frameKeys st frame))"

lemma parsed_references:
  assumes "parsedFrom ctx bytes node" "hexDigests (lc_sha256 ctx)"
  shows "length (gn_imports node) \<le> 4096" "distinct (map ref_id (gn_imports node))"
    "\<forall>reference\<in>set (gn_imports node). acceptedReference (gn_documentId node) (gn_sourceId node) reference"
proof -
  have "length (gn_imports node) \<le> 4096 \<and> distinct (map ref_id (gn_imports node)) \<and>
      (\<forall>reference\<in>set (gn_imports node). acceptedReference (gn_documentId node) (gn_sourceId node) reference)"
  proof (cases "gn_imports node = []")
    case False
    then show ?thesis
      using assms lexed_references decodeUtf8_jstring unfolding parsedFrom_def hexDigests_def by metis
  qed simp
  then show "length (gn_imports node) \<le> 4096" "distinct (map ref_id (gn_imports node))"
    "\<forall>reference\<in>set (gn_imports node). acceptedReference (gn_documentId node) (gn_sourceId node) reference"
    by simp_all
qed

lemma keysOk_same:
  assumes "keysOk ctx S st" "ms_edges st' = ms_edges st" "ms_nodes st' = ms_nodes st @ new" "set S' \<subseteq> set S"
  shows "keysOk ctx S' st'"
proof -
  have "frameKeys st' = frameKeys st"
    by (intro ext) (simp add: frameKeys_def assms(2))
  then show ?thesis
    using assms by (auto simp: keysOk_def)
qed

lemma keysOk_open:
  assumes "keysOk ctx S st" "partsOk ctx S st" "ms_edges st' = ms_edges st" "ms_nodes st' = ms_nodes st @ [node]"
  shows "keysOk ctx ((p, gn_documentId node, k, refs, 0) # S) st'"
proof -
  have fresh: "ge_fromDocumentId edge \<noteq> gn_documentId node"
    if "distinct (map gn_documentId (ms_nodes st'))" "edge \<in> set (ms_edges st)" for edge
  proof -
    have "ge_fromDocumentId edge \<in> gn_documentId ` set (ms_nodes st)"
      using assms(2) that(2) by (auto simp: partsOk_def goodEdge_def)
    then show ?thesis
      using that(1) by (auto simp: assms(4))
  qed
  then have "frameKeys st' (p, gn_documentId node, k, refs, 0)" if "distinct (map gn_documentId (ms_nodes st'))"
    using that by (auto simp: frameKeys_def assms(3))
  then show ?thesis
    using keysOk_same [OF assms(1,3,4) order_refl] by (auto simp: keysOk_def)
qed

lemma same_node:
  assumes "distinct (map gn_documentId nodes)" "node \<in> set nodes" "other \<in> set nodes" "gn_documentId node = gn_documentId other"
  shows "node = other"
  using assms by (auto simp: distinct_map dest: inj_onD)

text \<open>An edge for the import that the innermost document is following.\<close>

lemma keysOk_edge:
  assumes "keysOk ctx ((p, d, k, refs, i) # S) st" "partsOk ctx ((p, d, k, refs, i) # S) st"
    and "shapeInv ((p, d, k, refs, i) # S) st" "addsEdge edge st st'" "edgeFor d (refs ! i) depth edge" "i < length refs"
  shows "keysOk ctx ((p, d, k, refs, Suc i) # S) st'"
proof (cases "hexDigests (lc_sha256 ctx) \<and> distinct (map gn_documentId (ms_nodes st))")
  case True
  have nodes: "ms_nodes st' = ms_nodes st" and edges: "mset (ms_edges st') = add_mset edge (mset (ms_edges st))"
    using assms(4) by (simp_all add: addsEdge_def sameCore_def)
  then have set_edges: "set (ms_edges st') = insert edge (set (ms_edges st))"
    by (metis set_mset_mset set_mset_add_mset_insert)
  have key: "keyOf edge = (d, ref_id (refs ! i))" "ge_fromDocumentId edge = d" "ge_import edge = refs ! i"
    using assms(5) by (simp_all add: keyOf_def edgeFor_def)
  obtain node where node: "node \<in> set (ms_nodes st)" "gn_path node = p" "gn_documentId node = d" "gn_imports node = refs"
    using assms(2) by (auto simp: partsOk_def goodFrame_def)
  then obtain bytes where "parsedFrom ctx bytes node"
    using assms(2) by (auto simp: partsOk_def)
  then have refs: "distinct (map ref_id refs)"
    using parsed_references(2) True node(4) by blast
  have top: "frameKeys st (p, d, k, refs, i)" and below: "\<forall>frame\<in>set S. frameKeys st frame"
    and keys: "distinct (map keyOf (ms_edges st))"
    using assms(1) True by (simp_all add: keysOk_def)
  have "ref_id (refs ! i) \<notin> ref_id ` set (take i refs)"
  proof -
    have "distinct (map ref_id (take (Suc i) refs))"
      using refs by (simp add: take_map [symmetric])
    then show ?thesis
      using assms(6) by (simp add: take_Suc_conv_app_nth)
  qed
  then have fresh: "keyOf edge \<notin> keyOf ` set (ms_edges st)"
    using top by (auto simp: key keyOf_def frameKeys_def)
  have "mset (map keyOf (ms_edges st')) = mset (keyOf edge # map keyOf (ms_edges st))"
    using edges by simp
  then have "distinct (map keyOf (ms_edges st')) = distinct (keyOf edge # map keyOf (ms_edges st))"
    by (rule mset_eq_imp_distinct_iff)
  then have distinct: "distinct (map keyOf (ms_edges st'))"
    using keys fresh by simp
  have "frameKeys st' (p, d, k, refs, Suc i)"
    using top assms(6) by (auto simp: frameKeys_def set_edges key take_Suc_conv_app_nth)
  moreover have "frameKeys st' frame" if frame: "frame \<in> set S" for frame
  proof -
    obtain p' d' k' refs' i' where f: "frame = (p', d', k', refs', i')"
      by (cases frame)
    have "distinct (map fst ((p, d, k, refs, i) # S))"
      using assms(3) unfolding shapeInv_def by (elim conjE)
    then have "p' \<noteq> p"
      using frame unfolding f by force
    obtain other where "other \<in> set (ms_nodes st)" "gn_path other = p'" "gn_documentId other = d'"
    proof -
      have "goodFrame (ms_nodes st) frame"
        using assms(2) frame by (simp add: partsOk_def)
      then show thesis
        using that by (auto simp: goodFrame_def f)
    qed
    then have "d' \<noteq> d"
      using same_node [OF conjunct2 [OF True] node(1), of other] node(2,3) \<open>p' \<noteq> p\<close> by metis
    then show ?thesis
      using below frame f by (auto simp: frameKeys_def set_edges key)
  qed
  ultimately show ?thesis
    using distinct by (simp add: keysOk_def)
next
  case False
  then show ?thesis
    using assms(4) by (auto simp: keysOk_def addsEdge_def sameCore_def)
qed

subsection \<open>The invariant of the walk\<close>

lemma goodIssue_import:
  assumes "goodFrame nodes (p, d, k, refs, i)" "reference \<in> set refs" "insidePath p" "\<forall>t'. t = Some t' \<longrightarrow> insidePath t'"
  shows "goodIssue nodes (issueOf code p (Some reference) t)"
  using assms by (auto simp: goodIssue_def issueOf_def goodFrame_def)

lemma goodEdge_import:
  assumes "goodFrame nodes (p, d, k, refs, i)" "edgeFor d (refs ! i) depth edge" "i < length refs" "targetOk nodes edge"
  shows "goodEdge nodes edge"
proof -
  obtain node where "node \<in> set nodes" "gn_documentId node = d" "gn_imports node = refs"
    using assms(1) by (auto simp: goodFrame_def)
  moreover have "refs ! i \<in> set refs"
    using assms(3) by simp
  ultimately show ?thesis
    using assms(2,4) unfolding goodEdge_def edgeFor_def by metis
qed

definition dagInv :: "LoaderContext \<Rightarrow> WalkFrame list \<Rightarrow> MutableState \<Rightarrow> bool" where
  "dagInv ctx S st \<longleftrightarrow> shapeInv S st \<and> pathsInv S st \<and> partsOk ctx S st \<and> keysOk ctx S st"

definition dagReady :: "LoaderContext \<Rightarrow> WalkFrame list \<Rightarrow> jstring \<Rightarrow> MutableState \<Rightarrow> bool" where
  "dagReady ctx S p st \<longleftrightarrow>
     shapeReady S p st \<and> pathsReady S p st \<and> partsOk ctx S st \<and> keysOk ctx S st \<and>
     (case S of [] \<Rightarrow> True | (p, d, k, refs, i) # _ \<Rightarrow> i < length refs)"

definition dagAfter :: "LoaderContext \<Rightarrow> WalkFrame list \<Rightarrow> jstring \<Rightarrow> VisitResult \<Rightarrow> MutableState \<Rightarrow> bool" where
  "dagAfter ctx S p r st \<longleftrightarrow>
     shapeAfter S p r st \<and> pathsAfter S p r st \<and> partsOk ctx S st \<and> keysOk ctx S st \<and>
     (snd r = Some ImportCycle \<longrightarrow> (\<exists>target\<in>set (ms_nodes st). fst r = Some (gn_documentId target)))"

lemma parts_slot [simp]:
  "partsOk ctx S (takeSlot st) = partsOk ctx S st" "keysOk ctx S (takeSlot st) = keysOk ctx S st"
  "ms_nodes (takeSlot st) = ms_nodes st" "ms_edges (takeSlot st) = ms_edges st" "ms_issues (takeSlot st) = ms_issues st"
  "pathsInv S (takeSlot st) = pathsInv S st"
  by (simp_all add: partsOk_def keysOk_def frameKeys_def takeSlot_def pathsInv_def)

text \<open>The issue that an early end of a visit reports for its parent.\<close>

lemma parentIssue_good:
  assumes "dagReady ctx S p st" "set (ms_nodes st) \<subseteq> set nodes"
  shows "goodIssue nodes (parentIssueOf code p (parentOf S))"
proof (cases S)
  case Nil
  then show ?thesis
    using assms(1) by (simp add: parentIssueOf_def goodIssue_def issueOf_def dagReady_def pathsReady_def)
next
  case (Cons frame S')
  obtain q d k refs i where frame: "frame = (q, d, k, refs, i)"
    by (cases frame)
  have top: "goodFrame (ms_nodes st) (q, d, k, refs, i)" "i < length refs" "insidePath q" "insidePath p"
    using assms(1) by (simp_all add: Cons frame dagReady_def partsOk_def pathsReady_def pathsInv_def)
  then show ?thesis
    using goodParts_mono(3) [OF assms(2) top(1)]
    by (simp add: Cons frame parentIssueOf_def) (rule goodIssue_import [of nodes q d k refs i], simp_all)
qed

lemma dag_open_end:
  assumes "dagReady ctx S p st" "openDocument ctx p (length S) (parentOf S) st = (st', Inl r)"
  shows "dagAfter ctx S p r st'"
proof -
  note ready = assms(1) [unfolded dagReady_def]
  have after: "shapeAfter S p r st'" "pathsAfter S p r st'"
    using shape.open_end [OF _ assms(2) refl] paths.open_end [OF _ assms(2) refl] ready by blast+
  have issues: "issue \<in> set (ms_issues st) \<or> goodIssue (ms_nodes st') issue"
    if "issue \<in> set (ms_issues st')" "set (ms_nodes st) \<subseteq> set (ms_nodes st')" for issue
    using openDocument_issues [OF assms(2) that(1)] parentIssue_good [OF assms(1) that(2)] by auto
  from assms(2) show ?thesis
  proof (cases rule: openDocument_cases)
    case (failed r' code)
    note same = failed(3)[unfolded sameCore_def]
    have "partsOk ctx S st'"
      by (rule partsOk_step [where st = st and new = "[]"]) (use ready same failed(4) issues in auto)
    moreover have "keysOk ctx S st'"
      by (rule keysOk_same [where st = st and new = "[]"]) (use ready same failed(4) in auto)
    moreover have "\<exists>target\<in>set (ms_nodes st'). fst r = Some (gn_documentId target)" if "snd r = Some ImportCycle"
      using that failed(1,2,6) ready same by (fastforce simp: partsOk_def)
    ultimately show ?thesis
      using after by (simp add: dagAfter_def)
  next
    case (unparsed node)
    note same = unparsed(4)[unfolded sameCore_def, simplified]
    have "partsOk ctx S st'"
      by (rule partsOk_step [where st = st and new = "[node]"]) (use ready same unparsed(2,5) issues in \<open>auto simp: admitted_def\<close>)
    moreover have "keysOk ctx S st'"
      by (rule keysOk_same [where st = st and new = "[node]"]) (use ready same unparsed(5) in auto)
    ultimately show ?thesis
      using after unparsed(1) by (simp add: dagAfter_def)
  qed simp
qed

lemma dag_open_go:
  assumes "dagReady ctx S p st" "openDocument ctx p (length S) (parentOf S) st = (st', Inr (d, k, refs))"
  shows "dagInv ctx ((p, d, k, refs, 0) # S) st'"
proof -
  note ready = assms(1) [unfolded dagReady_def]
  have inv: "shapeInv ((p, d, k, refs, 0) # S) st'" "pathsInv ((p, d, k, refs, 0) # S) st'"
    using shape.open_go [OF _ assms(2) refl] paths.open_go [OF _ assms(2) refl] ready by blast+
  from assms(2) show ?thesis
  proof (cases rule: openDocument_cases)
    case (loaded node key)
    note same = loaded(5)[unfolded sameCore_def, simplified]
    have node: "gn_path node = p" "d = gn_documentId node" "refs = gn_imports node"
      using loaded(1,2) by (simp_all add: admitted_def)
    have top: "goodFrame (ms_nodes st') (p, d, k, refs, 0)"
      using node same by (auto simp: goodFrame_def)
    have inside: "insidePath p"
      using ready by (simp add: pathsReady_def)
    have issues: "issue \<in> set (ms_issues st) \<or> goodIssue (ms_nodes st') issue" if "issue \<in> set (ms_issues st')" for issue
      using openDocument_issues [OF assms(2) that] parentIssue_good [OF assms(1), of "ms_nodes st'"]
        goodIssue_import [OF top _ inside, where t = None] same by auto
    have "partsOk ctx ((p, d, k, refs, 0) # S) st'"
      by (rule partsOk_step [where st = st and new = "[node]" and S = S])
        (use ready same loaded(2,6) issues top in \<open>auto simp: admitted_def split: if_splits\<close>)
    moreover have "keysOk ctx ((p, d, k, refs, 0) # S) st'"
      unfolding node(2) by (rule keysOk_open [where st = st]) (use ready same loaded(6) in auto)
    ultimately show ?thesis
      using inv by (simp add: dagInv_def)
  qed simp_all
qed

lemma dag_step:
  assumes "dagInv ctx ((p, d, k, refs, i) # S) st" "i < length refs"
    and edge: "addsEdge edge st st'" "edgeFor d (refs ! i) depth edge" "targetOk (ms_nodes st) edge"
    and issues: "importIssues p (refs ! i) st st'"
  shows "partsOk ctx ((p, d, k, refs, Suc i) # S) st' \<and> keysOk ctx ((p, d, k, refs, Suc i) # S) st'"
proof -
  note inv = assms(1) [unfolded dagInv_def]
  have top: "goodFrame (ms_nodes st) (p, d, k, refs, i)" and inside: "insidePath p"
    using inv by (simp_all add: partsOk_def pathsInv_def)
  have new: "goodFrame (ms_nodes st) (p, d, k, refs, Suc i)"
    using top by (simp add: goodFrame_def)
  have same: "ms_nodes st' = ms_nodes st" "ms_activeIdentities st' = ms_activeIdentities st"
    using edge(1) by (simp_all add: addsEdge_def sameCore_def)
  have set_edges: "set (ms_edges st') = insert edge (set (ms_edges st))"
    using edge(1) unfolding addsEdge_def by (metis set_mset_mset set_mset_add_mset_insert)
  have "clean_path p"
    using inside by (simp add: insidePath_def)
  have good: "issue \<in> set (ms_issues st) \<or> goodIssue (ms_nodes st) issue" if "issue \<in> set (ms_issues st')" for issue
    using issues that goodIssue_import [OF top _ inside] resolveTarget_inside [OF \<open>clean_path p\<close>] assms(2)
    unfolding importIssues_def by (metis nth_mem)
  have "partsOk ctx ((p, d, k, refs, Suc i) # S) st'"
    by (rule partsOk_step [where st = st and new = "[]" and S = "(p, d, k, refs, i) # S"])
      (use inv same set_edges good new goodEdge_import [OF top edge(2) assms(2) edge(3)] in \<open>auto simp: same\<close>)
  moreover have "keysOk ctx ((p, d, k, refs, Suc i) # S) st'"
    using inv by (intro keysOk_edge [OF _ _ _ edge(1,2) assms(2)]) simp_all
  ultimately show ?thesis
    by simp
qed

interpretation dag: graph_walk ctx "dagInv ctx" "dagReady ctx" "dagAfter ctx" for ctx
proof
  fix S p st parent st' r
  assume "dagReady ctx S p st" "openDocument ctx p (length S) parent st = (st', Inl r)" "parent = parentOf S"
  then show "dagAfter ctx S p r st'"
    using dag_open_end by simp
next
  fix S p st parent st' d k refs
  assume "dagReady ctx S p st" "openDocument ctx p (length S) parent st = (st', Inr (d, k, refs))" "parent = parentOf S"
  then show "dagInv ctx ((p, d, k, refs, 0) # S) st'"
    using dag_open_go by simp
next
  fix p d k refs i S st
  assume now: "dagInv ctx ((p, d, k, refs, i) # S) st" "\<not> ms_halted st" "lc_limits ctx maxEdges \<le> ms_edgeSlots st"
    "i < length refs"
  let ?st = "haltAt ctx p (refs ! i) st"
  note inv = now(1) [unfolded dagInv_def]
  have top: "goodFrame (ms_nodes st) (p, d, k, refs, i)" and inside: "insidePath p"
    using inv by (simp_all add: partsOk_def pathsInv_def)
  have same: "ms_nodes ?st = ms_nodes st" "ms_edges ?st = ms_edges st" "ms_activeIdentities ?st = ms_activeIdentities st"
    using addGraphIssue_effect(2,3) [where ctx = ctx and code = EdgeLimit and p = p and reference = "Some (refs ! i)"
        and t = None and st = st]
    by (simp_all add: haltAt_def sameCore_def)
  have issues: "issue \<in> set (ms_issues st) \<or> goodIssue (ms_nodes st) issue" if "issue \<in> set (ms_issues ?st)" for issue
    using that goodIssue_import [OF top _ inside, where t = None] now(4)
    by (auto simp: haltAt_def dest!: addGraphIssue_issues)
  have "partsOk ctx ((p, d, k, refs, i) # S) ?st"
    by (rule partsOk_step [where st = st and new = "[]"]) (use inv same issues in auto)
  moreover have "keysOk ctx ((p, d, k, refs, i) # S) ?st"
    by (rule keysOk_same [where st = st and new = "[]"]) (use inv same in auto)
  moreover have "shapeInv ((p, d, k, refs, i) # S) ?st" "pathsInv ((p, d, k, refs, i) # S) ?st"
    using shape.halting [OF _ now(2-4)] paths.halting [OF _ now(2-4)] inv by blast+
  ultimately show "dagInv ctx ((p, d, k, refs, i) # S) ?st"
    by (simp add: dagInv_def)
next
  fix p d k refs i S st st'
  assume now: "dagInv ctx ((p, d, k, refs, i) # S) st" "\<not> ms_halted st" "ms_edgeSlots st < lc_limits ctx maxEdges"
    "i < length refs"
    and step: "referenceStep ctx p (length S) d i (refs ! i) (takeSlot st) = Inl st'"
  have slot: "dagInv ctx ((p, d, k, refs, i) # S) (takeSlot st)"
    using now(1) by (simp add: dagInv_def)
  obtain edge where "addsEdge edge (takeSlot st) st'" "edgeFor d (refs ! i) (length S) edge"
      "targetOk (ms_nodes (takeSlot st)) edge" "importIssues p (refs ! i) (takeSlot st) st'"
    using referenceStep_adds [OF step] edgeOutcome_target [of "(p, d, k, refs, i) # S" "takeSlot st"] slot
    by (auto simp: importStep_def dagInv_def)
  then show "dagInv ctx ((p, d, k, refs, Suc i) # S) st'"
    using dag_step [OF slot now(4)] shape.step_refused [OF _ now(2-4) step] paths.step_refused [OF _ now(2-4) step] now(1)
    by (simp add: dagInv_def)
next
  fix p d k refs i S st t
  assume now: "dagInv ctx ((p, d, k, refs, i) # S) st" "\<not> ms_halted st" "ms_edgeSlots st < lc_limits ctx maxEdges"
    "i < length refs" "referenceStep ctx p (length S) d i (refs ! i) (takeSlot st) = Inr t"
  then show "dagReady ctx ((p, d, k, refs, i) # S) t (takeSlot st)"
    using shape.step_visit [OF _ now(2-5)] paths.step_visit [OF _ now(2-5)] by (simp add: dagInv_def dagReady_def)
next
  fix p d k refs i S t r st st' position
  assume after: "dagAfter ctx ((p, d, k, refs, i) # S) t r st" and i: "i < length refs"
    and step: "st' = visitedEdge d (refs ! i) (length S) t position r st"
  have inv: "dagInv ctx ((p, d, k, refs, i) # S) st"
    using after by (simp add: dagAfter_def dagInv_def shapeAfter_def pathsAfter_def)
  obtain edge where edge: "addsEdge edge st st'" "edgeFor d (refs ! i) (length S) edge" "visitOutcome t r edge"
      and same: "ms_issues st' = ms_issues st"
    using visitedEdge_adds [where d = d and reference = "refs ! i" and depth = "length S" and t = t and position = position and
        r = r and st = st] step by auto
  have "targetOk (ms_nodes st) edge"
    using edge(3) after shape_targets(2) [of "(p, d, k, refs, i) # S" st t]
    by (fastforce simp: visitOutcome_def targetOk_def dagAfter_def shapeAfter_def split: option.splits if_splits)
  moreover have "importIssues p (refs ! i) st st'"
    by (simp add: importIssues_def same)
  moreover have "shapeInv ((p, d, k, refs, Suc i) # S) st'" "pathsInv ((p, d, k, refs, Suc i) # S) st'"
    using shape.visited [OF _ i step] paths.visited [OF _ i step] after unfolding dagAfter_def by blast+
  ultimately show "dagInv ctx ((p, d, k, refs, Suc i) # S) st'"
    using dag_step [OF inv i edge(1,2)] by (simp add: dagInv_def)
next
  fix p d k refs i S st
  assume now: "dagInv ctx ((p, d, k, refs, i) # S) st" "i = length refs \<or> ms_halted st"
  let ?st = "closeDocument p k d st"
  note inv = now(1) [unfolded dagInv_def]
  have "partsOk ctx S ?st"
    by (rule partsOk_step [where st = st and new = "[]" and S = "(p, d, k, refs, i) # S"]) (use inv in \<open>auto simp: closeDocument_def\<close>)
  moreover have "keysOk ctx S ?st"
    by (rule keysOk_same [where st = st and new = "[]" and S = "(p, d, k, refs, i) # S"]) (use inv in \<open>auto simp: closeDocument_def\<close>)
  moreover have "shapeAfter S p (Some d, None) ?st" "pathsAfter S p (Some d, None) ?st"
    using shape.closing [OF _ now(2)] paths.closing [OF _ now(2)] inv by blast+
  ultimately show "dagAfter ctx S p (Some d, None) ?st"
    by (simp add: dagAfter_def)
qed

text \<open>The entry document is loaded first.\<close>

definition entryInv :: "jstring \<Rightarrow> WalkFrame list \<Rightarrow> MutableState \<Rightarrow> bool" where
  "entryInv entry S st \<longleftrightarrow> entry \<in> gn_path ` set (ms_nodes st)"

definition entryReady :: "jstring \<Rightarrow> WalkFrame list \<Rightarrow> jstring \<Rightarrow> MutableState \<Rightarrow> bool" where
  "entryReady entry S p st \<longleftrightarrow> S = [] \<and> p = entry \<and> ms_nodes st = [] \<or> entryInv entry S st"

definition entryAfter :: "jstring \<Rightarrow> WalkFrame list \<Rightarrow> jstring \<Rightarrow> VisitResult \<Rightarrow> MutableState \<Rightarrow> bool" where
  "entryAfter entry S p r st \<longleftrightarrow> S = [] \<and> ms_nodes st = [] \<or> entryInv entry S st"

lemmas entry_defs = entryInv_def entryReady_def entryAfter_def

interpretation entry: graph_walk ctx "entryInv entry" "entryReady entry" "entryAfter entry" for ctx entry
proof
  fix S p st parent st' r
  assume "entryReady entry S p st" and op: "openDocument ctx p (length S) parent st = (st', Inl r)"
  then show "entryAfter entry S p r st'"
    by (cases rule: openDocument_cases [OF op]) (auto simp: entry_defs sameCore_def admitted_def)
next
  fix S p st parent st' d k refs
  assume "entryReady entry S p st" and op: "openDocument ctx p (length S) parent st = (st', Inr (d, k, refs))"
  then show "entryInv entry ((p, d, k, refs, 0) # S) st'"
    by (cases rule: openDocument_cases [OF op]) (auto simp: entry_defs sameCore_def admitted_def)
next
  fix p d k refs i S st
  assume "entryInv entry ((p, d, k, refs, i) # S) st"
  then show "entryInv entry ((p, d, k, refs, i) # S) (haltAt ctx p (refs ! i) st)"
    by (simp add: entryInv_def sameCore_haltAt)
next
  fix p d k refs i S st st'
  assume "entryInv entry ((p, d, k, refs, i) # S) st"
    and step: "referenceStep ctx p (length S) d i (refs ! i) (takeSlot st) = Inl st'"
  then show "entryInv entry ((p, d, k, refs, Suc i) # S) st'"
    by (cases rule: referenceStep_cases [OF step]) (auto simp: entryInv_def sameCore_def)
next
  fix p d k refs i S st t
  assume "entryInv entry ((p, d, k, refs, i) # S) st"
  then show "entryReady entry ((p, d, k, refs, i) # S) t (takeSlot st)"
    by (simp add: entry_defs)
next
  fix p d k refs i S t r st st' position
  assume "entryAfter entry ((p, d, k, refs, i) # S) t r st"
    and edge: "st' = visitedEdge d (refs ! i) (length S) t position r st"
  then show "entryInv entry ((p, d, k, refs, Suc i) # S) st'"
    by (cases rule: visitedEdge_effect [OF edge]) (simp add: entry_defs sameCore_def)
next
  fix p d k refs i S st
  assume "entryInv entry ((p, d, k, refs, i) # S) st"
  then show "entryAfter entry S p (Some d, None) (closeDocument p k d st)"
    by (simp add: entry_defs closeDocument_def)
qed

subsection \<open>Loaded graphs\<close>

lemma parsed_node:
  assumes "parsedFrom ctx bytes node" "hexDigests (lc_sha256 ctx)"
  obtains identity where "gn_documentId node = js ''document:'' @ identity" "gn_sourceId node = js ''source:'' @ identity"
    "isSha256 identity" "isSha256 (gn_sha256 node)"
proof -
  let ?identity = "lc_sha256 ctx (utf8 (gn_path node) @ 0 # utf8 (dialectText (lc_syntax ctx)) @ 0 # gn_sha256 node)"
  have "lc_sha256 ctx bytes = gn_sha256 node"
    using assms(1) by (auto simp: parsedFrom_def stableIds_def Let_def)
  then have "isSha256 (gn_sha256 node)"
    using assms(2) unfolding hexDigests_def by metis
  then show thesis
    by (intro that [of ?identity]) (use assms in \<open>auto simp: parsedFrom_def stableIds_def hexDigests_def Let_def\<close>)
qed

text \<open>What the walk guarantees of its result.\<close>

definition coherentGraph :: "ImportGraphResult \<Rightarrow> bool" where
  "coherentGraph graph \<longleftrightarrow>
     (\<forall>node\<in>set (gr_nodes graph). acceptedNode node \<and>
        (\<exists>identity. gn_documentId node = js ''document:'' @ identity \<and> gn_sourceId node = js ''source:'' @ identity) \<and>
        (\<forall>reference\<in>set (gn_imports node). acceptedReference (gn_documentId node) (gn_sourceId node) reference)) \<and>
     (\<forall>edge\<in>set (gr_edges graph). acceptedEdge edge \<and> goodEdge (gr_nodes graph) edge) \<and>
     (\<forall>issue\<in>set (gr_issues graph). acceptedIssue issue) \<and>
     distinct (map gn_path (gr_nodes graph)) \<and> (gr_nodes graph = [] \<or> gr_entryPath graph \<in> gn_path ` set (gr_nodes graph)) \<and>
     (distinct (map gn_documentId (gr_nodes graph)) \<longrightarrow> distinct (map keyOf (gr_edges graph)))"

text \<open>The sizes and counts that it reports.\<close>

definition coherentCounts :: "ImportGraphResult \<Rightarrow> bool" where
  "coherentCounts graph \<longleftrightarrow>
     insidePath (gr_entryPath graph) \<and> length (gr_nodes graph) \<le> maxDocuments \<and>
     length (gr_edges graph) \<le> maxOccurrences - 1 \<and> length (gr_issues graph) \<le> maxGraphIssues \<and>
     gr_complete graph = (gr_issues graph = []) \<and> gr_usedEdges graph = length (gr_edges graph) \<and>
     gr_usedFiles graph = length (gr_nodes graph) \<and> gr_usedIssues graph = length (gr_issues graph) \<and>
     boundedInteger 16777216 (gr_totalBytes graph) \<and> gr_totalBytes graph = sum_list (map gn_byteLength (gr_nodes graph))"

lemma loaded_graph_counts:
  assumes "loadImportGraph ctx entryPath limitsValue = Inr graph"
  shows "coherentCounts graph"
  using assms(1)
proof (cases rule: loadImportGraph_Inr)
  case (1 limits)
  let ?ctx = "ctx\<lparr>lc_limits := limits\<rparr>"
  have hard: "limits n \<le> DEFAULT_IMPORT_GRAPH_LIMITS n" for n
    using validateLimits_range(2) [OF 1(1), of n] by (simp add: HARD_IMPORT_GRAPH_LIMITS_def)
  have "0 < lc_limits ?ctx maxFiles"
    using validateLimits_range(1) [OF 1(1), of maxFiles] by simp
  then have "boundsAfter ?ctx [] entryPath (snd (visit ?ctx entryPath 0 None initialState))
      (fst (visit ?ctx entryPath 0 None initialState))"
    by (intro bounds.walk_entry bounds_initial)
  then show ?thesis
    using 1(2) hard [of maxFiles] hard [of maxEdges] hard [of maxIssues] hard [of maxTotalBytes]
    by (simp add: 1(3) graphResult_def boundsAfter_def withinLimits_def coherentCounts_def maxDocuments_def maxOccurrences_def
        maxGraphIssues_def boundedInteger_def MAX_SAFE_INTEGER_def)
qed

lemma coherent_normalizes:
  assumes "coherentGraph graph" "coherentCounts graph"
  shows "normalizeGraph graph = Inr g \<longleftrightarrow>
    sum_list (map (\<lambda>node. length (gn_imports node)) (gr_nodes graph)) \<le> maxReferences \<and>
    g = \<lparr>ng_edges = map edgeView (gr_edges graph), ng_entryPath = gr_entryPath graph, ng_issues = gr_issues graph,
         ng_nodes = map nodeView (gr_nodes graph), ng_complete = gr_complete graph\<rparr>"
  using assms unfolding normalizeGraph_Inr coherentGraph_def coherentCounts_def insidePath_iff by auto

lemma loaded_graph_coherent:
  assumes "loadImportGraph ctx entryPath limitsValue = Inr graph" "hexDigests (lc_sha256 ctx)"
  shows "coherentGraph graph"
  using assms(1)
proof (cases rule: loadImportGraph_Inr)
  case (1 limits)
  let ?ctx = "ctx\<lparr>lc_limits := limits\<rparr>"
  define st where "st = fst (visit ?ctx entryPath 0 None initialState)"
  note limit = validateLimits_range [OF 1(1)]
  have hex: "hexDigests (lc_sha256 ?ctx)"
    using assms(2) by simp
  have "0 < lc_limits ?ctx maxFiles"
    using limit(1) [of maxFiles] by simp
  then have within: "withinLimits ?ctx st"
    using bounds.walk_entry [OF bounds_initial, of ?ctx entryPath] by (simp add: st_def boundsAfter_def)
  have "dagReady ?ctx [] entryPath initialState"
    using shape_initial paths_initial [OF 1(2)]
    by (simp add: dagReady_def partsOk_def keysOk_def) (simp add: initialState_def)
  then have "dagAfter ?ctx [] entryPath (snd (visit ?ctx entryPath 0 None initialState)) st"
    unfolding st_def by (rule dag.walk_entry)
  then have parts: "partsOk ?ctx [] st" and keys: "keysOk ?ctx [] st" and paths: "pathsInv [] st" and shape: "shapeInv [] st"
    by (simp_all add: dagAfter_def shapeAfter_def pathsAfter_def)
  have "entryReady entryPath [] entryPath initialState"
    by (simp add: entryReady_def initialState_def)
  then have entry: "ms_nodes st = [] \<or> entryPath \<in> gn_path ` set (ms_nodes st)"
    using entry.walk_entry [of entryPath entryPath initialState ?ctx] by (simp add: entryAfter_def entryInv_def st_def)
  have graph: "gr_nodes graph = ms_nodes st" "gr_edges graph = ms_edges st" "gr_issues graph = ms_issues st"
    "gr_entryPath graph = entryPath"
    by (simp_all add: 1(3) graphResult_def st_def)
  have hard: "limits n \<le> DEFAULT_IMPORT_GRAPH_LIMITS n" for n
    using limit(2) [of n] by (simp add: HARD_IMPORT_GRAPH_LIMITS_def)
  have inside: "isRepositoryRelativePath p" if "insidePath p" for p
    using that by (simp add: insidePath_iff)
  have node_ok: "acceptedNode node \<and>
      (\<exists>identity. gn_documentId node = js ''document:'' @ identity \<and> gn_sourceId node = js ''source:'' @ identity) \<and>
      (\<forall>reference\<in>set (gn_imports node). acceptedReference (gn_documentId node) (gn_sourceId node) reference)"
    if node: "node \<in> set (ms_nodes st)" for node
  proof -
    obtain bytes where bytes: "parsedFrom ?ctx bytes node"
      using parts node by (auto simp: partsOk_def)
    then obtain identity where ids: "gn_documentId node = js ''document:'' @ identity" "gn_sourceId node = js ''source:'' @ identity"
      "isSha256 identity" "isSha256 (gn_sha256 node)"
      using parsed_node hex by blast
    have "gn_byteLength node \<le> 524288" "gn_depth node \<le> 32" "insidePath (gn_path node)"
      using within paths node hard [of maxFileBytes] hard [of maxDepth]
      by (fastforce simp: withinLimits_def pathsInv_def)+
    then show ?thesis
      using ids parsed_references [OF bytes hex] document_identifiers [OF ids(3)] inside
      by (auto simp: acceptedNode_def boundedInteger_def MAX_SAFE_INTEGER_def)
  qed
  have edge_ok: "acceptedEdge edge \<and> goodEdge (ms_nodes st) edge" if edge: "edge \<in> set (ms_edges st)" for edge
  proof -
    have good: "goodEdge (ms_nodes st) edge"
      using parts edge by (simp add: partsOk_def)
    then obtain node where node: "node \<in> set (ms_nodes st)" "ge_fromDocumentId edge = gn_documentId node"
        "ge_import edge \<in> set (gn_imports node)"
      by (auto simp: goodEdge_def)
    then have reference: "acceptedReference (gn_documentId node) (gn_sourceId node) (ge_import edge)"
      using node_ok by blast
    have "ge_depth edge \<le> 33" "nullable isRepositoryRelativePath (ge_targetPath edge)"
      using within paths edge hard [of maxDepth] inside
      by (fastforce simp: withinLimits_def pathsInv_def nullable_def split: option.split)+
    moreover have "nullable isStableIdentifier (ge_targetDocumentId edge)"
      using good node_ok unfolding goodEdge_def targetOk_def by (auto simp: nullable_def acceptedNode_def split: if_splits)
    ultimately show ?thesis
      using good node reference node_ok [OF node(1)]
      by (auto simp: acceptedEdge_def acceptedReference_def acceptedNode_def boundedInteger_def MAX_SAFE_INTEGER_def)
  qed
  have issue_ok: "acceptedIssue issue" if issue: "issue \<in> set (ms_issues st)" for issue
  proof -
    have good: "goodIssue (ms_nodes st) issue"
      using parts issue by (simp add: partsOk_def)
    have "nullable isStableIdentifier (gi_importId issue) \<and> nullable graphRange (gi_range issue)"
      using good node_ok unfolding goodIssue_def by (auto simp: nullable_def acceptedReference_def)
    moreover have "nullable isRepositoryRelativePath (gi_targetPath issue)" "isRepositoryRelativePath (gi_path issue)"
      using good inside by (auto simp: goodIssue_def nullable_def split: option.split)
    ultimately show ?thesis
      by (simp add: acceptedIssue_def)
  qed
  have "distinct (map gn_path (ms_nodes st))"
    using shape unfolding shapeInv_def by (elim conjE)
  moreover have "distinct (map gn_documentId (ms_nodes st)) \<longrightarrow> distinct (map keyOf (ms_edges st))"
    using keys hex by (simp add: keysOk_def)
  ultimately show ?thesis
    unfolding coherentGraph_def graph using node_ok edge_ok issue_ok entry by blast
qed

end
