(* ===== verification/Document_Import_Dag_Accepts.thy ===== *)
theory Document_Import_Dag_Accepts
  imports Document_Import_Dag_Loaded
begin

text \<open>
  The import graph loader and the document import DAG together: what the loader guarantees of a graph is all that
  the DAG checks of it, so that the DAG refuses a loaded graph only when digests collide or when its files hold
  more references than the DAG counts.
\<close>

subsection \<open>Building the DAG\<close>

lemma addContent_Some:
  "\<forall>(key, byteLength, row)\<in>set table. key = cid \<longrightarrow> byteLength = nn_byteLength node \<Longrightarrow>
    \<exists>table'. addContent cid node table = Some table'"
  by (induction cid node table rule: addContent.induct) auto

text \<open>Equal digests have equal lengths.\<close>

definition lengthsAgree :: "ImportDagDocument list \<Rightarrow> bool" where
  "lengthsAgree documents \<longleftrightarrow>
     (\<forall>a\<in>set documents. \<forall>b\<in>set documents. dd_contentId a = dd_contentId b \<longrightarrow> dd_byteLength a = dd_byteLength b)"

lemma collectDocuments_ok:
  assumes "contentTable documents table" "distinctDocuments (documents @ map dagDocument nodes)"
    and "lengthsAgree (documents @ map dagDocument nodes)"
  shows "\<exists>table'. collectDocuments nodes documents table = Inr (documents @ map dagDocument nodes, table')"
  using assms
proof (induction nodes arbitrary: documents table)
  case (Cons node nodes)
  let ?cid = "contentIdOf (nn_sha256 node)"
  have "\<forall>(key, byteLength, row)\<in>set table. key = ?cid \<longrightarrow> byteLength = nn_byteLength node"
  proof clarify
    fix byteLength ids sha
    assume row: "(?cid, byteLength, ids, sha) \<in> set table"
    then have "?cid \<in> dd_contentId ` set documents"
      using Cons.prems(1) by (force simp: contentTable_def)
    then obtain d where d: "d \<in> set documents" "dd_contentId d = ?cid"
      by auto
    have "dd_byteLength d = byteLength"
    proof -
      have "contentRow documents ?cid (byteLength, ids, sha)"
        using Cons.prems(1) row by (auto simp: contentTable_def)
      then show ?thesis
        using d by (simp add: contentRow_def)
    qed
    moreover have "dd_byteLength d = dd_byteLength (dagDocument node)"
      using bspec [OF bspec [OF Cons.prems(3) [unfolded lengthsAgree_def]], of d "dagDocument node"] d by simp
    ultimately show "byteLength = nn_byteLength node"
      by simp
  qed
  then obtain table1 where add: "addContent ?cid node table = Some table1"
    using addContent_Some by blast
  have "\<exists>table'. collectDocuments nodes (documents @ [dagDocument node]) table1 =
      Inr ((documents @ [dagDocument node]) @ map dagDocument nodes, table')"
    by (rule Cons.IH [OF addContent_table [OF add Cons.prems(1)]]) (use Cons.prems(2,3) in simp_all)
  moreover have "nn_documentId node \<notin> dd_documentId ` set documents" "nn_sourceId node \<notin> dd_sourceId ` set documents"
    "nn_path node \<notin> dd_path ` set documents"
    using Cons.prems(2) by (auto simp: distinctDocuments_def)
  ultimately show ?case
    using add by (simp add: checkR_def)
qed simp

lemma collectOccurrences_ok:
  assumes "\<forall>edge\<in>set edges. edgeRelations edge (documentById documents (en_fromDocumentId edge))
      (Option.bind (en_targetDocumentId edge) (documentById documents))"
    and "distinct (map oc_importId occurrences @ map (\<lambda>edge. Some (en_importId edge)) edges)"
    and "distinct (map oc_id occurrences @ map (\<lambda>(i, edge). occurrenceId sha256 (edgeFields i edge)) (enumerate index edges))"
  shows "\<exists>all. collectOccurrences sha256 documents index edges occurrences = Inr all"
  using assms
proof (induction edges arbitrary: index occurrences)
  case (Cons edge edges)
  let ?o = "edgeOccurrence sha256 index (length occurrences) edge (Option.bind (en_targetDocumentId edge) (documentById documents))"
  have "\<exists>all. collectOccurrences sha256 documents (index + 1) edges (occurrences @ [?o]) = Inr all"
    by (rule Cons.IH) (use Cons.prems in \<open>simp_all add: edgeOccurrence_def\<close>)
  moreover have "Some (en_importId edge) \<notin> oc_importId ` set occurrences" "oc_id ?o \<notin> oc_id ` set occurrences"
    using Cons.prems(2,3) by (simp_all add: edgeOccurrence_def)
  ultimately show ?case
    using Cons.prems(1) by (simp add: checkR_def Let_def)
qed simp

text \<open>What the occurrence identifiers are digests of.\<close>

definition occurrenceInputs :: "ImportGraphResult \<Rightarrow> nat list list" where
  "occurrenceInputs graph =
     (case entryDocument graph of
        None \<Rightarrow> []
      | Some document \<Rightarrow>
          [framedBytes (js ''document-import-occurrence-v1'') [js ''entry'', dd_documentId document, dd_path document]]) @
     map (\<lambda>(i, edge). framedBytes (js ''document-import-occurrence-v1'') (edgeFields i (edgeView edge)))
       (enumerate 0 (gr_edges graph))"

lemma framedBytes_first:
  assumes "framedBytes namespace (field # fields1) = framedBytes namespace (other # fields2)"
  shows "utf8 field = utf8 other"
proof -
  have ascii: "utf8 (decimal n) = decimal n" for n
    using decimal_digits by (intro utf8_ascii) (force simp: list_all_iff)
  have "decimal (length (utf8 field)) @ COLON # utf8 field @ concat (map (\<lambda>field. 0 # utf8 (decimal (length (utf8 field))) @ COLON # utf8 field) fields1) =
      decimal (length (utf8 other)) @ COLON # utf8 other @ concat (map (\<lambda>field. 0 # utf8 (decimal (length (utf8 field))) @ COLON # utf8 field) fields2)"
    using assms by (simp add: framedBytes_def ascii)
  note same = decimal_prefix_unique [OF this]
  show ?thesis
    using conjunct2 [OF same] conjunct1 [OF same] by simp
qed

lemma occurrenceInputs_distinct: "distinct (occurrenceInputs graph)"
proof -
  have ascii: "utf8 (decimal n) = decimal n" for n
    using decimal_digits by (intro utf8_ascii) (force simp: list_all_iff)
  have index: "framedBytes namespace (edgeFields i a) = framedBytes namespace (edgeFields j b) \<Longrightarrow> i = j" for namespace i j a b
    using framedBytes_first [of namespace "decimal i" _ "decimal j"] by (fastforce simp: edgeFields_def ascii)
  have "utf8 (js ''entry'') \<noteq> decimal i" for i
  proof
    assume "utf8 (js ''entry'') = decimal i"
    moreover have "0x65 \<in> set (utf8 (js ''entry''))"
      by (simp add: utf8_ascii js_def)
    ultimately have "0x65 \<in> set (decimal i)"
      by (simp only:)
    then show False
      by (auto dest: decimal_digits)
  qed
  then have entry: "framedBytes namespace (js ''entry'' # xs) \<noteq> framedBytes namespace (edgeFields i a)" for namespace xs i a
    using framedBytes_first [of namespace "js ''entry''" xs "decimal i"] by (auto simp: edgeFields_def ascii)
  have "distinct (map (\<lambda>(i, edge). framedBytes namespace (edgeFields i (edgeView edge))) (enumerate 0 edges))" for namespace edges
    unfolding distinct_conv_nth by (auto simp: nth_enumerate_eq dest: index)
  then show ?thesis
    using entry by (auto simp: occurrenceInputs_def split: option.split)
qed

subsection \<open>Acceptance\<close>

text \<open>No digest stands for two different things in the graph.\<close>

definition collisionFree :: "(nat list \<Rightarrow> jstring) \<Rightarrow> ImportGraphResult \<Rightarrow> bool" where
  "collisionFree sha256 graph \<longleftrightarrow>
     distinct (map gn_documentId (gr_nodes graph)) \<and>
     (\<forall>a\<in>set (gr_nodes graph). \<forall>b\<in>set (gr_nodes graph). gn_sha256 a = gn_sha256 b \<longrightarrow> gn_byteLength a = gn_byteLength b) \<and>
     (\<forall>a\<in>set (gr_edges graph). \<forall>b\<in>set (gr_edges graph).
        ref_id (ge_import a) = ref_id (ge_import b) \<longrightarrow> ge_fromDocumentId a = ge_fromDocumentId b) \<and>
     distinct (map sha256 (occurrenceInputs graph))"

lemma contentIdOf_inj [simp]: "contentIdOf a = contentIdOf b \<longleftrightarrow> a = b"
  by (simp add: contentIdOf_def)

lemma dagDocuments_parts [simp]:
  "map dd_documentId (dagDocuments graph) = map gn_documentId (gr_nodes graph)"
  "map dd_path (dagDocuments graph) = map gn_path (gr_nodes graph)"
  "map dd_sourceId (dagDocuments graph) = map gn_sourceId (gr_nodes graph)"
  by (simp_all add: dagDocuments_def)

lemma lengthsAgree_nodes:
  "lengthsAgree (dagDocuments graph) \<longleftrightarrow>
    (\<forall>a\<in>set (gr_nodes graph). \<forall>b\<in>set (gr_nodes graph). gn_sha256 a = gn_sha256 b \<longrightarrow> gn_byteLength a = gn_byteLength b)"
  by (simp add: lengthsAgree_def dagDocuments_def)

lemma coherent_documents:
  assumes "coherentGraph graph"
  shows "distinctDocuments (dagDocuments graph) \<longleftrightarrow> distinct (map gn_documentId (gr_nodes graph))"
proof
  assume ids: "distinct (map gn_documentId (gr_nodes graph))"
  have "gn_documentId a = gn_documentId b"
    if nodes: "a \<in> set (gr_nodes graph)" "b \<in> set (gr_nodes graph)" and same: "gn_sourceId a = gn_sourceId b" for a b
  proof -
    obtain x y where "gn_documentId a = js ''document:'' @ x" "gn_sourceId a = js ''source:'' @ x"
        "gn_documentId b = js ''document:'' @ y" "gn_sourceId b = js ''source:'' @ y"
      using assms nodes unfolding coherentGraph_def by blast
    then show ?thesis
      using same by simp
  qed
  moreover have "inj_on gn_documentId (set (gr_nodes graph))"
    using ids by (simp add: distinct_map)
  ultimately have "inj_on gn_sourceId (set (gr_nodes graph))"
    by (intro inj_onI) (metis inj_onD)
  then have "distinct (map gn_sourceId (gr_nodes graph))"
    using ids by (simp add: distinct_map)
  then show "distinctDocuments (dagDocuments graph)"
    using ids assms by (simp add: distinctDocuments_def coherentGraph_def)
qed (simp add: distinctDocuments_def)

lemma documentById_node:
  assumes "distinct (map gn_documentId (gr_nodes graph))" "node \<in> set (gr_nodes graph)"
  shows "documentById (dagDocuments graph) (gn_documentId node) = Some (dagDocument (nodeView node))"
proof -
  have "distinct (map dd_documentId (dagDocuments graph))" "dagDocument (nodeView node) \<in> set (dagDocuments graph)"
    using assms by simp (use assms(2) in \<open>simp add: dagDocuments_def\<close>)
  then show ?thesis
    using documentById_iff by simp
qed

lemma coherent_relations:
  assumes "coherentGraph graph" "distinct (map gn_documentId (gr_nodes graph))" "edge \<in> set (gr_edges graph)"
  shows "edgeRelations (edgeView edge) (documentById (dagDocuments graph) (en_fromDocumentId (edgeView edge)))
    (Option.bind (en_targetDocumentId (edgeView edge)) (documentById (dagDocuments graph)))"
proof -
  have good: "goodEdge (gr_nodes graph) edge"
    using assms(1,3) by (simp add: coherentGraph_def)
  then obtain node where node: "node \<in> set (gr_nodes graph)" "ge_fromDocumentId edge = gn_documentId node"
      "ge_import edge \<in> set (gn_imports node)"
    by (auto simp: goodEdge_def)
  have "acceptedReference (gn_documentId node) (gn_sourceId node) (ge_import edge)"
    using assms(1) node(1,3) by (simp add: coherentGraph_def)
  then have source: "map_option dd_sourceId (documentById (dagDocuments graph) (ge_fromDocumentId edge)) =
      Some (sr_sourceId (ref_specifierRange (ge_import edge)))"
    using documentById_node [OF assms(2) node(1)] node(2) by (simp add: acceptedReference_def)
  have known: "documentById (dagDocuments graph) (gn_documentId target) = Some (dagDocument (nodeView target))"
    if "target \<in> set (gr_nodes graph)" for target
    by (rule documentById_node [OF assms(2) that])
  have "targetOk (gr_nodes graph) edge"
    using good by (simp add: goodEdge_def)
  then consider (followed) target where "followed edge" "ge_issueCode edge = None" "target \<in> set (gr_nodes graph)"
      "ge_targetDocumentId edge = Some (gn_documentId target)" "ge_targetPath edge = Some (gn_path target)"
    | (cycle) target where "ge_state edge = EdgeCycle" "ge_issueCode edge = Some ImportCycle" "target \<in> set (gr_nodes graph)"
      "ge_targetDocumentId edge = Some (gn_documentId target)"
    | (failed) "\<not> followed edge" "ge_state edge \<noteq> EdgeCycle" "ge_issueCode edge \<noteq> None" "ge_targetDocumentId edge = None"
    unfolding targetOk_def by (auto split: if_splits)
  then show ?thesis
  proof cases
    case followed
    then show ?thesis
      using source known [OF followed(3)] by (auto simp: edgeRelations_def)
  next
    case cycle
    then show ?thesis
      using source known [OF cycle(3)] by (simp add: edgeRelations_def)
  next
    case failed
    then show ?thesis
      using source by (simp add: edgeRelations_def)
  qed
qed

lemma distinct_keys_imports:
  assumes "distinct (map keyOf edges)"
    and "\<forall>a\<in>set edges. \<forall>b\<in>set edges. ref_id (ge_import a) = ref_id (ge_import b) \<longrightarrow> ge_fromDocumentId a = ge_fromDocumentId b"
  shows "distinct (map (\<lambda>edge. ref_id (ge_import edge)) edges)"
proof -
  have "inj_on (\<lambda>edge. ref_id (ge_import edge)) (set edges)"
  proof (rule inj_onI)
    fix a b
    assume ends: "a \<in> set edges" "b \<in> set edges" "ref_id (ge_import a) = ref_id (ge_import b)"
    have "keyOf a = keyOf b"
      using bspec [OF bspec [OF assms(2) ends(1)] ends(2)] ends(3) by (simp add: keyOf_def)
    moreover have "inj_on keyOf (set edges)"
      using assms(1) by (simp add: distinct_map)
    ultimately show "a = b"
      using ends(1,2) inj_onD by metis
  qed
  then show ?thesis
    using assms(1) by (simp add: distinct_map)
qed

lemma occurrence_ids:
  "map oc_id (entryOccurrences sha256 graph) @
     map (\<lambda>(i, edge). occurrenceId sha256 (edgeFields i edge)) (enumerate 0 (map edgeView (gr_edges graph))) =
   map (\<lambda>input. js ''occurrence:'' @ sha256 input) (occurrenceInputs graph)"
proof -
  have "map (\<lambda>(i, edge). occurrenceId sha256 (edgeFields i edge)) (enumerate n (map edgeView edges)) =
      map (\<lambda>input. js ''occurrence:'' @ sha256 input)
        (map (\<lambda>(i, edge). framedBytes (js ''document-import-occurrence-v1'') (edgeFields i (edgeView edge))) (enumerate n edges))"
    for n edges
    by (induction edges arbitrary: n) (simp_all add: occurrenceId_def)
  then show ?thesis
    by (simp add: occurrenceInputs_def entryOccurrences_def entryOccurrence_def occurrenceId_def split: option.split)
qed

lemma accepted_collisionFree:
  assumes "buildDocumentImportDag sha256 graph trace = Inr dag"
  shows "collisionFree sha256 graph"
proof -
  obtain table where table: "contentTable (dagDocuments graph) table" "distinctDocuments (dagDocuments graph)"
    and run: "collectOccurrences sha256 (dagDocuments graph) 0 (map edgeView (gr_edges graph)) (entryOccurrences sha256 graph) =
       Inr (dg_occurrences dag)"
    by (rule buildDocumentImportDag_Inr [OF assms])
  have lengths: "lengthsAgree (dagDocuments graph)"
  proof -
    have "\<exists>n. \<forall>d\<in>set (dagDocuments graph). dd_contentId d = dd_contentId a \<longrightarrow> dd_byteLength d = n"
      if "a \<in> set (dagDocuments graph)" for a
    proof -
      have "dd_contentId a \<in> fst ` set table"
        using table(1) that by (simp add: contentTable_def)
      then obtain row where "(dd_contentId a, row) \<in> set table"
        by auto
      then have "contentRow (dagDocuments graph) (dd_contentId a) row"
        using table(1) by (auto simp: contentTable_def)
      then show ?thesis
        by (auto simp: contentRow_def split: prod.splits)
    qed
    then show ?thesis
      unfolding lengthsAgree_def by metis
  qed
  obtain new where new: "dg_occurrences dag = entryOccurrences sha256 graph @ new" "length new = length (gr_edges graph)"
    "\<forall>i<length (gr_edges graph). new ! i = edgeOccurrence sha256 i (length (entryOccurrences sha256 graph) + i) (edgeView (gr_edges graph ! i))
       (Option.bind (ge_targetDocumentId (gr_edges graph ! i)) (documentById (dagDocuments graph)))"
    "distinct (map oc_id (dg_occurrences dag))" "distinct (map oc_importId (dg_occurrences dag))"
    using collectOccurrences_Inr [OF run] by (auto simp: entryOccurrences_def split: option.splits)
  have "map oc_id new = map (\<lambda>(i, edge). occurrenceId sha256 (edgeFields i edge)) (enumerate 0 (map edgeView (gr_edges graph)))"
    by (rule nth_equalityI) (use new(2,3) in \<open>auto simp: nth_enumerate_eq edgeOccurrence_def\<close>)
  then have "map oc_id (dg_occurrences dag) = map (\<lambda>input. js ''occurrence:'' @ sha256 input) (occurrenceInputs graph)"
    unfolding new(1) occurrence_ids [symmetric] by simp
  then have digests: "distinct (map sha256 (occurrenceInputs graph))"
    using new(4) by (simp add: distinct_map inj_on_def)
  have "map oc_importId new = map (\<lambda>edge. Some (ref_id (ge_import edge))) (gr_edges graph)"
    by (rule nth_equalityI) (use new(2,3) in \<open>auto simp: edgeOccurrence_def\<close>)
  then have keys: "distinct (map (\<lambda>edge. Some (ref_id (ge_import edge))) (gr_edges graph))"
    using new(5) unfolding new(1) by (metis distinct_append map_append)
  have imported: "ge_fromDocumentId a = ge_fromDocumentId b"
    if "a \<in> set (gr_edges graph)" "b \<in> set (gr_edges graph)" "ref_id (ge_import a) = ref_id (ge_import b)" for a b
    using keys that by (auto simp: distinct_map dest: inj_onD)
  have "distinct (map gn_documentId (gr_nodes graph))"
    using table(2) by (simp add: distinctDocuments_def)
  then show ?thesis
    unfolding collisionFree_def lengthsAgree_nodes [symmetric] using lengths digests imported by blast
qed

lemma collisionFree_accepted:
  assumes "coherentGraph graph" "coherentCounts graph" "collisionFree sha256 graph"
    and "sum_list (map (\<lambda>node. length (gn_imports node)) (gr_nodes graph)) \<le> maxReferences"
  shows "\<exists>dag. buildDocumentImportDag sha256 graph (Inr trace) = Inr dag"
proof -
  let ?documents = "dagDocuments graph"
  have ids: "distinct (map gn_documentId (gr_nodes graph))" and digests: "distinct (map sha256 (occurrenceInputs graph))"
    using assms(3) by (simp_all add: collisionFree_def)
  have graph: "normalizeGraph graph = Inr \<lparr>ng_edges = map edgeView (gr_edges graph), ng_entryPath = gr_entryPath graph,
      ng_issues = gr_issues graph, ng_nodes = map nodeView (gr_nodes graph), ng_complete = gr_complete graph\<rparr>"
    using coherent_normalizes [OF assms(1,2)] assms(4) by simp
  have views: "map dagDocument (map nodeView (gr_nodes graph)) = ?documents"
    by (simp add: dagDocuments_def)
  have "distinctDocuments ?documents"
    using ids coherent_documents [OF assms(1)] by simp
  moreover have "lengthsAgree ?documents"
    using assms(3) unfolding collisionFree_def lengthsAgree_nodes by blast
  ultimately obtain table where documents: "collectDocuments (map nodeView (gr_nodes graph)) [] [] = Inr (?documents, table)"
    using collectDocuments_ok [OF collectDocuments_start(1), of "map nodeView (gr_nodes graph)"]
    unfolding append_Nil views by blast
  have entry: "?documents = [] \<or> entryDocument graph \<noteq> None"
  proof (cases "gr_nodes graph = []")
    case False
    then have "gr_entryPath graph \<in> gn_path ` set (gr_nodes graph)"
      using assms(1) by (simp add: coherentGraph_def)
    then obtain node where "node \<in> set (gr_nodes graph)" "gn_path node = gr_entryPath graph"
      by auto
    then have "dagDocument (nodeView node) \<in> set ?documents" "dd_path (dagDocument (nodeView node)) = gr_entryPath graph"
      by (simp_all add: dagDocuments_def)
    then show ?thesis
      unfolding entryDocument_def find_None by blast
  qed (simp add: dagDocuments_def)
  have relations: "\<forall>edge\<in>set (map edgeView (gr_edges graph)).
      edgeRelations edge (documentById ?documents (en_fromDocumentId edge))
        (Option.bind (en_targetDocumentId edge) (documentById ?documents))"
    using coherent_relations [OF assms(1) ids] by simp
  have "distinct (map keyOf (gr_edges graph))"
    using assms(1) ids by (simp add: coherentGraph_def)
  then have keys: "distinct (map (\<lambda>edge. ref_id (ge_import edge)) (gr_edges graph))"
    using assms(3) [unfolded collisionFree_def] by (elim conjE) (rule distinct_keys_imports)
  have "map oc_importId (entryOccurrences sha256 graph) \<in> {[], [None]}"
    by (simp add: entryOccurrences_def entryOccurrence_def split: option.split)
  moreover have "distinct (map (\<lambda>edge. Some (en_importId edge)) (map edgeView (gr_edges graph)))"
    using keys by (simp add: distinct_map comp_def inj_on_def)
  ultimately have import_ids: "distinct (map oc_importId (entryOccurrences sha256 graph) @
      map (\<lambda>edge. Some (en_importId edge)) (map edgeView (gr_edges graph)))"
    by auto
  have "distinct (map (\<lambda>input. js ''occurrence:'' @ sha256 input) (occurrenceInputs graph))"
    using digests by (simp add: distinct_map inj_on_def)
  then have occurrence_distinct: "distinct (map oc_id (entryOccurrences sha256 graph) @
      map (\<lambda>(i, edge). occurrenceId sha256 (edgeFields i edge)) (enumerate 0 (map edgeView (gr_edges graph))))"
    unfolding occurrence_ids .
  obtain all where run: "collectOccurrences sha256 ?documents 0 (map edgeView (gr_edges graph)) (entryOccurrences sha256 graph) = Inr all"
    using collectOccurrences_ok [OF relations import_ids occurrence_distinct] by blast
  show ?thesis
    using run entry unfolding buildDocumentImportDag_def graph entryOccurrences_def entryDocument_def
    by (auto simp: documents checkR_def Let_def split: prod.split)
qed

text \<open>C4. The loader and the DAG fit together. Whatever the files of a repository contain, the DAG builder refuses a
  graph that the loader returned in two cases only: the files hold more than 262144 imports, or two different
  things have one digest (two documents, two contents of different lengths, imports of two documents, or two
  occurrences, whose identifiers are digests of different bytes). No check of a field, a relation, a limit or a
  count fails. SHA-256 is only assumed to be written as 64 hexadecimal digits.\<close>

theorem loaded_graph_accepted:
  assumes "loadImportGraph ctx entryPath limitsValue = Inr graph" "hexDigests (lc_sha256 ctx)"
  shows "((\<exists>dag. buildDocumentImportDag (lc_sha256 ctx) graph (Inr trace) = Inr dag) \<longleftrightarrow>
      sum_list (map (\<lambda>node. length (gn_imports node)) (gr_nodes graph)) \<le> maxReferences \<and>
      collisionFree (lc_sha256 ctx) graph) \<and>
    distinct (occurrenceInputs graph) \<and> distinct (map gn_path (gr_nodes graph))"
proof -
  note coherent = loaded_graph_coherent [OF assms] loaded_graph_counts [OF assms(1)]
  have "sum_list (map (\<lambda>node. length (gn_imports node)) (gr_nodes graph)) \<le> maxReferences"
    if built: "buildDocumentImportDag (lc_sha256 ctx) graph (Inr trace) = Inr dag" for dag
  proof -
    obtain g where "normalizeGraph graph = Inr g"
      using built unfolding buildDocumentImportDag_def bindR_Inr_iff by blast
    then show ?thesis
      using coherent_normalizes [OF coherent] by simp
  qed
  then have "(\<exists>dag. buildDocumentImportDag (lc_sha256 ctx) graph (Inr trace) = Inr dag) \<longleftrightarrow>
      sum_list (map (\<lambda>node. length (gn_imports node)) (gr_nodes graph)) \<le> maxReferences \<and>
      collisionFree (lc_sha256 ctx) graph"
    using accepted_collisionFree collisionFree_accepted [OF coherent] by blast
  then show ?thesis
    using occurrenceInputs_distinct coherent(1) by (simp add: coherentGraph_def)
qed

lemma sample_hexDigests: "hexDigests sampleDigest"
proof -
  have "is_ascii_digit (48 + n mod 10)" for n
    using mod_less_divisor [of 10 n] by (simp add: is_ascii_digit_def del: mod_less_divisor)
  from this this [of 0] show ?thesis
    by (simp add: hexDigests_def isSha256_def sampleDigest_def js_def split: list.split)
qed

lemma sample_marker: "length prefix = 29 \<Longrightarrow> last (sampleDigest (prefix @ 0 # b # rest)) = 48 + b mod 10"
  by (simp add: sampleDigest_def nth_append)

lemma sample_frame:
  assumes "utf8 (decimal (length (utf8 field))) = [b]"
  shows "last (sampleDigest (framedBytes (js ''document-import-occurrence-v1'') (field # rest))) = 48 + b mod 10"
proof -
  have "length (utf8 (js ''document-import-occurrence-v1'')) = 29"
    by (simp add: utf8_ascii js_def)
  then show ?thesis
    using sample_marker [of "utf8 (js ''document-import-occurrence-v1'')" b] assms by (simp add: framedBytes_def)
qed

lemma sample_collisionFree:
  assumes "gr_nodes graph = [sampleNode (js ''a'') (js ''@./b'') 0 [x], sampleNode (js ''b'') (js ''x'') 1 []]"
    and "gr_edges graph = [edge]" "gr_entryPath graph = js ''a''"
  shows "collisionFree sampleDigest graph"
proof -
  have inputs: "\<exists>d rest. occurrenceInputs graph =
      [framedBytes (js ''document-import-occurrence-v1'') (js ''entry'' # rest),
       framedBytes (js ''document-import-occurrence-v1'') (js ''0'' # d)]"
  proof -
    have "decimal 0 = js ''0''"
      by (simp add: decimal.simps js_def)
    then show ?thesis
      using assms by (simp add: occurrenceInputs_def entryDocument_def dagDocuments_def edgeFields_def) blast
  qed
  have "utf8 (decimal (length (utf8 (js ''entry'')))) = [53]" "utf8 (decimal (length (utf8 (js ''0'')))) = [49]"
    by (simp_all add: utf8_ascii js_def decimal.simps)
  then have "sampleDigest (framedBytes (js ''document-import-occurrence-v1'') (js ''entry'' # rest)) \<noteq>
      sampleDigest (framedBytes (js ''document-import-occurrence-v1'') (js ''0'' # d))" for d rest
    using sample_frame [of "js ''entry''" 53 rest] sample_frame [of "js ''0''" 49 d] by auto
  then have "distinct (map sampleDigest (occurrenceInputs graph))"
    using inputs by auto
  moreover have "sampleDigest (js ''@./b'') \<noteq> sampleDigest (js ''x'')"
    by (simp add: sampleDigest_def js_def)
  ultimately show ?thesis
    using assms sample_ids by (simp add: collisionFree_def sampleNode_def)
qed

theorem loaded_graph_accepted_witness:
  "\<exists>graph dag. loadImportGraph sampleContext (js ''a'') None = Inr graph \<and> length (gr_edges graph) = 1 \<and>
    buildDocumentImportDag sampleDigest graph (Inr ([js ''e''], js ''d'')) = Inr dag"
proof -
  obtain graph x edge where graph: "loadImportGraph sampleContext (js ''a'') None = Inr graph"
      "gr_nodes graph = [sampleNode (js ''a'') (js ''@./b'') 0 [x], sampleNode (js ''b'') (js ''x'') 1 []]"
      "gr_edges graph = [edge]"
    using sample_graph by (elim exE conjE) simp
  have "gr_entryPath graph = js ''a''"
    using graph(1) by (rule loadImportGraph_Inr) (simp add: graphResult_def)
  then have "collisionFree sampleDigest graph"
    using sample_collisionFree graph(2,3) by simp
  moreover have "sum_list (map (\<lambda>node. length (gn_imports node)) (gr_nodes graph)) \<le> maxReferences"
    by (simp add: graph(2) maxReferences_def)
  ultimately show ?thesis
    using loaded_graph_accepted [OF graph(1), of "([js ''e''], js ''d'')"] sample_hexDigests graph(1,3) by simp
qed

end
