(* ===== verification/Spec2Isabelle.thy ===== *)
theory Spec2Isabelle
  imports Prelude Wildcard Repository_Path Output_Text Activation Activation_Rule Profile_Glob Profile_Glob_Match
    Ignore_Pattern Ignore_Engine Ignore_Match Ignore_Live
    Command_Lexer Command_Lexer_Props Import_Graph_Props Bounded_Resolution_Props Duplication_Index_Props
    Document_Import_Dag_Accepts
begin

text \<open>
  Agent Context Linter: a verification development of the logic that decides which instruction files of a
  repository reach a coding agent, and of what they say.

  \<^bold>\<open>The program.\<close> A scan lists the tracked files of a repository (evidence), drops what the ignore engine
  excludes, parses each instruction file with the Markdown package, finds its imports with the import lexer
  (syntax) and follows them with the import graph loader (evidence). The resolver turns the graph into a document
  import DAG, evaluates activation rules against a target path, with the profile glob matcher as a callback, and
  runs many resolutions in a bounded pool. The duplication index and the command lexer examine the statements
  and the commands that were found. Every path in this chain is a repository path of core, and what is printed
  passes the output functions of core and cli. The development follows that chain; file names below are relative
  to \<open>src/packages\<close>.

  \<^bold>\<open>Conventions.\<close> A JavaScript string is a list of UTF-16 code units (\<open>jstring\<close>), bytes are lists of numbers, a
  counter of the source that is bounded by its checks is a \<open>nat\<close>. A thrown error is \<open>Inl\<close> of an error datatype and
  a returned value \<open>Inr\<close>; \<open>bindR\<close> and \<open>checkR\<close> of Prelude sequence calls and guards in the order of the code.
  Checks that an untyped value is a plain record or a dense array, and registries of issued objects, have no
  counterpart on typed values.

  \<^bold>\<open>The theories and the code.\<close>

    \<^item> Prelude: results, UTF-16, UTF-8 and well-formedness, splitting and joining, decimal numerals, and the
      collections \<open>result_simps\<close> and \<open>unit_class\<close> that the other theories use. Wildcard: the meaning of a
      wildcard pattern and the locale \<open>wildcard_row\<close> of a dynamic-programming row; the profile matcher and
      the ignore engine interpret it twice each.

    \<^item> Repository_Path: \<open>core/src/repository-path.ts\<close>. Which strings are canonical, what canonicalisation
      returns, and the conversion to and from absolute paths over Node's path module.

    \<^item> Output_Text: \<open>core/src/output-sanitization.ts\<close>, \<open>cli/src/bounded-output.ts\<close> and the two limits of
      \<open>cli/src/command-router.ts\<close>. No control characters leave the program, the SARIF URI of a path decodes to
      the path, chunks of the writer do not split a surrogate pair.

    \<^item> Activation, Activation_Rule: \<open>resolver/src/activation-algebra.ts\<close>. The locale \<open>kleene_results\<close> states what
      the algebra promises of states and provenance. A rule is evaluated with memoised callbacks; the abstract
      specification is an expression in Kleene logic, and the rule evaluation refines it on every path, early
      returns and deduplication included. \<open>glob_provider\<close> is the contract of a glob callback.

    \<^item> Profile_Glob, Profile_Glob_Match: \<open>profiles/src/glob-dialects.ts\<close> and
      \<open>resolver/src/profile-glob-dialects.ts\<close>. The two tables of the matcher decide wildcard matching, brace
      expansion is a product, a definite answer holds under every reading of the undocumented rules, whatever
      characters outside ASCII a file system identifies; the matcher is an interpretation of \<open>glob_provider\<close>.

    \<^item> Ignore_Pattern, Ignore_Engine, Ignore_Match, Ignore_Live: \<open>evidence/src/ignore-engine.ts\<close> and
      \<open>evidence/src/built-in-ignore-patterns.ts\<close>. Compilation and matching with a work budget, against the
      gitignore meaning of the pattern text (\<open>gitignoreMatches\<close>), precedence of the rules, the safety of the built-in rules, and an explicit bound on the work with which a run returns.

    \<^item> Command_Lexer, Command_Lexer_Props: \<open>evidence/src/command-lexer.ts\<close>. The scanner for the three shell
      dialects as loops that are proved to end; tokens cover the text, quoted words are read back.

    \<^item> Source_Range, Markdown, Markdown_Props: \<open>markdown/src/index.ts\<close> and the data of
      \<open>core/src/ir-contracts.ts\<close>. The position index by binary search, the walk over the parser's tree into the
      node table, extraction. The node table is the pre-order listing of the tree that the parser's nodes unfold to
      (\<open>rose\<close>, \<open>listsTree\<close>), and its ranges are exact, whatever the parser returns.

    \<^item> Import_Lexer, Import_Lexer_Props: \<open>syntax/src/import-lexer.ts\<close>. References are exact, ordered, disjoint and
      attached to an enclosing node, none is missed outside the nodes a dialect excludes (\<open>excludesReferences\<close>), and the failures are the documented ones.

    \<^item> Import_Graph, Import_Graph_Walk, Import_Graph_Props: \<open>evidence/src/import-graph-loader.ts\<close>. The recursive
      walk over a mutable state (\<open>visit\<close>, \<open>visitImports\<close>). The locale \<open>graph_walk\<close> is the proof rule of the walk: an
      invariant, what holds before a visit and what holds after it; its interpretations prove bounds, paths,
      the shape of the state, acyclicity and completeness.

    \<^item> Document_Import_Dag, Document_Import_Dag_Props, Document_Import_Dag_Loaded, Document_Import_Dag_Accepts:
      \<open>resolver/src/document-import-dag.ts\<close>. The graph is checked again and becomes documents, contents and
      occurrences; every field of the graph is recorded (\<open>recordsNode\<close>, \<open>recordsEntry\<close>, \<open>recordsEdge\<close>) and the contents partition the documents. Document_Import_Dag_Loaded
      proves, by two more interpretations of \<open>graph_walk\<close> and lemmas on the lexer, that a loaded graph
      satisfies every check, and Document_Import_Dag_Accepts that the DAG accepts it unless digests collide or the
      files hold too many imports.

    \<^item> Bounded_Resolution, Bounded_Resolution_Props: \<open>resolver/src/bounded-resolution.ts\<close>. The worker pool is an
      inductive step relation over explicit worker states, with cancellation, deadline and settlement as
      events. The invariant holds in every reachable state, every run that is not interrupted refines the
      sequential reference, and runs end.

    \<^item> Duplication_Index, Duplication_Components, Duplication_Index_Props: \<open>evidence/src/duplication-index.ts\<close>. The
      union-find forest of the near clusters computes connected components, the anchored search finds
      the pairs that a reference on texts and sets of trigrams defines (\<open>rarest\<close>, \<open>basisPoints\<close>), exact clusters are the groups of equal texts.

  \<^bold>\<open>Parameters.\<close> What is not under \<open>src\<close> is an argument of the definitions that use it: SHA-256, the CommonMark
  parser (any function from texts to trees), Unicode normalisation and lower case, the URL parser and the
  collation of the ignore engine, the clock and the abort signal, Node's path module (with named laws for the
  conversions of paths, satisfied by a concrete POSIX module), the read operation of the repository facade (which
  may answer differently at each read), and the executors of the pool. The answer of the trace
  normalisation is an argument of the DAG builder.

  \<^bold>\<open>Loops.\<close> Loops are structural or well-founded recursions, with their measures, except in three places. The descent to
  the deepest enclosing node (\<open>descend\<close>) has the number of nodes as fuel: children of the node table come later
  than their parent, so that a path has at most that many nodes, and Import_Lexer_Props shows that the fuel does not
  run out. The two loops of \<open>find\<close> in the duplication index (\<open>findRoot\<close>, \<open>compressPath\<close>) are partial functions: on an
  arbitrary array they need not end; on every array that the index builds they do (\<open>duplication_index_answers\<close>).
  The recursion of the graph walk ends because the depth limit is part of the validated limits.

  \<^bold>\<open>Not modelled.\<close> The command line, commands and the library API (cli), file system access, Git and process
  execution, atomic writing and the discovery of files (evidence) are sequences of system calls whose answers
  decide everything. The validators of core and the parsers of YAML and TOML settings (syntax) are checks of untyped
  values whose content is the absence of a counterpart on typed data, or calls of third-party parsers. The rule
  families and their registry, the resolver's client profiles, the trace and the cache, formatters, standards, efficiency
  metrics and the profile data remain to be modelled; PROJECT.json lists each with its reason. The bundled action is
  generated from these sources.
\<close>

end
